(* ===== verification/Py_Decimal.thy ===== *)
theory Py_Decimal
  imports Prelude
begin

text \<open>
  Python's \<^verbatim>\<open>decimal.Decimal\<close> under the default context, as far as the program uses it: a finite
  number is a coefficient and a power of ten; construction from text is exact, every arithmetic
  result is rounded half-even to 28 significant digits, comparison is exact. \<open>dec_val\<close> reads a
  decimal as a rational. The sign of zero, the exponent limits and arithmetic on NaN and Infinity
  are not represented; the text spellings of those special values are recognised.
\<close>

datatype decimal = Dec (coeff: int) (expo: int)

definition dec_val :: "decimal \<Rightarrow> rat" where
  "dec_val d = of_int (coeff d) * 10 powi expo d"

subsection \<open>Rounding to the context precision\<close>

definition prec :: nat where
  "prec = 28"

definition num_digits :: "int \<Rightarrow> nat" where
  "num_digits c = length (show_nat (nat \<bar>c\<bar>))"

definition round_half_even :: "nat \<Rightarrow> nat \<Rightarrow> nat" where
  "round_half_even n k =
     (let q = n div 10 ^ k; r = n mod 10 ^ k
      in if 2 * r > 10 ^ k \<or> (2 * r = 10 ^ k \<and> odd q) then q + 1 else q)"

definition dec_fix :: "decimal \<Rightarrow> decimal" where
  "dec_fix d =
     (if \<bar>coeff d\<bar> < 10 ^ prec then d
      else let k = num_digits (coeff d) - prec; q = round_half_even (nat \<bar>coeff d\<bar>) k in
           if q = 10 ^ prec then Dec (sgn (coeff d) * 10 ^ (prec - 1)) (expo d + int k + 1)
           else Dec (sgn (coeff d) * int q) (expo d + int k))"

subsection \<open>Arithmetic and comparison\<close>

definition lift_to :: "int \<Rightarrow> decimal \<Rightarrow> int" where
  "lift_to m d = coeff d * 10 ^ nat (expo d - m)"

definition dec_add :: "decimal \<Rightarrow> decimal \<Rightarrow> decimal" where
  "dec_add a b =
     (let m = min (expo a) (expo b) in dec_fix (Dec (lift_to m a + lift_to m b) m))"

definition dec_neg :: "decimal \<Rightarrow> decimal" where
  "dec_neg a = dec_fix (Dec (- coeff a) (expo a))"

definition dec_sub :: "decimal \<Rightarrow> decimal \<Rightarrow> decimal" where
  "dec_sub a b = dec_add a (Dec (- coeff b) (expo b))"

definition dec_abs :: "decimal \<Rightarrow> decimal" where
  "dec_abs a = dec_fix (Dec \<bar>coeff a\<bar> (expo a))"

definition dec_mul :: "decimal \<Rightarrow> decimal \<Rightarrow> decimal" where
  "dec_mul a b = dec_fix (Dec (coeff a * coeff b) (expo a + expo b))"

definition dec_le :: "decimal \<Rightarrow> decimal \<Rightarrow> bool" where
  "dec_le a b = (let m = min (expo a) (expo b) in lift_to m a \<le> lift_to m b)"

definition dec_lt :: "decimal \<Rightarrow> decimal \<Rightarrow> bool" where
  "dec_lt a b = (\<not> dec_le b a)"

definition dec_eq :: "decimal \<Rightarrow> decimal \<Rightarrow> bool" where
  "dec_eq a b = (dec_le a b \<and> dec_le b a)"

definition dec0 :: decimal where
  "dec0 = Dec 0 0"

text \<open>\<^verbatim>\<open>sum(xs, start=Decimal("0"))\<close>.\<close>

definition dec_sum :: "decimal list \<Rightarrow> decimal" where
  "dec_sum xs = foldl dec_add dec0 xs"

subsection \<open>Text form\<close>

definition show_signed :: "int \<Rightarrow> string" where
  "show_signed i = (if i < 0 then CHR ''-'' else CHR ''+'') # show_nat (nat \<bar>i\<bar>)"

definition dec_str :: "decimal \<Rightarrow> string" where
  "dec_str d =
     (let ds = show_nat (nat \<bar>coeff d\<bar>); n = int (length ds); left = expo d + n;
          dot = (if expo d \<le> 0 \<and> left > -6 then left else 1);
          ip = (if dot \<le> 0 then ''0''
                else if dot \<ge> n then ds @ replicate (nat (dot - n)) (CHR ''0'')
                else take (nat dot) ds);
          fp = (if dot \<le> 0 then replicate (nat (- dot)) (CHR ''0'') @ ds
                else if dot \<ge> n then []
                else drop (nat dot) ds)
      in (if coeff d < 0 then ''-'' else []) @ ip @ (if fp = [] then [] else CHR ''.'' # fp)
         @ (if left = dot then [] else CHR ''E'' # show_signed (left - dot)))"

datatype dec_lit = Finite decimal | Special | Malformed

definition take_sign :: "string \<Rightarrow> bool \<times> string" where
  "take_sign s =
     (case s of [] \<Rightarrow> (False, [])
      | c # cs \<Rightarrow> if c = CHR ''-'' then (True, cs) else if c = CHR ''+'' then (False, cs) else (False, s))"

definition parse_exponent :: "string \<Rightarrow> int option" where
  "parse_exponent s =
     (case s of [] \<Rightarrow> Some 0
      | c # cs \<Rightarrow>
          if c = CHR ''E'' \<or> c = CHR ''e'' then
            (case take_sign cs of (neg, ds) \<Rightarrow>
               if ds \<noteq> [] \<and> list_all is_digit ds
               then Some (if neg then - int (digits_val ds) else int (digits_val ds)) else None)
          else None)"

definition is_special_text :: "string \<Rightarrow> bool" where
  "is_special_text s =
     (let t = lower s in
      t = ''inf'' \<or> t = ''infinity'' \<or>
      (starts_with t ''nan'' \<and> list_all is_digit (drop 3 t)) \<or>
      (starts_with t ''snan'' \<and> list_all is_digit (drop 4 t)))"

definition dec_parse :: "string \<Rightarrow> dec_lit" where
  "dec_parse s =
     (case take_sign (remove_char (CHR ''_'') (strip s)) of (neg, u) \<Rightarrow>
      (let ip = takeWhile is_digit u; u1 = dropWhile is_digit u;
           fp = (case u1 of [] \<Rightarrow> [] | c # v \<Rightarrow> if c = CHR ''.'' then takeWhile is_digit v else []);
           u2 = (case u1 of [] \<Rightarrow> [] | c # v \<Rightarrow> if c = CHR ''.'' then dropWhile is_digit v else u1);
           n = int (digits_val (ip @ fp))
       in if ip = [] \<and> fp = [] then (if is_special_text u then Special else Malformed)
          else case parse_exponent u2 of None \<Rightarrow> Malformed
               | Some x \<Rightarrow> Finite (Dec (if neg then - n else n) (x - int (length fp)))))"

subsection \<open>Numeric arguments\<close>

text \<open>
  What the program passes where it writes \<^verbatim>\<open>Decimal | str | int\<close>. A float is represented by the
  exact decimal value it denotes, which is what \<^verbatim>\<open>Decimal(float)\<close> yields.
\<close>

datatype pynum = PDec decimal | PStr string | PInt int | PFloat decimal

fun py_Decimal :: "pynum \<Rightarrow> decimal res" where
  "py_Decimal (PDec d) = Inr d"
| "py_Decimal (PInt i) = Inr (Dec i 0)"
| "py_Decimal (PFloat d) = Inr d"
| "py_Decimal (PStr s) = (case dec_parse s of Finite d \<Rightarrow> Inr d | _ \<Rightarrow> Inl InvalidOperation)"

subsection \<open>Exactness of arithmetic within the precision\<close>

text \<open>The test of \<open>dec_fix\<close> is the number of digits.\<close>

lemma num_digits_le_iff: "0 < k \<Longrightarrow> num_digits c \<le> k \<longleftrightarrow> \<bar>c\<bar> < 10 ^ k"
proof -
  assume k: "0 < k"
  have "num_digits c \<le> k \<longleftrightarrow> nat \<bar>c\<bar> < 10 ^ k"
  proof
    assume "num_digits c \<le> k"
    then have "(10::nat) ^ length (show_nat (nat \<bar>c\<bar>)) \<le> 10 ^ k"
      by (intro power_increasing) (auto simp: num_digits_def)
    moreover have "digits_val (show_nat (nat \<bar>c\<bar>)) < 10 ^ length (show_nat (nat \<bar>c\<bar>))"
      using show_nat_digits by (intro digits_val_less) (auto simp: list_all_iff)
    ultimately show "nat \<bar>c\<bar> < 10 ^ k" unfolding digits_val_show_nat by linarith
  qed (use k in \<open>simp add: num_digits_def length_show_nat_le\<close>)
  then show ?thesis by (simp add: nat_less_iff)
qed

lemma dec_fix_id: "\<bar>coeff d\<bar> < 10 ^ prec \<Longrightarrow> dec_fix d = d"
  by (simp add: dec_fix_def)

lemma dec_val_lift: "m \<le> expo d \<Longrightarrow> dec_val d = of_int (lift_to m d) * 10 powi m"
proof -
  assume m: "m \<le> expo d"
  have "(10::rat) powi expo d = 10 powi (expo d - m) * 10 powi m"
    by (simp flip: power_int_add)
  also have "(10::rat) powi (expo d - m) = 10 ^ nat (expo d - m)"
    using m by (simp add: power_int_def)
  finally show ?thesis
    by (simp add: dec_val_def lift_to_def)
qed

lemma dec_val_Dec_lift: "dec_val (Dec c m) = of_int c * 10 powi m"
  by (simp add: dec_val_def)

lemma dec_le_iff: "dec_le a b \<longleftrightarrow> dec_val a \<le> dec_val b"
proof -
  let ?m = "min (expo a) (expo b)"
  have "dec_val a = of_int (lift_to ?m a) * 10 powi ?m" "dec_val b = of_int (lift_to ?m b) * 10 powi ?m"
    by (simp_all add: dec_val_lift)
  moreover have "(0::rat) < 10 powi ?m" by simp
  ultimately show ?thesis
    by (simp add: dec_le_def Let_def mult_le_cancel_right_pos)
qed

lemma dec_lt_iff: "dec_lt a b \<longleftrightarrow> dec_val a < dec_val b"
  by (auto simp: dec_lt_def dec_le_iff)

lemma dec_eq_iff: "dec_eq a b \<longleftrightarrow> dec_val a = dec_val b"
  by (auto simp: dec_eq_def dec_le_iff)

lemmas dec_cmp_iffs = dec_le_iff dec_lt_iff dec_eq_iff

lemma dec_val_dec0 [simp]: "dec_val dec0 = 0"
  by (simp add: dec_val_def dec0_def)

text \<open>
  \<open>scaled p b d\<close>: the number has at most \<open>p\<close> decimal places and its magnitude is at most
  \<open>b\<close> units of the last of them.
\<close>

definition scaled :: "nat \<Rightarrow> int \<Rightarrow> decimal \<Rightarrow> bool" where
  "scaled p b d = (- int p \<le> expo d \<and> expo d \<le> 0 \<and> \<bar>lift_to (- int p) d\<bar> \<le> b)"

lemma lift_to_lift:
  assumes "m \<le> m'" "m' \<le> expo d"
  shows "lift_to m d = lift_to m' d * 10 ^ nat (m' - m)"
proof -
  have "nat (expo d - m) = nat (expo d - m') + nat (m' - m)" using assms by linarith
  then show ?thesis by (simp add: lift_to_def power_add)
qed

lemma abs_le_abs_mult_power: "\<bar>x\<bar> \<le> \<bar>x * (10::int) ^ k\<bar>"
  by (simp add: abs_mult mult_le_cancel_left1)

lemma scaled_coeff: "scaled p b d \<Longrightarrow> \<bar>coeff d\<bar> \<le> b"
  using abs_le_abs_mult_power [of "coeff d" "nat (expo d + int p)"]
  by (auto simp: scaled_def lift_to_def)

lemma dec_add_scaled:
  assumes "scaled p a x" "scaled p b y" "a + b < 10 ^ prec"
  shows "scaled p (a + b) (dec_add x y)" "dec_val (dec_add x y) = dec_val x + dec_val y"
proof -
  let ?m = "min (expo x) (expo y)"
  let ?s = "lift_to ?m x + lift_to ?m y"
  have m: "- int p \<le> ?m" "?m \<le> 0" using assms by (auto simp: scaled_def)
  have "lift_to (- int p) x + lift_to (- int p) y = ?s * 10 ^ nat (?m + int p)"
    using m lift_to_lift [of "- int p" ?m x] lift_to_lift [of "- int p" ?m y]
    by (simp add: algebra_simps)
  moreover have "\<bar>lift_to (- int p) x + lift_to (- int p) y\<bar> \<le> a + b"
    using assms by (auto simp: scaled_def)
  ultimately have bound: "\<bar>?s * 10 ^ nat (?m + int p)\<bar> \<le> a + b" by simp
  then have "\<bar>?s\<bar> \<le> a + b"
    using abs_le_abs_mult_power [of ?s "nat (?m + int p)"] by linarith
  with assms have add: "dec_add x y = Dec ?s ?m"
    by (simp add: dec_add_def dec_fix_id Let_def)
  then show "scaled p (a + b) (dec_add x y)"
    using m bound by (simp add: scaled_def lift_to_def)
  show "dec_val (dec_add x y) = dec_val x + dec_val y"
    using dec_val_lift [of ?m x] dec_val_lift [of ?m y]
    by (simp add: add dec_val_Dec_lift distrib_right)
qed

lemma scaled_neg: "scaled p b d \<Longrightarrow> scaled p b (Dec (- coeff d) (expo d))"
  by (simp add: scaled_def lift_to_def)

lemma dec_val_neg_Dec: "dec_val (Dec (- coeff d) (expo d)) = - dec_val d"
  by (simp add: dec_val_def)

lemma dec_sub_scaled:
  assumes "scaled p a x" "scaled p b y" "a + b < 10 ^ prec"
  shows "scaled p (a + b) (dec_sub x y)" "dec_val (dec_sub x y) = dec_val x - dec_val y"
  using dec_add_scaled [OF assms(1) scaled_neg [OF assms(2)] assms(3)]
  by (simp_all add: dec_sub_def dec_val_neg_Dec)

lemma dec_neg_scaled:
  assumes "scaled p b x" "b < 10 ^ prec"
  shows "dec_neg x = Dec (- coeff x) (expo x)" "scaled p b (dec_neg x)" "dec_val (dec_neg x) = - dec_val x"
proof -
  show eq: "dec_neg x = Dec (- coeff x) (expo x)"
    using scaled_coeff [OF assms(1)] assms(2) by (simp add: dec_neg_def dec_fix_id)
  show "scaled p b (dec_neg x)" "dec_val (dec_neg x) = - dec_val x"
    using assms scaled_neg dec_val_neg_Dec by (simp_all add: eq)
qed

lemma dec_abs_scaled:
  assumes "scaled p b x" "b < 10 ^ prec"
  shows "dec_val (dec_abs x) = \<bar>dec_val x\<bar>" "scaled p b (dec_abs x)"
  using scaled_coeff [OF assms(1)] assms
  by (simp_all add: dec_abs_def dec_fix_id dec_val_def abs_mult scaled_def lift_to_def)

lemma dec_foldl_scaled:
  assumes "\<And>x. x \<in> set xs \<Longrightarrow> scaled p b x" "scaled p a s" "0 \<le> b"
    "a + int (length xs) * b < 10 ^ prec"
  shows "scaled p (a + int (length xs) * b) (foldl dec_add s xs)
    \<and> dec_val (foldl dec_add s xs) = dec_val s + sum_list (map dec_val xs)"
  using assms
proof (induction xs arbitrary: s a)
  case Nil
  then show ?case by simp
next
  case (Cons x xs)
  have ab: "a + b < 10 ^ prec"
  proof -
    have "0 \<le> int (length xs) * b" using Cons.prems(3) by simp
    moreover have "a + b + int (length xs) * b < 10 ^ prec"
      using Cons.prems(4) by (simp add: algebra_simps)
    ultimately show ?thesis by linarith
  qed
  note add = dec_add_scaled [OF Cons.prems(2) Cons.prems(1) [of x] ab]
  have "scaled p (a + b + int (length xs) * b) (foldl dec_add (dec_add s x) xs)
    \<and> dec_val (foldl dec_add (dec_add s x) xs) = dec_val (dec_add s x) + sum_list (map dec_val xs)"
    using Cons.prems add by (intro Cons.IH) (auto simp: algebra_simps)
  with add(2) show ?case by (simp add: algebra_simps)
qed

lemma dec_sum_scaled:
  assumes "\<And>x. x \<in> set xs \<Longrightarrow> scaled p b x" "0 \<le> b" "int (length xs) * b < 10 ^ prec"
  shows "scaled p (int (length xs) * b) (dec_sum xs)" "dec_val (dec_sum xs) = sum_list (map dec_val xs)"
proof -
  have "scaled p 0 dec0" by (simp add: scaled_def dec0_def lift_to_def)
  from dec_foldl_scaled [OF assms(1) this assms(2)] assms(3)
  show "scaled p (int (length xs) * b) (dec_sum xs)" "dec_val (dec_sum xs) = sum_list (map dec_val xs)"
    by (simp_all add: dec_sum_def)
qed

subsection \<open>Text round trip\<close>

lemma dropWhile_id: "(s = [] \<or> \<not> p (hd s)) \<Longrightarrow> dropWhile p s = s"
  by (cases s) auto

lemma strip_id: "\<forall>c \<in> set s. \<not> is_space c \<Longrightarrow> strip s = s"
proof -
  assume a: "\<forall>c \<in> set s. \<not> is_space c"
  then have "dropWhile is_space s = s" "dropWhile is_space (rev s) = rev s"
    by (metis dropWhile_id hd_in_set, metis dropWhile_id hd_in_set set_rev)
  then show ?thesis by (simp add: strip_def strip_by_def lstrip_by_def rstrip_by_def)
qed

lemma remove_char_id: "x \<notin> set s \<Longrightarrow> remove_char x s = s"
  by (induction s) (auto simp: remove_char_def)

lemma is_digit_not_underscore [simp]: "is_digit c \<Longrightarrow> c \<noteq> CHR ''_''"
  by (auto simp: is_digit_def)

lemma take_sign_digit: "is_digit c \<Longrightarrow> take_sign (c # s) = (False, c # s)"
  by (auto simp: take_sign_def)

lemma parse_exponent_show: "parse_exponent (CHR ''E'' # show_signed x) = Some x"
  using show_nat_digits [of _ "nat \<bar>x\<bar>"]
  by (auto simp: parse_exponent_def show_signed_def take_sign_def list_all_iff)

lemma takeWhile_digits_append:
  "list_all is_digit ds \<Longrightarrow> (r = [] \<or> \<not> is_digit (hd r)) \<Longrightarrow>
   takeWhile is_digit (ds @ r) = ds \<and> dropWhile is_digit (ds @ r) = r"
  by (induction ds) (auto simp: dropWhile_id, cases r, auto)

definition num_char :: "char \<Rightarrow> bool" where
  "num_char c = (c \<in> {CHR ''E'', CHR ''+'', CHR ''-'', CHR ''.''} \<or> is_digit c)"

lemma num_char_plain: "num_char c \<Longrightarrow> \<not> is_space c \<and> c \<noteq> CHR ''_''"
  by (auto simp: num_char_def is_space_def is_digit_def)

lemma num_text_plain:
  assumes "\<forall>c \<in> set s. num_char c"
  shows "remove_char (CHR ''_'') (strip s) = s"
proof -
  have "\<forall>c \<in> set s. \<not> is_space c" "CHR ''_'' \<notin> set s"
    using assms num_char_plain by blast+
  then show ?thesis by (simp add: strip_id remove_char_id)
qed

text \<open>The parser on a text given by its sign, integer part, fraction and exponent.\<close>

lemma dec_parse_parts:
  assumes ip: "list_all is_digit ip" "ip \<noteq> []" and fp: "list_all is_digit fp"
  shows "dec_parse ((if neg then ''-'' else []) @ ip @ (if fp = [] then [] else CHR ''.'' # fp)
           @ (if x = 0 then [] else CHR ''E'' # show_signed x))
       = Finite (Dec (if neg then - int (digits_val (ip @ fp)) else int (digits_val (ip @ fp)))
                     (x - int (length fp)))"
proof -
  let ?ex = "if x = 0 then [] else CHR ''E'' # show_signed x"
  let ?fr = "if fp = [] then [] else CHR ''.'' # fp"
  let ?u = "ip @ ?fr @ ?ex"
  let ?s = "(if neg then ''-'' else []) @ ?u"
  have "\<forall>c \<in> set ?ex. num_char c"
    using show_nat_digits by (auto simp: show_signed_def num_char_def)
  moreover have "\<forall>c \<in> set (ip @ ?fr). num_char c"
    using ip fp by (auto simp: list_all_iff num_char_def)
  moreover have "\<forall>c \<in> set (if neg then ''-'' else []). num_char c"
    by (simp add: num_char_def)
  ultimately have "\<forall>c \<in> set ?s. num_char c"
    unfolding set_append ball_Un by blast
  note plain = num_text_plain [OF this]
  have sgn: "take_sign (remove_char (CHR ''_'') (strip ?s)) = (neg, ?u)"
    unfolding plain using ip by (cases ip) (auto simp: take_sign_def)
  have nE: "\<not> is_digit (CHR ''E'')" "\<not> is_digit (CHR ''.'')" by (simp_all add: is_digit_def)
  have tw: "takeWhile is_digit ?u = ip" "dropWhile is_digit ?u = ?fr @ ?ex"
    using takeWhile_digits_append [OF ip(1), of "?fr @ ?ex"] nE by auto
  have tf: "takeWhile is_digit (fp @ ?ex) = fp" "dropWhile is_digit (fp @ ?ex) = ?ex"
    using takeWhile_digits_append [OF fp, of "?ex"] nE by auto
  have fp0: "takeWhile is_digit fp = fp" "dropWhile is_digit fp = []"
    using takeWhile_digits_append [OF fp, of "[]"] by simp_all
  have pe: "parse_exponent ?ex = Some x"
    using parse_exponent_show by (simp add: parse_exponent_def)
  show ?thesis
    unfolding dec_parse_def sgn prod.case Let_def tw
    by (cases "fp = []"; cases "x = 0") (use pe tf ip in \<open>simp_all add: fp0\<close>)
qed

theorem dec_parse_dec_str: "dec_parse (dec_str d) = Finite d"
proof -
  let ?ds = "show_nat (nat \<bar>coeff d\<bar>)"
  let ?n = "int (length ?ds)"
  let ?left = "expo d + ?n"
  define dot where "dot = (if expo d \<le> 0 \<and> ?left > -6 then ?left else 1)"
  define ip where "ip = (if dot \<le> 0 then ''0''
      else if dot \<ge> ?n then ?ds @ replicate (nat (dot - ?n)) (CHR ''0'') else take (nat dot) ?ds)"
  define fp where "fp = (if dot \<le> 0 then replicate (nat (- dot)) (CHR ''0'') @ ?ds
      else if dot \<ge> ?n then [] else drop (nat dot) ?ds)"
  define neg where "neg = (coeff d < 0)"
  have dpos: "1 \<le> ?n" by (simp add: Suc_le_eq)
  have digs: "list_all is_digit ?ds" using show_nat_digits by (auto simp: list_all_iff)
  have z: "is_digit (CHR ''0'')" by (simp add: is_digit_def)
  have ip: "list_all is_digit ip" "ip \<noteq> []"
    using digs z dpos by (auto simp: ip_def list_all_iff dest: in_set_takeD)
  have fp: "list_all is_digit fp"
    using digs z by (auto simp: fp_def list_all_iff dest: in_set_dropD)
  have str: "dec_str d = (if neg then ''-'' else []) @ ip @ (if fp = [] then [] else CHR ''.'' # fp)
      @ (if ?left - dot = 0 then [] else CHR ''E'' # show_signed (?left - dot))"
    unfolding dec_str_def Let_def unfolding dot_def [symmetric]
    unfolding ip_def [symmetric] fp_def [symmetric] neg_def [symmetric]
    by (simp only: right_minus_eq)
  have val: "int (digits_val (ip @ fp)) = \<bar>coeff d\<bar>"
  proof -
    have z0: "digits_val ''0'' = 0" by (simp add: digits_val_def char_digit_def)
    have "dot \<le> ?n" using dpos by (auto simp: dot_def)
    then consider "dot \<le> 0" | "0 < dot" "dot = ?n" | "0 < dot" "dot < ?n" by linarith
    then have "digits_val (ip @ fp) = digits_val ?ds"
    proof cases
      case 1
      then have "ip @ fp = ''0'' @ replicate (nat (- dot)) (CHR ''0'') @ ?ds"
        by (simp add: ip_def fp_def)
      then show ?thesis by (simp only: digits_val_append digits_val_zeros z0)
    next
      case 2
      then show ?thesis by (simp add: ip_def fp_def)
    next
      case 3
      then show ?thesis by (simp add: ip_def fp_def)
    qed
    then show ?thesis by simp
  qed
  have len: "?left - dot - int (length fp) = expo d"
    using dpos by (auto simp: fp_def dot_def)
  have "dec_parse (dec_str d) = Finite (Dec (if neg then - \<bar>coeff d\<bar> else \<bar>coeff d\<bar>) (expo d))"
    unfolding str dec_parse_parts [OF ip fp] val len ..
  also have "(if neg then - \<bar>coeff d\<bar> else \<bar>coeff d\<bar>) = coeff d"
    by (simp add: neg_def)
  finally show ?thesis by simp
qed

lemma py_Decimal_dec_str [simp]: "py_Decimal (PStr (dec_str d)) = Inr d"
  by (simp add: dec_parse_dec_str)

lemma dec_str_inject [simp]: "dec_str a = dec_str b \<longleftrightarrow> a = b"
  by (metis dec_parse_dec_str dec_lit.inject)

end
