(* ===== verification/Arithmetic.thy ===== *)
theory Arithmetic
  imports Py_Decimal
begin

text \<open>
  \<^verbatim>\<open>core/vivacore/verify/arithmetic.py\<close>: the identities a financial document imposes on itself.
  Each check converts its arguments (a float is refused), sums, and compares the stated figure
  with the implied one under a tolerance. The locale \<open>reconciliation\<close> is the contract the four
  checks share; it is interpreted on each of them. Decimal sums round to 28 digits, so the
  contract holds for amounts within a stated range, \<open>money_range\<close>, and fails beyond the precision.
\<close>

record check_result =
  passed :: bool
  check :: string
  expected :: string
  actual :: string
  delta :: string
  tolerance :: string

definition explain :: "check_result \<Rightarrow> string" where
  "explain r =
     ''['' @ (if passed r then ''PASS'' else ''FAIL'') @ ''] '' @ check r @ '': expected '' @ expected r
     @ '', got '' @ actual r @ '' (delta '' @ delta r @ '', tolerance '' @ tolerance r @ '')''"

fun as_decimal :: "pynum \<Rightarrow> decimal res" where
  "as_decimal (PFloat d) = Inl (TypeError ''float is not allowed in verification arithmetic (T2)'')"
| "as_decimal x = py_Decimal x"

text \<open>The result every check builds: \<open>delta\<close> is the stated figure minus the implied one.\<close>

definition mk_result :: "string \<Rightarrow> decimal \<Rightarrow> decimal \<Rightarrow> decimal \<Rightarrow> check_result" where
  "mk_result label implied stated tol =
     (let d = dec_sub stated implied in
      \<lparr>passed = dec_le (dec_abs d) tol, check = label, expected = dec_str implied,
       actual = dec_str stated, delta = dec_str d, tolerance = dec_str tol\<rparr>)"

definition check_balance_identity ::
    "pynum \<Rightarrow> pynum list \<Rightarrow> pynum \<Rightarrow> pynum \<Rightarrow> check_result res" where
  "check_balance_identity opening transactions closing tol =
     bindR (as_decimal opening) (\<lambda>opening_d.
     bindR (as_decimal closing) (\<lambda>closing_d.
     bindR (as_decimal tol) (\<lambda>tol_d.
     bindR (mapR as_decimal transactions) (\<lambda>ts.
       Inr (mk_result ''balance identity (opening + transactions = closing)''
              (dec_add opening_d (dec_sum ts)) closing_d tol_d)))))"

definition check_paystub_identity ::
    "pynum \<Rightarrow> pynum list \<Rightarrow> pynum \<Rightarrow> pynum \<Rightarrow> check_result res" where
  "check_paystub_identity gross deductions net tol =
     bindR (as_decimal gross) (\<lambda>gross_d.
     bindR (as_decimal net) (\<lambda>net_d.
     bindR (as_decimal tol) (\<lambda>tol_d.
     bindR (mapR as_decimal deductions) (\<lambda>ds.
       Inr (mk_result ''pay-stub identity (gross - deductions = net)''
              (dec_sub gross_d (dec_sum ds)) net_d tol_d)))))"

definition check_brokerage_identity ::
    "pynum list \<Rightarrow> pynum \<Rightarrow> pynum \<Rightarrow> pynum \<Rightarrow> check_result res" where
  "check_brokerage_identity position_values cash tot tol =
     bindR (as_decimal cash) (\<lambda>cash_d.
     bindR (as_decimal tot) (\<lambda>tot_d.
     bindR (as_decimal tol) (\<lambda>tol_d.
     bindR (mapR as_decimal position_values) (\<lambda>vs.
       Inr (mk_result (''brokerage identity ('' @ [CHR 0xCE, CHR 0xA3] @ '' positions + cash = total)'')
              (dec_add (dec_sum vs) cash_d) tot_d tol_d)))))"

definition check_sum :: "pynum list \<Rightarrow> pynum \<Rightarrow> string \<Rightarrow> pynum \<Rightarrow> check_result res" where
  "check_sum items tot label tol =
     bindR (as_decimal tol) (\<lambda>tol_d.
     bindR (as_decimal tot) (\<lambda>tot_d.
     bindR (mapR as_decimal items) (\<lambda>xs.
       Inr (mk_result label (dec_sum xs) tot_d tol_d))))"

subsection \<open>The range in which the arithmetic is exact\<close>

text \<open>
  At most eight decimal places and a magnitude of at most \<open>10^12\<close> units; at most a million
  items in one sum. Then no intermediate result reaches the 28 digits at which rounding starts.
\<close>

definition money_range :: "decimal \<Rightarrow> bool" where
  "money_range d = scaled 8 (10 ^ 20) d"

definition max_items :: nat where
  "max_items = 10 ^ 6"

definition money_arg :: "pynum \<Rightarrow> bool" where
  "money_arg x = (case as_decimal x of Inr d \<Rightarrow> money_range d | Inl e \<Rightarrow> False)"

definition arg_val :: "pynum \<Rightarrow> rat" where
  "arg_val x = (case as_decimal x of Inr d \<Rightarrow> dec_val d | Inl e \<Rightarrow> 0)"

definition money_args :: "pynum list \<Rightarrow> bool" where
  "money_args xs = (list_all money_arg xs \<and> length xs \<le> max_items)"

definition args_val :: "pynum list \<Rightarrow> rat" where
  "args_val xs = sum_list (map arg_val xs)"

lemma money_argE:
  assumes "money_arg x"
  obtains d where "as_decimal x = Inr d" "money_range d" "arg_val x = dec_val d"
  using assms by (auto simp: money_arg_def arg_val_def split: sum.splits)

lemma money_argsE:
  assumes "money_args xs"
  obtains ds where "mapR as_decimal xs = Inr ds" "scaled 8 (10 ^ 26) (dec_sum ds)"
    "dec_val (dec_sum ds) = args_val xs"
proof -
  have "\<exists>ds. mapR as_decimal xs = Inr ds \<and> list_all money_range ds \<and> map dec_val ds = map arg_val xs"
    if "list_all money_arg xs" for xs
    using that by (induction xs) (auto elim!: money_argE)
  with assms obtain ds where ds: "mapR as_decimal xs = Inr ds" "list_all money_range ds"
    "map dec_val ds = map arg_val xs" by (auto simp: money_args_def)
  then have len: "length ds = length xs" using map_eq_imp_length_eq by blast
  have le: "int (length ds) * 10 ^ 20 \<le> 10 ^ 26"
    using assms len by (simp add: money_args_def max_items_def)
  then have lt: "int (length ds) * 10 ^ 20 < 10 ^ prec" by (simp add: prec_def)
  have all: "\<And>x. x \<in> set ds \<Longrightarrow> scaled 8 (10 ^ 20) x"
    using ds(2) by (auto simp: list_all_iff money_range_def)
  note sum = dec_sum_scaled [of ds 8 "10 ^ 20", OF all _ lt]
  have "scaled 8 (10 ^ 26) (dec_sum ds)" using sum(1) le by (simp add: scaled_def)
  moreover have "dec_val (dec_sum ds) = args_val xs" using sum(2) ds(3) by (simp add: args_val_def)
  ultimately show thesis using that ds(1) by blast
qed

lemma mk_result_exact:
  assumes "scaled 8 a e" "scaled 8 b c" "a + b < 10 ^ prec"
  shows "passed (mk_result label e c t) \<longleftrightarrow> \<bar>dec_val c - dec_val e\<bar> \<le> dec_val t"
proof -
  have ba: "b + a < 10 ^ prec" using assms(3) by linarith
  note sub = dec_sub_scaled [OF assms(2) assms(1) ba]
  show ?thesis
    using dec_abs_scaled(1) [OF sub(1) ba] sub(2)
    by (simp add: mk_result_def Let_def dec_le_iff)
qed

lemma money_sum_bounds:
  "(10::int) ^ 20 + 10 ^ 26 < 10 ^ prec" "(10::int) ^ 26 + 10 ^ 20 < 10 ^ prec"
  "((10::int) ^ 20 + 10 ^ 26) + 10 ^ 20 < 10 ^ prec" "((10::int) ^ 26 + 10 ^ 20) + 10 ^ 20 < 10 ^ prec"
  by (simp_all add: prec_def)

subsection \<open>The contract the checks share\<close>

locale reconciliation =
  fixes run :: "'a \<Rightarrow> check_result res"
    and in_range :: "'a \<Rightarrow> bool"
    and stated :: "'a \<Rightarrow> rat"
    and implied :: "'a \<Rightarrow> rat"
    and allowed :: "'a \<Rightarrow> rat"
  assumes decides:
    "in_range a \<Longrightarrow> \<exists>r. run a = Inr r \<and> (passed r \<longleftrightarrow> \<bar>stated a - implied a\<bar> \<le> allowed a)"
begin

definition accepts :: "'a \<Rightarrow> bool" where
  "accepts a = (\<exists>r. run a = Inr r \<and> passed r)"

lemma accepts_iff: "in_range a \<Longrightarrow> accepts a \<longleftrightarrow> \<bar>stated a - implied a\<bar> \<le> allowed a"
  using decides [of a] by (auto simp: accepts_def)

lemma exact: "in_range a \<Longrightarrow> allowed a = 0 \<Longrightarrow> accepts a \<longleftrightarrow> stated a = implied a"
  by (simp add: accepts_iff)

lemma wider_tolerance:
  assumes "in_range a" "in_range b" "stated b = stated a" "implied b = implied a" "allowed a \<le> allowed b"
  shows "accepts a \<Longrightarrow> accepts b"
  using assms by (simp add: accepts_iff)

lemma misreading_detected:
  assumes "in_range a" "in_range b" "allowed a = 0" "allowed b = 0"
    and "stated a - implied a \<noteq> stated b - implied b" "accepts a"
  shows "\<not> accepts b"
  using assms by (auto simp: exact)

end

lemma balance_decides:
  assumes "money_arg opening" "money_args ts" "money_arg closing" "money_arg tol"
  shows "\<exists>r. check_balance_identity opening ts closing tol = Inr r \<and>
    (passed r \<longleftrightarrow> \<bar>arg_val closing - (arg_val opening + args_val ts)\<bar> \<le> arg_val tol)"
proof -
  obtain od where od: "as_decimal opening = Inr od" "money_range od" "arg_val opening = dec_val od"
    using assms(1) by (rule money_argE)
  obtain cd where cd: "as_decimal closing = Inr cd" "money_range cd" "arg_val closing = dec_val cd"
    using assms(3) by (rule money_argE)
  obtain td where td: "as_decimal tol = Inr td" "arg_val tol = dec_val td"
    using assms(4) by (rule money_argE)
  obtain ds where ds: "mapR as_decimal ts = Inr ds" "scaled 8 (10 ^ 26) (dec_sum ds)"
    "dec_val (dec_sum ds) = args_val ts" using assms(2) by (rule money_argsE)
  note add = dec_add_scaled [OF od(2) [unfolded money_range_def] ds(2) money_sum_bounds(1)]
  show ?thesis
    using mk_result_exact [OF add(1) cd(2) [unfolded money_range_def] money_sum_bounds(3)] add(2)
    by (simp add: check_balance_identity_def od cd td ds)
qed

lemma paystub_decides:
  assumes "money_arg gross" "money_args ds" "money_arg net" "money_arg tol"
  shows "\<exists>r. check_paystub_identity gross ds net tol = Inr r \<and>
    (passed r \<longleftrightarrow> \<bar>arg_val net - (arg_val gross - args_val ds)\<bar> \<le> arg_val tol)"
proof -
  obtain gd where gd: "as_decimal gross = Inr gd" "money_range gd" "arg_val gross = dec_val gd"
    using assms(1) by (rule money_argE)
  obtain nd where nd: "as_decimal net = Inr nd" "money_range nd" "arg_val net = dec_val nd"
    using assms(3) by (rule money_argE)
  obtain td where td: "as_decimal tol = Inr td" "arg_val tol = dec_val td"
    using assms(4) by (rule money_argE)
  obtain xs where xs: "mapR as_decimal ds = Inr xs" "scaled 8 (10 ^ 26) (dec_sum xs)"
    "dec_val (dec_sum xs) = args_val ds" using assms(2) by (rule money_argsE)
  note sub = dec_sub_scaled [OF gd(2) [unfolded money_range_def] xs(2) money_sum_bounds(1)]
  show ?thesis
    using mk_result_exact [OF sub(1) nd(2) [unfolded money_range_def] money_sum_bounds(3)] sub(2)
    by (simp add: check_paystub_identity_def gd nd td xs)
qed

lemma brokerage_decides:
  assumes "money_args vs" "money_arg cash" "money_arg tot" "money_arg tol"
  shows "\<exists>r. check_brokerage_identity vs cash tot tol = Inr r \<and>
    (passed r \<longleftrightarrow> \<bar>arg_val tot - (args_val vs + arg_val cash)\<bar> \<le> arg_val tol)"
proof -
  obtain cd where cd: "as_decimal cash = Inr cd" "money_range cd" "arg_val cash = dec_val cd"
    using assms(2) by (rule money_argE)
  obtain gd where gd: "as_decimal tot = Inr gd" "money_range gd" "arg_val tot = dec_val gd"
    using assms(3) by (rule money_argE)
  obtain td where td: "as_decimal tol = Inr td" "arg_val tol = dec_val td"
    using assms(4) by (rule money_argE)
  obtain xs where xs: "mapR as_decimal vs = Inr xs" "scaled 8 (10 ^ 26) (dec_sum xs)"
    "dec_val (dec_sum xs) = args_val vs" using assms(1) by (rule money_argsE)
  note add = dec_add_scaled [OF xs(2) cd(2) [unfolded money_range_def] money_sum_bounds(2)]
  show ?thesis
    using mk_result_exact [OF add(1) gd(2) [unfolded money_range_def] money_sum_bounds(4)] add(2)
    by (simp add: check_brokerage_identity_def gd cd td xs)
qed

lemma sum_decides:
  assumes "money_args items" "money_arg tot" "money_arg tol"
  shows "\<exists>r. check_sum items tot label tol = Inr r \<and>
    (passed r \<longleftrightarrow> \<bar>arg_val tot - args_val items\<bar> \<le> arg_val tol)"
proof -
  obtain gd where gd: "as_decimal tot = Inr gd" "money_range gd" "arg_val tot = dec_val gd"
    using assms(2) by (rule money_argE)
  obtain td where td: "as_decimal tol = Inr td" "arg_val tol = dec_val td"
    using assms(3) by (rule money_argE)
  obtain xs where xs: "mapR as_decimal items = Inr xs" "scaled 8 (10 ^ 26) (dec_sum xs)"
    "dec_val (dec_sum xs) = args_val items" using assms(1) by (rule money_argsE)
  show ?thesis
    using mk_result_exact [OF xs(2) gd(2) [unfolded money_range_def] money_sum_bounds(2)]
    by (simp add: check_sum_def gd td xs)
qed

interpretation balance: reconciliation
  "\<lambda>(opening, ts, closing, tol). check_balance_identity opening ts closing tol"
  "\<lambda>(opening, ts, closing, tol). money_arg opening \<and> money_args ts \<and> money_arg closing \<and> money_arg tol"
  "\<lambda>(opening, ts, closing, tol). arg_val closing"
  "\<lambda>(opening, ts, closing, tol). arg_val opening + args_val ts"
  "\<lambda>(opening, ts, closing, tol). arg_val tol"
  by unfold_locales (use balance_decides in \<open>auto split: prod.splits\<close>)

interpretation paystub: reconciliation
  "\<lambda>(gross, ds, net, tol). check_paystub_identity gross ds net tol"
  "\<lambda>(gross, ds, net, tol). money_arg gross \<and> money_args ds \<and> money_arg net \<and> money_arg tol"
  "\<lambda>(gross, ds, net, tol). arg_val net"
  "\<lambda>(gross, ds, net, tol). arg_val gross - args_val ds"
  "\<lambda>(gross, ds, net, tol). arg_val tol"
  by unfold_locales (use paystub_decides in \<open>auto split: prod.splits\<close>)

interpretation brokerage: reconciliation
  "\<lambda>(vs, cash, tot, tol). check_brokerage_identity vs cash tot tol"
  "\<lambda>(vs, cash, tot, tol). money_args vs \<and> money_arg cash \<and> money_arg tot \<and> money_arg tol"
  "\<lambda>(vs, cash, tot, tol). arg_val tot"
  "\<lambda>(vs, cash, tot, tol). args_val vs + arg_val cash"
  "\<lambda>(vs, cash, tot, tol). arg_val tol"
  by unfold_locales (use brokerage_decides in \<open>auto split: prod.splits\<close>)

interpretation sums: reconciliation
  "\<lambda>(items, tot, label, tol). check_sum items tot label tol"
  "\<lambda>(items, tot, label, tol). money_args items \<and> money_arg tot \<and> money_arg tol"
  "\<lambda>(items, tot, label, tol). arg_val tot"
  "\<lambda>(items, tot, label, tol). args_val items"
  "\<lambda>(items, tot, label, tol). arg_val tol"
  by unfold_locales (use sum_decides in \<open>auto split: prod.splits\<close>)

subsection \<open>Properties\<close>

text \<open>
  C25: the balance identity decides reconciliation exactly. For amounts in range the check never
  raises, and it passes precisely when the closing figure differs from the opening figure plus
  the sum of the signed transactions by no more than the tolerance.
\<close>

theorem balance_identity_exact:
  assumes "money_arg opening" "money_args ts" "money_arg closing" "money_arg tol"
  shows "\<exists>r. check_balance_identity opening ts closing tol = Inr r \<and>
    (passed r \<longleftrightarrow> \<bar>arg_val closing - (arg_val opening + args_val ts)\<bar> \<le> arg_val tol)"
  using assms by (rule balance_decides)

theorem balance_identity_exact_witness:
  "\<exists>r. check_balance_identity (PStr ''100.00'') [PStr ''-25.50'', PInt 10] (PStr ''84.50'') (PStr ''0'') = Inr r \<and>
    (passed r \<longleftrightarrow> \<bar>arg_val (PStr ''84.50'') - (arg_val (PStr ''100.00'') + args_val [PStr ''-25.50'', PInt 10])\<bar>
       \<le> arg_val (PStr ''0''))"
  by (rule balance_identity_exact) code_simp+

text \<open>
  C26: a misread holding is noticed. If a brokerage statement passes its identity with no
  tolerance, then the same statement with one position value replaced by a different value is
  checked without an exception and does not pass.
\<close>

theorem brokerage_misread_detected:
  assumes "money_args (xs @ v # ys)" "money_arg w" "money_arg cash" "money_arg tot"
    and "arg_val v \<noteq> arg_val w"
    and "check_brokerage_identity (xs @ v # ys) cash tot (PInt 0) = Inr r" "passed r"
  shows "\<exists>r'. check_brokerage_identity (xs @ w # ys) cash tot (PInt 0) = Inr r' \<and> \<not> passed r'"
proof -
  have z: "money_arg (PInt 0)" "arg_val (PInt 0) = 0" by code_simp+
  have w: "money_args (xs @ w # ys)" using assms(1,2) by (simp add: money_args_def)
  have "\<not> brokerage.accepts (xs @ w # ys, cash, tot, PInt 0)"
    by (rule brokerage.misreading_detected [of "(xs @ v # ys, cash, tot, PInt 0)"])
      (use assms w z in \<open>auto simp: brokerage.accepts_def args_val_def\<close>)
  moreover have "\<exists>r'. check_brokerage_identity (xs @ w # ys) cash tot (PInt 0) = Inr r'"
    using brokerage_decides [OF w assms(3,4) z(1)] by blast
  ultimately show ?thesis by (auto simp: brokerage.accepts_def)
qed

theorem brokerage_misread_detected_witness:
  "\<exists>r'. check_brokerage_identity ([PStr ''50.00''] @ PStr ''91.00'' # []) (PStr ''10.00'') (PStr ''79.00'') (PInt 0) = Inr r'
     \<and> \<not> passed r'"
proof (rule brokerage_misread_detected)
  show "check_brokerage_identity ([PStr ''50.00''] @ PStr ''19.00'' # []) (PStr ''10.00'') (PStr ''79.00'') (PInt 0)
    = Inr (mk_result (''brokerage identity ('' @ [CHR 0xCE, CHR 0xA3] @ '' positions + cash = total)'')
              (Dec 7900 (-2)) (Dec 7900 (-2)) (Dec 0 0))" by code_simp
qed code_simp+

text \<open>
  The check is exact only within the decimal precision. The documentation promises exact
  arithmetic with no silent tolerance, yet a total of \<open>10^28\<close> is accepted for the items
  \<open>10^28\<close> and \<open>1\<close> under a zero tolerance: the sum is rounded to 28 digits before it is compared.
\<close>

lemma sum_check_rounds_beyond_precision:
  "\<exists>r. check_sum [PDec (Dec (10 ^ 28) 0), PInt 1] (PDec (Dec (10 ^ 28) 0)) label (PInt 0) = Inr r \<and> passed r"
proof -
  have "dec_sum [Dec (10 ^ 28) 0, Dec 1 0] = Dec (10 ^ 27) 1"
    by (simp add: dec_sum_def dec0_def dec_add_def dec_fix_def lift_to_def prec_def num_digits_def
        show_nat.simps round_half_even_def)
  then have "check_sum [PDec (Dec (10 ^ 28) 0), PInt 1] (PDec (Dec (10 ^ 28) 0)) label (PInt 0)
    = Inr (mk_result label (Dec (10 ^ 27) 1) (Dec (10 ^ 28) 0) (Dec 0 0))"
    by (simp add: check_sum_def)
  moreover have "passed (mk_result label (Dec (10 ^ 27) 1) (Dec (10 ^ 28) 0) (Dec 0 0))"
    by (simp add: mk_result_def dec_sub_def dec_add_def lift_to_def dec_fix_def prec_def dec_abs_def
        dec_le_def Let_def)
  ultimately show ?thesis by blast
qed

end
