(* ===== verification/Json.thy ===== *)
theory Json
  imports Prelude
begin

text \<open>
  JSON values as the program builds and stores them, with \<^verbatim>\<open>json.dumps\<close> (compact separators,
  \<^verbatim>\<open>ensure_ascii=False\<close>), \<^verbatim>\<open>sort_keys\<close> and \<^verbatim>\<open>json.loads\<close>. A dict is its association list in
  insertion order with distinct keys; a float is kept as its text. The central fact is
  \<open>loads_dumps\<close>: reading back what was written gives the value, so the written form determines
  it. The literals NaN and Infinity and lone surrogate escapes are read as errors. The decoder's resource
  limits are not in \<open>loads\<close>: \<^verbatim>\<open>json.loads\<close> raises a plain \<^verbatim>\<open>ValueError\<close> on an integer of more than 4300 digits and a
  \<^verbatim>\<open>RecursionError\<close> on deep nesting. Code that reads text from outside (theory Statement) therefore takes the decoder as
  an argument; the texts of the log are those the program wrote.
\<close>

datatype json =
    JNull
  | JBool bool
  | JInt int
  | JFloat string
  | JStr string
  | JArr "json list"
  | JObj "(string \<times> json) list"

subsection \<open>Dicts\<close>

fun dict_set :: "'k \<Rightarrow> 'v \<Rightarrow> ('k \<times> 'v) list \<Rightarrow> ('k \<times> 'v) list" where
  "dict_set k v [] = [(k, v)]"
| "dict_set k v ((k', v') # ps) = (if k = k' then (k, v) # ps else (k', v') # dict_set k v ps)"

definition dict_of :: "('k \<times> 'v) list \<Rightarrow> ('k \<times> 'v) list" where
  "dict_of ps = foldl (\<lambda>d (k, v). dict_set k v d) [] ps"

fun jget :: "json \<Rightarrow> string \<Rightarrow> json option" where
  "jget (JObj fs) k = map_of fs k"
| "jget _ k = None"

text \<open>\<^verbatim>\<open>d[k]\<close> on a dict, and on something that is not one.\<close>

fun jitem :: "json \<Rightarrow> string \<Rightarrow> json res" where
  "jitem (JObj fs) k = (case map_of fs k of None \<Rightarrow> Inl (KeyError k) | Some v \<Rightarrow> Inr v)"
| "jitem _ k = Inl (TypeError ''not subscriptable by a key'')"

fun jset :: "string \<Rightarrow> json \<Rightarrow> json \<Rightarrow> json" where
  "jset k v (JObj fs) = JObj (dict_set k v fs)"
| "jset k v j = j"

lemma map_of_dict_set: "map_of (dict_set k v ps) = (map_of ps)(k \<mapsto> v)"
  by (induction k v ps rule: dict_set.induct) auto

lemma keys_dict_set: "set (map fst (dict_set k v ps)) = insert k (set (map fst ps))"
  by (induction k v ps rule: dict_set.induct) auto

lemma dict_set_new: "k \<notin> set (map fst ps) \<Longrightarrow> dict_set k v ps = ps @ [(k, v)]"
  by (induction k v ps rule: dict_set.induct) auto

lemma distinct_dict_set: "distinct (map fst ps) \<Longrightarrow> distinct (map fst (dict_set k v ps))"
proof (induction k v ps rule: dict_set.induct)
  case (2 k v k' v' ps)
  then show ?case using keys_dict_set [of k v ps] by auto
qed simp

lemma foldl_dict_set_append:
  "distinct (map fst (ds @ ps)) \<Longrightarrow> foldl (\<lambda>d (k, v). dict_set k v d) ds ps = ds @ ps"
proof (induction ps arbitrary: ds)
  case Nil
  then show ?case by simp
next
  case (Cons p ps)
  obtain k v where p: "p = (k, v)" by (cases p)
  with Cons.prems have "dict_set k v ds = ds @ [(k, v)]" by (intro dict_set_new) auto
  with Cons p show ?case by simp
qed

lemma dict_of_distinct: "distinct (map fst ps) \<Longrightarrow> dict_of ps = ps"
  using foldl_dict_set_append [of "[]" ps] by (simp add: dict_of_def)

subsection \<open>Writing\<close>

definition hex_digit :: "nat \<Rightarrow> char" where
  "hex_digit n = (if n < 10 then char_of (48 + n) else char_of (87 + n))"

definition escape_char :: "char \<Rightarrow> string" where
  "escape_char c =
     (if c = CHR 0x22 then [CHR 0x5C, CHR 0x22]
      else if c = CHR 0x5C then [CHR 0x5C, CHR 0x5C]
      else if c = CHR 0x0A then [CHR 0x5C, CHR ''n'']
      else if c = CHR 0x0D then [CHR 0x5C, CHR ''r'']
      else if c = CHR 0x09 then [CHR 0x5C, CHR ''t'']
      else if c = CHR 0x0C then [CHR 0x5C, CHR ''f'']
      else if c = CHR 0x08 then [CHR 0x5C, CHR ''b'']
      else if (of_char c :: nat) < 32 then
        [CHR 0x5C, CHR ''u'', CHR ''0'', CHR ''0'', hex_digit (of_char c div 16), hex_digit (of_char c mod 16)]
      else [c])"

definition dumps_str :: "string \<Rightarrow> string" where
  "dumps_str s = CHR 0x22 # concat (map escape_char s) @ [CHR 0x22]"

text \<open>
  \<^verbatim>\<open>json.dumps\<close> with \<open>sp\<close> after each comma and colon: a space by default, nothing in the compact
  form.
\<close>

fun dumpsP :: "string \<Rightarrow> json \<Rightarrow> string" and dumpsP_list :: "string \<Rightarrow> json list \<Rightarrow> string"
  and dumpsP_fields :: "string \<Rightarrow> (string \<times> json) list \<Rightarrow> string" where
  "dumpsP sp JNull = ''null''"
| "dumpsP sp (JBool b) = (if b then ''true'' else ''false'')"
| "dumpsP sp (JInt i) = show_int i"
| "dumpsP sp (JFloat t) = t"
| "dumpsP sp (JStr s) = dumps_str s"
| "dumpsP sp (JArr xs) = CHR ''['' # dumpsP_list sp xs @ [CHR '']'']"
| "dumpsP sp (JObj fs) = CHR ''{'' # dumpsP_fields sp fs @ [CHR ''}'']"
| "dumpsP_list sp [] = []"
| "dumpsP_list sp (x # xs) = dumpsP sp x @ (if xs = [] then [] else CHR '','' # sp @ dumpsP_list sp xs)"
| "dumpsP_fields sp [] = []"
| "dumpsP_fields sp ((k, v) # fs) =
     dumps_str k @ CHR '':'' # sp @ dumpsP sp v @ (if fs = [] then [] else CHR '','' # sp @ dumpsP_fields sp fs)"

abbreviation dumps :: "json \<Rightarrow> string" where
  "dumps \<equiv> dumpsP []"

abbreviation dumps_default :: "json \<Rightarrow> string" where
  "dumps_default \<equiv> dumpsP '' ''"

fun sort_keys :: "json \<Rightarrow> json" and sort_keys_list :: "json list \<Rightarrow> json list"
  and sort_keys_fields :: "(string \<times> json) list \<Rightarrow> (string \<times> json) list" where
  "sort_keys (JArr xs) = JArr (sort_keys_list xs)"
| "sort_keys (JObj fs) = JObj (sort_key fst (sort_keys_fields fs))"
| "sort_keys v = v"
| "sort_keys_list [] = []"
| "sort_keys_list (x # xs) = sort_keys x # sort_keys_list xs"
| "sort_keys_fields [] = []"
| "sort_keys_fields ((k, v) # fs) = (k, sort_keys v) # sort_keys_fields fs"

subsection \<open>Reading\<close>

definition json_ws :: "char \<Rightarrow> bool" where
  "json_ws c = (c \<in> {CHR '' '', CHR 0x09, CHR 0x0A, CHR 0x0D})"

definition skip_ws :: "string \<Rightarrow> string" where
  "skip_ws s = dropWhile json_ws s"

definition hex_val :: "char \<Rightarrow> nat option" where
  "hex_val c =
     (let n = of_char c :: nat in
      if is_digit c then Some (n - 48)
      else if 97 \<le> n \<and> n \<le> 102 then Some (n - 87)
      else if 65 \<le> n \<and> n \<le> 70 then Some (n - 55) else None)"

text \<open>A code point of the basic plane as UTF-8; surrogates have no encoding.\<close>

definition utf8_of :: "nat \<Rightarrow> string option" where
  "utf8_of n =
     (if n < 128 then Some [char_of n]
      else if n < 2048 then Some [char_of (192 + n div 64), char_of (128 + n mod 64)]
      else if 55296 \<le> n \<and> n < 57344 then None
      else Some [char_of (224 + n div 4096), char_of (128 + n div 64 mod 64), char_of (128 + n mod 64)])"

definition unescape_simple :: "char \<Rightarrow> char option" where
  "unescape_simple c =
     (if c = CHR 0x22 then Some (CHR 0x22)
      else if c = CHR 0x5C then Some (CHR 0x5C)
      else if c = CHR ''/'' then Some (CHR ''/'')
      else if c = CHR ''n'' then Some (CHR 0x0A)
      else if c = CHR ''r'' then Some (CHR 0x0D)
      else if c = CHR ''t'' then Some (CHR 0x09)
      else if c = CHR ''f'' then Some (CHR 0x0C)
      else if c = CHR ''b'' then Some (CHR 0x08) else None)"

definition unescape_hex :: "char \<Rightarrow> char \<Rightarrow> char \<Rightarrow> char \<Rightarrow> string option" where
  "unescape_hex a b c d =
     (case (hex_val a, hex_val b, hex_val c, hex_val d) of
        (Some w, Some x, Some y, Some z) \<Rightarrow> utf8_of (((w * 16 + x) * 16 + y) * 16 + z)
      | _ \<Rightarrow> None)"

text \<open>One character of a string literal: what it denotes and the rest of the text.\<close>

definition p_char :: "string \<Rightarrow> (string \<times> string) option" where
  "p_char s =
     (case s of [] \<Rightarrow> None
      | c # cs \<Rightarrow>
          if c = CHR 0x5C then
            (case cs of [] \<Rightarrow> None
             | e # r \<Rightarrow>
                 if e = CHR ''u'' then
                   (case r of h1 # h2 # h3 # h4 # r' \<Rightarrow> map_option (\<lambda>t. (t, r')) (unescape_hex h1 h2 h3 h4)
                    | _ \<Rightarrow> None)
                 else map_option (\<lambda>d. ([d], r)) (unescape_simple e))
          else if (of_char c :: nat) < 32 then None
          else Some ([c], cs))"

lemma p_char_shorter: "p_char s = Some (t, r) \<Longrightarrow> length r < length s"
  by (auto simp: p_char_def split: list.splits if_splits)

function p_string :: "string \<Rightarrow> (string \<times> string) option" where
  "p_string s =
     (case s of [] \<Rightarrow> None
      | c # cs \<Rightarrow>
          if c = CHR 0x22 then Some ([], cs)
          else (case p_char s of None \<Rightarrow> None
                | Some (t, r) \<Rightarrow>
                    (case p_string r of None \<Rightarrow> None | Some (u, x) \<Rightarrow> Some (t @ u, x))))"
  by pat_completeness auto
termination
  by (relation "measure length") (auto dest: p_char_shorter)

declare p_string.simps [simp del]

definition num_frac :: "string \<Rightarrow> string \<times> string" where
  "num_frac u =
     (case u of [] \<Rightarrow> ([], u)
      | c # v \<Rightarrow> if c = CHR ''.'' \<and> takeWhile is_digit v \<noteq> []
                then (c # takeWhile is_digit v, dropWhile is_digit v) else ([], u))"

definition exp_sign :: "string \<Rightarrow> string \<times> string" where
  "exp_sign v =
     (case v of [] \<Rightarrow> ([], v) | d # x \<Rightarrow> if d = CHR ''+'' \<or> d = CHR ''-'' then ([d], x) else ([], v))"

definition num_exp :: "string \<Rightarrow> string \<times> string" where
  "num_exp u =
     (case u of [] \<Rightarrow> ([], u)
      | c # v \<Rightarrow>
          if c = CHR ''e'' \<or> c = CHR ''E'' then
            (case exp_sign v of (sg, w) \<Rightarrow>
               if takeWhile is_digit w \<noteq> []
               then (c # sg @ takeWhile is_digit w, dropWhile is_digit w) else ([], u))
          else ([], u))"

definition num_int :: "string \<Rightarrow> (string \<times> string) option" where
  "num_int u =
     (case u of [] \<Rightarrow> None
      | c # v \<Rightarrow> if c = CHR ''0'' then Some ([c], v)
                else if is_digit c then Some (takeWhile is_digit u, dropWhile is_digit u) else None)"

definition p_number :: "string \<Rightarrow> (json \<times> string) option" where
  "p_number s =
     (let neg = (s \<noteq> [] \<and> hd s = CHR ''-''); u = (if neg then tl s else s) in
      case num_int u of None \<Rightarrow> None
      | Some (ip, u1) \<Rightarrow>
          (case num_frac u1 of (f, u2) \<Rightarrow>
           (case num_exp u2 of (x, u3) \<Rightarrow>
              Some (if f = [] \<and> x = []
                    then JInt (if neg then - int (digits_val ip) else int (digits_val ip))
                    else JFloat ((if neg then ''-'' else []) @ ip @ f @ x), u3))))"

fun p_value :: "nat \<Rightarrow> string \<Rightarrow> (json \<times> string) option"
  and p_elems :: "nat \<Rightarrow> string \<Rightarrow> (json list \<times> string) option"
  and p_fields :: "nat \<Rightarrow> string \<Rightarrow> ((string \<times> json) list \<times> string) option" where
  "p_value 0 s = None"
| "p_value (Suc n) s =
     (case s of [] \<Rightarrow> None
      | c # cs \<Rightarrow>
          if c = CHR 0x22 then map_option (\<lambda>(t, r). (JStr t, r)) (p_string cs)
          else if c = CHR ''{'' then
            (case skip_ws cs of [] \<Rightarrow> None
             | d # r \<Rightarrow> if d = CHR ''}'' then Some (JObj [], r)
                       else map_option (\<lambda>(fs, x). (JObj (dict_of fs), x)) (p_fields n (d # r)))
          else if c = CHR ''['' then
            (case skip_ws cs of [] \<Rightarrow> None
             | d # r \<Rightarrow> if d = CHR '']'' then Some (JArr [], r)
                       else map_option (\<lambda>(vs, x). (JArr vs, x)) (p_elems n (d # r)))
          else if starts_with s ''null'' then Some (JNull, drop 4 s)
          else if starts_with s ''true'' then Some (JBool True, drop 4 s)
          else if starts_with s ''false'' then Some (JBool False, drop 5 s)
          else p_number s)"
| "p_elems 0 s = None"
| "p_elems (Suc n) s =
     (case p_value n s of None \<Rightarrow> None
      | Some (v, r) \<Rightarrow>
          (case skip_ws r of [] \<Rightarrow> None
           | d # r' \<Rightarrow>
               if d = CHR '']'' then Some ([v], r')
               else if d = CHR '','' then map_option (\<lambda>(vs, x). (v # vs, x)) (p_elems n (skip_ws r'))
               else None))"
| "p_fields 0 s = None"
| "p_fields (Suc n) s =
     (case s of [] \<Rightarrow> None
      | c # cs \<Rightarrow>
          if c \<noteq> CHR 0x22 then None
          else (case p_string cs of None \<Rightarrow> None
                | Some (k, r0) \<Rightarrow>
                    (case skip_ws r0 of [] \<Rightarrow> None
                     | e # r1 \<Rightarrow>
                         if e \<noteq> CHR '':'' then None
                         else (case p_value n (skip_ws r1) of None \<Rightarrow> None
                               | Some (v, r) \<Rightarrow>
                                   (case skip_ws r of [] \<Rightarrow> None
                                    | d # r' \<Rightarrow>
                                        if d = CHR ''}'' then Some ([(k, v)], r')
                                        else if d = CHR '','' then
                                          map_option (\<lambda>(fs, x). ((k, v) # fs, x)) (p_fields n (skip_ws r'))
                                        else None)))))"

definition loads :: "string \<Rightarrow> json res" where
  "loads s =
     (case p_value (Suc (length s)) (skip_ws s) of
        Some (v, r) \<Rightarrow> if skip_ws r = [] then Inr v else Inl JSONDecodeError
      | None \<Rightarrow> Inl JSONDecodeError)"

subsection \<open>Round trip\<close>

fun wf_json :: "json \<Rightarrow> bool" and wf_json_list :: "json list \<Rightarrow> bool"
  and wf_json_fields :: "(string \<times> json) list \<Rightarrow> bool" where
  "wf_json (JFloat t) = (p_number t = Some (JFloat t, []))"
| "wf_json (JArr xs) = wf_json_list xs"
| "wf_json (JObj fs) = (distinct (map fst fs) \<and> wf_json_fields fs)"
| "wf_json JNull = True"
| "wf_json (JBool b) = True"
| "wf_json (JInt i) = True"
| "wf_json (JStr s) = True"
| "wf_json_list [] = True"
| "wf_json_list (x # xs) = (wf_json x \<and> wf_json_list xs)"
| "wf_json_fields [] = True"
| "wf_json_fields ((k, v) # fs) = (wf_json v \<and> wf_json_fields fs)"

definition delim :: "string \<Rightarrow> bool" where
  "delim r = (r = [] \<or> hd r \<in> {CHR '','', CHR '']'', CHR ''}''})"

lemma hex_val_hex_digit: "n < 16 \<Longrightarrow> hex_val (hex_digit n) = Some n"
  by (auto simp: hex_val_def hex_digit_def is_digit_def Let_def)

lemma hex_val_0: "hex_val (CHR ''0'') = Some 0"
  by (simp add: hex_val_def is_digit_def)

lemma p_char_escape: "p_char (escape_char c @ r) = Some ([c], r)"
proof -
  have "(of_char c :: nat) < 32 \<Longrightarrow>
    unescape_hex (CHR ''0'') (CHR ''0'') (hex_digit (of_char c div 16)) (hex_digit (of_char c mod 16)) = Some [c]"
    by (simp add: unescape_hex_def hex_val_0 hex_val_hex_digit utf8_of_def less_mult_imp_div_less)
  then show ?thesis
    by (auto simp: p_char_def escape_char_def unescape_simple_def)
qed

lemma escape_char_Cons: obtains d ds where "escape_char c = d # ds" "d \<noteq> CHR 0x22"
proof -
  have "\<exists>d ds. escape_char c = d # ds \<and> d \<noteq> CHR 0x22" by (simp add: escape_char_def)
  then show thesis using that by blast
qed

lemma p_string_escape: "p_string (concat (map escape_char s) @ CHR 0x22 # r) = Some (s, r)"
proof (induction s)
  case Nil
  then show ?case by (simp add: p_string.simps)
next
  case (Cons c s)
  let ?t = "concat (map escape_char s) @ CHR 0x22 # r"
  obtain d ds where d: "escape_char c = d # ds" "d \<noteq> CHR 0x22" by (rule escape_char_Cons)
  with p_char_escape [of c ?t] have "p_char (d # ds @ ?t) = Some ([c], ?t)" by simp
  with Cons d show ?case
    by (simp add: p_string.simps [of "d # ds @ ?t"])
qed

lemma skip_ws_id: "s = [] \<or> \<not> json_ws (hd s) \<Longrightarrow> skip_ws s = s"
  by (cases s) (auto simp: skip_ws_def)

lemma delim_hd: "delim r \<Longrightarrow> r \<noteq> [] \<Longrightarrow> \<not> json_ws (hd r) \<and> \<not> is_digit (hd r) \<and>
    hd r \<notin> {CHR ''.'', CHR ''e'', CHR ''E'', CHR ''+'', CHR ''-''}"
  by (auto simp: delim_def json_ws_def is_digit_def)

lemma delim_Cons [simp]: "delim (CHR '','' # s)" "delim (CHR '']'' # s)" "delim (CHR ''}'' # s)" "delim []"
  by (simp_all add: delim_def)

lemma while_digit_delim: 
  assumes "delim r"
  shows "takeWhile is_digit (s @ r) = takeWhile is_digit s" "dropWhile is_digit (s @ r) = dropWhile is_digit s @ r"
proof -
  have r: "takeWhile is_digit r = []" "dropWhile is_digit r = r"
    using delim_hd [OF assms] by (cases r; auto)+
  show "takeWhile is_digit (s @ r) = takeWhile is_digit s" by (induction s) (auto simp: r)
  show "dropWhile is_digit (s @ r) = dropWhile is_digit s @ r" by (induction s) (auto simp: r)
qed

lemma num_frac_delim: "delim r \<Longrightarrow> num_frac u = (f, v) \<Longrightarrow> num_frac (u @ r) = (f, v @ r)"
  using delim_hd [of r] by (cases u; cases r) (auto simp: num_frac_def while_digit_delim split: if_splits)

lemma exp_sign_delim: "delim r \<Longrightarrow> exp_sign u = (f, v) \<Longrightarrow> exp_sign (u @ r) = (f, v @ r)"
  using delim_hd [of r] by (cases u; cases r) (auto simp: exp_sign_def split: if_splits)

lemma num_exp_delim: "delim r \<Longrightarrow> num_exp u = (f, v) \<Longrightarrow> num_exp (u @ r) = (f, v @ r)"
proof (cases u)
  case Nil
  assume "delim r" "num_exp u = (f, v)"
  with Nil show ?thesis using delim_hd [of r] by (cases r) (auto simp: num_exp_def)
next
  case (Cons c w)
  assume r: "delim r" and e: "num_exp u = (f, v)"
  obtain sg x where sx: "exp_sign w = (sg, x)" by (cases "exp_sign w")
  with exp_sign_delim [OF r] have "exp_sign (w @ r) = (sg, x @ r)" by simp
  with Cons r e sx show ?thesis
    by (auto simp: num_exp_def while_digit_delim split: if_splits)
qed

lemma num_int_delim: "delim r \<Longrightarrow> num_int u = Some (f, v) \<Longrightarrow> num_int (u @ r) = Some (f, v @ r)"
  by (cases u) (auto simp: num_int_def while_digit_delim split: if_splits)

lemma p_number_delim:
  assumes r: "delim r" and p: "p_number s = Some (j, v)"
  shows "p_number (s @ r) = Some (j, v @ r)"
proof -
  define neg where "neg = (s \<noteq> [] \<and> hd s = CHR ''-'')"
  define u where "u = (if neg then tl s else s)"
  obtain ip u1 where i: "num_int u = Some (ip, u1)"
    using p by (auto simp: p_number_def Let_def neg_def u_def split: option.splits)
  obtain f u2 where f: "num_frac u1 = (f, u2)" by (cases "num_frac u1")
  obtain x u3 where x: "num_exp u2 = (x, u3)" by (cases "num_exp u2")
  have "s \<noteq> []" using i by (auto simp: u_def neg_def num_int_def)
  then have "(s @ r \<noteq> [] \<and> hd (s @ r) = CHR ''-'') = neg"
    "(if neg then tl (s @ r) else s @ r) = u @ r" by (auto simp: neg_def u_def)
  then show ?thesis
    using p i f x num_int_delim [OF r i] num_frac_delim [OF r f] num_exp_delim [OF r x]
    by (simp add: p_number_def Let_def neg_def [symmetric] u_def [symmetric])
qed

lemma show_nat_head: "0 < n \<Longrightarrow> hd (show_nat n) \<noteq> CHR ''0''"
proof (induction n rule: show_nat.induct)
  case (1 n)
  show ?case
  proof (cases "n < 10")
    case True
    then have "char_digit (hd (show_nat n)) = n" by (simp add: show_nat.simps [of n])
    with 1 show ?thesis by (auto simp: char_digit_def)
  next
    case False
    with 1 show ?thesis by (simp add: show_nat.simps [of n])
  qed
qed

lemma num_int_show_nat: "num_int (show_nat n) = Some (show_nat n, [])"
proof (cases "n = 0")
  case True
  then show ?thesis by (simp add: num_int_def show_nat.simps digit_char_def is_digit_def)
next
  case False
  obtain d ds where d: "show_nat n = d # ds" "is_digit d" "list_all is_digit ds" by (rule show_nat_ConsE)
  with show_nat_head [of n] False show ?thesis
    by (auto simp: num_int_def list_all_iff)
qed

lemma p_number_show_int: "p_number (show_int i) = Some (JInt i, [])"
proof -
  have "num_frac [] = ([], [])" "num_exp [] = ([], [])" by (simp_all add: num_frac_def num_exp_def)
  moreover have "hd (show_nat n) \<noteq> CHR ''-''" for n
    using show_nat_ConsE [of n] is_digit_not_sign(1) by (metis list.sel(1))
  ultimately show ?thesis
    by (auto simp: p_number_def show_int_def num_int_show_nat)
qed

lemma p_number_head: "p_number s = Some (j, v) \<Longrightarrow> s \<noteq> [] \<and> (hd s = CHR ''-'' \<or> is_digit (hd s))"
  by (cases s) (auto simp: p_number_def num_int_def is_digit_def Let_def split: if_splits list.splits option.splits)

lemma p_value_number:
  assumes "p_number s = Some (j, v)"
  shows "p_value (Suc n) s = Some (j, v)"
proof -
  obtain c cs where s: "s = c # cs" "c = CHR ''-'' \<or> is_digit c"
    using p_number_head [OF assms] by (cases s) auto
  then have "c \<notin> {CHR 0x22, CHR ''{'', CHR ''['', CHR ''n'', CHR ''t'', CHR ''f''}"
    by (auto simp: is_digit_def)
  with s assms show ?thesis by simp
qed

lemma dumps_head:
  "wf_json v \<Longrightarrow> dumpsP sp v \<noteq> [] \<and> \<not> json_ws (hd (dumpsP sp v)) \<and> hd (dumpsP sp v) \<notin> {CHR '']'', CHR ''}''}"
proof (cases v)
  case (JInt i)
  have "show_int i \<noteq> [] \<and> (hd (show_int i) = CHR ''-'' \<or> is_digit (hd (show_int i)))"
    using p_number_head [OF p_number_show_int] .
  with JInt show ?thesis by (auto simp: json_ws_def is_digit_def)
next
  case (JFloat t)
  assume "wf_json v"
  with JFloat p_number_head [of t] show ?thesis by (auto simp: json_ws_def is_digit_def)
qed (auto simp: json_ws_def dumps_str_def)

lemma skip_ws_pad: "list_all json_ws sp \<Longrightarrow> skip_ws (sp @ s) = skip_ws s"
  by (induction sp) (auto simp: skip_ws_def)

fun jsize :: "json \<Rightarrow> nat" and jsize_list :: "json list \<Rightarrow> nat"
  and jsize_fields :: "(string \<times> json) list \<Rightarrow> nat" where
  "jsize (JArr xs) = Suc (jsize_list xs)"
| "jsize (JObj fs) = Suc (jsize_fields fs)"
| "jsize v = 1"
| "jsize_list [] = 0"
| "jsize_list (x # xs) = Suc (jsize x + jsize_list xs)"
| "jsize_fields [] = 0"
| "jsize_fields ((k, v) # fs) = Suc (jsize v + jsize_fields fs)"

lemma jsize_le_length:
  "wf_json v \<Longrightarrow> jsize v \<le> length (dumpsP sp v)"
  "wf_json_list xs \<Longrightarrow> jsize_list xs \<le> length (dumpsP_list sp xs) + 1"
  "wf_json_fields fs \<Longrightarrow> jsize_fields fs \<le> length (dumpsP_fields sp fs) + 1"
proof (induction sp v and sp xs and sp fs rule: dumpsP_dumpsP_list_dumpsP_fields.induct)
  case (4 sp t)
  with p_number_head [of t] show ?case by (cases t) auto
next
  case (3 sp i)
  with p_number_head [OF p_number_show_int [of i]] show ?case by (cases "show_int i") auto
qed (auto simp: dumps_str_def)

lemma parse_dumps:
  "wf_json v \<Longrightarrow> list_all json_ws sp \<Longrightarrow> jsize v \<le> n \<Longrightarrow> delim r \<Longrightarrow> p_value n (dumpsP sp v @ r) = Some (v, r)"
  "wf_json_list xs \<Longrightarrow> list_all json_ws sp \<Longrightarrow> xs \<noteq> [] \<Longrightarrow> jsize_list xs \<le> n \<Longrightarrow>
     p_elems n (dumpsP_list sp xs @ CHR '']'' # r) = Some (xs, r)"
  "wf_json_fields fs \<Longrightarrow> list_all json_ws sp \<Longrightarrow> fs \<noteq> [] \<Longrightarrow> jsize_fields fs \<le> n \<Longrightarrow>
     p_fields n (dumpsP_fields sp fs @ CHR ''}'' # r) = Some (fs, r)"
proof (induction sp v and sp xs and sp fs arbitrary: n r and n r and n r
    rule: dumpsP_dumpsP_list_dumpsP_fields.induct)
  case (1 sp)
  then show ?case by (cases n) auto
next
  case (2 sp b)
  then show ?case by (cases n) auto
next
  case (3 sp i)
  then show ?case
    using p_value_number [OF p_number_delim [OF _ p_number_show_int]] by (cases n) auto
next
  case (4 sp t)
  then show ?case using p_value_number [OF p_number_delim] by (cases n) fastforce+
next
  case (5 sp s)
  then show ?case using p_string_escape [of s r] by (cases n) (auto simp: dumps_str_def)
next
  case (6 sp xs)
  then obtain m where n: "n = Suc m" by (cases n) auto
  show ?case
  proof (cases xs)
    case Nil
    then show ?thesis by (simp add: n skip_ws_def json_ws_def)
  next
    case (Cons y ys)
    with 6 have "wf_json y" by simp
    then obtain d ds where d: "dumpsP sp y = d # ds" "\<not> json_ws d" "d \<noteq> CHR '']''"
      using dumps_head [of y sp] by (cases "dumpsP sp y") auto
    with 6 n Cons show ?thesis by (simp add: skip_ws_def)
  qed
next
  case (7 sp fs)
  then obtain m where n: "n = Suc m" by (cases n) auto
  show ?case
  proof (cases fs)
    case Nil
    then show ?thesis by (simp add: n skip_ws_def json_ws_def)
  next
    case (Cons y ys)
    obtain k v where y: "y = (k, v)" by (cases y)
    have "p_fields m (dumpsP_fields sp fs @ CHR ''}'' # r) = Some (fs, r)"
      using 7 n Cons by simp
    moreover have "dict_of fs = fs" using 7 by (simp add: dict_of_distinct)
    ultimately show ?thesis using n Cons y by (simp add: skip_ws_def json_ws_def dumps_str_def)
  qed
next
  case (8 sp)
  then show ?case by simp
next
  case (9 sp x xs)
  then obtain m where n: "n = Suc m" by (cases n) auto
  show ?case
  proof (cases "xs = []")
    case True
    with 9 n show ?thesis by (simp add: skip_ws_def json_ws_def)
  next
    case False
    then obtain y ys where xs: "xs = y # ys" by (cases xs) auto
    with 9 have "wf_json y" by simp
    then have "dumpsP_list sp xs \<noteq> [] \<and> \<not> json_ws (hd (dumpsP_list sp xs))"
      using dumps_head [of y sp] xs by auto
    then have "skip_ws (sp @ dumpsP_list sp xs @ CHR '']'' # r) = dumpsP_list sp xs @ CHR '']'' # r"
      using 9 by (simp add: skip_ws_id skip_ws_pad)
    moreover have "skip_ws (CHR '','' # t) = CHR '','' # t" for t by (simp add: skip_ws_def json_ws_def)
    ultimately show ?thesis using 9 n False by simp
  qed
next
  case (10 sp)
  then show ?case by simp
next
  case (11 sp k v fs)
  then obtain m where n: "n = Suc m" by (cases n) auto
  let ?tail = "if fs = [] then [] else CHR '','' # sp @ dumpsP_fields sp fs"
  have k: "p_string (concat (map escape_char k) @ CHR 0x22 # CHR '':'' # sp @ dumpsP sp v @ ?tail @ CHR ''}'' # r)
      = Some (k, CHR '':'' # sp @ dumpsP sp v @ ?tail @ CHR ''}'' # r)"
    by (rule p_string_escape)
  have "skip_ws (sp @ dumpsP sp v @ ?tail @ CHR ''}'' # r) = dumpsP sp v @ ?tail @ CHR ''}'' # r"
    unfolding skip_ws_pad [OF 11(4)] using 11 dumps_head [of v sp] by (intro skip_ws_id) auto
  moreover have "p_value m (dumpsP sp v @ ?tail @ CHR ''}'' # r) = Some (v, ?tail @ CHR ''}'' # r)"
    using 11 n by simp
  moreover have "fs \<noteq> [] \<Longrightarrow> skip_ws (sp @ dumpsP_fields sp fs @ CHR ''}'' # r) = dumpsP_fields sp fs @ CHR ''}'' # r"
    unfolding skip_ws_pad [OF 11(4)] by (rule skip_ws_id) (cases fs, auto simp: dumps_str_def json_ws_def)
  moreover have "skip_ws (CHR '','' # t) = CHR '','' # t" "skip_ws (CHR '':'' # t) = CHR '':'' # t"
    "skip_ws (CHR ''}'' # t) = CHR ''}'' # t" for t by (simp_all add: skip_ws_def json_ws_def)
  ultimately show ?case
    using 11 n k by (simp add: dumps_str_def)
qed

lemma loads_dumpsP: "wf_json v \<Longrightarrow> list_all json_ws sp \<Longrightarrow> loads (dumpsP sp v) = Inr v"
proof -
  assume w: "wf_json v" and sp: "list_all json_ws sp"
  then have "skip_ws (dumpsP sp v) = dumpsP sp v" using dumps_head [of v sp] by (intro skip_ws_id) auto
  moreover have "p_value (Suc (length (dumpsP sp v))) (dumpsP sp v @ []) = Some (v, [])"
    using w sp jsize_le_length(1) [OF w, of sp] by (intro parse_dumps(1)) auto
  ultimately show ?thesis by (simp add: loads_def skip_ws_def)
qed

lemma loads_dumps: "wf_json v \<Longrightarrow> loads (dumps v) = Inr v"
  by (simp add: loads_dumpsP)

lemma loads_dumps_default: "wf_json v \<Longrightarrow> loads (dumps_default v) = Inr v"
  by (simp add: loads_dumpsP json_ws_def)

subsection \<open>The canonical form\<close>

text \<open>\<^verbatim>\<open>_canonical\<close>: sorted keys, compact separators. It is what is hashed, sealed and signed.\<close>

definition canonical :: "json \<Rightarrow> string" where
  "canonical v = dumps (sort_keys v)"

lemma wf_json_fields_iff: "wf_json_fields fs \<longleftrightarrow> (\<forall>(k, v) \<in> set fs. wf_json v)"
  by (induction fs) auto

lemma map_fst_sort_keys_fields [simp]: "map fst (sort_keys_fields fs) = map fst fs"
  by (induction fs) auto

lemma distinct_sort_key_fst: "distinct (map fst (sort_key fst fs)) = distinct (map fst fs)"
proof -
  have "mset (map fst (sort_key fst fs)) = mset (map fst fs)" by simp
  then show ?thesis by (rule mset_eq_imp_distinct_iff)
qed

lemma wf_sort_keys:
  "wf_json v \<Longrightarrow> wf_json (sort_keys v)"
  "wf_json_list xs \<Longrightarrow> wf_json_list (sort_keys_list xs)"
  "wf_json_fields fs \<Longrightarrow> wf_json_fields (sort_keys_fields fs)"
proof (induction v and xs and fs rule: sort_keys_sort_keys_list_sort_keys_fields.induct)
  case (2 fs)
  then show ?case by (auto simp: wf_json_fields_iff distinct_sort_key_fst)
qed auto

lemma loads_canonical: "wf_json v \<Longrightarrow> loads (canonical v) = Inr (sort_keys v)"
  by (simp add: canonical_def loads_dumps wf_sort_keys)

lemma canonical_inject:
  "wf_json v \<Longrightarrow> wf_json w \<Longrightarrow> canonical v = canonical w \<Longrightarrow> sort_keys v = sort_keys w"
  by (metis loads_canonical sum.inject(2))

lemma map_of_sort_key: "distinct (map fst fs) \<Longrightarrow> map_of (sort_key fst fs) = map_of fs"
  by (simp add: map_of_inject_set distinct_sort_key_fst)

lemma map_of_sort_keys_fields: "map_of (sort_keys_fields fs) k = map_option sort_keys (map_of fs k)"
  by (induction fs) auto

lemma jget_sort_keys: "wf_json v \<Longrightarrow> jget (sort_keys v) k = map_option sort_keys (jget v k)"
  by (cases v) (auto simp: map_of_sort_key map_of_sort_keys_fields)

subsection \<open>A cut text does not parse\<close>

definition closed_by :: "string \<Rightarrow> bool" where
  "closed_by t = (t \<noteq> [] \<and> (json_ws (hd t) \<or> hd t \<in> {CHR '','', CHR '']'', CHR ''}''}))"

lemma closed_by_hd: "closed_by t \<Longrightarrow> t \<noteq> [] \<and> hd t \<notin> {CHR ''.'', CHR ''e'', CHR ''E''}"
  by (auto simp: closed_by_def json_ws_def)

lemma skip_ws_append: "skip_ws s \<noteq> [] \<Longrightarrow> skip_ws (s @ r) = skip_ws s @ r"
  by (induction s) (auto simp: skip_ws_def)

lemma closed_by_skip: "skip_ws t = d # t' \<Longrightarrow> d \<in> {CHR '','', CHR '']'', CHR ''}''} \<Longrightarrow> closed_by t"
  by (cases t) (auto simp: closed_by_def skip_ws_def split: if_splits)

lemma while_append:
  "dropWhile p u \<noteq> [] \<Longrightarrow> takeWhile p (u @ r) = takeWhile p u \<and> dropWhile p (u @ r) = dropWhile p u @ r"
  by (induction u) auto

lemma num_int_append: "num_int u = Some (ip, v) \<Longrightarrow> v \<noteq> [] \<Longrightarrow> num_int (u @ r) = Some (ip, v @ r)"
  using while_append [of is_digit u r] by (cases u) (auto simp: num_int_def split: if_splits)

lemma num_frac_append:
  "num_frac u = (f, v) \<Longrightarrow> v \<noteq> [] \<Longrightarrow> hd v \<noteq> CHR ''.'' \<Longrightarrow> num_frac (u @ r) = (f, v @ r)"
  using while_append [of is_digit "tl u" r] by (cases u) (auto simp: num_frac_def split: if_splits)

lemma num_exp_append:
  assumes "num_exp u = (x, t)" "t \<noteq> []" "hd t \<notin> {CHR ''e'', CHR ''E''}"
  shows "num_exp (u @ r) = (x, t @ r)"
proof (cases u)
  case (Cons c w)
  obtain sg z where s: "exp_sign w = (sg, z)" by (cases "exp_sign w")
  show ?thesis
  proof (cases "c = CHR ''e'' \<or> c = CHR ''E''")
    case True
    with assms Cons s have t: "takeWhile is_digit z \<noteq> []" "t = dropWhile is_digit z" "x = c # sg @ takeWhile is_digit z"
      by (auto simp: num_exp_def split: if_splits)
    then have "exp_sign (w @ r) = (sg, z @ r)" using s by (cases w) (auto simp: exp_sign_def split: if_splits)
    with t assms(2) True Cons while_append [of is_digit z r] show ?thesis by (auto simp: num_exp_def)
  next
    case False
    with assms Cons show ?thesis by (auto simp: num_exp_def)
  qed
qed (use assms in \<open>auto simp: num_exp_def\<close>)

lemma num_exp_skip: "u \<noteq> [] \<Longrightarrow> hd u \<notin> {CHR ''e'', CHR ''E''} \<Longrightarrow> num_exp u = ([], u)"
  by (cases u) (auto simp: num_exp_def)

lemma p_number_append:
  assumes "p_number s = Some (j, t)" "closed_by t"
  shows "p_number (s @ r) = Some (j, t @ r)"
proof -
  let ?neg = "s \<noteq> [] \<and> hd s = CHR ''-''" and ?u = "if s \<noteq> [] \<and> hd s = CHR ''-'' then tl s else s"
  obtain ip u1 f u2 x where u: "num_int ?u = Some (ip, u1)" "num_frac u1 = (f, u2)" "num_exp u2 = (x, t)"
    and j: "j = (if f = [] \<and> x = [] then JInt (if ?neg then - int (digits_val ip) else int (digits_val ip))
                 else JFloat ((if ?neg then ''-'' else []) @ ip @ f @ x))"
    using assms(1) by (auto simp: p_number_def Let_def split: option.splits prod.splits)
  note t = closed_by_hd [OF assms(2)]
  have s: "s \<noteq> []" using u(1) by (auto simp: num_int_def)
  have u2: "u2 \<noteq> []" using u(3) t by (auto simp: num_exp_def)
  moreover have "hd u2 \<noteq> CHR ''.''" using num_exp_skip [of u2] u(3) u2 t by auto
  ultimately have f: "num_frac (u1 @ r) = (f, u2 @ r)" using num_frac_append [OF u(2)] by blast
  have "u1 \<noteq> []" using u(2) u2 by (auto simp: num_frac_def)
  then have i: "num_int (?u @ r) = Some (ip, u1 @ r)" using num_int_append [OF u(1)] by blast
  have x: "num_exp (u2 @ r) = (x, t @ r)" using num_exp_append [OF u(3)] t by blast
  have "(s @ r \<noteq> [] \<and> hd (s @ r) = CHR ''-'') = ?neg" "(if ?neg then tl (s @ r) else s @ r) = ?u @ r" using s by auto
  then show ?thesis unfolding p_number_def Let_def using i f x j by simp
qed

lemma starts_with_append: "starts_with s p \<Longrightarrow> starts_with (s @ r) p \<and> drop (length p) (s @ r) = drop (length p) s @ r"
  by (induction s p rule: starts_with.induct) auto

lemma starts_with_drop: "starts_with s p \<Longrightarrow> s = p @ drop (length p) s"
  by (induction s p rule: starts_with.induct) auto

lemma p_value_literals:
  "p_value (Suc n) (''null'' @ x) = Some (JNull, x)" "p_value (Suc n) (''true'' @ x) = Some (JBool True, x)"
  "p_value (Suc n) (''false'' @ x) = Some (JBool False, x)"
  by simp_all

lemma p_char_append: "p_char s = Some (t, u) \<Longrightarrow> p_char (s @ r) = Some (t, u @ r)"
  by (auto simp: p_char_def split: list.splits if_splits)

lemma p_string_append: "p_string s = Some (t, u) \<Longrightarrow> p_string (s @ r) = Some (t, u @ r)"
proof (induction s arbitrary: t u rule: p_string.induct)
  case (1 s)
  show ?case
  proof (cases s)
    case Nil
    with 1 show ?thesis by (simp add: p_string.simps)
  next
    case (Cons c cs)
    show ?thesis
    proof (cases "c = CHR 0x22")
      case True
      with 1 Cons show ?thesis by (simp add: p_string.simps [of "CHR 0x22 # cs"] p_string.simps [of "CHR 0x22 # u @ r"])
    next
      case False
      with 1(2) Cons obtain a b v where p: "p_char s = Some (a, b)" "p_string b = Some (v, u)" "t = a @ v"
        by (auto simp: p_string.simps [of "c # cs"] split: option.splits)
      have "p_string (b @ r) = Some (v, u @ r)" using 1(1) [OF Cons False p(1)] p(2) by simp
      with p p_char_append [OF p(1), of r] Cons False show ?thesis
        by (simp add: p_string.simps [of "c # cs @ r"])
    qed
  qed
qed

lemma parse_Nil: "p_value n [] = None" "p_elems n [] = None" "p_fields n [] = None"
proof -
  show v: "p_value n [] = None" for n by (cases n) auto
  show "p_elems n [] = None" by (cases n) (auto simp: v)
  show "p_fields n [] = None" by (cases n) auto
qed

lemma parse_append:
  "p_value n s = Some (v, t) \<Longrightarrow> closed_by t \<or> (s \<noteq> [] \<and> hd s \<in> {CHR 0x22, CHR ''{'', CHR ''[''}) \<Longrightarrow>
     p_value n (s @ r) = Some (v, t @ r)"
  "p_elems n s = Some (vs, t) \<Longrightarrow> p_elems n (s @ r) = Some (vs, t @ r)"
  "p_fields n s = Some (fs, t) \<Longrightarrow> p_fields n (s @ r) = Some (fs, t @ r)"
proof (induction n s and n s and n s arbitrary: v t and vs t and fs t rule: p_value_p_elems_p_fields.induct)
  case (2 n s)
  then obtain c cs where s: "s = c # cs" by (cases s) auto
  consider "c = CHR 0x22" | "c = CHR ''{''" | "c = CHR ''[''" | "c \<notin> {CHR 0x22, CHR ''{'', CHR ''[''}" by blast
  then show ?case
  proof cases
    case 1
    with 2 s show ?thesis by (auto simp: p_string_append)
  next
    case 2
    with "2.prems"(1) s obtain d u where d: "skip_ws cs = d # u" by (auto split: list.splits)
    then have a: "skip_ws (cs @ r) = d # u @ r" using skip_ws_append [of cs r] by simp
    show ?thesis using "2.prems"(1) "2.IH"(1) [OF s _ 2 d] 2 s d a by (auto split: if_splits)
  next
    case 3
    with "2.prems"(1) s obtain d u where d: "skip_ws cs = d # u" by (auto split: list.splits)
    then have a: "skip_ws (cs @ r) = d # u @ r" using skip_ws_append [of cs r] by simp
    show ?thesis using "2.prems"(1) "2.IH"(2) [OF s _ _ 3 d] 3 s d a by (auto split: if_splits)
  next
    case 4
    show ?thesis
    proof (cases "starts_with s ''null'' \<or> starts_with s ''true'' \<or> starts_with s ''false''")
      case True
      then obtain x where "s = ''null'' @ x \<or> s = ''true'' @ x \<or> s = ''false'' @ x"
        using starts_with_drop [of s] by blast
      then show ?thesis
        using "2.prems"(1) p_value_literals [of n x] p_value_literals [of n "x @ r"]
        by (elim disjE) (simp_all del: p_value.simps)
    next
      case False
      with "2.prems"(1) 4 s have p: "p_number s = Some (v, t)" by (auto split: if_splits)
      have "closed_by t" using "2.prems"(2) 4 s by auto
      from p_value_number [OF p_number_append [OF p this]] show ?thesis .
    qed
  qed
next
  case (4 n s)
  then obtain v u d u' where p: "p_value n s = Some (v, u)" "skip_ws u = d # u'" "d = CHR '']'' \<or> d = CHR '',''"
    by (auto split: option.splits list.splits if_splits)
  have c: "closed_by u" using closed_by_skip [OF p(2)] p(3) by auto
  have v: "p_value n (s @ r) = Some (v, u @ r)" using "4.IH"(1) [OF p(1)] c by blast
  have w: "skip_ws (u @ r) = d # u' @ r" using p(2) skip_ws_append [of u r] by simp
  show ?case
  proof (cases "d = CHR '']''")
    case True
    with "4.prems" p v w show ?thesis by simp
  next
    case False
    with "4.prems" p obtain vs' where e: "p_elems n (skip_ws u') = Some (vs', t)" "vs = v # vs'" by auto
    have "p_elems n (skip_ws u' @ r) = Some (vs', t @ r)" using "4.IH"(2) [OF p(1) refl p(2) False] p(3) False e(1) by blast
    moreover have "skip_ws (u' @ r) = skip_ws u' @ r"
      using e(1) by (intro skip_ws_append) (auto simp: parse_Nil)
    ultimately show ?thesis using p v w False e by simp
  qed
next
  case (6 n s)
  then obtain cs k r0 r1 v u d u' where p: "s = CHR 0x22 # cs" "p_string cs = Some (k, r0)" "skip_ws r0 = CHR '':'' # r1"
    "p_value n (skip_ws r1) = Some (v, u)" "skip_ws u = d # u'" "d = CHR ''}'' \<or> d = CHR '',''"
    by (auto split: option.splits list.splits if_splits)
  have c: "closed_by u" using closed_by_skip [OF p(5)] p(6) by auto
  have "skip_ws r1 \<noteq> []" using p(4) by (cases n) auto
  then have r1: "skip_ws (r1 @ r) = skip_ws r1 @ r" by (rule skip_ws_append)
  have v: "p_value n (skip_ws r1 @ r) = Some (v, u @ r)" using "6.IH"(1) [OF p(1) _ p(2) refl p(3)] p(4) c by blast
  have w: "skip_ws (u @ r) = d # u' @ r" "skip_ws (r0 @ r) = CHR '':'' # r1 @ r"
    using p(3,5) skip_ws_append [of u r] skip_ws_append [of r0 r] by simp_all
  show ?case
  proof (cases "d = CHR ''}''")
    case True
    with "6.prems" p v w r1 p_string_append [OF p(2), of r] show ?thesis by simp
  next
    case False
    with "6.prems" p obtain fs' where e: "p_fields n (skip_ws u') = Some (fs', t)" "fs = (k, v) # fs'" by auto
    have "p_fields n (skip_ws u' @ r) = Some (fs', t @ r)"
      using "6.IH"(2) [OF p(1) _ p(2) refl p(3) _ p(4) refl p(5) False] p(6) False e(1) by blast
    moreover have "skip_ws (u' @ r) = skip_ws u' @ r"
      using e(1) by (intro skip_ws_append) (auto simp: parse_Nil)
    ultimately show ?thesis using p v w r1 False e p_string_append [OF p(2), of r] by simp
  qed
qed simp_all


lemma parse_fuel:
  "p_value n s = Some x \<Longrightarrow> p_value (Suc n) s = Some x"
  "p_elems n s = Some y \<Longrightarrow> p_elems (Suc n) s = Some y"
  "p_fields n s = Some z \<Longrightarrow> p_fields (Suc n) s = Some z"
proof (induction n arbitrary: s x y z)
  case (Suc n)
  {
    case 1
    then show ?case
      unfolding p_value.simps(2) [of n] p_value.simps(2) [of "Suc n"]
      by (auto simp del: p_value.simps p_elems.simps p_fields.simps dest: Suc(2) Suc(3) split: list.splits if_splits)
  next
    case 2
    then obtain v u d u' where v: "p_value n s = Some (v, u)" "skip_ws u = d # u'"
      by (auto simp del: p_value.simps split: option.splits list.splits)
    with 2 have y: "(if d = CHR '']'' then Some ([v], u')
        else if d = CHR '','' then map_option (\<lambda>(vs, x). (v # vs, x)) (p_elems n (skip_ws u')) else None) = Some y"
      by (simp del: p_value.simps)
    show ?case
      by (subst p_elems.simps(2)) (use y Suc(1) [OF v(1)] v(2) in
          \<open>auto simp del: p_value.simps p_elems.simps dest: Suc(2) split: if_splits\<close>)
  next
    case 3
    then obtain cs k r0 r1 v u d u' where p: "s = CHR 0x22 # cs" "p_string cs = Some (k, r0)" "skip_ws r0 = CHR '':'' # r1"
      "p_value n (skip_ws r1) = Some (v, u)" "skip_ws u = d # u'"
      by (auto simp del: p_value.simps split: option.splits list.splits if_splits)
    with 3 have z: "(if d = CHR ''}'' then Some ([(k, v)], u')
        else if d = CHR '','' then map_option (\<lambda>(fs, x). ((k, v) # fs, x)) (p_fields n (skip_ws u')) else None) = Some z"
      by (simp del: p_value.simps)
    show ?case
      by (subst p_fields.simps(2)) (use z Suc(1) [OF p(4)] p in
          \<open>auto simp del: p_value.simps p_fields.simps dest: Suc(3) split: if_splits\<close>)
  }
qed simp_all

lemma parse_fuel_le: "p_value n s = Some x \<Longrightarrow> n \<le> m \<Longrightarrow> p_value m s = Some x"
  by (induction m) (auto simp del: p_value.simps simp: le_Suc_eq parse_fuel(1))

lemma loads_prefix:
  assumes "wf_json (JObj fs)" "list_all json_ws sp" "dumpsP sp (JObj fs) = a @ b" "loads a = Inr v"
  shows "b = []"
proof -
  let ?t = "dumpsP sp (JObj fs)"
  have a: "a \<noteq> []" using assms(4) by (auto simp: loads_def skip_ws_def)
  then have h: "hd a = CHR ''{''" using assms(3) by (cases a) auto
  then have sk: "skip_ws a = a" using a by (cases a) (auto simp: skip_ws_def json_ws_def)
  obtain r where r: "p_value (Suc (length a)) a = Some (v, r)"
    using assms(4) sk by (auto simp: loads_def simp del: p_value.simps split: option.splits if_splits)
  have "p_value (Suc (length a)) (a @ b) = Some (v, r @ b)" using parse_append(1) [OF r] a h by simp
  then have "p_value (Suc (length ?t)) ?t = Some (v, r @ b)"
    unfolding assms(3) by (rule parse_fuel_le) simp
  moreover have "p_value (Suc (length ?t)) (?t @ []) = Some (JObj fs, [])"
    using jsize_le_length(1) [OF assms(1), of sp] by (intro parse_dumps(1) [OF assms(1,2)]) auto
  ultimately show ?thesis by simp
qed

subsection \<open>Written text has no control characters\<close>

lemma escape_char_printable: "c \<in> set (escape_char d) \<Longrightarrow> 32 \<le> (of_char c :: nat)"
  by (auto simp: escape_char_def hex_digit_def split: if_splits)

definition number_char :: "char \<Rightarrow> bool" where
  "number_char c = (is_digit c \<or> c \<in> {CHR ''.'', CHR ''-'', CHR ''+'', CHR ''e'', CHR ''E''})"

lemma number_part_chars:
  "num_int u = Some (ip, v) \<Longrightarrow> list_all number_char ip"
  "num_frac u = (f, v) \<Longrightarrow> list_all number_char f"
  "num_exp u = (x, v) \<Longrightarrow> list_all number_char x"
proof -
  have d: "list_all number_char (takeWhile is_digit w)" for w
    by (auto simp: list_all_iff number_char_def dest: set_takeWhileD)
  show "num_int u = Some (ip, v) \<Longrightarrow> list_all number_char ip"
    using d [of u] by (cases u) (auto simp: num_int_def number_char_def is_digit_def split: if_splits)
  show "num_frac u = (f, v) \<Longrightarrow> list_all number_char f"
    using d [of "tl u"] by (cases u) (auto simp: num_frac_def number_char_def split: if_splits)
  show "num_exp u = (x, v) \<Longrightarrow> list_all number_char x"
    using d [of "snd (exp_sign (tl u))"]
    by (cases u; cases "tl u") (auto simp: num_exp_def exp_sign_def number_char_def split: if_splits prod.splits)
qed

lemma p_number_chars: "p_number s = Some (JFloat t, r) \<Longrightarrow> list_all number_char t"
  by (auto simp: p_number_def Let_def number_part_chars split: option.splits prod.splits if_splits)
    (auto simp: number_char_def)

lemma number_char_printable: "number_char c \<Longrightarrow> 32 \<le> (of_char c :: nat)"
  by (auto simp: number_char_def is_digit_def)

lemma is_digit_printable: "is_digit c \<Longrightarrow> 32 \<le> (of_char c :: nat)"
  by (simp add: is_digit_def)

lemma show_int_printable: "c \<in> set (show_int i) \<Longrightarrow> 32 \<le> (of_char c :: nat)"
  by (auto simp: show_int_def is_digit_printable split: if_splits dest!: show_nat_digits)

lemma dumpsP_printable:
  "wf_json v \<Longrightarrow> \<forall>c \<in> set sp. 32 \<le> (of_char c :: nat) \<Longrightarrow> \<forall>c \<in> set (dumpsP sp v). 32 \<le> (of_char c :: nat)"
  "wf_json_list xs \<Longrightarrow> \<forall>c \<in> set sp. 32 \<le> (of_char c :: nat) \<Longrightarrow> \<forall>c \<in> set (dumpsP_list sp xs). 32 \<le> (of_char c :: nat)"
  "wf_json_fields fs \<Longrightarrow> \<forall>c \<in> set sp. 32 \<le> (of_char c :: nat) \<Longrightarrow> \<forall>c \<in> set (dumpsP_fields sp fs). 32 \<le> (of_char c :: nat)"
proof (induction sp v and sp xs and sp fs rule: dumpsP_dumpsP_list_dumpsP_fields.induct)
  case (4 sp t)
  then show ?case using p_number_chars [of t t "[]"] number_char_printable by (auto simp: list_all_iff)
qed (auto simp: show_int_printable dumps_str_def dest!: escape_char_printable)

end
