(* ===== verification/Dates.thy ===== *)
theory Dates
  imports Prelude
begin

text \<open>
  Python's \<^verbatim>\<open>datetime.date\<close> as the program uses it: validity, the proleptic ordinal, \<^verbatim>\<open>isoformat\<close>
  and \<^verbatim>\<open>fromisoformat\<close> (calendar and week forms, with and without separators). The program
  compares ISO texts where it means dates; \<open>isoformat_less_iff\<close> shows that this is the order of
  the dates.
\<close>

datatype date = Date (d_year: nat) (d_month: nat) (d_day: nat)

definition is_leap :: "nat \<Rightarrow> bool" where
  "is_leap y = (y mod 4 = 0 \<and> (y mod 100 \<noteq> 0 \<or> y mod 400 = 0))"

definition days_in_month :: "nat \<Rightarrow> nat \<Rightarrow> nat" where
  "days_in_month y m =
     (if m = 2 then (if is_leap y then 29 else 28) else if m \<in> {4, 6, 9, 11} then 30 else 31)"

definition valid_date :: "date \<Rightarrow> bool" where
  "valid_date d = (1 \<le> d_year d \<and> d_year d \<le> 9999 \<and> 1 \<le> d_month d \<and> d_month d \<le> 12 \<and>
                   1 \<le> d_day d \<and> d_day d \<le> days_in_month (d_year d) (d_month d))"

definition days_before_year :: "nat \<Rightarrow> nat" where
  "days_before_year y = (let p = y - 1 in p * 365 + p div 4 - p div 100 + p div 400)"

fun days_before_month :: "nat \<Rightarrow> nat \<Rightarrow> nat" where
  "days_before_month y 0 = 0"
| "days_before_month y (Suc m) = (if m = 0 then 0 else days_before_month y m + days_in_month y m)"

definition toordinal :: "date \<Rightarrow> nat" where
  "toordinal d = days_before_year (d_year d) + days_before_month (d_year d) (d_month d) + d_day d"

subsection \<open>ISO text\<close>

definition pad2 :: "nat \<Rightarrow> string" where
  "pad2 n = [digit_char (n div 10), digit_char (n mod 10)]"

definition pad4 :: "nat \<Rightarrow> string" where
  "pad4 n = [digit_char (n div 1000), digit_char (n div 100 mod 10), digit_char (n div 10 mod 10), digit_char (n mod 10)]"

definition isoformat :: "date \<Rightarrow> string" where
  "isoformat d = pad4 (d_year d) @ ''-'' @ pad2 (d_month d) @ ''-'' @ pad2 (d_day d)"

definition mk_date :: "nat \<Rightarrow> nat \<Rightarrow> nat \<Rightarrow> date option" where
  "mk_date y m d = (if valid_date (Date y m d) then Some (Date y m d) else None)"

text \<open>The date with a given ordinal, found by walking from the first day of a year.\<close>

fun month_of_yday :: "nat \<Rightarrow> nat \<Rightarrow> nat \<Rightarrow> nat \<Rightarrow> date" where
  "month_of_yday 0 y m n = Date y m n"
| "month_of_yday (Suc k) y m n =
     (if n \<le> days_in_month y m then Date y m n else month_of_yday k y (Suc m) (n - days_in_month y m))"

definition date_of_year_day :: "nat \<Rightarrow> int \<Rightarrow> date option" where
  "date_of_year_day y n =
     (let len = (if is_leap y then 366 else 365); prev = (if is_leap (y - 1) then 366 else 365) in
      if n < 1 then (if y \<le> 1 then None else Some (month_of_yday 12 (y - 1) 1 (nat (n + prev))))
      else if n > len then (if y \<ge> 9999 then None else Some (month_of_yday 12 (y + 1) 1 (nat (n - len))))
      else Some (month_of_yday 12 y 1 (nat n)))"

text \<open>
  Day \<open>d\<close> of ISO week \<open>w\<close>: week 1 holds the year's first Thursday; weekday 0 is Monday and
  ordinal 1 is a Monday. Week 53 exists only in a year that starts on a Thursday, or on a
  Wednesday in a leap year.
\<close>

definition week_date :: "nat \<Rightarrow> nat \<Rightarrow> nat \<Rightarrow> date option" where
  "week_date y w d =
     (let first = (days_before_year y + 1 + 6) mod 7;
          long = (first = 3 \<or> (first = 2 \<and> is_leap y));
          monday1 = (if first \<le> 3 then 1 - int first else 8 - int first)
      in if 1 \<le> y \<and> 1 \<le> w \<and> (w \<le> 52 \<or> (w = 53 \<and> long)) \<and> 1 \<le> d \<and> d \<le> 7
         then date_of_year_day y (monday1 + 7 * int (w - 1) + int (d - 1)) else None)"

definition fromisoformat :: "string \<Rightarrow> date option" where
  "fromisoformat s =
     (let num = (\<lambda>t. if t \<noteq> [] \<and> list_all is_digit t then Some (digits_val t) else None);
          y = num (take 4 s); r = drop 4 s; n = length s
      in case y of None \<Rightarrow> None
         | Some yy \<Rightarrow>
             if n = 10 \<and> r ! 0 = CHR ''-'' \<and> r ! 3 = CHR ''-'' \<and> r ! 1 \<noteq> CHR ''W'' then
               (case (num (take 2 (drop 1 r)), num (drop 4 r)) of
                  (Some m, Some d) \<Rightarrow> mk_date yy m d | _ \<Rightarrow> None)
             else if n = 8 \<and> r ! 0 \<noteq> CHR ''-'' \<and> r ! 0 \<noteq> CHR ''W'' then
               (case (num (take 2 r), num (drop 2 r)) of
                  (Some m, Some d) \<Rightarrow> mk_date yy m d | _ \<Rightarrow> None)
             else if n = 8 \<and> r ! 0 = CHR ''-'' \<and> r ! 1 = CHR ''W'' then
               (case num (drop 2 r) of Some w \<Rightarrow> week_date yy w 1 | _ \<Rightarrow> None)
             else if n = 10 \<and> r ! 0 = CHR ''-'' \<and> r ! 1 = CHR ''W'' \<and> r ! 4 = CHR ''-'' then
               (case (num (take 2 (drop 2 r)), num (drop 5 r)) of
                  (Some w, Some d) \<Rightarrow> week_date yy w d | _ \<Rightarrow> None)
             else if n = 7 \<and> r ! 0 = CHR ''W'' then
               (case num (drop 1 r) of Some w \<Rightarrow> week_date yy w 1 | _ \<Rightarrow> None)
             else if n = 8 \<and> r ! 0 = CHR ''W'' then
               (case (num (take 2 (drop 1 r)), num (drop 3 r)) of
                  (Some w, Some d) \<Rightarrow> week_date yy w d | _ \<Rightarrow> None)
             else None)"

subsection \<open>Facts\<close>

lemma digits_val2: "a < 10 \<Longrightarrow> b < 10 \<Longrightarrow> digits_val [digit_char a, digit_char b] = a * 10 + b"
  by (simp add: digits_val_def)

lemma digits_val4: "a < 10 \<Longrightarrow> b < 10 \<Longrightarrow> c < 10 \<Longrightarrow> d < 10 \<Longrightarrow>
    digits_val [digit_char a, digit_char b, digit_char c, digit_char d] = a * 1000 + b * 100 + c * 10 + d"
  by (simp add: digits_val_def)

lemma pad2_val: "n < 100 \<Longrightarrow> digits_val (pad2 n) = n \<and> list_all is_digit (pad2 n)"
  by (simp add: pad2_def digits_val2)

lemma pad4_val: "n < 10000 \<Longrightarrow> digits_val (pad4 n) = n \<and> list_all is_digit (pad4 n)"
proof -
  assume n: "n < 10000"
  have split: "n = x * 10 + a \<Longrightarrow> x = y * 10 + b \<Longrightarrow> y = z * 10 + c \<Longrightarrow> z * 1000 + c * 100 + b * 10 + a = n"
    for x y z a b c by simp
  have d: "n div 10 div 10 = n div 100" "n div 100 div 10 = n div 1000"
    by (simp_all add: div_mult2_eq [symmetric])
  have "n div 1000 * 1000 + n div 100 mod 10 * 100 + n div 10 mod 10 * 10 + n mod 10 = n"
    using div_mult_mod_eq [of "n div 10" 10] div_mult_mod_eq [of "n div 100" 10]
    by (intro split [of "n div 10" _ "n div 100"]) (simp_all only: d div_mult_mod_eq)
  with n show ?thesis by (auto simp: pad4_def digits_val4)
qed

lemma valid_dateD:
  assumes "valid_date d"
  shows "d_year d < 10000" "d_month d < 100" "d_day d < 100" "1 \<le> d_month d" "d_month d \<le> 12" "1 \<le> d_day d"
  using assms by (auto simp: valid_date_def days_in_month_def split: if_splits)

lemma fromisoformat_isoformat: "valid_date d \<Longrightarrow> fromisoformat (isoformat d) = Some d"
proof -
  assume v: "valid_date d"
  note b = valid_dateD [OF v]
  note vals = pad4_val [OF b(1)] pad2_val [OF b(2)] pad2_val [OF b(3)]
  have take: "take 4 (isoformat d) = pad4 (d_year d)" "drop 4 (isoformat d) = ''-'' @ pad2 (d_month d) @ ''-'' @ pad2 (d_day d)"
    "length (isoformat d) = 10"
    by (simp_all add: isoformat_def pad4_def pad2_def)
  have ne: "pad4 (d_year d) \<noteq> []" "pad2 (d_month d) \<noteq> []" "pad2 (d_day d) \<noteq> []"
    "length (pad2 (d_month d)) = 2" "length (pad2 (d_day d)) = 2"
    by (simp_all add: pad4_def pad2_def)
  have w: "digit_char (d_month d div 10) \<noteq> CHR ''W''"
    using is_digit_digit_char [of "d_month d div 10"] b(2) by (auto simp: is_digit_def less_mult_imp_div_less)
  have "mk_date (d_year d) (d_month d) (d_day d) = Some d"
    using v by (simp add: mk_date_def)
  with vals take ne w show ?thesis
    by (simp add: fromisoformat_def Let_def pad2_def)
qed

lemma digit_char_less_iff: "a < 10 \<Longrightarrow> b < 10 \<Longrightarrow> digit_char a < digit_char b \<longleftrightarrow> a < b"
  by (simp add: less_char_def of_char_digit_char)

lemma digit_char_eq_iff: "a < 10 \<Longrightarrow> b < 10 \<Longrightarrow> digit_char a = digit_char b \<longleftrightarrow> a = b"
  by (metis char_digit_digit_char)

lemma append_less_same_length:
  "length a = length b \<Longrightarrow> a @ s < b @ t \<longleftrightarrow> a < b \<or> (a = b \<and> s < t)" for a b :: string
  by (induction a b rule: list_induct2) auto

lemma less_by_div_mod:
  fixes a b k :: nat
  shows "a < b \<longleftrightarrow> a div k < b div k \<or> (a div k = b div k \<and> a mod k < b mod k)"
proof (cases "a div k = b div k")
  case True
  then show ?thesis using div_mult_mod_eq [of a k] div_mult_mod_eq [of b k] by (metis add_less_cancel_left less_irrefl)
next
  case False
  then show ?thesis using div_le_mono [of a b k] div_le_mono [of b a k] by (metis le_neq_implies_less linorder_not_le less_imp_le)
qed

lemma pad2_less: "a < 100 \<Longrightarrow> b < 100 \<Longrightarrow> pad2 a < pad2 b \<longleftrightarrow> a < b"
proof -
  assume ab: "a < 100" "b < 100"
  have "pad2 a < pad2 b \<longleftrightarrow> a div 10 < b div 10 \<or> (a div 10 = b div 10 \<and> a mod 10 < b mod 10)"
    using ab by (auto simp: pad2_def digit_char_less_iff digit_char_eq_iff)
  then show ?thesis by (simp only: less_by_div_mod [of a b 10])
qed

lemma pad_eq: "a < 100 \<Longrightarrow> b < 100 \<Longrightarrow> pad2 a = pad2 b \<longleftrightarrow> a = b"
  "c < 10000 \<Longrightarrow> e < 10000 \<Longrightarrow> pad4 c = pad4 e \<longleftrightarrow> c = e"
  by (metis pad2_val, metis pad4_val)

lemma pad4_less: "a < 10000 \<Longrightarrow> b < 10000 \<Longrightarrow> pad4 a < pad4 b \<longleftrightarrow> a < b"
proof -
  assume ab: "a < 10000" "b < 10000"
  have split: "pad4 n = pad2 (n div 100) @ pad2 (n mod 100)" if "n < 10000" for n
  proof -
    have "n mod 100 = 10 * (n div 10 mod 10) + n mod 10" using mod_mult2_eq [of n 10 10] by simp
    then have "n mod 100 div 10 = n div 10 mod 10" "n mod 100 mod 10 = n mod 10" by simp_all
    moreover have "n div 100 div 10 = n div 1000" by (simp add: div_mult2_eq [symmetric])
    ultimately show ?thesis by (simp add: pad4_def pad2_def)
  qed
  have l: "length (pad2 (a div 100)) = length (pad2 (b div 100))" by (simp add: pad2_def)
  have "pad4 a < pad4 b \<longleftrightarrow> a div 100 < b div 100 \<or> (a div 100 = b div 100 \<and> a mod 100 < b mod 100)"
    using ab by (simp add: split append_less_same_length [OF l] pad2_less pad_eq)
  then show ?thesis by (simp only: less_by_div_mod [of a b 100])
qed

definition date_less :: "date \<Rightarrow> date \<Rightarrow> bool" where
  "date_less a b = (d_year a < d_year b \<or> (d_year a = d_year b \<and>
     (d_month a < d_month b \<or> (d_month a = d_month b \<and> d_day a < d_day b))))"

lemma isoformat_less: "valid_date a \<Longrightarrow> valid_date b \<Longrightarrow> isoformat a < isoformat b \<longleftrightarrow> date_less a b"
proof -
  assume v: "valid_date a" "valid_date b"
  have l: "length (pad4 (d_year a)) = length (pad4 (d_year b))" "length (pad2 (d_month a)) = length (pad2 (d_month b))"
    by (simp_all add: pad4_def pad2_def)
  note bs = valid_dateD [OF v(1)] valid_dateD [OF v(2)]
  show ?thesis
    unfolding isoformat_def
    using bs by (simp add: append_less_same_length [OF l(1)] append_less_same_length [OF l(2)]
        pad2_less pad4_less pad_eq date_less_def)
qed

lemma days_before_month_step:
  "1 \<le> m \<Longrightarrow> days_before_month y (Suc m) = days_before_month y m + days_in_month y m"
  by simp

lemma days_before_month_mono:
  "m < n \<Longrightarrow> 1 \<le> m \<Longrightarrow> days_before_month y m + days_in_month y m \<le> days_before_month y n"
  by (induction n) (auto simp: less_Suc_eq)

lemma days_before_month_12: "days_before_month y 12 = (if is_leap y then 335 else 334)"
  by (simp add: numeral_eq_Suc days_in_month_def)

lemma yday_bound:
  assumes "1 \<le> m" "m \<le> 12" "d \<le> days_in_month y m"
  shows "days_before_month y m + d \<le> (if is_leap y then 366 else 365)"
proof (cases "m = 12")
  case True
  with assms(3) show ?thesis by (simp add: days_before_month_12 days_in_month_def)
next
  case False
  with assms have "days_before_month y m + days_in_month y m \<le> days_before_month y 12"
    by (intro days_before_month_mono) auto
  with assms(3) show ?thesis by (simp add: days_before_month_12 split: if_splits)
qed

lemma leap_count_step:
  fixes a b c p :: nat
  assumes "b \<le> p * 365" "l400 \<Longrightarrow> l100" "l100 \<Longrightarrow> l4"
  shows "Suc p * 365 + (if l4 then Suc a else a) - (if l100 then Suc b else b) + (if l400 then Suc c else c)
    = p * 365 + a - b + c + (if l4 \<and> (\<not> l100 \<or> l400) then 366 else 365)"
  by (cases l4; cases l100; cases l400) (use assms in simp_all)

lemma days_before_year_Suc:
  "1 \<le> y \<Longrightarrow> days_before_year (Suc y) = days_before_year y + (if is_leap y then 366 else 365)"
proof -
  assume "1 \<le> y"
  then obtain p where y: "y = Suc p" by (cases y) auto
  note D = div_Suc [of p 4] div_Suc [of p 100] div_Suc [of p 400]
  have m: "Suc p mod 400 = 0 \<Longrightarrow> Suc p mod 100 = 0" "Suc p mod 100 = 0 \<Longrightarrow> Suc p mod 4 = 0"
    by (simp_all only: mod_eq_0_iff_dvd) (auto intro: dvd_trans [of _ 400] dvd_trans [of _ 100])
  have le: "p div 100 \<le> p * 365" by (rule le_trans [OF div_le_dividend]) simp
  show ?thesis
    unfolding y days_before_year_def Let_def is_leap_def diff_Suc_1 D
    by (rule leap_count_step [OF le m])
qed

lemma days_before_year_mono:
  "a < b \<Longrightarrow> 1 \<le> a \<Longrightarrow> days_before_year a + (if is_leap a then 366 else 365) \<le> days_before_year b"
proof (induction b)
  case 0
  then show ?case by simp
next
  case (Suc b)
  show ?case
  proof (cases "a = b")
    case True
    with Suc.prems show ?thesis by (simp add: days_before_year_Suc)
  next
    case False
    with Suc have "days_before_year a + (if is_leap a then 366 else 365) \<le> days_before_year b" by simp
    also have "\<dots> \<le> days_before_year (Suc b)" using Suc.prems by (simp add: days_before_year_Suc)
    finally show ?thesis .
  qed
qed

lemma toordinal_less:
  assumes "valid_date a" "valid_date b" "date_less a b"
  shows "toordinal a < toordinal b"
proof -
  have va: "1 \<le> d_month a" "d_month a \<le> 12" "d_day a \<le> days_in_month (d_year a) (d_month a)" "1 \<le> d_year a"
    using assms(1) by (auto simp: valid_date_def)
  have vb: "1 \<le> d_day b" "1 \<le> d_month b" using assms(2) by (auto simp: valid_date_def)
  consider "d_year a < d_year b" | "d_year a = d_year b" "d_month a < d_month b"
    | "d_year a = d_year b" "d_month a = d_month b" "d_day a < d_day b"
    using assms(3) by (auto simp: date_less_def)
  then show ?thesis
  proof cases
    case 1
    from days_before_year_mono [OF 1 va(4)] yday_bound [OF va(1,2,3)] vb show ?thesis
      by (simp add: toordinal_def)
  next
    case 2
    from days_before_month_mono [OF 2(2) va(1), of "d_year a"] va(3) vb 2(1) show ?thesis
      by (simp add: toordinal_def)
  next
    case 3
    then show ?thesis by (simp add: toordinal_def)
  qed
qed

lemma date_less_total: "a \<noteq> b \<Longrightarrow> date_less a b \<or> date_less b a"
  by (cases a; cases b) (auto simp: date_less_def)

lemma toordinal_less_iff:
  assumes "valid_date a" "valid_date b"
  shows "toordinal a < toordinal b \<longleftrightarrow> date_less a b"
  using toordinal_less [OF assms] toordinal_less [OF assms(2,1)] date_less_total [of a b]
  by (metis order_less_asym' less_irrefl)

lemma isoformat_less_iff:
  assumes "valid_date a" "valid_date b"
  shows "isoformat a < isoformat b \<longleftrightarrow> toordinal a < toordinal b"
  using assms by (simp add: isoformat_less toordinal_less_iff)

end
