(* ===== verification/Events.thy ===== *)
theory Events
  imports Json Py_Decimal Dates
begin

text \<open>
  \<^verbatim>\<open>product/viva/ledger/events.py\<close>: provenance, postings, events and the typed constructors, which
  are the only supported way to build an event. A constructor takes the source's arguments in the
  source's order after the identity \<open>eid\<close> that \<^verbatim>\<open>uuid4\<close> yields, and returns the event or the
  exception of its first failing guard. Bodies are JSON values built key by key in the source's
  order. Where a stored dict is read back, the types the dataclasses declare are required of it.
\<close>

subsection \<open>Provenance\<close>

record provenance =
  prov_doc_id :: string
  prov_page :: "int option"
  prov_region :: string
  prov_note :: string

definition prov_empty :: provenance where
  "prov_empty = \<lparr>prov_doc_id = [], prov_page = None, prov_region = [], prov_note = []\<rparr>"

definition prov_of_doc :: "string \<Rightarrow> provenance" where
  "prov_of_doc d = prov_empty\<lparr>prov_doc_id := d\<rparr>"

definition prov_to_dict :: "provenance \<Rightarrow> json" where
  "prov_to_dict p =
     JObj [(''doc_id'', JStr (prov_doc_id p)),
           (''page'', case prov_page p of None \<Rightarrow> JNull | Some n \<Rightarrow> JInt n),
           (''region'', JStr (prov_region p)), (''note'', JStr (prov_note p))]"

fun str_or :: "string \<Rightarrow> json option \<Rightarrow> string res" where
  "str_or d None = Inr d"
| "str_or d (Some (JStr s)) = Inr s"
| "str_or d (Some _) = Inl (TypeError ''text expected'')"

fun page_of :: "json option \<Rightarrow> int option res" where
  "page_of None = Inr None"
| "page_of (Some JNull) = Inr None"
| "page_of (Some (JInt n)) = Inr (Some n)"
| "page_of (Some _) = Inl (TypeError ''page number expected'')"

text \<open>\<^verbatim>\<open>Provenance.from_dict(d)\<close>, where \<open>None\<close>, null and the empty dict all read as empty.\<close>

definition prov_from_dict :: "json option \<Rightarrow> provenance res" where
  "prov_from_dict d =
     (let j = (case d of None \<Rightarrow> JObj [] | Some JNull \<Rightarrow> JObj [] | Some v \<Rightarrow> v) in
      bindR (str_or [] (jget j ''doc_id'')) (\<lambda>doc.
      bindR (page_of (jget j ''page'')) (\<lambda>pg.
      bindR (str_or [] (jget j ''region'')) (\<lambda>rg.
      bindR (str_or [] (jget j ''note'')) (\<lambda>nt.
        Inr \<lparr>prov_doc_id = doc, prov_page = pg, prov_region = rg, prov_note = nt\<rparr>)))))"

definition prov_or :: "provenance option \<Rightarrow> provenance \<Rightarrow> provenance" where
  "prov_or p d = (case p of None \<Rightarrow> d | Some q \<Rightarrow> q)"

subsection \<open>Grades and postings\<close>

definition VERIFIED :: string where "VERIFIED = ''verified''"
definition CORROBORATED :: string where "CORROBORATED = ''corroborated''"
definition UNVERIFIED :: string where "UNVERIFIED = ''unverified''"
definition CONFLICTED :: string where "CONFLICTED = ''conflicted''"

definition GRADES :: "string list" where
  "GRADES = [VERIFIED, CORROBORATED, UNVERIFIED, CONFLICTED]"

record posting =
  p_account :: string
  p_amount :: decimal
  p_grade :: string

definition Posting :: "string \<Rightarrow> pynum \<Rightarrow> string \<Rightarrow> posting res" where
  "Posting account amount grade =
     guardR (case amount of PFloat _ \<Rightarrow> False | _ \<Rightarrow> True) (TypeError ''Posting.amount must be Decimal, never float (T2)'')
     (bindR (py_Decimal amount) (\<lambda>a.
      guardR (grade \<in> set GRADES) (ValueError ''unknown grade'')
      (Inr \<lparr>p_account = account, p_amount = a, p_grade = grade\<rparr>)))"

definition posting_to_dict :: "posting \<Rightarrow> json" where
  "posting_to_dict p =
     JObj [(''account'', JStr (p_account p)), (''amount'', JStr (dec_str (p_amount p))),
           (''grade'', JStr (p_grade p))]"

fun num_of_json :: "json \<Rightarrow> pynum res" where
  "num_of_json (JStr s) = Inr (PStr s)"
| "num_of_json (JInt i) = Inr (PInt i)"
| "num_of_json _ = Inl (TypeError ''number or text expected'')"

definition posting_from_dict :: "json \<Rightarrow> posting res" where
  "posting_from_dict d =
     bindR (jitem d ''account'') (\<lambda>aj.
     bindR (str_or [] (Some aj)) (\<lambda>account.
     bindR (jitem d ''amount'') (\<lambda>mj.
     bindR (num_of_json mj) (\<lambda>n.
     bindR (py_Decimal n) (\<lambda>amount.
     bindR (str_or UNVERIFIED (jget d ''grade'')) (\<lambda>grade.
       Posting account (PDec amount) grade))))))"

definition posting_wf :: "posting \<Rightarrow> bool" where
  "posting_wf p = (p_grade p \<in> set GRADES)"

subsection \<open>Events\<close>

record event =
  event_type :: string
  occurred_at :: string
  body :: json
  ev_provenance :: provenance
  event_id :: string

definition Event :: "string \<Rightarrow> string \<Rightarrow> string \<Rightarrow> json \<Rightarrow> provenance \<Rightarrow> event" where
  "Event eid ty occ b p =
     \<lparr>event_type = ty, occurred_at = occ, body = b, ev_provenance = p, event_id = eid\<rparr>"

definition event_to_dict :: "event \<Rightarrow> json" where
  "event_to_dict e =
     JObj [(''event_type'', JStr (event_type e)), (''event_id'', JStr (event_id e)),
           (''occurred_at'', JStr (occurred_at e)), (''provenance'', prov_to_dict (ev_provenance e)),
           (''body'', body e)]"

text \<open>\<^verbatim>\<open>Event.from_dict(d)\<close>; \<open>fresh\<close> is the identity \<^verbatim>\<open>uuid4\<close> supplies when none is stored.\<close>

definition event_from_dict :: "string \<Rightarrow> json \<Rightarrow> event res" where
  "event_from_dict fresh d =
     bindR (jitem d ''event_type'') (\<lambda>tj.
     bindR (str_or [] (Some tj)) (\<lambda>ty.
     bindR (jitem d ''occurred_at'') (\<lambda>oj.
     bindR (str_or [] (Some oj)) (\<lambda>occ.
     bindR (prov_from_dict (jget d ''provenance'')) (\<lambda>pv.
     bindR (str_or fresh (jget d ''event_id'')) (\<lambda>eid.
       Inr (Event eid ty occ (case jget d ''body'' of None \<Rightarrow> JObj [] | Some b \<Rightarrow> b) pv)))))))"

definition JStrs :: "string list \<Rightarrow> json" where
  "JStrs xs = JArr (map JStr xs)"

definition transaction_recorded ::
    "string \<Rightarrow> posting list \<Rightarrow> string \<Rightarrow> string \<Rightarrow> string list option \<Rightarrow> provenance option \<Rightarrow> event" where
  "transaction_recorded eid postings description occ tags prov =
     Event eid ''TransactionRecorded'' occ
       (JObj [(''description'', JStr description),
              (''postings'', JArr (map posting_to_dict postings)),
              (''tags'', JStrs (case tags of None \<Rightarrow> [] | Some ts \<Rightarrow> ts))])
       (prov_or prov prov_empty)"

definition postings_of :: "event \<Rightarrow> posting list res" where
  "postings_of e =
     (case jget (body e) ''postings'' of None \<Rightarrow> Inr []
      | Some (JArr ps) \<Rightarrow> mapR posting_from_dict ps
      | Some _ \<Rightarrow> Inl (TypeError ''postings is not a list''))"

subsection \<open>Reading back what was written\<close>

lemma prov_from_to [simp]: "prov_from_dict (Some (prov_to_dict p)) = Inr p"
  by (cases p) (auto simp: prov_from_dict_def prov_to_dict_def split: option.splits)

lemma posting_from_to: "posting_wf p \<Longrightarrow> posting_from_dict (posting_to_dict p) = Inr p"
  by (cases p) (simp add: posting_from_dict_def posting_to_dict_def Posting_def posting_wf_def dec_parse_dec_str)

lemma Posting_wf: "Posting a n g = Inr p \<Longrightarrow> posting_wf p \<and> p_account p = a \<and> p_grade p = g"
  by (auto simp: Posting_def posting_wf_def res_iffs)

lemma event_from_to: "event_from_dict fresh (event_to_dict e) = Inr e"
  by (cases e) (simp add: event_from_dict_def event_to_dict_def Event_def)

lemma postings_of_transaction_recorded:
  "list_all posting_wf ps \<Longrightarrow> postings_of (transaction_recorded eid ps descr occ tags prov) = Inr ps"
  by (simp add: postings_of_def transaction_recorded_def Event_def mapR_map_Inr posting_from_to list_all_iff)

lemma wf_prov_to_dict [simp]: "wf_json (prov_to_dict p)"
  by (cases "prov_page p") (simp_all add: prov_to_dict_def)

lemma wf_event_to_dict [simp]: "wf_json (event_to_dict e) = wf_json (body e)"
  by (simp add: event_to_dict_def)

lemma wf_posting_to_dict [simp]: "wf_json (posting_to_dict p)"
  by (simp add: posting_to_dict_def)

lemma wf_json_list_iff: "wf_json_list xs = list_all wf_json xs"
  by (induction xs) auto

lemma wf_JStrs [simp]: "wf_json (JStrs xs)"
  by (simp add: JStrs_def wf_json_list_iff list_all_iff)

lemma wf_transaction_recorded [simp]: "wf_json (body (transaction_recorded eid ps descr occ tags prov))"
  by (simp add: transaction_recorded_def Event_def wf_json_list_iff list_all_iff)

text \<open>
  Storing an event as canonical JSON and reading it back gives the event, with the keys of its
  body in sorted order (two dicts with the same items are equal in Python).
\<close>

definition event_sorted :: "event \<Rightarrow> event" where
  "event_sorted e = e\<lparr>body := sort_keys (body e)\<rparr>"

lemma jitem_sort_keys:
  "wf_json v \<Longrightarrow> jitem (sort_keys v) k = (case jitem v k of Inl e \<Rightarrow> Inl e | Inr x \<Rightarrow> Inr (sort_keys x))"
  by (cases v) (auto simp: map_of_sort_key map_of_sort_keys_fields split: option.splits)

lemma str_or_sort_keys [simp]: "str_or d (map_option sort_keys x) = str_or d x"
  by (cases x; cases "the x") auto

lemma page_of_sort_keys [simp]: "page_of (map_option sort_keys x) = page_of x"
  by (cases x; cases "the x") auto

lemma prov_from_dict_sorted [simp]: "prov_from_dict (Some (sort_keys (prov_to_dict p))) = Inr p"
proof -
  have obj: "\<exists>fs. sort_keys (prov_to_dict p) = JObj fs" by (simp add: prov_to_dict_def)
  then have "prov_from_dict (Some (sort_keys (prov_to_dict p))) = prov_from_dict (Some (prov_to_dict p))"
    using jget_sort_keys [OF wf_prov_to_dict [of p]]
    by (auto simp: prov_from_dict_def prov_to_dict_def Let_def simp del: sort_keys.simps jget.simps)
  then show ?thesis by simp
qed

lemma event_from_canonical:
  assumes "wf_json (body e)"
  shows "bindR (loads (canonical (event_to_dict e))) (event_from_dict fresh) = Inr (event_sorted e)"
proof -
  let ?d = "event_to_dict e"
  have w: "wf_json ?d" using assms by simp
  have g: "jget (sort_keys ?d) k = map_option sort_keys (jget ?d k)" for k by (rule jget_sort_keys [OF w])
  have i: "jitem (sort_keys ?d) k = (case jitem ?d k of Inl x \<Rightarrow> Inl x | Inr x \<Rightarrow> Inr (sort_keys x))" for k
    by (rule jitem_sort_keys [OF w])
  have "event_from_dict fresh (sort_keys ?d) = Inr (event_sorted e)"
    unfolding event_from_dict_def g i
    by (cases e) (simp add: event_to_dict_def Event_def event_sorted_def)
  with w show ?thesis by (simp add: loads_canonical)
qed

lemma posting_from_sorted:
  "posting_wf p \<Longrightarrow> posting_from_dict (sort_keys (posting_to_dict p)) = Inr p"
  unfolding posting_from_dict_def jget_sort_keys [OF wf_posting_to_dict [of p]] jitem_sort_keys [OF wf_posting_to_dict [of p]]
  by (cases p) (simp add: posting_to_dict_def Posting_def posting_wf_def dec_parse_dec_str)

lemma sort_keys_list_map: "sort_keys_list xs = map sort_keys xs"
  by (induction xs) auto

text \<open>
  C27: a booked transaction survives the log. Written as the canonical JSON line the store keeps and
  read back, it yields an event with the same identity, date, type and provenance whose postings
  are exactly the postings that were booked, every amount digit for digit.
\<close>

theorem transaction_survives_the_log:
  assumes "list_all posting_wf ps"
  shows "\<exists>e. bindR (loads (canonical (event_to_dict (transaction_recorded eid ps descr occ tags prov))))
               (event_from_dict fresh) = Inr e
           \<and> postings_of e = Inr ps \<and> event_id e = eid \<and> occurred_at e = occ
           \<and> event_type e = ''TransactionRecorded'' \<and> ev_provenance e = prov_or prov prov_empty"
proof -
  let ?e = "transaction_recorded eid ps descr occ tags prov"
  have "mapR posting_from_dict (map (\<lambda>p. sort_keys (posting_to_dict p)) ps) = Inr ps"
    using assms by (intro mapR_map_Inr) (simp add: posting_from_sorted list_all_iff)
  moreover have "jget (body (event_sorted ?e)) ''postings'' = Some (JArr (map (\<lambda>p. sort_keys (posting_to_dict p)) ps))"
    using jget_sort_keys [OF wf_transaction_recorded [of eid ps descr occ tags prov], of "''postings''"]
    by (simp add: event_sorted_def transaction_recorded_def Event_def sort_keys_list_map comp_def del: sort_keys.simps(7))
  ultimately have "postings_of (event_sorted ?e) = Inr ps" by (simp add: postings_of_def)
  then show ?thesis
    using event_from_canonical [OF wf_transaction_recorded]
    by (auto simp: event_sorted_def transaction_recorded_def Event_def)
qed

theorem transaction_survives_the_log_witness:
  "\<exists>e. bindR (loads (canonical (event_to_dict (transaction_recorded ''e1''
          [\<lparr>p_account = ''a'', p_amount = Dec (-12) 0, p_grade = ''verified''\<rparr>,
           \<lparr>p_account = ''b'', p_amount = Dec 1200 (-2), p_grade = ''unverified''\<rparr>] ''lunch'' ''2024-01-05'' None None))))
               (event_from_dict ''x'') = Inr e
     \<and> postings_of e = Inr [\<lparr>p_account = ''a'', p_amount = Dec (-12) 0, p_grade = ''verified''\<rparr>,
           \<lparr>p_account = ''b'', p_amount = Dec 1200 (-2), p_grade = ''unverified''\<rparr>]"
  using transaction_survives_the_log
    [of "[\<lparr>p_account = ''a'', p_amount = Dec (-12) 0, p_grade = ''verified''\<rparr>,
           \<lparr>p_account = ''b'', p_amount = Dec 1200 (-2), p_grade = ''unverified''\<rparr>]"
      "''e1''" "''lunch''" "''2024-01-05''" None None "''x''"]
  by (auto simp: posting_wf_def GRADES_def VERIFIED_def UNVERIFIED_def)
end
