(* ===== verification/Base64.thy ===== *)
theory Base64
  imports Prelude
begin

text \<open>
  \<^verbatim>\<open>base64.b64encode\<close> and \<^verbatim>\<open>base64.b64decode\<close>. Decoding follows the standard library's scanner:
  characters outside the alphabet are skipped, padding ends the input once it completes a
  quantum, and an incomplete quantum is an error.
\<close>

definition b64_char :: "nat \<Rightarrow> char" where
  "b64_char n =
     (if n < 26 then char_of (65 + n) else if n < 52 then char_of (71 + n)
      else if n < 62 then char_of (n - 4) else if n = 62 then CHR ''+'' else CHR ''/'')"

definition b64_index :: "char \<Rightarrow> nat option" where
  "b64_index c =
     (let n = of_char c :: nat in
      if 65 \<le> n \<and> n \<le> 90 then Some (n - 65) else if 97 \<le> n \<and> n \<le> 122 then Some (n - 71)
      else if 48 \<le> n \<and> n \<le> 57 then Some (n + 4) else if n = 43 then Some 62
      else if n = 47 then Some 63 else None)"

fun b64encode :: "string \<Rightarrow> string" where
  "b64encode [] = []"
| "b64encode [a] =
     (let x = of_char a :: nat in
      [b64_char (x div 4), b64_char (x mod 4 * 16), CHR ''='', CHR ''=''])"
| "b64encode [a, b] =
     (let x = of_char a :: nat; y = of_char b in
      [b64_char (x div 4), b64_char (x mod 4 * 16 + y div 16), b64_char (y mod 16 * 4), CHR ''=''])"
| "b64encode (a # b # c # r) =
     (let x = of_char a :: nat; y = of_char b; z = of_char c in
      b64_char (x div 4) # b64_char (x mod 4 * 16 + y div 16) # b64_char (y mod 16 * 4 + z div 64)
      # b64_char (z mod 64) # b64encode r)"

text \<open>The scanner: position in the quantum, pending bits, padding seen so far.\<close>

fun a2b_base64 :: "nat \<Rightarrow> nat \<Rightarrow> nat \<Rightarrow> string \<Rightarrow> string option" where
  "a2b_base64 q left pads [] = (if q = 0 then Some [] else None)"
| "a2b_base64 q left pads (c # cs) =
     (if c = CHR ''='' then
        (if q \<ge> 2 then (if q + pads + 1 \<ge> 4 then Some [] else a2b_base64 q left (pads + 1) cs)
         else a2b_base64 q left pads cs)
      else case b64_index c of None \<Rightarrow> a2b_base64 q left pads cs
      | Some v \<Rightarrow>
          if q = 0 then a2b_base64 1 v 0 cs
          else if q = 1 then
            map_option (Cons (char_of (left * 4 + v div 16))) (a2b_base64 2 (v mod 16) 0 cs)
          else if q = 2 then
            map_option (Cons (char_of (left * 16 + v div 4))) (a2b_base64 3 (v mod 4) 0 cs)
          else map_option (Cons (char_of (left * 64 + v))) (a2b_base64 0 0 0 cs))"

definition b64decode :: "string \<Rightarrow> string option" where
  "b64decode s = a2b_base64 0 0 0 s"

text \<open>With \<^verbatim>\<open>validate=True\<close> the text must first be alphabet characters and at most two pads.\<close>

definition b64decode_strict :: "string \<Rightarrow> string option" where
  "b64decode_strict s =
     (let r = dropWhile (\<lambda>c. b64_index c \<noteq> None) s in
      if list_all (\<lambda>c. c = CHR ''='') r \<and> length r \<le> 2 then b64decode s else None)"

lemma b64_index_char: "n < 64 \<Longrightarrow> b64_index (b64_char n) = Some n"
  by (auto simp: b64_index_def b64_char_def Let_def)

lemma b64_char_not_pad: "n < 64 \<Longrightarrow> b64_char n \<noteq> CHR ''=''"
proof -
  assume "n < 64"
  then have "b64_index (b64_char n) \<noteq> None" by (simp add: b64_index_char)
  then show ?thesis by (auto simp: b64_index_def)
qed

lemma byte_less: "(of_char c :: nat) < 256"
  by simp

lemma sextet_bounds:
  fixes x y z :: nat
  assumes "x < 256" "y < 256" "z < 256"
  shows "x div 4 < 64" "x mod 4 * 16 + y div 16 < 64" "y mod 16 * 4 + z div 64 < 64" "z mod 64 < 64"
    "x mod 4 * 16 < 64" "y mod 16 * 4 < 64"
  using assms by (auto simp: less_mult_imp_div_less)

lemma sextet_join:
  fixes x y z :: nat
  assumes "y < 256" "z < 256"
  shows "x div 4 * 4 + (x mod 4 * 16 + y div 16) div 16 = x" "(x mod 4 * 16 + y div 16) mod 16 = y div 16"
    "y div 16 * 16 + (y mod 16 * 4 + z div 64) div 4 = y" "(y mod 16 * 4 + z div 64) mod 4 = z div 64"
    "z div 64 * 64 + z mod 64 = z"
  using assms by (simp_all add: less_mult_imp_div_less)

lemma b64decode_b64encode: "b64decode (b64encode s) = Some s"
proof -
  have "a2b_base64 0 0 0 (b64encode s) = Some s"
  proof (induction s rule: b64encode.induct)
    case 1
    then show ?case by simp
  next
    case (2 a)
    have "(of_char a :: nat) mod 4 * 16 div 16 = of_char a mod 4" by simp
    then show ?case
      using sextet_bounds [OF byte_less [of a] byte_less [of a] byte_less [of a]]
      by (simp add: Let_def b64_char_not_pad b64_index_char)
  next
    case (3 a b)
    have "(of_char b :: nat) div 16 < 16" by (simp add: less_mult_imp_div_less)
    then show ?case
      using sextet_bounds [OF byte_less [of a] byte_less [of b] byte_less [of b]]
      by (simp add: Let_def b64_char_not_pad b64_index_char sextet_join)
  next
    case (4 a b c r)
    have "(of_char b :: nat) div 16 < 16" "(of_char c :: nat) div 64 < 4"
      by (simp_all add: less_mult_imp_div_less)
    with 4 show ?case
      using sextet_bounds [OF byte_less [of a] byte_less [of b] byte_less [of c]]
      by (simp add: Let_def b64_char_not_pad b64_index_char sextet_join)
  qed
  then show ?thesis by (simp add: b64decode_def)
qed

lemma b64encode_pads:
  "list_all (\<lambda>c. c = CHR ''='') (dropWhile (\<lambda>c. b64_index c \<noteq> None) (b64encode s)) \<and>
   length (dropWhile (\<lambda>c. b64_index c \<noteq> None) (b64encode s)) \<le> 2"
proof (induction s rule: b64encode.induct)
  case (2 a)
  then show ?case
    using sextet_bounds [OF byte_less [of a] byte_less [of a] byte_less [of a]]
    by (simp add: Let_def b64_index_char b64_index_def [of "CHR ''=''"])
next
  case (3 a b)
  have "(of_char b :: nat) div 16 < 16" by (simp add: less_mult_imp_div_less)
  then show ?case
    using sextet_bounds [OF byte_less [of a] byte_less [of b] byte_less [of b]]
    by (simp add: Let_def b64_index_char b64_index_def [of "CHR ''=''"])
next
  case (4 a b c r)
  have "(of_char b :: nat) div 16 < 16" "(of_char c :: nat) div 64 < 4"
    by (simp_all add: less_mult_imp_div_less)
  with 4 show ?case
    using sextet_bounds [OF byte_less [of a] byte_less [of b] byte_less [of c]]
    by (simp add: Let_def b64_index_char)
qed simp

lemma b64decode_strict_b64encode: "b64decode_strict (b64encode s) = Some s"
  using b64encode_pads [of s] by (simp add: b64decode_strict_def Let_def b64decode_b64encode)

end
