(* ===== verification/Normalize.thy ===== *)
theory Normalize
  imports Py_Decimal Dates
begin

text \<open>
  \<^verbatim>\<open>core/vivacore/verify/normalize.py\<close>: reading printed amounts and dates. A reading returns a status
  and never raises. Texts are UTF-8 bytes; the character classes of the regular expressions (digits,
  letters, white space, word boundaries) are the ASCII ones, and the printed symbols outside ASCII are
  spelled as their bytes. The values a reason interpolates are left out of it; assumptions are exact.
\<close>

definition RULES_VERSION :: string where "RULES_VERSION = ''nv1''"

definition COMMA_DECIMAL_LOCALES :: "string list" where
  "COMMA_DECIMAL_LOCALES = [''de'', ''fr'', ''es'', ''it'', ''pt'', ''nl'', ''tr'']"

definition DOT_DECIMAL_LOCALES :: "string list" where
  "DOT_DECIMAL_LOCALES = [''en'', ''ja'', ''zh'', ''ko'', ''hi'', ''th'']"

definition EURO :: string where "EURO = [CHR 0xE2, CHR 0x82, CHR 0xAC]"
definition POUND :: string where "POUND = [CHR 0xC2, CHR 0xA3]"
definition YEN :: string where "YEN = [CHR 0xC2, CHR 0xA5]"
definition RUPEE :: string where "RUPEE = [CHR 0xE2, CHR 0x82, CHR 0xB9]"
definition WON :: string where "WON = [CHR 0xE2, CHR 0x82, CHR 0xA9]"
definition MINUS :: string where "MINUS = [CHR 0xE2, CHR 0x88, CHR 0x92]"

definition CURRENCY_SYMBOLS :: "(string \<times> string) list" where
  "CURRENCY_SYMBOLS =
     [(''$'', ''USD''), (''US$'', ''USD''), (EURO, ''EUR''), (POUND, ''GBP''), (YEN, ''JPY''),
      (RUPEE, ''INR''), (WON, ''KRW''), (''C$'', ''CAD''), (''A$'', ''AUD''), (''CHF'', ''CHF'')]"

definition CURRENCY_CODES :: "string list" where
  "CURRENCY_CODES = [''USD'', ''EUR'', ''GBP'', ''JPY'', ''INR'', ''CAD'', ''AUD'', ''CHF'', ''CNY'', ''KRW'']"

text \<open>No-break space, thin space, narrow no-break space, space.\<close>

definition SPACES :: "string list" where
  "SPACES = [[CHR 0xC2, CHR 0xA0], [CHR 0xE2, CHR 0x80, CHR 0x89], [CHR 0xE2, CHR 0x80, CHR 0xAF], '' '']"

record normalized =
  n_status :: string
  n_value :: "string option"
  n_currency :: "string option"
  n_assumptions :: "string list"
  n_reason :: "string option"
  n_rules_version :: string

definition norm_ok :: "string \<Rightarrow> string option \<Rightarrow> string list \<Rightarrow> normalized" where
  "norm_ok v cur as = \<lparr>n_status = ''ok'', n_value = Some v, n_currency = cur, n_assumptions = as, n_reason = None,
     n_rules_version = RULES_VERSION\<rparr>"

definition norm_fail :: "string \<Rightarrow> string \<Rightarrow> string option \<Rightarrow> string list \<Rightarrow> normalized" where
  "norm_fail st why cur as = \<lparr>n_status = st, n_value = None, n_currency = cur, n_assumptions = as, n_reason = Some why,
     n_rules_version = RULES_VERSION\<rparr>"

definition is_ok :: "normalized \<Rightarrow> bool" where
  "is_ok n = (n_status n = ''ok'')"

definition decimal_of :: "normalized \<Rightarrow> decimal res" where
  "decimal_of n =
     (case n_value n of
        None \<Rightarrow> Inl (ValueError ''No usable value'')
      | Some v \<Rightarrow> guardR (n_status n = ''ok'') (ValueError ''No usable value'') (py_Decimal (PStr v)))"

subsection \<open>Separators\<close>

definition decimal_separator_for :: "string option \<Rightarrow> char option" where
  "decimal_separator_for locale =
     (case locale of None \<Rightarrow> None
      | Some l \<Rightarrow>
          if l = [] then None
          else (let lang = lower (hd (split_char (CHR ''-'') l)) in
                if lang \<in> set COMMA_DECIMAL_LOCALES then Some (CHR '','')
                else if lang \<in> set DOT_DECIMAL_LOCALES then Some (CHR ''.'')
                else None))"

definition separators_for :: "string option \<Rightarrow> string \<times> string" where
  "separators_for locale =
     (case decimal_separator_for locale of
        None \<Rightarrow> (''.'', [])
      | Some d \<Rightarrow> ([d], if d = CHR '','' then ''.'' else '',''))"

definition known_language_tags :: "string list" where
  "known_language_tags = sort (COMMA_DECIMAL_LOCALES @ DOT_DECIMAL_LOCALES)"

definition quoted :: "char \<Rightarrow> string" where
  "quoted c = [CHR 0x27, c, CHR 0x27]"

definition validate_single_decimal :: "string \<Rightarrow> normalized" where
  "validate_single_decimal candidate =
     (if count_char (CHR ''.'') candidate > 1 then norm_fail ''invalid'' ''multiple decimal points'' None []
      else norm_ok candidate None [])"

text \<open>\<^verbatim>\<open>_resolve_separators\<close>: the result, and the assumption it appended.\<close>

definition single_separator :: "char \<Rightarrow> string \<Rightarrow> string \<Rightarrow> string option \<Rightarrow> normalized \<times> string list" where
  "single_separator sep head tail locale =
     (if length tail \<noteq> 3 then
        (validate_single_decimal (head @ ''.'' @ tail),
         [''single '' @ quoted sep @ '' with '' @ show_nat (length tail) @ '' trailing digits taken as decimal''])
      else (case decimal_separator_for locale of
              None \<Rightarrow> (norm_fail ''ambiguous'' ''could be decimal or grouping; no locale provided to decide'' None [], [])
            | Some locale_dec \<Rightarrow>
                if sep = locale_dec then
                  (validate_single_decimal (head @ ''.'' @ tail),
                   [''locale '' @ the locale @ '' implies '' @ quoted sep @ '' is decimal''])
                else
                  (norm_ok (head @ tail) None [],
                   [''locale '' @ the locale @ '' implies '' @ quoted sep @ '' is grouping''])))"

definition resolve_separators :: "string \<Rightarrow> string option \<Rightarrow> normalized \<times> string list" where
  "resolve_separators text locale =
     (let has_dot = CHR ''.'' \<in> set text; has_comma = CHR '','' \<in> set text in
      if \<not> has_dot \<and> \<not> has_comma then (norm_ok text None [], [])
      else if has_dot \<and> has_comma then
        (let dec = (if rfind_char (CHR '','') text > rfind_char (CHR ''.'') text then CHR '','' else CHR ''.'');
             grp = (if dec = CHR '','' then CHR ''.'' else CHR '','') in
         (validate_single_decimal (subst_char dec (CHR ''.'') (remove_char grp text)),
          [''both separators present; '' @ quoted dec @ '' (last) taken as decimal'']))
      else
        (let sep = (if has_dot then CHR ''.'' else CHR '',''); parts = split_char sep text in
         if length parts > 2 then
           (norm_ok (remove_char sep text) None [],
            [''repeated '' @ quoted sep @ '' taken as grouping separator''])
         else single_separator sep (parts ! 0) (parts ! 1) locale))"


subsection \<open>Signs\<close>

definition word_char :: "char \<Rightarrow> bool" where
  "word_char c = (is_alpha c \<or> is_digit c \<or> c = CHR ''_'')"

definition unify_spaces :: "string \<Rightarrow> string" where
  "unify_spaces text = fold (\<lambda>ch t. replace_str ch '' '' t) SPACES text"

definition paren_sign :: "string \<Rightarrow> bool \<times> string \<times> string list" where
  "paren_sign text =
     (if starts_with text ''('' \<and> ends_with text '')'' then (True, strip (butlast (tl text)), [''parentheses denote negative''])
      else (False, text, []))"

text \<open>A final \<^verbatim>\<open>DR\<close> or \<^verbatim>\<open>CR\<close> that starts a word, with an optional full stop.\<close>

definition drcr_match :: "string \<Rightarrow> (string \<times> string) option" where
  "drcr_match text =
     (let u = (if ends_with text ''.'' then butlast text else text);
          which = upper (drop (length u - 2) u); prior = take (length u - 2) u in
      if 2 \<le> length u \<and> (which = ''DR'' \<or> which = ''CR'') \<and> (prior = [] \<or> \<not> word_char (last prior))
      then Some (which, prior) else None)"

definition drcr_sign :: "bool \<times> string \<times> string list \<Rightarrow> bool \<times> string \<times> string list" where
  "drcr_sign s =
     (case s of (negative, text, as) \<Rightarrow>
        (case drcr_match text of
           None \<Rightarrow> (negative, text, as)
         | Some (which, prior) \<Rightarrow>
             if which = ''DR'' then (True, strip prior, as @ [''trailing DR denotes negative (debit)''])
             else (negative, strip prior, as @ [''trailing CR denotes positive (credit)''])))"

fun lstrip_minus :: "string \<Rightarrow> string" where
  "lstrip_minus (c # d # e # s) =
     (if c = CHR ''-'' then lstrip_minus (d # e # s) else if [c, d, e] = MINUS then lstrip_minus s else c # d # e # s)"
| "lstrip_minus (c # s) = (if c = CHR ''-'' then lstrip_minus s else c # s)"
| "lstrip_minus [] = []"

definition minus_sign :: "bool \<times> string \<times> string list \<Rightarrow> bool \<times> string \<times> string list" where
  "minus_sign s =
     (case s of (negative, text, as) \<Rightarrow>
      let (negative1, text1, as1) =
            (if ends_with text ''-'' then (True, strip (butlast text), as @ [''trailing minus denotes negative''])
             else (negative, text, as));
          (negative2, text2) =
            (if starts_with text1 ''-'' \<or> starts_with text1 MINUS then (True, strip (lstrip_minus text1)) else (negative1, text1));
          text3 = (if starts_with text2 ''+'' then strip (tl text2) else text2) in
      (negative2, text3, as1))"

definition sign_conventions :: "string \<Rightarrow> bool \<times> string \<times> string list" where
  "sign_conventions text = minus_sign (drcr_sign (paren_sign text))"

subsection \<open>Currency\<close>

text \<open>Code points, not bytes: the symbols are tried longest first.\<close>

definition char_count :: "string \<Rightarrow> nat" where
  "char_count s = length (filter (\<lambda>c. \<not> (128 \<le> (of_char c :: nat) \<and> (of_char c :: nat) < 192)) s)"

definition symbols_longest_first :: "(string \<times> string) list" where
  "symbols_longest_first = sort_key (\<lambda>(s, _). - int (char_count s)) CURRENCY_SYMBOLS"

fun detect_symbol :: "(string \<times> string) list \<Rightarrow> string \<Rightarrow> (string \<times> string) option" where
  "detect_symbol [] text = None"
| "detect_symbol ((symbol, code) # ss) text =
     (if starts_with text symbol \<or> ends_with text symbol
      then Some (code, strip (remove_suffix (remove_prefix text symbol) symbol))
      else detect_symbol ss text)"

text \<open>The code at the start or the end of the text, as a word of its own.\<close>

definition code_at_start :: "string \<Rightarrow> string \<Rightarrow> bool" where
  "code_at_start code text =
     (starts_with text code \<and> (drop (length code) text = [] \<or> \<not> word_char (hd (drop (length code) text))))"

definition code_at_end :: "string \<Rightarrow> string \<Rightarrow> bool" where
  "code_at_end code text =
     (let prior = take (length text - length code) text in
      ends_with text code \<and> (prior = [] \<or> \<not> word_char (last prior)))"

definition strip_code :: "string \<Rightarrow> string \<Rightarrow> string" where
  "strip_code code text =
     (let text1 = (if code_at_start code text then drop (length code) text else text) in
      strip (if code_at_end code text \<and> length code \<le> length text1 then take (length text1 - length code) text1 else text1))"

fun detect_code :: "string list \<Rightarrow> string \<Rightarrow> (string \<times> string) option" where
  "detect_code [] text = None"
| "detect_code (code # cs) text =
     (if code_at_start code text \<or> code_at_end code text then Some (code, strip_code code text) else detect_code cs text)"

definition detect_currency :: "string \<Rightarrow> string option \<times> string" where
  "detect_currency text =
     (case detect_symbol symbols_longest_first text of
        Some (code, text') \<Rightarrow> (Some code, text')
      | None \<Rightarrow>
          (case detect_code CURRENCY_CODES text of
             Some (code, text') \<Rightarrow> (Some code, text')
           | None \<Rightarrow> (None, text)))"

subsection \<open>Amounts\<close>

definition amount_char :: "char \<Rightarrow> bool" where
  "amount_char c = (is_digit c \<or> c = CHR ''.'' \<or> c = CHR '','' \<or> c = CHR 0x27)"

definition read_number :: "bool \<Rightarrow> string \<Rightarrow> string option \<Rightarrow> string list \<Rightarrow> string option \<Rightarrow> normalized" where
  "read_number negative text locale as cur =
     (case resolve_separators text locale of (result, added) \<Rightarrow>
        (case n_value result of
           None \<Rightarrow> norm_fail (n_status result) (case n_reason result of None \<Rightarrow> [] | Some r \<Rightarrow> r) cur (as @ added)
         | Some v \<Rightarrow>
             (case dec_parse v of
                Finite d \<Rightarrow> norm_ok (dec_str (if negative then dec_neg d else d)) cur (as @ added)
              | _ \<Rightarrow> norm_fail ''invalid'' ''unparseable after separator resolution'' None (as @ added))))"

text \<open>Everything before the separators: a failure, or the sign, the digits, the notes and the currency.\<close>

definition amount_text ::
    "string option \<Rightarrow> string option \<Rightarrow> normalized + (bool \<times> string \<times> string list \<times> string option)" where
  "amount_text raw currency =
     (case raw of None \<Rightarrow> Inl (norm_fail ''invalid'' ''empty value'' None [])
      | Some r \<Rightarrow>
          if strip (unify_spaces r) = [] then Inl (norm_fail ''invalid'' ''empty value'' None [])
          else
            (case sign_conventions (strip (unify_spaces r)) of (negative, text, as) \<Rightarrow>
             case detect_currency text of (detected, text1) \<Rightarrow>
             (let declared = (case currency of None \<Rightarrow> None | Some c \<Rightarrow> if c = [] then None else Some (upper c));
                  final = (case detected of Some c \<Rightarrow> Some c | None \<Rightarrow> declared);
                  text2 = remove_char (CHR '' '') text1 in
              if detected \<noteq> None \<and> declared \<noteq> None \<and> detected \<noteq> declared
              then Inl (norm_fail ''invalid'' ''printed currency conflicts with document currency'' None as)
              else if text2 = [] \<or> \<not> list_all amount_char text2
              then Inl (norm_fail ''invalid'' ''not a recognizable number'' None as)
              else Inr (negative, remove_char (CHR 0x27) text2, as, final))))"

definition parse_amount :: "string option \<Rightarrow> string option \<Rightarrow> string option \<Rightarrow> normalized" where
  "parse_amount raw locale currency =
     (case amount_text raw currency of
        Inl n \<Rightarrow> n
      | Inr (negative, text, as, final) \<Rightarrow> read_number negative text locale as final)"

subsection \<open>Dates\<close>

definition MONTHS :: "(string \<times> nat) list" where
  "MONTHS = [(''jan'', 1), (''feb'', 2), (''mar'', 3), (''apr'', 4), (''may'', 5), (''jun'', 6), (''jul'', 7),
             (''aug'', 8), (''sep'', 9), (''sept'', 9), (''oct'', 10), (''nov'', 11), (''dec'', 12)]"

definition MONTH_FIRST_LOCALES :: "string list" where
  "MONTH_FIRST_LOCALES = [''en-us'', ''en-ph'']"

definition normalize_locale :: "string option \<Rightarrow> string" where
  "normalize_locale locale =
     lower (subst_char (CHR ''_'') (CHR ''-'') (strip (case locale of None \<Rightarrow> [] | Some l \<Rightarrow> l)))"

definition DAYS_IN_MONTH :: "nat list" where
  "DAYS_IN_MONTH = [31, 29, 31, 30, 31, 30, 31, 31, 30, 31, 30, 31]"

definition show_year :: "nat \<Rightarrow> string" where
  "show_year y = (if y < 10000 then pad4 y else show_nat y)"

definition make_date :: "nat \<Rightarrow> nat \<Rightarrow> nat \<Rightarrow> string list \<Rightarrow> normalized" where
  "make_date year month day as =
     (if \<not> (1 \<le> month \<and> month \<le> 12) then norm_fail ''invalid'' ''month out of range'' None []
      else if \<not> (1 \<le> day \<and> day \<le> DAYS_IN_MONTH ! (month - 1)) then norm_fail ''invalid'' ''day invalid for month'' None []
      else if month = 2 \<and> day = 29 \<and> \<not> is_leap year then norm_fail ''invalid'' ''Feb 29 in non-leap year'' None []
      else norm_ok (show_year year @ ''-'' @ pad2 month @ ''-'' @ pad2 day) None as)"

text \<open>Fields separated by one of the three date separators.\<close>

definition date_sep :: "char \<Rightarrow> bool" where
  "date_sep c = (c = CHR ''-'' \<or> c = CHR ''/'' \<or> c = CHR ''.'')"

fun split_fields :: "string \<Rightarrow> string list" where
  "split_fields [] = [[]]"
| "split_fields (c # cs) =
     (if date_sep c then [] # split_fields cs
      else (case split_fields cs of [] \<Rightarrow> [[c]] | p # ps \<Rightarrow> (c # p) # ps))"

definition digits_between :: "nat \<Rightarrow> nat \<Rightarrow> string \<Rightarrow> bool" where
  "digits_between lo hi s = (list_all is_digit s \<and> lo \<le> length s \<and> length s \<le> hi)"

text \<open>
  The month-name form: an optional day, the name, then separators, an optional day, and the year. The
  separators after the name are read greedily, so what follows them starts with a digit.
\<close>

definition name_sep :: "char \<Rightarrow> bool" where
  "name_sep c = (is_space c \<or> c = CHR ''-'' \<or> c = CHR '','')"

definition day_and_year :: "string \<Rightarrow> (string option \<times> string) option" where
  "day_and_year s =
     (let ds = takeWhile is_digit s; rest = dropWhile is_digit s in
      if rest = [] then
        (if length ds = 4 then Some (None, ds)
         else if length ds = 5 then Some (Some (take 1 ds), drop 1 ds)
         else if length ds = 6 then Some (Some (take 2 ds), drop 2 ds)
         else None)
      else
        (let rest1 = (if hd rest = CHR '','' then tl rest else rest); year = dropWhile is_space rest1 in
         if 1 \<le> length ds \<and> length ds \<le> 2 \<and> digits_between 4 4 year then Some (Some ds, year) else None))"

definition leading_day :: "string \<Rightarrow> (string option \<times> string) option" where
  "leading_day s =
     (let ds = takeWhile is_digit s; rest = dropWhile is_digit s; gap = takeWhile (\<lambda>c. is_space c \<or> c = CHR ''-'') rest in
      if ds = [] then Some (None, s)
      else if length ds \<le> 2 \<and> gap \<noteq> [] then Some (Some ds, drop (length gap) rest)
      else None)"

definition month_name_form :: "string \<Rightarrow> (string option \<times> string \<times> string option \<times> string) option" where
  "month_name_form text =
     (case leading_day text of None \<Rightarrow> None
      | Some (prior, s) \<Rightarrow>
          (let name = takeWhile is_alpha s; s1 = dropWhile is_alpha s;
               s2 = (case s1 of c # r \<Rightarrow> if c = CHR ''.'' then r else s1 | [] \<Rightarrow> []);
               gap = takeWhile name_sep s2 in
           if 3 \<le> length name \<and> length name \<le> 9 \<and> gap \<noteq> [] then
             (case day_and_year (drop (length gap) s2) of None \<Rightarrow> None
              | Some (aft, year) \<Rightarrow> Some (prior, name, aft, year))
           else None))"

definition month_of_name :: "string \<Rightarrow> nat option" where
  "month_of_name name =
     (case map_of MONTHS (rstrip_by (\<lambda>c. c = CHR ''.'') (take 4 (lower name))) of
        Some m \<Rightarrow> Some m | None \<Rightarrow> map_of MONTHS (take 3 (lower name)))"

text \<open>
  Two numeric fields and a year. The code spells this twice, for a printed year and for the year of
  the statement period (\<open>yearless\<close>); the branches agree and the notes differ.
\<close>

definition numeric_date :: "nat \<Rightarrow> nat \<Rightarrow> nat \<Rightarrow> string list \<Rightarrow> bool \<Rightarrow> string option \<Rightarrow> normalized" where
  "numeric_date a b y as yearless locale =
     (let a_month = (1 \<le> a \<and> a \<le> 12); b_month = (1 \<le> b \<and> b \<le> 12);
          reads = (if yearless then '' '' else '' reads '') in
      if a_month \<and> \<not> b_month then
        make_date y a b (as @ [if yearless then ''first field is month'' else ''only first field can be a month''])
      else if b_month \<and> \<not> a_month then
        make_date y b a (as @ [if yearless then ''second field is month'' else ''only second field can be a month''])
      else if \<not> a_month \<and> \<not> b_month then norm_fail ''invalid'' ''no valid month reading'' None []
      else if a = b then make_date y a b as
      else if normalize_locale locale \<in> set MONTH_FIRST_LOCALES
      then make_date y a b (as @ [''locale '' @ the locale @ reads @ ''month-first''])
      else if locale \<noteq> None \<and> locale \<noteq> Some []
      then make_date y b a (as @ [''locale '' @ the locale @ reads @ ''day-first''])
      else norm_fail ''ambiguous''
        (if yearless then ''month/day order unresolved and no locale given''
         else ''both month-first and day-first readings are valid; no locale to decide'') None [])"

definition iso_fields :: "string \<Rightarrow> (nat \<times> nat \<times> nat) option" where
  "iso_fields text =
     (case split_fields text of
        [f1, f2, f3] \<Rightarrow>
          if digits_between 4 4 f1 \<and> digits_between 1 2 f2 \<and> digits_between 1 2 f3
          then Some (digits_val f1, digits_val f2, digits_val f3) else None
      | _ \<Rightarrow> None)"

definition numeric_fields :: "string \<Rightarrow> (nat \<times> nat \<times> nat) option" where
  "numeric_fields text =
     (case split_fields text of
        [f1, f2, f3] \<Rightarrow>
          if digits_between 1 2 f1 \<and> digits_between 1 2 f2 \<and> digits_between 2 4 f3
          then Some (digits_val f1, digits_val f2, digits_val f3) else None
      | _ \<Rightarrow> None)"

definition yearless_fields :: "string \<Rightarrow> (nat \<times> nat) option" where
  "yearless_fields text =
     (case split_fields text of
        [f1, f2] \<Rightarrow> if digits_between 1 2 f1 \<and> digits_between 1 2 f2 then Some (digits_val f1, digits_val f2) else None
      | _ \<Rightarrow> None)"

definition named_date :: "string option \<Rightarrow> string \<Rightarrow> string option \<Rightarrow> string \<Rightarrow> normalized" where
  "named_date prior name aft year =
     (case (month_of_name name, case prior of Some d \<Rightarrow> Some d | None \<Rightarrow> aft) of
        (Some month, Some day) \<Rightarrow> make_date (digits_val year) month (digits_val day) [''month written as name'']
      | _ \<Rightarrow> norm_fail ''invalid'' ''unrecognized month name'' None [])"

text \<open>The forms in the order they are tried: a reading without the locale, or two numeric fields for it.\<close>

definition date_text ::
    "string option \<Rightarrow> nat option \<Rightarrow> normalized + (nat \<times> nat \<times> nat \<times> string list \<times> bool)" where
  "date_text raw default_year =
     (case raw of None \<Rightarrow> Inl (norm_fail ''invalid'' ''empty value'' None [])
      | Some r \<Rightarrow>
          if strip r = [] then Inl (norm_fail ''invalid'' ''empty value'' None [])
          else
            (case iso_fields (strip r) of
               Some (y, a, b) \<Rightarrow> Inl (make_date y a b [''year-first read as ISO year-month-day''])
             | None \<Rightarrow>
            (case month_name_form (strip r) of
               Some (prior, name, aft, year) \<Rightarrow> Inl (named_date prior name aft year)
             | None \<Rightarrow>
            (case numeric_fields (strip r) of
               Some (a, b, y) \<Rightarrow>
                 Inr (a, b, if y < 100 then y + 2000 else y, if y < 100 then [''two-digit year read as 20xx''] else [], False)
             | None \<Rightarrow>
            (case (yearless_fields (strip r), default_year) of
               (Some (a, b), Some y) \<Rightarrow> Inr (a, b, y, [''no year printed; used statement-period year '' @ show_nat y], True)
             | _ \<Rightarrow> Inl (norm_fail ''invalid'' ''unrecognized date format'' None []))))))"

definition parse_date :: "string option \<Rightarrow> string option \<Rightarrow> nat option \<Rightarrow> normalized" where
  "parse_date raw locale default_year =
     (case date_text raw default_year of
        Inl n \<Rightarrow> n
      | Inr (a, b, y, as, yearless) \<Rightarrow> numeric_date a b y as yearless locale)"

subsection \<open>Readings and locales\<close>

lemma norm_sel [simp]:
  "n_status (norm_ok v c as) = ''ok''" "n_value (norm_ok v c as) = Some v" "n_reason (norm_ok v c as) = None"
  "n_status (norm_fail s r c as) = s" "n_value (norm_fail s r c as) = None" "n_reason (norm_fail s r c as) = Some r"
  by (simp_all add: norm_ok_def norm_fail_def)

lemma split_char_nonempty [simp]: "split_char c s \<noteq> []"
  by (induction s) (auto split: list.splits)

lemma split_char_parts: "p \<in> set (split_char c s) \<Longrightarrow> c \<notin> set p"
  by (induction s arbitrary: p) (auto split: list.splits if_splits)

lemma join_split_char: "join [c] (split_char c s) = s"
proof (induction s)
  case (Cons x s)
  obtain p ps where "split_char c s = p # ps" by (cases "split_char c s") auto
  with Cons show ?case by (cases ps) auto
qed simp

lemma split_char_two:
  assumes "split_char c s = [h, t]"
  shows "s = h @ c # t" "c \<notin> set h" "c \<notin> set t"
  using join_split_char [of c s] split_char_parts [of _ c s] assms by auto

lemma single_separator_cases:
  assumes "length (split_char sep tx) = 2"
  obtains h t where "tx = h @ sep # t" "split_char sep tx = [h, t]" "sep \<notin> set h" "sep \<notin> set t"
proof -
  from assms obtain h t where "split_char sep tx = [h, t]" by (auto simp: numeral_2_eq_2 length_Suc_conv)
  with split_char_two that show ?thesis by blast
qed

lemma not_amb: "n_status (validate_single_decimal c) \<noteq> ''ambiguous''"
  by (simp add: validate_single_decimal_def)

lemma resolve_without_locale:
  "n_status (fst (resolve_separators tx None)) \<noteq> ''ambiguous'' \<Longrightarrow> resolve_separators tx loc = resolve_separators tx None"
  unfolding resolve_separators_def single_separator_def decimal_separator_for_def Let_def
  by (simp split: if_splits)

text \<open>An ambiguous tx is one separator with three digits behind it.\<close>

lemma resolve_ambiguous:
  assumes "n_status (fst (resolve_separators tx None)) = ''ambiguous''" "list_all (\<lambda>c. is_digit c \<or> c = CHR ''.'' \<or> c = CHR '','') tx"
  obtains h t sep where "tx = h @ sep # t" "sep = CHR ''.'' \<or> sep = CHR '',''" "list_all is_digit h" "list_all is_digit t" "length t = 3"
    "\<And>loc. resolve_separators tx loc = single_separator sep h t loc"
proof -
  let ?sep = "if CHR ''.'' \<in> set tx then CHR ''.'' else CHR '',''"
  have one: "(CHR ''.'' \<in> set tx) \<noteq> (CHR '','' \<in> set tx)" "\<not> length (split_char ?sep tx) > 2"
    using assms(1) not_amb unfolding resolve_separators_def Let_def by (auto split: if_splits)
  have sep: "?sep \<in> set tx" using one(1) by auto
  have "length (split_char ?sep tx) \<noteq> 1"
  proof
    assume "length (split_char ?sep tx) = 1"
    then obtain p where "split_char ?sep tx = [p]" by (auto simp: length_Suc_conv)
    with join_split_char [of ?sep tx] split_char_parts [of p ?sep tx] sep show False by auto
  qed
  moreover have "length (split_char ?sep tx) \<noteq> 0" by simp
  ultimately have "length (split_char ?sep tx) = 2" using one(2) by linarith
  then obtain h t where ht: "tx = h @ ?sep # t" "split_char ?sep tx = [h, t]" "?sep \<notin> set h" "?sep \<notin> set t"
    by (rule single_separator_cases)
  have res: "resolve_separators tx loc = single_separator ?sep h t loc" for loc
    using one ht(2) unfolding resolve_separators_def Let_def by (auto split: if_splits)
  have dig: "list_all is_digit h" "list_all is_digit t"
    using assms(2) ht(1,3,4) one(1) by (auto simp: list_all_iff split: if_splits)
  have "length t = 3" using assms(1) not_amb unfolding res single_separator_def by (auto split: if_splits)
  then show ?thesis using that [of h "?sep" t] ht(1) res dig by auto
qed

lemma dec_parse_digits: "list_all is_digit ip \<Longrightarrow> list_all is_digit fp \<Longrightarrow> ip @ fp \<noteq> [] \<Longrightarrow>
    dec_parse (ip @ CHR ''.'' # fp) = Finite (Dec (int (digits_val (ip @ fp))) (- int (length fp)))"
proof -
  assume d: "list_all is_digit ip" "list_all is_digit fp" "ip @ fp \<noteq> []"
  have "\<forall>c \<in> set (ip @ CHR ''.'' # fp). num_char c" using d by (auto simp: list_all_iff num_char_def)
  note plain = num_text_plain [OF this]
  have nd: "\<not> is_digit (CHR ''.'')" by (simp add: is_digit_def)
  have sgn: "take_sign (remove_char (CHR ''_'') (strip (ip @ CHR ''.'' # fp))) = (False, ip @ CHR ''.'' # fp)"
    unfolding plain using d(1) by (cases ip) (auto simp: take_sign_def)
  have tw: "takeWhile is_digit (ip @ CHR ''.'' # fp) = ip" "dropWhile is_digit (ip @ CHR ''.'' # fp) = CHR ''.'' # fp"
    using takeWhile_digits_append [OF d(1), of "CHR ''.'' # fp"] nd by auto
  have fp0: "takeWhile is_digit fp = fp" "dropWhile is_digit fp = []"
    using takeWhile_digits_append [OF d(2), of "[]"] by simp_all
  show ?thesis unfolding dec_parse_def sgn prod.case Let_def tw
    using d(3) by (auto simp: fp0 parse_exponent_def)
qed

lemma dec_parse_whole: "list_all is_digit ip \<Longrightarrow> ip \<noteq> [] \<Longrightarrow> dec_parse ip = Finite (Dec (int (digits_val ip)) 0)"
  using dec_parse_parts [of ip "[]" False 0] by simp


lemma amount_text_Inl: "amount_text raw cur = Inl n \<Longrightarrow> n_status n = ''invalid''"
  unfolding amount_text_def Let_def by (auto split: option.splits if_splits prod.splits)

lemma amount_text_Inr:
  "amount_text raw cur = Inr (neg, tx, as, final) \<Longrightarrow> list_all (\<lambda>c. is_digit c \<or> c = CHR ''.'' \<or> c = CHR '','') tx"
  unfolding amount_text_def Let_def
  by (auto simp: list_all_iff remove_char_def amount_char_def split: option.splits if_splits prod.splits)

lemma resolve_value_status: "n_value (fst (resolve_separators tx loc)) = None \<longleftrightarrow> n_status (fst (resolve_separators tx loc)) \<noteq> ''ok''"
  unfolding resolve_separators_def single_separator_def validate_single_decimal_def Let_def
  by (auto split: option.splits)

lemma read_number_status:
  "n_status (read_number neg tx loc as final) = ''ambiguous'' \<longleftrightarrow> n_status (fst (resolve_separators tx loc)) = ''ambiguous''"
  using resolve_value_status [of tx loc] unfolding read_number_def by (auto split: prod.splits option.splits dec_lit.splits)

lemma dec_val_shift: "dec_val (Dec c e) = 1000 * dec_val (Dec c (e - 3))"
proof -
  have "(10::rat) powi e = 10 powi (e - 3) * 10 powi 3" by (subst power_int_add [symmetric]) auto
  then show ?thesis by (simp add: dec_val_def)
qed

lemma dec_neg_shift: "\<exists>c' e'. dec_neg (Dec c e) = Dec c' e' \<and> dec_neg (Dec c (e - 3)) = Dec c' (e' - 3)"
  by (simp add: dec_neg_def dec_fix_def Let_def)

text \<open>
  When a text is read alike without a locale, every locale reads it so. When it is ambiguous, a comma-decimal and a
  dot-decimal locale both read it, as two decimals a thousandfold apart.
\<close>

lemma amount_readings:
  "(n_status (parse_amount raw None currency) \<noteq> ''ambiguous'' \<longrightarrow> parse_amount raw loc currency = parse_amount raw None currency)
   \<and> (n_status (parse_amount raw None currency) = ''ambiguous'' \<longrightarrow>
        decimal_separator_for comma_loc = Some (CHR '','') \<longrightarrow> decimal_separator_for dot_loc = Some (CHR ''.'') \<longrightarrow>
        (\<exists>x y. decimal_of (parse_amount raw comma_loc currency) = Inr x \<and> decimal_of (parse_amount raw dot_loc currency) = Inr y
           \<and> x \<noteq> y \<and> (dec_val x = 1000 * dec_val y \<or> dec_val y = 1000 * dec_val x)))"
proof (cases "amount_text raw currency")
  case (Inl n)
  then show ?thesis using amount_text_Inl [OF Inl] by (simp add: parse_amount_def)
next
  case (Inr q)
  obtain neg tx as final where q: "q = (neg, tx, as, final)" by (cases q)
  have p: "parse_amount raw l currency = read_number neg tx l as final" for l using Inr q by (simp add: parse_amount_def)
  have dig: "list_all (\<lambda>c. is_digit c \<or> c = CHR ''.'' \<or> c = CHR '','') tx" using amount_text_Inr Inr q by blast
  show ?thesis
  proof (cases "n_status (fst (resolve_separators tx None)) = ''ambiguous''")
    case False
    from resolve_without_locale [OF this, of loc] show ?thesis using False by (simp add: p read_number_status) (simp add: read_number_def)
  next
    case True
    obtain h t sep where ht: "tx = h @ sep # t" "sep = CHR ''.'' \<or> sep = CHR '',''" "list_all is_digit h" "list_all is_digit t" "length t = 3"
      "\<And>l. resolve_separators tx l = single_separator sep h t l" by (rule resolve_ambiguous [OF True dig], rule that, assumption+)
    let ?c = "int (digits_val (h @ t))"
    have wh: "dec_parse (h @ t) = Finite (Dec ?c 0)" using ht(3-5) by (intro dec_parse_whole) auto
    have "h @ t \<noteq> []" using ht(5) by auto
    then have fr: "dec_parse (h @ CHR ''.'' # t) = Finite (Dec ?c (- 3))" using dec_parse_digits [OF ht(3,4)] ht(5) by simp
    have nodot: "count_char (CHR ''.'') (h @ CHR ''.'' # t) = 1"
      using ht(3,4) by (auto simp: count_char_def list_all_iff filter_empty_conv is_digit_def)
    have grp: "decimal_of (read_number neg tx l as final) = Inr (if neg then dec_neg (Dec ?c 0) else Dec ?c 0)"
      if "decimal_separator_for l = Some s" "s \<noteq> sep" for l s
      using that ht(5) wh by (simp add: read_number_def ht(6) single_separator_def decimal_of_def dec_parse_dec_str)
    have dcm: "decimal_of (read_number neg tx l as final) = Inr (if neg then dec_neg (Dec ?c (- 3)) else Dec ?c (- 3))"
      if "decimal_separator_for l = Some sep" for l
      using that ht(5) fr nodot by (simp add: read_number_def ht(6) single_separator_def decimal_of_def validate_single_decimal_def dec_parse_dec_str)
    have "dec_val (if neg then dec_neg (Dec ?c 0) else Dec ?c 0) = 1000 * dec_val (if neg then dec_neg (Dec ?c (- 3)) else Dec ?c (- 3))
        \<and> (if neg then dec_neg (Dec ?c 0) else Dec ?c 0) \<noteq> (if neg then dec_neg (Dec ?c (- 3)) else Dec ?c (- 3))"
    proof (cases neg)
      case True
      obtain c' e' where "dec_neg (Dec ?c 0) = Dec c' e'" "dec_neg (Dec ?c (0 - 3)) = Dec c' (e' - 3)" using dec_neg_shift by blast
      then show ?thesis using True dec_val_shift [of c' e'] by simp
    next
      case False
      then show ?thesis using dec_val_shift [of ?c 0] by simp
    qed
    then show ?thesis using ht(2) grp dcm by (auto simp: p read_number_status True)
  qed
qed

text \<open>
  C29: no reading of an amount is picked silently. For any comma-decimal and any dot-decimal locale, the reading without
  a locale is ambiguous exactly when these two locales read the text differently. When it is not ambiguous, every locale
  gives the same result as none. When it is, both locales read the text, as two different decimals one of which is a
  thousand times the other, so that the two values differ unless both are zero.
\<close>

theorem ambiguous_amounts_are_exactly_the_locale_dependent:
  assumes "decimal_separator_for comma_loc = Some (CHR '','')" "decimal_separator_for dot_loc = Some (CHR ''.'')"
  shows "(n_status (parse_amount raw None currency) = ''ambiguous''
        \<longleftrightarrow> parse_amount raw comma_loc currency \<noteq> parse_amount raw dot_loc currency)
   \<and> (n_status (parse_amount raw None currency) \<noteq> ''ambiguous'' \<longrightarrow> (\<forall>loc. parse_amount raw loc currency = parse_amount raw None currency))
   \<and> (n_status (parse_amount raw None currency) = ''ambiguous'' \<longrightarrow>
        (\<exists>x y. decimal_of (parse_amount raw comma_loc currency) = Inr x \<and> decimal_of (parse_amount raw dot_loc currency) = Inr y
           \<and> x \<noteq> y \<and> (dec_val x = 1000 * dec_val y \<or> dec_val y = 1000 * dec_val x)
           \<and> (dec_val x = dec_val y \<longleftrightarrow> dec_val x = 0 \<and> dec_val y = 0)))"
proof (cases "n_status (parse_amount raw None currency) = ''ambiguous''")
  case True
  then obtain x y where xy: "decimal_of (parse_amount raw comma_loc currency) = Inr x"
      "decimal_of (parse_amount raw dot_loc currency) = Inr y" "x \<noteq> y" "dec_val x = 1000 * dec_val y \<or> dec_val y = 1000 * dec_val x"
    using amount_readings [of raw currency None comma_loc dot_loc] assms by auto
  then have "parse_amount raw comma_loc currency \<noteq> parse_amount raw dot_loc currency" by auto
  moreover have "dec_val x = dec_val y \<longleftrightarrow> dec_val x = 0 \<and> dec_val y = 0" using xy(4) by auto
  ultimately show ?thesis using True xy by simp
next
  case False
  then have eq: "\<forall>loc. parse_amount raw loc currency = parse_amount raw None currency"
    using amount_readings [of raw currency _ comma_loc dot_loc] by blast
  have "parse_amount raw comma_loc currency = parse_amount raw dot_loc currency" using eq by metis
  with eq False show ?thesis by blast
qed

lemma read_number_value: "is_ok (read_number neg tx loc as cur) \<Longrightarrow> \<exists>d. decimal_of (read_number neg tx loc as cur) = Inr d"
  using resolve_value_status [of tx loc] unfolding read_number_def is_ok_def decimal_of_def
  by (auto simp: dec_parse_dec_str split: prod.splits option.splits dec_lit.splits)

lemma parse_amount_value: "is_ok (parse_amount raw loc cur) \<Longrightarrow> \<exists>d. decimal_of (parse_amount raw loc cur) = Inr d"
  using read_number_value amount_text_Inl [of raw cur]
  by (auto simp: parse_amount_def is_ok_def split: sum.splits prod.splits)

lemma decimal_of_ok: "decimal_of n = Inr d \<Longrightarrow> is_ok n"
  by (auto simp: decimal_of_def is_ok_def res_iffs split: option.splits)

subsection \<open>Dates\<close>

definition iso_day :: "nat \<Rightarrow> nat \<Rightarrow> nat \<Rightarrow> string" where
  "iso_day y m d = show_year y @ ''-'' @ pad2 m @ ''-'' @ pad2 d"

definition calendar_day :: "nat \<Rightarrow> nat \<Rightarrow> nat \<Rightarrow> bool" where
  "calendar_day y m d = (1 \<le> m \<and> m \<le> 12 \<and> 1 \<le> d \<and> d \<le> days_in_month y m)"

lemma month_cases: "1 \<le> m \<Longrightarrow> m \<le> 12 \<Longrightarrow> m \<in> {1, 2, 3, 4, 5, 6, 7, 8, 9, 10, 11, 12 :: nat}"
  by (simp; presburger)

lemma month_bound: "1 \<le> m \<Longrightarrow> m \<le> 12 \<Longrightarrow> DAYS_IN_MONTH ! (m - 1) = (if m = 2 then 29 else days_in_month y m)"
  using month_cases [of m] by (auto simp: DAYS_IN_MONTH_def days_in_month_def)

lemma make_date_eq:
  "make_date y m d as = (if calendar_day y m d then norm_ok (iso_day y m d) None as
     else norm_fail ''invalid'' (the (n_reason (make_date y m d as))) None [])"
proof (cases "1 \<le> m \<and> m \<le> 12")
  case True
  then show ?thesis using month_bound [of m y]
    by (auto simp: make_date_def calendar_day_def iso_day_def days_in_month_def)
qed (auto simp: make_date_def calendar_day_def)

lemma make_date_status: "n_status (make_date y m d as) \<noteq> ''ambiguous''"
  by (subst make_date_eq) simp

lemma small_days: "1 \<le> m \<Longrightarrow> m \<le> 12 \<Longrightarrow> 1 \<le> d \<Longrightarrow> d \<le> 12 \<Longrightarrow> calendar_day y m d"
  by (auto simp: calendar_day_def days_in_month_def)

definition two_months :: "nat \<Rightarrow> nat \<Rightarrow> bool" where
  "two_months a b = (1 \<le> a \<and> a \<le> 12 \<and> 1 \<le> b \<and> b \<le> 12 \<and> a \<noteq> b)"

lemma no_locale: "normalize_locale None \<notin> set MONTH_FIRST_LOCALES"
  by code_simp

lemma numeric_date_fixed:
  assumes "\<not> two_months a b"
  shows "numeric_date a b y as yl loc = numeric_date a b y as yl None" "n_status (numeric_date a b y as yl loc) \<noteq> ''ambiguous''"
proof -
  define A where "A \<longleftrightarrow> 1 \<le> a \<and> a \<le> 12"
  define B where "B \<longleftrightarrow> 1 \<le> b \<and> b \<le> 12"
  have "\<not> A \<or> \<not> B \<or> a = b" using assms by (auto simp: A_def B_def two_months_def)
  then show "numeric_date a b y as yl loc = numeric_date a b y as yl None" "n_status (numeric_date a b y as yl loc) \<noteq> ''ambiguous''"
    using make_date_status unfolding numeric_date_def Let_def A_def [symmetric] B_def [symmetric]
    by (cases A; cases B; simp)+
qed

lemma numeric_date_two_months:
  assumes "two_months a b"
  shows "n_status (numeric_date a b y as yl None) = ''ambiguous''"
    and "l \<noteq> [] \<Longrightarrow> n_value (numeric_date a b y as yl (Some l)) =
      Some (if normalize_locale (Some l) \<in> set MONTH_FIRST_LOCALES then iso_day y a b else iso_day y b a)"
proof -
  have ok: "n_value (make_date y a b as') = Some (iso_day y a b)" "n_value (make_date y b a as') = Some (iso_day y b a)" for as'
    by (subst make_date_eq, use small_days assms in \<open>simp add: two_months_def\<close>)+
  show "n_status (numeric_date a b y as yl None) = ''ambiguous''"
    using assms no_locale unfolding numeric_date_def Let_def two_months_def by simp
  show "l \<noteq> [] \<Longrightarrow> n_value (numeric_date a b y as yl (Some l)) =
      Some (if normalize_locale (Some l) \<in> set MONTH_FIRST_LOCALES then iso_day y a b else iso_day y b a)"
    using assms ok unfolding numeric_date_def Let_def two_months_def by simp
qed

definition reads_a_day :: "normalized \<Rightarrow> bool" where
  "reads_a_day n = (n_status n = ''invalid'' \<or> (\<exists>y m d. n_status n = ''ok'' \<and> n_value n = Some (iso_day y m d) \<and> calendar_day y m d))"

lemma make_date_day [simp]: "reads_a_day (make_date y m d as)"
  by (subst make_date_eq) (auto simp: reads_a_day_def)

lemma named_date_day: "reads_a_day (named_date p nme q yr)"
  unfolding named_date_def by (auto simp: reads_a_day_def [of "norm_fail _ _ _ _"] split: option.splits)

lemma date_text_day: "date_text raw dy = Inl n \<Longrightarrow> reads_a_day n"
  using named_date_day unfolding date_text_def
  by (auto simp: reads_a_day_def [of "norm_fail _ _ _ _"] split: option.splits if_splits prod.splits)

lemma numeric_date_day: "reads_a_day (numeric_date a b y as yl loc) \<or> n_status (numeric_date a b y as yl loc) = ''ambiguous''"
  unfolding numeric_date_def Let_def by (auto simp: reads_a_day_def [of "norm_fail _ _ _ _"])

lemma parse_date_day: "reads_a_day (parse_date raw loc dy) \<or> n_status (parse_date raw loc dy) = ''ambiguous''"
  using date_text_day numeric_date_day by (auto simp: parse_date_def split: sum.splits prod.splits)

text \<open>
  C31: a date that is read is a day of the calendar, and its order is never guessed. A successful reading
  is the ISO text of a day that exists in its month and year. When the text can be read without a
  locale, every locale gives the same result; when it is ambiguous, a month-first locale and any other
  one both read it, as the two days that exchange month and day.
\<close>

theorem ambiguous_dates_are_exactly_the_locale_dependent:
  "(n_status (parse_date raw loc default_year) = ''ok'' \<longrightarrow>
      (\<exists>y m d. n_value (parse_date raw loc default_year) = Some (iso_day y m d) \<and> calendar_day y m d))
   \<and> (n_status (parse_date raw None default_year) \<noteq> ''ambiguous'' \<longrightarrow> parse_date raw loc default_year = parse_date raw None default_year)
   \<and> (n_status (parse_date raw None default_year) = ''ambiguous'' \<longrightarrow>
        (\<exists>y a b. a \<noteq> b \<and> calendar_day y a b \<and> calendar_day y b a
           \<and> (\<forall>l. l \<noteq> [] \<longrightarrow> n_value (parse_date raw (Some l) default_year) =
                Some (if normalize_locale (Some l) \<in> set MONTH_FIRST_LOCALES then iso_day y a b else iso_day y b a))))"
proof -
  have ok: "n_status (parse_date raw loc default_year) = ''ok'' \<longrightarrow>
      (\<exists>y m d. n_value (parse_date raw loc default_year) = Some (iso_day y m d) \<and> calendar_day y m d)"
    using parse_date_day [of raw loc default_year] by (auto simp: reads_a_day_def)
  show ?thesis
  proof (cases "date_text raw default_year")
    case (Inl n)
    with date_text_day [OF Inl] ok show ?thesis by (auto simp: parse_date_def reads_a_day_def)
  next
    case (Inr q)
    obtain a b y as yl where q: "q = (a, b, y, as, yl)" by (cases q)
    have p: "parse_date raw l default_year = numeric_date a b y as yl l" for l using Inr q by (simp add: parse_date_def)
    show ?thesis
    proof (cases "two_months a b")
      case True
      then have "a \<noteq> b" "calendar_day y a b" "calendar_day y b a" using small_days by (auto simp: two_months_def)
      then show ?thesis using ok numeric_date_two_months [OF True] unfolding p by blast
    next
      case False
      then show ?thesis using ok numeric_date_fixed(1) [OF False, of y as yl loc] numeric_date_fixed(2) [OF False, of y as yl None]
        unfolding p by simp
    qed
  qed
qed

theorem ambiguous_dates_are_exactly_the_locale_dependent_witness:
  "n_value (parse_date (Some ''03/04/2025'') (Some ''en_US'') None) = Some ''2025-03-04''
   \<and> (\<exists>y a b. a \<noteq> b \<and> calendar_day y a b \<and> n_value (parse_date (Some ''03/04/2025'') (Some ''en_US'') None) = Some (iso_day y a b))"
proof -
  have "n_status (parse_date (Some ''03/04/2025'') None None) = ''ambiguous''" by code_simp
  moreover have "normalize_locale (Some ''en_US'') \<in> set MONTH_FIRST_LOCALES" by code_simp
  moreover have "n_value (parse_date (Some ''03/04/2025'') (Some ''en_US'') None) = Some ''2025-03-04''" by code_simp
  ultimately show ?thesis
    using ambiguous_dates_are_exactly_the_locale_dependent [of "Some ''03/04/2025''" None None] by fastforce
qed

theorem ambiguous_amounts_are_exactly_the_locale_dependent_witness:
  "parse_amount (Some ''1.234'') (Some ''de-DE'') None \<noteq> parse_amount (Some ''1.234'') (Some ''en-US'') None
   \<and> (\<exists>x y. decimal_of (parse_amount (Some ''1.234'') (Some ''de-DE'') None) = Inr x
        \<and> decimal_of (parse_amount (Some ''1.234'') (Some ''en-US'') None) = Inr y
        \<and> (dec_val x = 1000 * dec_val y \<or> dec_val y = 1000 * dec_val x))"
proof -
  have "n_status (parse_amount (Some ''1.234'') None None) = ''ambiguous''" by code_simp
  moreover have "decimal_separator_for (Some ''de-DE'') = Some (CHR '','')" "decimal_separator_for (Some ''en-US'') = Some (CHR ''.'')" by code_simp+
  note ambiguous_amounts_are_exactly_the_locale_dependent [OF this, of "Some ''1.234''" None]
  ultimately show ?thesis by blast
qed

end
