(* ===== verification/Event_Constructors.thy ===== *)
theory Event_Constructors
  imports Events Base64 Normalize
begin

text \<open>
  The typed constructors of \<^verbatim>\<open>product/viva/ledger/events.py\<close> up to the ruling, with the validators
  they call (\<^verbatim>\<open>acquisition.validate\<close>, the extraction context). A guard that fails is the
  exception it raises, tested in the source's order.
\<close>

definition JOptStr :: "string option \<Rightarrow> json" where
  "JOptStr s = (case s of None \<Rightarrow> JNull | Some t \<Rightarrow> JStr t)"

definition JOpt :: "json option \<Rightarrow> json" where
  "JOpt j = (case j of None \<Rightarrow> JNull | Some v \<Rightarrow> v)"

definition str_default :: "string \<Rightarrow> string \<Rightarrow> string" where
  "str_default s d = (if s = [] then d else s)"

definition keys_of :: "json \<Rightarrow> string set" where
  "keys_of j = (case j of JObj fs \<Rightarrow> set (map fst fs) | _ \<Rightarrow> {})"

definition is_obj :: "json \<Rightarrow> bool" where
  "is_obj j = (case j of JObj fs \<Rightarrow> True | _ \<Rightarrow> False)"

definition jstr_of :: "json \<Rightarrow> string \<Rightarrow> string option" where
  "jstr_of j k = (case jget j k of Some (JStr s) \<Rightarrow> Some s | _ \<Rightarrow> None)"

definition list_or :: "string list option \<Rightarrow> string list" where
  "list_or xs = (case xs of None \<Rightarrow> [] | Some ys \<Rightarrow> ys)"

subsection \<open>Accounts, balances and held statements\<close>

definition ISSUED :: string where "ISSUED = ''issued''"
definition ASSERTED :: string where "ASSERTED = ''asserted''"
definition ORIGINS :: "string list" where "ORIGINS = [ISSUED, ASSERTED]"

definition account_opened ::
    "string \<Rightarrow> string \<Rightarrow> string \<Rightarrow> string \<Rightarrow> string \<Rightarrow> string \<Rightarrow> string \<Rightarrow> string \<Rightarrow> string
     \<Rightarrow> string list option \<Rightarrow> string \<Rightarrow> provenance option \<Rightarrow> event res" where
  "account_opened eid account_id kind name currency occ jurisdiction institution account_number
     account_names origin prov =
     guardR (origin \<in> set ORIGINS) (ValueError ''origin must be one of ORIGINS'')
     (Inr (Event eid ''AccountOpened'' occ
        (JObj [(''account_id'', JStr account_id), (''kind'', JStr kind), (''name'', JStr name),
               (''currency'', JStr currency), (''jurisdiction'', JStr jurisdiction),
               (''institution'', JStr institution), (''account_number'', JStr account_number),
               (''account_names'', JStrs (list_or account_names)), (''origin'', JStr origin)])
        (prov_or prov prov_empty)))"

definition account_identity_observed ::
    "string \<Rightarrow> string \<Rightarrow> string \<Rightarrow> string \<Rightarrow> string \<Rightarrow> string list option \<Rightarrow> provenance option \<Rightarrow> event" where
  "account_identity_observed eid account_id occ institution account_number account_names prov =
     Event eid ''AccountIdentityObserved'' occ
       (JObj [(''account_id'', JStr account_id), (''institution'', JStr institution),
              (''account_number'', JStr account_number),
              (''account_names'', JStrs (list_or account_names))])
       (prov_or prov prov_empty)"

definition opening_balance_observed ::
    "string \<Rightarrow> string \<Rightarrow> pynum \<Rightarrow> string \<Rightarrow> provenance option \<Rightarrow> event res" where
  "opening_balance_observed eid account_id amount occ prov =
     bindR (py_Decimal amount) (\<lambda>a.
       Inr (Event eid ''OpeningBalanceObserved'' occ
              (JObj [(''account_id'', JStr account_id), (''amount'', JStr (dec_str a))])
              (prov_or prov prov_empty)))"

definition closing_balance_observed ::
    "string \<Rightarrow> string \<Rightarrow> pynum \<Rightarrow> string \<Rightarrow> provenance option \<Rightarrow> string \<Rightarrow> event res" where
  "closing_balance_observed eid account_id amount occ prov confirmed_by =
     bindR (py_Decimal amount) (\<lambda>a.
       Inr (Event eid ''ClosingBalanceObserved'' occ
              (JObj [(''account_id'', JStr account_id), (''amount'', JStr (dec_str a)),
                     (''confirmed_by'', JStr confirmed_by)])
              (prov_or prov prov_empty)))"

definition statement_held ::
    "string \<Rightarrow> string \<Rightarrow> json \<Rightarrow> json option \<Rightarrow> string \<Rightarrow> string \<Rightarrow> provenance option \<Rightarrow> event" where
  "statement_held eid doc_id facts finding reason occ prov =
     Event eid ''StatementHeld'' occ
       (JObj [(''doc_id'', JStr doc_id), (''reason'', JStr reason), (''facts'', facts),
              (''finding'', JOpt finding)])
       (prov_or prov (prov_of_doc doc_id))"

definition brokerage_activity_held ::
    "string \<Rightarrow> string \<Rightarrow> json \<Rightarrow> json option \<Rightarrow> string \<Rightarrow> provenance option \<Rightarrow> event" where
  "brokerage_activity_held eid doc_id facts finding occ prov =
     Event eid ''BrokerageActivityHeld'' occ
       (JObj [(''doc_id'', JStr doc_id), (''reason'', JStr ''activity''), (''facts'', facts),
              (''finding'', JOpt finding)])
       (prov_or prov (prov_of_doc doc_id))"

definition brokerage_activity_resolved :: "string \<Rightarrow> string \<Rightarrow> string \<Rightarrow> provenance option \<Rightarrow> event" where
  "brokerage_activity_resolved eid doc_id occ prov =
     Event eid ''BrokerageActivityResolved'' occ (JObj [(''doc_id'', JStr doc_id)])
       (prov_or prov (prov_of_doc doc_id))"

definition correction_applied ::
    "string \<Rightarrow> string \<Rightarrow> string \<Rightarrow> string \<Rightarrow> string \<Rightarrow> string \<Rightarrow> string \<Rightarrow> provenance option \<Rightarrow> event" where
  "correction_applied eid doc_id target from_value to_value occ by_whom prov =
     Event eid ''CorrectionApplied'' occ
       (JObj [(''doc_id'', JStr doc_id), (''target'', JStr target), (''from'', JStr from_value),
              (''to'', JStr to_value), (''by'', JStr by_whom)])
       (prov_or prov (prov_of_doc doc_id))"

subsection \<open>Acquisition provenance and captured documents\<close>

definition ACQ_FIELDS :: "string list" where
  "ACQ_FIELDS = [''kind'', ''sample_version'', ''corpus_manifest_sha256'', ''readings_sha256'',
                 ''reading_contract'', ''document_sha256'', ''reading_sha256'']"

definition ACQ_DIGESTS :: "string list" where
  "ACQ_DIGESTS = [''corpus_manifest_sha256'', ''readings_sha256'', ''document_sha256'', ''reading_sha256'']"

definition CORPUS_SHA :: string where
  "CORPUS_SHA = ''97a92df2512beb4938c498d7f1b43d20d4e3800cc38e9ce83012dda252f46800''"

definition READINGS_SHA :: string where
  "READINGS_SHA = ''dbd302f394113ecb66c730a6d4bb40636897ba40cb9c3e4345084fb215fe1eab''"

definition is_hex64 :: "string \<Rightarrow> bool" where
  "is_hex64 s = (length s = 64 \<and> list_all (\<lambda>c. is_digit c \<or> (97 \<le> (of_char c :: nat) \<and> (of_char c :: nat) \<le> 102)) s)"

definition acq_validate :: "json \<Rightarrow> json res" where
  "acq_validate value =
     guardR (is_obj value \<and> keys_of value = set ACQ_FIELDS) (ValueError ''invalid acquisition provenance'')
     (guardR (jstr_of value ''kind'' = Some ''local-curation-v1''
              \<and> jstr_of value ''sample_version'' = Some ''five-year-life-v1''
              \<and> jstr_of value ''reading_contract'' = Some ''curated-source-reading-v2'')
        (ValueError ''unsupported acquisition provenance'')
     (guardR (list_all (\<lambda>k. case jstr_of value k of Some s \<Rightarrow> is_hex64 s | None \<Rightarrow> False) ACQ_DIGESTS)
        (ValueError ''invalid acquisition digest'')
     (guardR (jstr_of value ''corpus_manifest_sha256'' = Some CORPUS_SHA
              \<and> jstr_of value ''readings_sha256'' = Some READINGS_SHA)
        (ValueError ''local curation resource identity is incompatible'')
     (Inr value))))"

definition document_captured ::
    "string \<Rightarrow> string \<Rightarrow> string \<Rightarrow> int \<Rightarrow> string \<Rightarrow> json \<Rightarrow> string \<Rightarrow> provenance option \<Rightarrow> json option \<Rightarrow> event res" where
  "document_captured eid doc_id filename byte_len doc_type confidence occ prov acquisition =
     (let base = [(''doc_id'', JStr doc_id), (''filename'', JStr filename), (''byte_len'', JInt byte_len),
                  (''doc_type'', JStr doc_type)];
          mk = (\<lambda>fs. Event eid ''DocumentCaptured'' occ (JObj fs) (prov_or prov (prov_of_doc doc_id)))
      in case acquisition of
           None \<Rightarrow> Inr (mk (base @ [(''doc_type_confidence'', confidence)]))
         | Some a \<Rightarrow> bindR (acq_validate a) (\<lambda>v. Inr (mk (base @ [(''acquisition'', v)]))))"

definition account_alias_confirmed ::
    "string \<Rightarrow> string \<Rightarrow> string \<Rightarrow> string \<Rightarrow> string \<Rightarrow> string \<Rightarrow> provenance option \<Rightarrow> bool
     \<Rightarrow> string list option \<Rightarrow> string option \<Rightarrow> string option \<Rightarrow> event" where
  "account_alias_confirmed eid alias_key account_id doc_id occ by_whom prov learn_signal
     match_names match_label kind =
     Event eid ''AccountAliasConfirmed'' occ
       (JObj ([(''alias_key'', JStr alias_key), (''account_id'', JStr account_id),
               (''doc_id'', JStr doc_id), (''by'', JStr by_whom), (''learn_signal'', JBool learn_signal)]
              @ (if match_names \<noteq> None \<or> match_label \<noteq> None \<or> kind \<noteq> None then
                   [(''match_names'', JStrs (list_or match_names)),
                    (''match_label'', JStr (case match_label of None \<Rightarrow> [] | Some l \<Rightarrow> l)),
                    (''kind'', JStr (case kind of None \<Rightarrow> [] | Some k \<Rightarrow> k))]
                 else [])))
       (prov_or prov (prov_of_doc doc_id))"

subsection \<open>Reads\<close>

definition MORTGAGE_SOURCE_CONTRACT :: string where
  "MORTGAGE_SOURCE_CONTRACT = ''mortgage-principal-source-v2''"

record extraction_context =
  schema_version :: int
  normalization_rules_version :: string
  parser_locale :: "string option"
  parser_currency :: "string option"
  instrument_source_contract :: "string option"

definition context_dict :: "extraction_context \<Rightarrow> (string \<times> json) list" where
  "context_dict c =
     [(''schema_version'', JInt (schema_version c)),
      (''normalization_rules_version'', JStr (normalization_rules_version c)),
      (''parser_locale'', JOptStr (parser_locale c)), (''parser_currency'', JOptStr (parser_currency c)),
      (''instrument_source_contract'', JOptStr (instrument_source_contract c))]"

definition opt_within :: "nat \<Rightarrow> string option \<Rightarrow> bool" where
  "opt_within n s = (case s of None \<Rightarrow> True | Some t \<Rightarrow> length t \<le> n)"

definition context_post_init :: "extraction_context \<Rightarrow> unit res" where
  "context_post_init c =
     guardR (schema_version c \<in> {1, 2}) (ValueError ''unsupported extraction context schema'')
     (guardR (\<not> ((schema_version c = 1 \<and> instrument_source_contract c \<noteq> None) \<or>
                  (schema_version c = 2 \<and> instrument_source_contract c \<noteq> Some MORTGAGE_SOURCE_CONTRACT)))
        (ValueError ''unsupported instrument source contract'')
     (guardR (length (normalization_rules_version c) \<le> 32 \<and> normalization_rules_version c = RULES_VERSION)
        (ValueError ''unsupported normalization rules implementation'')
     (guardR (opt_within 64 (parser_locale c) \<and> opt_within 16 (parser_currency c))
        (ValueError ''invalid extraction parser input context'')
     (guardR (length (dumps (JObj (context_dict c))) \<le> 512)
        (ValueError ''extraction context descriptor exceeds bound'') (Inr ())))))"

definition encode_context :: "extraction_context \<Rightarrow> json res" where
  "encode_context c =
     bindR (context_post_init c) (\<lambda>_.
       Inr (JObj (if schema_version c = 1
                  then filter (\<lambda>(k, v). k \<noteq> ''instrument_source_contract'') (context_dict c)
                  else context_dict c)))"

definition read_recorded ::
    "string \<Rightarrow> string \<Rightarrow> string \<Rightarrow> string \<Rightarrow> string \<Rightarrow> string \<Rightarrow> json \<Rightarrow> int \<Rightarrow> int \<Rightarrow> bool \<Rightarrow> string option
     \<Rightarrow> string \<Rightarrow> provenance option \<Rightarrow> string \<Rightarrow> string \<Rightarrow> bool option \<Rightarrow> extraction_context option
     \<Rightarrow> string list option \<Rightarrow> bool option \<Rightarrow> string \<Rightarrow> int \<Rightarrow> event res" where
  "read_recorded eid doc_id model prompt_version input_mode response_text cost_usd input_tokens
     output_tokens parse_ok parse_error occ prov phase resolved_model usage_reported
     normalization_context receipt_ids all_received extraction_id phase_attempt =
     guardR (\<not> (receipt_ids = None \<and> (all_received \<noteq> None \<or> extraction_id \<noteq> [] \<or> phase_attempt \<noteq> 0)))
       (ValueError ''incomplete scoped extraction response fields'')
     (bindR (case receipt_ids of None \<Rightarrow> Inr []
             | Some ids \<Rightarrow>
                 (case all_received of
                    None \<Rightarrow> Inl (ValueError ''invalid extraction response links'')
                  | Some cmp \<Rightarrow>
                      guardR (list_all (\<lambda>i. i \<noteq> []) ids \<and> extraction_id \<noteq> [] \<and> phase_attempt \<ge> 0)
                        (ValueError ''invalid extraction response links'')
                        (Inr [(''transport_receipt_ids'', JStrs ids), (''transport_complete'', JBool cmp),
                              (''extraction_id'', JStr extraction_id), (''phase_attempt'', JInt phase_attempt)])))
       (\<lambda>links.
      bindR (case normalization_context of None \<Rightarrow> Inr []
             | Some c \<Rightarrow>
                 guardR (phase = ''extract'') (ValueError ''normalization context is extraction-only'')
                   (bindR (encode_context c) (\<lambda>j. Inr [(''normalization_context'', j)])))
       (\<lambda>ctx.
        let measured = (usage_reported = Some True \<or>
                        (usage_reported = None \<and> (input_tokens > 0 \<or> output_tokens > 0)))
        in Inr (Event eid ''ReadRecorded'' occ
             (JObj ([(''doc_id'', JStr doc_id), (''model'', JStr model),
                     (''model_role'', JStr ''configured_route''), (''prompt_version'', JStr prompt_version),
                     (''input_mode'', JStr input_mode), (''response_text'', JStr response_text),
                     (''cost_usd'', cost_usd), (''parse_ok'', JBool parse_ok),
                     (''parse_error'', JOptStr parse_error), (''phase'', JStr phase)]
                    @ links @ ctx
                    @ (if resolved_model \<noteq> [] then [(''resolved_model'', JStr resolved_model)] else [])
                    @ (if measured then [(''input_tokens'', JInt input_tokens),
                                         (''output_tokens'', JInt output_tokens),
                                         (''usage_reported'', JBool True)] else [])))
             (prov_or prov (prov_of_doc doc_id))))))"

text \<open>\<open>sha\<close> is \<^verbatim>\<open>hashlib.sha256(...).hexdigest()\<close>.\<close>

definition curated_read_recorded ::
    "(string \<Rightarrow> string) \<Rightarrow> string \<Rightarrow> string \<Rightarrow> string \<Rightarrow> string \<Rightarrow> bool \<Rightarrow> string option \<Rightarrow> string \<Rightarrow> json \<Rightarrow> event res" where
  "curated_read_recorded sha eid doc_id doc_type response_text parse_ok parse_error occ acquisition =
     bindR (acq_validate acquisition) (\<lambda>source.
     guardR (jstr_of source ''document_sha256'' = Some doc_id
             \<and> jstr_of source ''reading_sha256'' = Some (sha response_text))
       (ValueError ''curated reading is not bound to its source'')
     (Inr (Event eid ''ReadRecorded'' occ
        (JObj [(''doc_id'', JStr doc_id), (''doc_type'', JStr doc_type),
               (''response_text'', JStr response_text), (''parse_ok'', JBool parse_ok),
               (''parse_error'', JOptStr parse_error), (''phase'', JStr ''extract''),
               (''acquisition'', source), (''normalization_locale'', JStr ''en-US''),
               (''source_currency'', JStr ''USD'')])
        (prov_of_doc doc_id))))"

subsection \<open>Transfers and categories\<close>

definition transfer_linked ::
    "string \<Rightarrow> string \<Rightarrow> string \<Rightarrow> string \<Rightarrow> json \<Rightarrow> string \<Rightarrow> string \<Rightarrow> provenance option \<Rightarrow> event" where
  "transfer_linked eid movement_a movement_b grade evidence occ by_whom prov =
     Event eid ''TransferLinked'' occ
       (JObj [(''a'', JStr movement_a), (''b'', JStr movement_b), (''grade'', JStr grade),
              (''evidence'', evidence), (''by'', JStr by_whom), (''status'', JStr ''linked'')])
       (prov_or prov prov_empty)"

definition transfer_unlinked ::
    "string \<Rightarrow> string \<Rightarrow> string \<Rightarrow> string \<Rightarrow> string \<Rightarrow> provenance option \<Rightarrow> event" where
  "transfer_unlinked eid movement_a movement_b occ by_whom prov =
     Event eid ''TransferUnlinked'' occ
       (JObj [(''a'', JStr movement_a), (''b'', JStr movement_b), (''by'', JStr by_whom),
              (''status'', JStr ''unlinked'')])
       (prov_or prov prov_empty)"

definition transfer_suggested ::
    "string \<Rightarrow> string \<Rightarrow> string list \<Rightarrow> json \<Rightarrow> string \<Rightarrow> provenance option \<Rightarrow> event" where
  "transfer_suggested eid movement_a candidates evidence occ prov =
     Event eid ''TransferSuggested'' occ
       (JObj [(''a'', JStr movement_a), (''candidates'', JStrs candidates), (''evidence'', evidence),
              (''status'', JStr ''suggested'')])
       (prov_or prov prov_empty)"

definition category_assigned ::
    "string \<Rightarrow> string \<Rightarrow> string \<Rightarrow> string \<Rightarrow> string \<Rightarrow> string \<Rightarrow> string \<Rightarrow> string \<Rightarrow> provenance option
     \<Rightarrow> string \<Rightarrow> string \<Rightarrow> string \<Rightarrow> string \<Rightarrow> string \<Rightarrow> event" where
  "category_assigned eid movement_key descriptor category grade occ by_whom nature prov
     subcategory category_grade subcategory_grade category_by subcategory_by =
     (let cs = str_default category_by by_whom; ss = str_default subcategory_by by_whom in
      Event eid ''CategoryAssigned'' occ
        (JObj ([(''movement_key'', JStr movement_key), (''descriptor'', JStr descriptor),
                (''category'', JStr category), (''grade'', JStr grade),
                (''by'', JStr (if cs = ss then cs else ''mixed'')), (''nature'', JStr nature),
                (''category_grade'', JStr (str_default category_grade grade)),
                (''subcategory_grade'', JStr (str_default subcategory_grade grade)),
                (''category_by'', JStr cs), (''subcategory_by'', JStr ss)]
               @ (if subcategory \<noteq> [] then [(''subcategory'', JStr subcategory)] else [])))
        (prov_or prov prov_empty))"

definition merchant_categorized ::
    "string \<Rightarrow> string \<Rightarrow> string \<Rightarrow> string \<Rightarrow> string \<Rightarrow> string \<Rightarrow> provenance option \<Rightarrow> event" where
  "merchant_categorized eid merchant category grade occ by_whom prov =
     Event eid ''MerchantCategorized'' occ
       (JObj [(''merchant'', JStr merchant), (''category'', JStr category), (''grade'', JStr grade),
              (''by'', JStr by_whom)])
       (prov_or prov prov_empty)"

definition merchant_enriched ::
    "string \<Rightarrow> string \<Rightarrow> string \<Rightarrow> string \<Rightarrow> string \<Rightarrow> (string \<times> json) list option \<Rightarrow> string \<Rightarrow> string \<Rightarrow> string
     \<Rightarrow> provenance option \<Rightarrow> string list option \<Rightarrow> string \<Rightarrow> string \<Rightarrow> string \<Rightarrow> string \<Rightarrow> event" where
  "merchant_enriched eid merchant category subcategory canonical_name attributes grade occ by_whom
     prov aliases category_grade subcategory_grade category_by subcategory_by =
     Event eid ''MerchantEnriched'' occ
       (JObj [(''merchant'', JStr merchant), (''category'', JStr category),
              (''subcategory'', JStr subcategory), (''canonical_name'', JStr canonical_name),
              (''attributes'', JObj (case attributes of None \<Rightarrow> [] | Some fs \<Rightarrow> fs)),
              (''aliases'', JStrs (list_or aliases)), (''grade'', JStr grade), (''by'', JStr by_whom),
              (''category_grade'', JStr (str_default category_grade grade)),
              (''subcategory_grade'', JStr (str_default subcategory_grade grade)),
              (''category_by'', JStr (str_default category_by by_whom)),
              (''subcategory_by'', JStr (str_default subcategory_by by_whom))])
       (prov_or prov prov_empty)"

definition position_observed ::
    "string \<Rightarrow> string \<Rightarrow> string \<Rightarrow> pynum \<Rightarrow> pynum \<Rightarrow> string \<Rightarrow> string \<Rightarrow> pynum option \<Rightarrow> string \<Rightarrow> string
     \<Rightarrow> provenance option \<Rightarrow> event res" where
  "position_observed eid account_id instrument units market_value currency occ cost_basis
     valuation_class grade prov =
     bindR (py_Decimal units) (\<lambda>u.
     bindR (py_Decimal market_value) (\<lambda>v.
     bindR (case cost_basis of None \<Rightarrow> Inr []
            | Some c \<Rightarrow> if c = PStr [] then Inr [] else bindR (py_Decimal c) (\<lambda>d. Inr (dec_str d))) (\<lambda>cb.
       Inr (Event eid ''PositionObserved'' occ
         (JObj [(''account_id'', JStr account_id), (''instrument'', JStr instrument),
                (''units'', JStr (dec_str u)), (''market_value'', JStr (dec_str v)),
                (''currency'', JStr currency), (''valuation_class'', JStr valuation_class),
                (''grade'', JStr grade), (''cost_basis'', JStr cb)])
         (prov_or prov prov_empty)))))"

end
