(* ===== verification/Event_Rulings.thy ===== *)
theory Event_Rulings
  imports Event_Constructors
begin

text \<open>
  The rest of \<^verbatim>\<open>product/viva/ledger/events.py\<close>: rulings with the number and rhythm vocabulary that
  guards them, tags, declines, conversation turns, save-up goals, the agent journal, learned
  accounting rules and captured model responses. Numerals in a person's words are the ASCII digits
  with the grouping characters the source lists; digits of other scripts are not folded.
\<close>

subsection \<open>Majors, scopes and rhythms\<close>

definition MAJORS :: "string list" where
  "MAJORS = [''expense'', ''asset'', ''liability'', ''income'']"

definition SCOPE_MOVEMENT :: string where "SCOPE_MOVEMENT = ''movement''"
definition SCOPE_MERCHANT :: string where "SCOPE_MERCHANT = ''merchant''"
definition SCOPE_ATTRIBUTE :: string where "SCOPE_ATTRIBUTE = ''attribute''"
definition SCOPE_RHYTHM :: string where "SCOPE_RHYTHM = ''rhythm''"

definition SCOPES :: "string list" where
  "SCOPES = [SCOPE_MOVEMENT, SCOPE_MERCHANT, ''account'', ''category'', ''tag'', SCOPE_ATTRIBUTE, SCOPE_RHYTHM]"

definition RHYTHM_DIRECTIONS :: "string list" where
  "RHYTHM_DIRECTIONS = [''in'', ''out'']"

definition PERIODICITIES :: "string list" where
  "PERIODICITIES = [''monthly'', ''annual'', ''one_time'', ''irregular'']"

definition rhythm_subject :: "string \<Rightarrow> string \<Rightarrow> string" where
  "rhythm_subject merchant direction = merchant @ ''|'' @ direction"

definition rhythm_parts :: "string \<Rightarrow> string \<times> string" where
  "rhythm_parts subject =
     (case partition_char (CHR ''|'') subject of (merchant, sep, direction) \<Rightarrow>
        if sep \<and> merchant \<noteq> [] \<and> direction \<noteq> [] then (merchant, direction) else ([], []))"

definition periodicity_value :: "string list \<Rightarrow> string" where
  "periodicity_value periods =
     (let said = map strip periods;
          known = filter (\<lambda>p. p \<in> set said) PERIODICITIES;
          rest = sort (remdups (filter (\<lambda>p. p \<noteq> [] \<and> p \<notin> set PERIODICITIES) said))
      in join ''+'' (known @ rest))"

definition periodicities_in :: "string \<Rightarrow> string list" where
  "periodicities_in value = filter (\<lambda>p. p \<noteq> []) (split_char (CHR ''+'') value)"

subsection \<open>Numbers in words\<close>

text \<open>The grouping characters: comma, space, apostrophe, and (UTF-8) U+00A0, U+202F, U+2019.\<close>

definition NBSP :: string where "NBSP = [CHR 0xC2, CHR 0xA0]"
definition NNBSP :: string where "NNBSP = [CHR 0xE2, CHR 0x80, CHR 0xAF]"
definition RSQUO :: string where "RSQUO = [CHR 0xE2, CHR 0x80, CHR 0x99]"
definition MINUS_SIGN :: string where "MINUS_SIGN = [CHR 0xE2, CHR 0x88, CHR 0x92]"

definition wide_group_len :: "string \<Rightarrow> nat" where
  "wide_group_len s =
     (if starts_with s NBSP then 2 else if starts_with s NNBSP \<or> starts_with s RSQUO then 3 else 0)"

function fold_number :: "string \<Rightarrow> string option" where
  "fold_number s =
     (case s of [] \<Rightarrow> Some []
      | c # cs \<Rightarrow>
          if is_digit c \<or> c = CHR ''.'' then map_option (Cons c) (fold_number cs)
          else if c = CHR '','' \<or> c = CHR '' '' \<or> c = CHR 0x27 then fold_number cs
          else if wide_group_len s \<noteq> 0 then fold_number (drop (wide_group_len s) s)
          else None)"
  by pat_completeness auto
termination
  by (relation "measure length") (auto simp: wide_group_len_def split: if_splits)

declare fold_number.simps [simp del]

text \<open>\<^verbatim>\<open>text.replace(".", "", 1)\<close>\<close>

definition drop_first_dot :: "string \<Rightarrow> string" where
  "drop_first_dot s = takeWhile (\<lambda>c. c \<noteq> CHR ''.'') s @ tl (dropWhile (\<lambda>c. c \<noteq> CHR ''.'') s)"

definition canonical_number :: "string \<Rightarrow> string" where
  "canonical_number s =
     (case fold_number (lstrip_by (\<lambda>c. c = CHR ''+'' \<or> c = CHR ''-'') (strip s)) of
        None \<Rightarrow> []
      | Some t \<Rightarrow>
          if t = [] \<or> drop_first_dot t = [] \<or> \<not> list_all is_digit (drop_first_dot t) then []
          else
            (let u = (case partition_char (CHR ''.'') t of (whole, has, fr) \<Rightarrow>
                        if has then
                          (let f = rstrip_by (\<lambda>c. c = CHR ''0'') fr in
                           if f \<noteq> [] then whole @ ''.'' @ f else whole)
                        else t);
                 v = lstrip_by (\<lambda>c. c = CHR ''0'') u
             in if v = [] then ''0'' else v))"

definition number_unit_len :: "string \<Rightarrow> nat" where
  "number_unit_len s =
     (case s of [] \<Rightarrow> 0
      | c # cs \<Rightarrow> if is_digit c \<or> c = CHR ''.'' \<or> c = CHR '','' \<or> c = CHR 0x27 then 1 else wide_group_len s)"

text \<open>The maximal runs of number characters, as \<^verbatim>\<open>re.split\<close> on everything else leaves them.\<close>

function number_tokens :: "string \<Rightarrow> string \<Rightarrow> string list" where
  "number_tokens acc s =
     (case s of [] \<Rightarrow> [acc]
      | c # cs \<Rightarrow>
          (let k = number_unit_len s in
           if k \<noteq> 0 then number_tokens (acc @ take k s) (drop k s)
           else acc # number_tokens [] cs))"
  by pat_completeness auto
termination
  by (relation "measure (\<lambda>(acc, s). length s)")
    (auto simp: number_unit_len_def wide_group_len_def split: if_splits)

declare number_tokens.simps [simp del]

definition numbers_said :: "string \<Rightarrow> string list" where
  "numbers_said said =
     filter (\<lambda>n. n \<noteq> [])
       (map (\<lambda>t. canonical_number (strip_by (\<lambda>c. c = CHR ''.'' \<or> c = CHR '','') t)) (number_tokens [] said))"

definition numbers_in :: "string \<Rightarrow> string list" where
  "numbers_in value = numbers_said value"

definition is_finite :: "string \<Rightarrow> bool" where
  "is_finite value = (dec_parse (strip value) \<noteq> Special)"

definition is_iso_shape :: "string \<Rightarrow> bool" where
  "is_iso_shape s =
     (length s = 10 \<and> s ! 4 = CHR ''-'' \<and> s ! 7 = CHR ''-'' \<and>
      list_all is_digit (take 4 s @ take 2 (drop 5 s) @ drop 8 s))"

subsection \<open>The ruling\<close>

type_synonym leg = "(string \<times> string) list"

definition leg_get :: "leg \<Rightarrow> string \<Rightarrow> string" where
  "leg_get l k = (case map_of l k of None \<Rightarrow> [] | Some v \<Rightarrow> v)"

definition clean_leg :: "leg \<Rightarrow> json res" where
  "clean_leg l =
     guardR (leg_get l ''major'' \<in> set MAJORS) (ValueError ''leg major must be one of MAJORS'')
     (guardR (map_of l ''amount'' = None) (ValueError ''a ruling carries no amount'')
     (Inr (JObj [(''major'', JStr (leg_get l ''major'')), (''account'', JStr (leg_get l ''account'')),
                 (''share'', JStr (leg_get l ''share''))])))"

definition check_rhythm :: "string \<Rightarrow> string \<Rightarrow> unit res" where
  "check_rhythm subject value =
     guardR (snd (rhythm_parts subject) \<in> set RHYTHM_DIRECTIONS) (ValueError ''a rhythm subject is <merchant key>|<direction>'')
     (guardR (value \<noteq> [] \<and> list_all (\<lambda>p. p \<in> set PERIODICITIES) (periodicities_in value))
        (ValueError ''a rhythm value is one or more of PERIODICITIES'') (Inr ()))"

definition check_attribute :: "string \<Rightarrow> string \<Rightarrow> string \<Rightarrow> string \<Rightarrow> unit res" where
  "check_attribute subject said value currency =
     guardR (CHR '':'' \<in> set subject) (ValueError ''an attribute subject is <account>:<key>'')
     (guardR (\<not> (value \<noteq> [] \<and> \<not> nonblank said)) (ValueError ''an attribute value must come from what the person said'')
     (guardR (\<not> (value \<noteq> [] \<and> currency \<noteq> [] \<and> canonical_number value = [])) (ValueError ''not a plain amount'')
     (guardR (\<not> (value \<noteq> [] \<and> \<not> is_finite value)) (ValueError ''not a number anything can be done with'')
     (guardR (\<not> (value \<noteq> [] \<and> canonical_number value \<noteq> [] \<and>
                  (starts_with (strip value) ''-'' \<or> starts_with (strip value) MINUS_SIGN)))
        (ValueError ''negative'')
     (guardR (is_iso_shape (strip value) \<or> list_all (\<lambda>n. n \<in> set (numbers_said said)) (numbers_in value))
        (ValueError ''the figure(s) are not in what they said'') (Inr ()))))))"

definition ruling_recorded ::
    "string \<Rightarrow> string \<Rightarrow> string \<Rightarrow> string \<Rightarrow> leg list option \<Rightarrow> string \<Rightarrow> string \<Rightarrow> string \<Rightarrow> string \<Rightarrow> string
     \<Rightarrow> string \<Rightarrow> string \<Rightarrow> string \<Rightarrow> provenance option \<Rightarrow> string \<Rightarrow> string list option \<Rightarrow> string \<Rightarrow> event res" where
  "ruling_recorded eid scope subject occ legs by_whom grade said corroborates prompt_version
     same_as value currency prov grounds source_refs evidence_signature =
     guardR (scope \<in> set SCOPES) (ValueError ''scope must be one of SCOPES'')
     (guardR (subject \<noteq> []) (ValueError ''a ruling must name its subject'')
     (guardR (\<not> (value \<noteq> [] \<and> scope \<noteq> SCOPE_ATTRIBUTE \<and> scope \<noteq> SCOPE_RHYTHM))
        (ValueError ''only an attribute or a rhythm ruling carries a value'')
     (bindR (if scope = SCOPE_RHYTHM then check_rhythm subject value else Inr ()) (\<lambda>_.
      bindR (if scope = SCOPE_ATTRIBUTE then check_attribute subject said value currency else Inr ()) (\<lambda>_.
      bindR (mapR clean_leg (case legs of None \<Rightarrow> [] | Some ls \<Rightarrow> ls)) (\<lambda>clean.
        Inr (Event eid ''RulingRecorded'' occ
          (JObj ([(''scope'', JStr scope), (''subject'', JStr subject), (''legs'', JArr clean),
                  (''by'', JStr by_whom), (''grade'', JStr grade), (''said'', JStr said),
                  (''corroborates'', JStr corroborates), (''same_as'', JStr same_as),
                  (''value'', JStr value), (''currency'', JStr currency),
                  (''prompt_version'', JStr prompt_version)]
                 @ (if grounds \<noteq> [] then [(''grounds'', JStr grounds)] else [])
                 @ (if list_or source_refs \<noteq> [] then [(''source_refs'', JStrs (list_or source_refs))] else [])
                 @ (if evidence_signature \<noteq> [] then [(''evidence_signature'', JStr evidence_signature)] else [])))
          (prov_or prov prov_empty))))))))"

subsection \<open>Tags\<close>

definition clean_tags :: "string list \<Rightarrow> string list" where
  "clean_tags tags = sort (remdups (map (\<lambda>t. lower (strip t)) (filter (\<lambda>t. strip t \<noteq> []) tags)))"

definition movement_tagged ::
    "string \<Rightarrow> string \<Rightarrow> string list \<Rightarrow> string \<Rightarrow> string \<Rightarrow> string \<Rightarrow> provenance option \<Rightarrow> event res" where
  "movement_tagged eid subject tags occ scope by_whom prov =
     guardR (scope = SCOPE_MOVEMENT \<or> scope = SCOPE_MERCHANT) (ValueError ''a tag applies to a movement or a merchant'')
     (Inr (Event eid ''MovementTagged'' occ
        (JObj [(''subject'', JStr subject), (''scope'', JStr scope), (''tags'', JStrs (clean_tags tags)),
               (''by'', JStr by_whom)])
        (prov_or prov prov_empty)))"

subsection \<open>Conversation turns\<close>

definition CONVERSATION_TURN_KINDS :: "string list" where
  "CONVERSATION_TURN_KINDS = [''ask'', ''answer'', ''decline'', ''confirm'']"
definition CONVERSATION_CONTEXT_MODES :: "string list" where
  "CONVERSATION_CONTEXT_MODES = [''new_question'', ''follow_up'']"
definition CONVERSATION_OUTCOMES :: "string list" where
  "CONVERSATION_OUTCOMES = [''completed'', ''refused'', ''proposal'', ''waiting'', ''stale'', ''set_aside'']"

definition conversation_turn_opened ::
    "string \<Rightarrow> string \<Rightarrow> string \<Rightarrow> string \<Rightarrow> string \<Rightarrow> string \<Rightarrow> string \<Rightarrow> bool \<Rightarrow> string option
     \<Rightarrow> provenance option \<Rightarrow> event res" where
  "conversation_turn_opened eid turn_id kind prompt occ said question_id mirrored context_mode prov =
     guardR (nonblank turn_id) (ValueError ''a conversation turn requires an identity'')
     (guardR (kind \<in> set CONVERSATION_TURN_KINDS) (ValueError ''conversation turn kind'')
     (guardR (nonblank prompt) (ValueError ''a conversation turn requires the prompt that opened it'')
     (guardR (\<not> (kind \<in> {''answer'', ''decline''} \<and> \<not> nonblank question_id))
        (ValueError ''a queue reply must name the question it answers'')
     (guardR (\<not> (context_mode \<noteq> None \<and> kind \<noteq> ''ask'')) (ValueError ''only Ask turns may have a context mode'')
     (guardR (case context_mode of None \<Rightarrow> True | Some m \<Rightarrow> m \<in> set CONVERSATION_CONTEXT_MODES)
        (ValueError ''unknown conversation context mode'')
     (Inr (Event eid ''ConversationTurnOpened'' occ
        (JObj ([(''turn_id'', JStr turn_id), (''kind'', JStr kind), (''prompt'', JStr prompt),
                (''said'', JStr said), (''question_id'', JStr question_id), (''mirrored'', JBool mirrored)]
               @ (case context_mode of None \<Rightarrow> [] | Some m \<Rightarrow> [(''context_mode'', JStr m)])))
        (prov_or prov prov_empty))))))))"

definition conversation_turn_settled ::
    "string \<Rightarrow> string \<Rightarrow> string \<Rightarrow> string \<Rightarrow> string \<Rightarrow> string \<Rightarrow> (string \<times> json) list option \<Rightarrow> string
     \<Rightarrow> provenance option \<Rightarrow> event res" where
  "conversation_turn_settled eid turn_id outcome message occ reason answer proposal_id prov =
     guardR (nonblank turn_id) (ValueError ''a settled conversation turn requires an identity'')
     (guardR (outcome \<in> set CONVERSATION_OUTCOMES) (ValueError ''conversation outcome'')
     (guardR (\<not> (outcome = ''refused'' \<and> \<not> nonblank reason)) (ValueError ''a refused conversation turn requires a reason'')
     (guardR (\<not> (outcome = ''proposal'' \<and> \<not> nonblank proposal_id)) (ValueError ''a proposal outcome requires a proposal identity'')
     (Inr (Event eid ''ConversationTurnSettled'' occ
        (JObj [(''turn_id'', JStr turn_id), (''outcome'', JStr outcome), (''message'', JStr message),
               (''reason'', JStr reason), (''answer'', JObj (case answer of None \<Rightarrow> [] | Some fs \<Rightarrow> fs)),
               (''proposal_id'', JStr proposal_id)])
        (prov_or prov prov_empty))))))"

definition nonempty_obj :: "json \<Rightarrow> bool" where
  "nonempty_obj j = (case j of JObj fs \<Rightarrow> fs \<noteq> [] | _ \<Rightarrow> False)"

definition conversation_proposal_recorded ::
    "string \<Rightarrow> string \<Rightarrow> string \<Rightarrow> string \<Rightarrow> string \<Rightarrow> json \<Rightarrow> json \<Rightarrow> string \<Rightarrow> provenance option \<Rightarrow> event res" where
  "conversation_proposal_recorded eid proposal_id turn_id question_id summary proposal stake occ prov =
     guardR (nonblank proposal_id \<and> nonblank turn_id) (ValueError ''a conversation proposal requires proposal and turn identities'')
     (guardR (nonblank question_id) (ValueError ''a conversation correction must name its question'')
     (guardR (nonempty_obj proposal) (ValueError ''a conversation proposal requires its typed structure'')
     (guardR (nonempty_obj stake) (ValueError ''a conversation proposal requires its evidence stake'')
     (Inr (Event eid ''ConversationProposalRecorded'' occ
        (JObj [(''proposal_id'', JStr proposal_id), (''turn_id'', JStr turn_id),
               (''question_id'', JStr question_id), (''summary'', JStr summary),
               (''proposal'', proposal), (''stake'', stake)])
        (prov_or prov prov_empty))))))"

definition conversation_proposal_resolved ::
    "string \<Rightarrow> string \<Rightarrow> string \<Rightarrow> string \<Rightarrow> string \<Rightarrow> string \<Rightarrow> string \<Rightarrow> provenance option \<Rightarrow> event res" where
  "conversation_proposal_resolved eid proposal_id turn_id outcome message occ reason prov =
     guardR (nonblank proposal_id \<and> nonblank turn_id) (ValueError ''a proposal resolution requires proposal and turn identities'')
     (guardR (outcome \<in> {''completed'', ''refused'', ''stale'', ''set_aside''})
        (ValueError ''a proposal resolution requires a terminal outcome'')
     (guardR (\<not> (outcome = ''refused'' \<and> \<not> nonblank reason)) (ValueError ''a refused proposal resolution requires a reason'')
     (Inr (Event eid ''ConversationProposalResolved'' occ
        (JObj [(''proposal_id'', JStr proposal_id), (''turn_id'', JStr turn_id),
               (''outcome'', JStr outcome), (''message'', JStr message), (''reason'', JStr reason)])
        (prov_or prov prov_empty)))))"

subsection \<open>What an accepted ruling says\<close>

lemma ruling_recorded_Inr:
  assumes "ruling_recorded eid scope subject occ legs by_whom grade said corr pv same value cur prov gr refs sig = Inr e"
  obtains clean where "mapR clean_leg (case legs of None \<Rightarrow> [] | Some ls \<Rightarrow> ls) = Inr clean"
    "jget (body e) ''legs'' = Some (JArr clean)" "jget (body e) ''said'' = Some (JStr said)"
    "jget (body e) ''value'' = Some (JStr value)" "jget (body e) ''amount'' = None"
    "scope \<in> set SCOPES" "subject \<noteq> []"
    "value \<noteq> [] \<Longrightarrow> scope = SCOPE_ATTRIBUTE \<or> scope = SCOPE_RHYTHM"
    "scope = SCOPE_ATTRIBUTE \<Longrightarrow> check_attribute subject said value cur = Inr ()"
    "scope = SCOPE_RHYTHM \<Longrightarrow> check_rhythm subject value = Inr ()"
proof -
  from assms obtain clean where c: "mapR clean_leg (case legs of None \<Rightarrow> [] | Some ls \<Rightarrow> ls) = Inr clean"
    and e: "e = Event eid ''RulingRecorded'' occ
          (JObj ([(''scope'', JStr scope), (''subject'', JStr subject), (''legs'', JArr clean),
                  (''by'', JStr by_whom), (''grade'', JStr grade), (''said'', JStr said),
                  (''corroborates'', JStr corr), (''same_as'', JStr same),
                  (''value'', JStr value), (''currency'', JStr cur),
                  (''prompt_version'', JStr pv)]
                 @ (if gr \<noteq> [] then [(''grounds'', JStr gr)] else [])
                 @ (if list_or refs \<noteq> [] then [(''source_refs'', JStrs (list_or refs))] else [])
                 @ (if sig \<noteq> [] then [(''evidence_signature'', JStr sig)] else [])))
          (prov_or prov prov_empty)"
    by (auto simp: ruling_recorded_def res_iffs)
  show ?thesis
    using assms by (intro that [OF c]) (auto simp: ruling_recorded_def res_iffs e Event_def split: if_splits)
qed

text \<open>
  A figure stored about an account was said. When an attribute ruling with a value is accepted
  and the value is not an ISO date, every number in the value is one of the whole numbers in the
  person's own sentence, the sentence is kept verbatim beside it, the value is finite, and a value
  with a currency is a plain unsigned amount.
\<close>

lemma attribute_figures_were_said:
  assumes "ruling_recorded eid SCOPE_ATTRIBUTE subject occ legs by_whom grade said corr pv same value cur prov gr refs sig = Inr e"
    and "value \<noteq> []" and "\<not> is_iso_shape (strip value)"
  shows "set (numbers_in value) \<subseteq> set (numbers_said said) \<and> nonblank said \<and> dec_parse (strip value) \<noteq> Special
    \<and> (cur \<noteq> [] \<longrightarrow> canonical_number value \<noteq> [] \<and> \<not> starts_with (strip value) ''-'')
    \<and> jget (body e) ''said'' = Some (JStr said) \<and> jget (body e) ''value'' = Some (JStr value)"
proof -
  from assms(1) have c: "check_attribute subject said value cur = Inr ()"
    and b: "jget (body e) ''said'' = Some (JStr said)" "jget (body e) ''value'' = Some (JStr value)"
    by (auto elim: ruling_recorded_Inr)
  with assms(2,3) show ?thesis
    by (auto simp: check_attribute_def res_iffs list_all_iff is_finite_def)
qed

text \<open>
  C28: a ruling never carries money. When a ruling is accepted, no leg supplied to it has an amount and every one names
  a major of the closed list; the event has no amount, and its legs are the supplied ones in order, each reduced to its
  major, its account and its share. The amount can only come from the movement the ruling is about.
\<close>

theorem ruling_carries_no_amount:
  assumes "ruling_recorded eid scope subject occ legs by_whom grade said corr pv same value cur prov gr refs sig = Inr e"
  shows "list_all (\<lambda>leg. ''amount'' \<notin> fst ` set leg \<and> leg_get leg ''major'' \<in> set MAJORS) (case legs of None \<Rightarrow> [] | Some ls \<Rightarrow> ls)
    \<and> jget (body e) ''amount'' = None
    \<and> jget (body e) ''legs'' = Some (JArr (map (\<lambda>leg. JObj (map (\<lambda>k. (k, JStr (leg_get leg k))) [''major'', ''account'', ''share'']))
        (case legs of None \<Rightarrow> [] | Some ls \<Rightarrow> ls)))"
proof -
  let ?ls = "case legs of None \<Rightarrow> [] | Some ls \<Rightarrow> ls"
  obtain clean where c: "list_all2 (\<lambda>leg l. clean_leg leg = Inr l) ?ls clean"
    and b: "jget (body e) ''legs'' = Some (JArr clean)" "jget (body e) ''amount'' = None"
    by (rule ruling_recorded_Inr [OF assms]) (auto simp: mapR_Inr_iff intro: that)
  have leg: "''amount'' \<notin> fst ` set leg \<and> leg_get leg ''major'' \<in> set MAJORS
      \<and> l = JObj (map (\<lambda>k. (k, JStr (leg_get leg k))) [''major'', ''account'', ''share''])" if "clean_leg leg = Inr l" for leg l
    using that by (auto simp: clean_leg_def res_iffs map_of_eq_None_iff)
  have "list_all (\<lambda>leg. ''amount'' \<notin> fst ` set leg \<and> leg_get leg ''major'' \<in> set MAJORS) ?ls
      \<and> clean = map (\<lambda>leg. JObj (map (\<lambda>k. (k, JStr (leg_get leg k))) [''major'', ''account'', ''share''])) ?ls"
    using c by (induction rule: list_all2_induct) (use leg in auto)
  with b show ?thesis by simp
qed

theorem ruling_carries_no_amount_witness:
  "\<exists>e. ruling_recorded ''e'' SCOPE_MOVEMENT ''m1'' ''2024-01-05''
          (Some [[(''major'', ''expense''), (''account'', ''Expenses:Interest'')], [(''major'', ''liability'')]])
          ''human'' VERIFIED [] [] [] [] [] [] None [] None [] = Inr e \<and> jget (body e) ''amount'' = None"
proof -
  have "\<exists>e. ruling_recorded ''e'' SCOPE_MOVEMENT ''m1'' ''2024-01-05''
          (Some [[(''major'', ''expense''), (''account'', ''Expenses:Interest'')], [(''major'', ''liability'')]])
          ''human'' VERIFIED [] [] [] [] [] [] None [] None [] = Inr e"
    unfolding not_isl_iff [symmetric] by code_simp
  then show ?thesis using ruling_carries_no_amount by blast
qed

lemma PERIODICITIES_plain: "p \<in> set PERIODICITIES \<Longrightarrow> strip p = p \<and> p \<noteq> [] \<and> CHR ''+'' \<notin> set p"
proof -
  have "list_all (\<lambda>p. strip p = p \<and> p \<noteq> [] \<and> CHR ''+'' \<notin> set p) PERIODICITIES" by code_simp
  then show "p \<in> set PERIODICITIES \<Longrightarrow> ?thesis" by (simp add: list_all_iff)
qed

lemma periodicity_value_known:
  assumes "set ps \<subseteq> set PERIODICITIES"
  shows "periodicity_value ps = join ''+'' (filter (\<lambda>p. p \<in> set ps) PERIODICITIES)"
proof -
  have "map strip ps = ps" using assms PERIODICITIES_plain by (intro map_idI) blast
  moreover have "filter (\<lambda>p. p \<noteq> [] \<and> p \<notin> set PERIODICITIES) ps = []"
    using assms by (auto simp: filter_empty_conv)
  ultimately show ?thesis by (simp add: periodicity_value_def Let_def)
qed

lemma periodicities_in_value:
  assumes "set ps \<subseteq> set PERIODICITIES" "ps \<noteq> []"
  shows "periodicities_in (periodicity_value ps) = filter (\<lambda>p. p \<in> set ps) PERIODICITIES"
    and "periodicity_value ps \<noteq> []"
proof -
  let ?k = "filter (\<lambda>p. p \<in> set ps) PERIODICITIES"
  have ne: "?k \<noteq> []" using assms by (cases ps) (auto simp: filter_empty_conv)
  have "split_char (CHR ''+'') (periodicity_value ps) = ?k"
    unfolding periodicity_value_known [OF assms(1)] using ne PERIODICITIES_plain by (intro split_char_join) auto
  moreover have f: "filter (\<lambda>p. p \<noteq> []) ?k = ?k" using PERIODICITIES_plain by (intro filter_True) auto
  ultimately show p: "periodicities_in (periodicity_value ps) = ?k" by (simp add: periodicities_in_def)
  show "periodicity_value ps \<noteq> []" using p ne by (auto simp: periodicities_in_def)
qed

text \<open>
  A confirmed rhythm is stored and read back as it was meant. A ruling on a counterparty and a
  direction of the ledger with one or more known periodicities is accepted, its subject splits back
  into that counterparty and direction, and its value lists exactly the confirmed periodicities,
  without repeats and in the vocabulary's order. The counterparty's key must not hold the separator.
\<close>

lemma rhythm_ruling_roundtrip:
  assumes "merchant \<noteq> []" "CHR ''|'' \<notin> set merchant" "direction \<in> set RHYTHM_DIRECTIONS"
    and "ps \<noteq> []" "set ps \<subseteq> set PERIODICITIES"
  shows "\<exists>e. ruling_recorded eid SCOPE_RHYTHM (rhythm_subject merchant direction) occ None by_whom grade said
              corr pv same (periodicity_value ps) cur prov gr refs sig = Inr e
         \<and> jstr_of (body e) ''value'' = Some (periodicity_value ps)
         \<and> rhythm_parts (rhythm_subject merchant direction) = (merchant, direction)
         \<and> periodicities_in (periodicity_value ps) = filter (\<lambda>p. p \<in> set ps) PERIODICITIES"
proof -
  have d: "direction \<noteq> []" using assms(3) by (auto simp: RHYTHM_DIRECTIONS_def)
  have parts: "rhythm_parts (rhythm_subject merchant direction) = (merchant, direction)"
    using assms(1,2) d by (simp add: rhythm_parts_def rhythm_subject_def partition_char_append)
  have "check_rhythm (rhythm_subject merchant direction) (periodicity_value ps) = Inr ()"
    using assms parts periodicities_in_value by (auto simp: check_rhythm_def list_all_iff)
  then show ?thesis
    using parts periodicities_in_value [OF assms(5,4)] assms(1)
    by (simp add: ruling_recorded_def SCOPES_def SCOPE_RHYTHM_def SCOPE_ATTRIBUTE_def Event_def jstr_of_def
        rhythm_subject_def)
qed

lemma clean_tags_props:
  "sorted (clean_tags ts)" "distinct (clean_tags ts)"
  "set (clean_tags ts) = {lower (strip t) | t. t \<in> set ts \<and> strip t \<noteq> []}"
  by (auto simp: clean_tags_def)

lemma clean_tags_cong: "set ts = set us \<Longrightarrow> clean_tags ts = clean_tags us"
  by (intro sorted_distinct_set_unique) (auto simp: clean_tags_def)

text \<open>
  Tags are a set. Two taggings with the same tags in any order and multiplicity are the same
  event; what is stored is sorted, free of repeats and blank tags, stripped and lower-cased.
\<close>

lemma tags_are_a_set:
  assumes "set ts = set us" "scope = SCOPE_MOVEMENT \<or> scope = SCOPE_MERCHANT"
  shows "movement_tagged eid subject ts occ scope by_whom prov = movement_tagged eid subject us occ scope by_whom prov \<and>
    (\<exists>e clean. movement_tagged eid subject ts occ scope by_whom prov = Inr e \<and> jget (body e) ''tags'' = Some (JStrs clean)
       \<and> sorted clean \<and> distinct clean
       \<and> set clean = {lower (strip t) | t. t \<in> set ts \<and> strip t \<noteq> []})"
  using assms clean_tags_props [of ts] clean_tags_cong [OF assms(1)]
  by (auto simp: movement_tagged_def Event_def intro!: exI [of _ "clean_tags ts"])

end
