(* ===== verification/Event_Goals.thy ===== *)
theory Event_Goals
  imports Event_Rulings
begin

text \<open>
  The last constructors of \<^verbatim>\<open>product/viva/ledger/events.py\<close>: save-up goals, declines, set-aside
  findings, the unattended-work journal, learned accounting rules and captured model responses,
  with \<^verbatim>\<open>product/viva/extraction_responses.py\<close> (\<^verbatim>\<open>response_body\<close>, \<^verbatim>\<open>validate_response_body\<close>,
  \<^verbatim>\<open>validate_links\<close>). Identities and titles are texts, as the signatures declare; a context or a
  stake is a JSON object.
\<close>

subsection \<open>Goals\<close>

definition GOAL_STATES :: "string list" where
  "GOAL_STATES = [''active'', ''paused'', ''set_aside'']"
definition GOAL_RELEASE_REASONS :: "string list" where
  "GOAL_RELEASE_REASONS = [''reassigned'', ''used_elsewhere'']"
definition GOAL_PROPOSAL_VERBS :: "string list" where
  "GOAL_PROPOSAL_VERBS = [''create'', ''change_terms'', ''reserve'', ''release'', ''pause'', ''resume'', ''set_aside'']"
definition GOAL_PROPOSAL_OUTCOMES :: "string list" where
  "GOAL_PROPOSAL_OUTCOMES = [''completed'', ''refused'', ''stale'', ''set_aside'']"

definition goal_decimal :: "pynum \<Rightarrow> string res" where
  "goal_decimal value =
     guardR (case value of PFloat _ \<Rightarrow> False | _ \<Rightarrow> True) (TypeError ''must be Decimal, string, or integer'')
     (case value of
        PStr s \<Rightarrow>
          (case dec_parse s of
             Malformed \<Rightarrow> Inl (ValueError ''must be an exact decimal'')
           | Special \<Rightarrow> Inl (ValueError ''must be greater than zero'')
           | Finite d \<Rightarrow> guardR (\<not> dec_le d dec0) (ValueError ''must be greater than zero'') (Inr (dec_str d)))
      | _ \<Rightarrow> bindR (py_Decimal value) (\<lambda>d.
               guardR (\<not> dec_le d dec0) (ValueError ''must be greater than zero'') (Inr (dec_str d))))"

definition goal_terms ::
    "string \<Rightarrow> string \<Rightarrow> string \<Rightarrow> pynum \<Rightarrow> string \<Rightarrow> pynum option \<Rightarrow> int option \<Rightarrow> (string \<times> json) list res" where
  "goal_terms goal_id title currency target_amount target_date monthly_contribution contribution_day =
     guardR (nonblank goal_id) (ValueError ''a goal requires an identity'')
     (guardR (nonblank title) (ValueError ''a goal requires a title'')
     (guardR (nonblank currency) (ValueError ''a goal requires a currency'')
     (bindR (goal_decimal target_amount) (\<lambda>target.
      let date_text = strip target_date in
      guardR (date_text = [] \<or> fromisoformat date_text \<noteq> None) (ValueError ''target_date must be an ISO calendar date'')
      (bindR (case monthly_contribution of None \<Rightarrow> Inr []
              | Some v \<Rightarrow> if v = PStr [] then Inr [] else goal_decimal v) (\<lambda>contribution.
       guardR (case contribution_day of None \<Rightarrow> True | Some d \<Rightarrow> \<not> (d < 1 \<or> d > 28))
         (ValueError ''a contribution day must be from 1 to 28'')
       (guardR (\<not> (contribution \<noteq> [] \<and> contribution_day = None))
         (ValueError ''a monthly contribution requires a day from 1 to 28'')
       (guardR (\<not> (contribution_day \<noteq> None \<and> contribution = [] \<and> date_text = []))
         (ValueError ''a contribution day requires a target date or contribution'')
       (Inr [(''goal_id'', JStr (strip goal_id)), (''kind'', JStr ''save_up''),
             (''title'', JStr (strip title)), (''currency'', JStr (upper (strip currency))),
             (''target_amount'', JStr target), (''target_date'', JStr date_text),
             (''monthly_contribution'', JStr contribution),
             (''contribution_day'', case contribution_day of None \<Rightarrow> JNull | Some d \<Rightarrow> JInt d)])))))))))"

definition goal_created ::
    "string \<Rightarrow> string \<Rightarrow> string \<Rightarrow> string \<Rightarrow> pynum \<Rightarrow> string \<Rightarrow> string \<Rightarrow> pynum option \<Rightarrow> int option \<Rightarrow> string
     \<Rightarrow> provenance option \<Rightarrow> event res" where
  "goal_created eid goal_id title currency target_amount occ target_date monthly_contribution
     contribution_day proposal_id prov =
     bindR (goal_terms goal_id title currency target_amount target_date monthly_contribution contribution_day)
       (\<lambda>terms. Inr (Event eid ''GoalCreated'' occ
                       (JObj (dict_set ''proposal_id'' (JStr proposal_id) terms)) (prov_or prov prov_empty)))"

definition goal_terms_changed ::
    "string \<Rightarrow> string \<Rightarrow> string \<Rightarrow> string \<Rightarrow> pynum \<Rightarrow> string \<Rightarrow> string \<Rightarrow> pynum option \<Rightarrow> int option \<Rightarrow> string
     \<Rightarrow> provenance option \<Rightarrow> event res" where
  "goal_terms_changed eid goal_id title currency target_amount occ target_date monthly_contribution
     contribution_day proposal_id prov =
     bindR (goal_terms goal_id title currency target_amount target_date monthly_contribution contribution_day)
       (\<lambda>terms. Inr (Event eid ''GoalTermsChanged'' occ
                       (JObj (dict_set ''proposal_id'' (JStr proposal_id) terms)) (prov_or prov prov_empty)))"

definition goal_funds_reserved ::
    "string \<Rightarrow> string \<Rightarrow> string \<Rightarrow> pynum \<Rightarrow> string \<Rightarrow> string \<Rightarrow> provenance option \<Rightarrow> event res" where
  "goal_funds_reserved eid goal_id account_id amount occ proposal_id prov =
     guardR (nonblank goal_id \<and> nonblank account_id) (ValueError ''a reservation requires goal and account identities'')
     (bindR (goal_decimal amount) (\<lambda>a.
        Inr (Event eid ''GoalFundsReserved'' occ
          (JObj [(''goal_id'', JStr (strip goal_id)), (''account_id'', JStr (strip account_id)),
                 (''amount'', JStr a), (''proposal_id'', JStr proposal_id)])
          (prov_or prov prov_empty))))"

definition goal_funds_released ::
    "string \<Rightarrow> string \<Rightarrow> string \<Rightarrow> pynum \<Rightarrow> string \<Rightarrow> string \<Rightarrow> string \<Rightarrow> provenance option \<Rightarrow> event res" where
  "goal_funds_released eid goal_id account_id amount reason occ proposal_id prov =
     guardR (nonblank goal_id \<and> nonblank account_id) (ValueError ''a release requires goal and account identities'')
     (guardR (reason \<in> set GOAL_RELEASE_REASONS) (ValueError ''release reason must be one of GOAL_RELEASE_REASONS'')
     (bindR (goal_decimal amount) (\<lambda>a.
        Inr (Event eid ''GoalFundsReleased'' occ
          (JObj [(''goal_id'', JStr (strip goal_id)), (''account_id'', JStr (strip account_id)),
                 (''amount'', JStr a), (''reason'', JStr reason), (''proposal_id'', JStr proposal_id)])
          (prov_or prov prov_empty)))))"

definition goal_state_changed ::
    "string \<Rightarrow> string \<Rightarrow> string \<Rightarrow> string \<Rightarrow> string \<Rightarrow> provenance option \<Rightarrow> event res" where
  "goal_state_changed eid goal_id state occ proposal_id prov =
     guardR (nonblank goal_id) (ValueError ''a goal state change requires a goal identity'')
     (guardR (state \<in> set GOAL_STATES) (ValueError ''goal state must be one of GOAL_STATES'')
     (Inr (Event eid ''GoalStateChanged'' occ
        (JObj [(''goal_id'', JStr (strip goal_id)), (''state'', JStr state), (''proposal_id'', JStr proposal_id)])
        (prov_or prov prov_empty))))"

definition goal_proposal_recorded ::
    "string \<Rightarrow> string \<Rightarrow> string \<Rightarrow> string \<Rightarrow> json \<Rightarrow> json \<Rightarrow> string \<Rightarrow> provenance option \<Rightarrow> event res" where
  "goal_proposal_recorded eid proposal_id verb summary proposal stake occ prov =
     guardR (nonblank proposal_id) (ValueError ''a goal proposal requires an identity'')
     (guardR (verb \<in> set GOAL_PROPOSAL_VERBS) (ValueError ''goal proposal verb must be one of GOAL_PROPOSAL_VERBS'')
     (guardR (nonempty_obj proposal) (ValueError ''a goal proposal requires its exact typed payload'')
     (guardR (nonempty_obj stake) (ValueError ''a goal proposal requires its live state stake'')
     (Inr (Event eid ''GoalProposalRecorded'' occ
        (JObj [(''proposal_id'', JStr (strip proposal_id)), (''verb'', JStr verb), (''summary'', JStr summary),
               (''proposal'', proposal), (''stake'', stake)])
        (prov_or prov prov_empty))))))"

definition goal_proposal_resolved ::
    "string \<Rightarrow> string \<Rightarrow> string \<Rightarrow> string \<Rightarrow> string \<Rightarrow> provenance option \<Rightarrow> event res" where
  "goal_proposal_resolved eid proposal_id outcome occ reason prov =
     guardR (nonblank proposal_id) (ValueError ''a goal proposal resolution requires an identity'')
     (guardR (outcome \<in> set GOAL_PROPOSAL_OUTCOMES)
        (ValueError ''goal proposal outcome must be one of GOAL_PROPOSAL_OUTCOMES'')
     (Inr (Event eid ''GoalProposalResolved'' occ
        (JObj [(''proposal_id'', JStr (strip proposal_id)), (''outcome'', JStr outcome), (''reason'', JStr reason)])
        (prov_or prov prov_empty))))"

subsection \<open>Declines, findings and the unattended-work journal\<close>

definition DECLINE_REASONS :: "string list" where
  "DECLINE_REASONS = [''not_now'', ''dont_know'']"

definition question_declined ::
    "string \<Rightarrow> string \<Rightarrow> string \<Rightarrow> string \<Rightarrow> string \<Rightarrow> string \<Rightarrow> int \<Rightarrow> string \<Rightarrow> string \<Rightarrow> provenance option
     \<Rightarrow> event res" where
  "question_declined eid question_id kind occ reason amount cnt pack_version by_whom prov =
     guardR (reason \<in> set DECLINE_REASONS) (ValueError ''reason must be one of DECLINE_REASONS'')
     (guardR (question_id \<noteq> []) (ValueError ''a decline must name the question it sets aside'')
     (Inr (Event eid ''QuestionDeclined'' occ
        (JObj [(''question_id'', JStr question_id), (''kind'', JStr kind), (''reason'', JStr reason),
               (''amount'', JStr amount), (''count'', JInt cnt), (''pack_version'', JStr pack_version),
               (''by'', JStr by_whom)])
        (prov_or prov prov_empty))))"

definition finding_set_aside ::
    "string \<Rightarrow> string \<Rightarrow> string \<Rightarrow> json \<Rightarrow> string \<Rightarrow> string \<Rightarrow> provenance option \<Rightarrow> event res" where
  "finding_set_aside eid finding_id kind stake occ by_whom prov =
     guardR (nonblank finding_id) (ValueError ''a set-aside must name the finding it quiets'')
     (guardR (nonblank kind) (ValueError ''a set-aside must name the finding kind'')
     (guardR (nonempty_obj stake) (ValueError ''a set-aside requires a non-empty stake'')
     (Inr (Event eid ''FindingSetAside'' occ
        (JObj [(''finding_id'', JStr finding_id), (''kind'', JStr kind), (''stake'', stake), (''by'', JStr by_whom)])
        (prov_or prov prov_empty)))))"

definition ACT_OUTCOMES :: "string list" where
  "ACT_OUTCOMES = [''done'', ''refused'', ''failed'']"

definition agent_acted ::
    "string \<Rightarrow> string \<Rightarrow> string \<Rightarrow> string \<Rightarrow> string \<Rightarrow> string \<Rightarrow> int \<Rightarrow> (string \<times> json) list option \<Rightarrow> string
     \<Rightarrow> string \<Rightarrow> string \<Rightarrow> string \<Rightarrow> provenance option \<Rightarrow> event res" where
  "agent_acted eid rule kind target outcome occ calls stake produced replaced detail by_whom prov =
     guardR (outcome \<in> set ACT_OUTCOMES) (ValueError ''outcome must be one of ACT_OUTCOMES'')
     (guardR (rule \<noteq> [] \<and> target \<noteq> []) (ValueError ''an agent action must name its rule and its target'')
     (guardR (\<not> calls < 0) (ValueError ''calls spent cannot be negative'')
     (Inr (Event eid ''AgentActed'' occ
        (JObj [(''rule'', JStr rule), (''kind'', JStr kind), (''target'', JStr target),
               (''outcome'', JStr outcome), (''calls'', JInt calls),
               (''stake'', JObj (case stake of None \<Rightarrow> [] | Some fs \<Rightarrow> fs)),
               (''produced'', JStr produced), (''replaced'', JStr replaced), (''detail'', JStr detail),
               (''by'', JStr by_whom)])
        (prov_or prov prov_empty)))))"

lemma goal_decimal_Inr: "goal_decimal v = Inr s \<Longrightarrow> \<exists>d. s = dec_str d \<and> 0 < dec_val d"
  by (auto simp: goal_decimal_def res_iffs dec_cmp_iffs split: pynum.splits dec_lit.splits)

text \<open>
  Accepted goal terms are sound. The stored target parses to a positive decimal; a stored monthly
  contribution is positive and comes with a day from 1 to 28; a stored target date is an ISO date;
  no contribution day outside 1 to 28 is ever stored.
\<close>

lemma goal_terms_are_sound:
  assumes "goal_terms goal_id title currency target_amount target_date monthly day = Inr fs"
  shows "(\<exists>d. map_of fs ''target_amount'' = Some (JStr (dec_str d)) \<and> 0 < dec_val d)
    \<and> (map_of fs ''monthly_contribution'' = Some (JStr []) \<or>
        (\<exists>c d. map_of fs ''monthly_contribution'' = Some (JStr (dec_str c)) \<and> 0 < dec_val c \<and>
               map_of fs ''contribution_day'' = Some (JInt d) \<and> 1 \<le> d \<and> d \<le> 28))
    \<and> (\<forall>t. map_of fs ''target_date'' = Some (JStr t) \<longrightarrow> t = [] \<or> fromisoformat t \<noteq> None)
    \<and> (\<forall>d. map_of fs ''contribution_day'' = Some (JInt d) \<longrightarrow> 1 \<le> d \<and> d \<le> 28)"
  using assms unfolding goal_terms_def Let_def
  by (auto simp: res_iffs split: option.splits if_splits dest!: goal_decimal_Inr)

end
