(* ===== verification/Event_Accounting.thy ===== *)
theory Event_Accounting
  imports Event_Goals
begin

text \<open>
  Learned accounting rules and corrections of \<^verbatim>\<open>product/viva/ledger/events.py\<close>, captured model
  responses, and \<^verbatim>\<open>product/viva/extraction_responses.py\<close>: \<^verbatim>\<open>response_body\<close>,
  \<^verbatim>\<open>validate_response_body\<close> and \<^verbatim>\<open>validate_links\<close>, which recomputes the responses a read may cite
  from the events that precede it.
\<close>

subsection \<open>Accounting rules and corrections\<close>

fun jtruthy :: "json \<Rightarrow> bool" where
  "jtruthy JNull = False"
| "jtruthy (JBool b) = b"
| "jtruthy (JInt i) = (i \<noteq> 0)"
| "jtruthy (JFloat s) = (case dec_parse s of Finite d \<Rightarrow> coeff d \<noteq> 0 | _ \<Rightarrow> True)"
| "jtruthy (JStr s) = (s \<noteq> [])"
| "jtruthy (JArr xs) = (xs \<noteq> [])"
| "jtruthy (JObj fs) = (fs \<noteq> [])"

definition CONTEXT_FIELDS :: "string list" where
  "CONTEXT_FIELDS = [''party'', ''private'', ''direction'', ''source_role'', ''source_account'', ''category'', ''subcategory'']"

definition ctx_truthy :: "(string \<times> json) list \<Rightarrow> string \<Rightarrow> bool" where
  "ctx_truthy context k = (case map_of context k of None \<Rightarrow> False | Some j \<Rightarrow> jtruthy j)"

definition ctx_direction_ok :: "(string \<times> json) list \<Rightarrow> bool" where
  "ctx_direction_ok context = (map_of context ''direction'' \<in> {Some (JStr ''in''), Some (JStr ''out'')})"

definition ctx_private_bool :: "(string \<times> json) list \<Rightarrow> bool" where
  "ctx_private_bool context = (case map_of context ''private'' of Some (JBool _) \<Rightarrow> True | _ \<Rightarrow> False)"

definition iso_or_empty :: "string \<Rightarrow> bool" where
  "iso_or_empty s = (s = [] \<or> fromisoformat s \<noteq> None)"

text \<open>The call \<^verbatim>\<open>ruling_recorded(SCOPE_MOVEMENT, subject, occurred_at, legs=legs, said=said)\<close>.\<close>

definition checked_legs :: "string \<Rightarrow> string \<Rightarrow> leg list \<Rightarrow> string \<Rightarrow> string \<Rightarrow> json list res" where
  "checked_legs eid subject legs said occ =
     bindR (ruling_recorded eid SCOPE_MOVEMENT subject occ (Some legs) ''human'' VERIFIED said [] [] [] [] []
              None [] None [])
       (\<lambda>e. case jget (body e) ''legs'' of Some (JArr ls) \<Rightarrow> Inr ls | _ \<Rightarrow> Inr [])"

definition accounting_rule_recorded ::
    "string \<Rightarrow> string \<Rightarrow> string \<Rightarrow> string \<Rightarrow> (string \<times> json) list \<Rightarrow> leg list \<Rightarrow> string \<Rightarrow> string \<Rightarrow> string
     \<Rightarrow> string \<Rightarrow> string \<Rightarrow> string list option \<Rightarrow> string \<Rightarrow> string \<Rightarrow> event res" where
  "accounting_rule_recorded eid rule_id anchor anchor_date context legs occ category starts ends
     recurrence excluded said prompt_version =
     guardR (rule_id \<noteq> [] \<and> anchor \<noteq> [] \<and> set (map fst context) = set CONTEXT_FIELDS \<and> ctx_truthy context ''party'')
       (ValueError ''a rule needs an anchor and complete private matching context'')
     (guardR (ctx_direction_ok context \<and> ctx_private_bool context) (ValueError ''invalid rule direction or privacy'')
     (guardR (\<not> (ctx_truthy context ''private'' \<and> \<not> ctx_truthy context ''source_account''))
       (ValueError ''private counterpart matching requires a source account'')
     (guardR (iso_or_empty anchor_date \<and> iso_or_empty starts \<and> iso_or_empty ends)
       (ValueError ''Invalid isoformat string'')
     (guardR (\<not> (starts \<noteq> [] \<and> ends \<noteq> [] \<and> ends < starts)) (ValueError ''rule ends before it starts'')
     (guardR (recurrence \<in> {[], ''monthly'', ''weekly'', ''yearly''}) (ValueError ''unsupported recurrence'')
     (bindR (checked_legs eid anchor legs said occ) (\<lambda>ls.
      guardR (ls \<noteq> [] \<and> nonblank said) (ValueError ''a learned rule requires a human explanation and treatment'')
      (Inr (Event eid ''AccountingRuleRecorded'' occ
         (JObj [(''rule_id'', JStr rule_id), (''anchor'', JStr anchor), (''anchor_date'', JStr anchor_date),
                (''context'', JObj context), (''legs'', JArr ls), (''category'', JStr category),
                (''starts'', JStr starts), (''ends'', JStr ends), (''recurrence'', JStr recurrence),
                (''excluded'', JStrs (list_or excluded)), (''said'', JStr said),
                (''prompt_version'', JStr prompt_version)])
         prov_empty)))))))))"

definition accounting_rule_applied ::
    "string \<Rightarrow> string \<Rightarrow> string \<Rightarrow> (string \<times> json) list \<Rightarrow> (string \<times> json) list \<Rightarrow> string \<Rightarrow> event res" where
  "accounting_rule_applied eid rule_id movement previous previous_category occ =
     guardR (rule_id \<noteq> [] \<and> movement \<noteq> []) (ValueError ''applied learning needs rule and movement identities'')
     (Inr (Event eid ''AccountingRuleApplied'' occ
        (JObj [(''rule_id'', JStr rule_id), (''movement'', JStr movement), (''previous'', JObj previous),
               (''previous_category'', JObj previous_category)])
        prov_empty))"

definition accounting_correction_recorded ::
    "string \<Rightarrow> string \<Rightarrow> string \<Rightarrow> string list \<Rightarrow> (string \<times> json) list \<Rightarrow> leg list \<Rightarrow> string \<Rightarrow> string
     \<Rightarrow> (string \<times> json) list option \<Rightarrow> string list option \<Rightarrow> event res" where
  "accounting_correction_recorded eid correction_id rule_id movements previous legs said occ context created_accounts =
     guardR (correction_id \<noteq> [] \<and> movements \<noteq> [] \<and> set (map fst previous) = set movements)
       (ValueError ''correction must retain the prior view of each selected movement'')
     (guardR (case context of None \<Rightarrow> True
              | Some c \<Rightarrow> set (map fst c) = set CONTEXT_FIELDS \<and> ctx_direction_ok c \<and> ctx_private_bool c)
       (ValueError ''a correction example requires complete categorical matching context'')
     (guardR (list_all nonblank (list_or created_accounts)) (ValueError ''created accounts must be explicit account paths'')
     (bindR (checked_legs eid (hd movements) legs said occ) (\<lambda>ls.
      guardR (list_all (\<lambda>a. \<exists>l \<in> set ls. jget l ''account'' = Some (JStr a)) (list_or created_accounts))
        (ValueError ''created accounts must belong to the correction treatment'')
      (Inr (Event eid ''AccountingCorrectionRecorded'' occ
         (JObj ([(''correction_id'', JStr correction_id), (''rule_id'', JStr rule_id),
                 (''movements'', JStrs movements), (''previous'', JObj previous), (''legs'', JArr ls),
                 (''said'', JStr said)]
                @ (case context of None \<Rightarrow> [] | Some c \<Rightarrow> if c = [] then [] else [(''context'', JObj c)])
                @ (if list_or created_accounts = [] then []
                   else [(''created_accounts'', JStrs (list_or created_accounts))])))
         prov_empty))))))"

definition accounting_correction_undone :: "string \<Rightarrow> string \<Rightarrow> string \<Rightarrow> string \<Rightarrow> event res" where
  "accounting_correction_undone eid correction_id rule_id occ =
     guardR (correction_id \<noteq> []) (ValueError ''undo must identify its correction'')
     (Inr (Event eid ''AccountingCorrectionUndone'' occ
        (JObj [(''correction_id'', JStr correction_id), (''rule_id'', JStr rule_id)]) prov_empty))"

definition accounting_treatment_restored ::
    "string \<Rightarrow> string \<Rightarrow> (string \<times> json) list \<Rightarrow> (string \<times> json) list \<Rightarrow> string \<Rightarrow> event res" where
  "accounting_treatment_restored eid movement previous previous_category occ =
     guardR (movement \<noteq> []) (ValueError ''restoration must identify its movement'')
     (Inr (Event eid ''AccountingTreatmentRestored'' occ
        (JObj [(''movement'', JStr movement), (''previous'', JObj previous),
               (''previous_category'', JObj previous_category)]) prov_empty))"

subsection \<open>Captured model responses\<close>

definition RESPONSE_EVENT :: string where "RESPONSE_EVENT = ''ModelExtractionResponseRecorded''"

definition SCOPED_FIELDS :: "string list" where
  "SCOPED_FIELDS = [''transport_receipt_ids'', ''transport_complete'', ''extraction_id'', ''phase_attempt'']"

definition RESPONSE_FIELDS :: "string list" where
  "RESPONSE_FIELDS = [''schema_version'', ''doc_id'', ''extraction_id'', ''phase'', ''phase_attempt'',
     ''transport_attempt'', ''adapter_kind'', ''configured_model'', ''prompt_version'', ''input_mode'',
     ''response_status'', ''response_bytes_base64'', ''response_encoding'']"

definition is_nonempty_str :: "json option \<Rightarrow> bool" where
  "is_nonempty_str j = (case j of Some (JStr s) \<Rightarrow> s \<noteq> [] | _ \<Rightarrow> False)"

definition is_ordinal :: "json option \<Rightarrow> bool" where
  "is_ordinal j = (case j of Some (JInt i) \<Rightarrow> \<not> i < 0 | _ \<Rightarrow> False)"

definition validate_response_body :: "json \<Rightarrow> unit res" where
  "validate_response_body b =
     guardR (is_obj b \<and> keys_of b = set RESPONSE_FIELDS) (ValueError ''closed extraction response body required'')
     (guardR (jget b ''schema_version'' = Some (JInt 1)) (ValueError ''unsupported extraction response version'')
     (guardR (jget b ''phase'' \<in> {Some (JStr ''classify''), Some (JStr ''extract'')} \<and>
              jget b ''adapter_kind'' \<in> {Some (JStr ''openai_compatible''), Some (JStr ''anthropic'')})
        (ValueError ''unknown extraction response kind'')
     (guardR (list_all (\<lambda>k. is_nonempty_str (jget b k))
                [''doc_id'', ''extraction_id'', ''configured_model'', ''prompt_version'', ''input_mode''])
        (ValueError ''missing response identity'')
     (guardR (list_all (\<lambda>k. is_ordinal (jget b k)) [''phase_attempt'', ''transport_attempt'', ''response_status''])
        (ValueError ''invalid response ordinal'')
     (case jstr_of b ''response_bytes_base64'' of
        None \<Rightarrow> Inl (ValueError ''invalid response encoding'')
      | Some s \<Rightarrow>
          guardR (jget b ''response_encoding'' = Some (JStr ''base64'')) (ValueError ''invalid response encoding'')
          (guardR (b64decode_strict s \<noteq> None) (ValueError ''base64'') (Inr ())))))))"

definition response_body ::
    "string \<Rightarrow> string \<Rightarrow> string \<Rightarrow> int \<Rightarrow> int \<Rightarrow> string \<Rightarrow> string \<Rightarrow> string \<Rightarrow> string \<Rightarrow> int \<Rightarrow> string \<Rightarrow> json res" where
  "response_body document extraction phase phase_attempt ordinal kind model prompt mode status raw =
     (let b = JObj [(''schema_version'', JInt 1), (''doc_id'', JStr document), (''extraction_id'', JStr extraction),
                    (''phase'', JStr phase), (''phase_attempt'', JInt phase_attempt),
                    (''transport_attempt'', JInt ordinal), (''adapter_kind'', JStr kind),
                    (''configured_model'', JStr model), (''prompt_version'', JStr prompt),
                    (''input_mode'', JStr mode), (''response_status'', JInt status),
                    (''response_bytes_base64'', JStr (b64encode raw)), (''response_encoding'', JStr ''base64'')]
      in bindR (validate_response_body b) (\<lambda>_. Inr b))"

definition model_extraction_response_recorded :: "string \<Rightarrow> json \<Rightarrow> string \<Rightarrow> event res" where
  "model_extraction_response_recorded eid b occ =
     bindR (validate_response_body b) (\<lambda>_.
       Inr (Event eid RESPONSE_EVENT occ b
              (prov_of_doc (case jstr_of b ''doc_id'' of Some d \<Rightarrow> d | None \<Rightarrow> []))))"

definition same_phase :: "json \<Rightarrow> json \<Rightarrow> bool" where
  "same_phase source b = list_all (\<lambda>k. jget source k = jget b k) [''doc_id'', ''extraction_id'', ''phase'', ''phase_attempt'']"

fun matching_responses :: "json \<Rightarrow> string list \<Rightarrow> event list \<Rightarrow> string list res" where
  "matching_responses b acc [] = Inr acc"
| "matching_responses b acc (e # es) =
     (if event_type e \<noteq> RESPONSE_EVENT then matching_responses b acc es
      else
        bindR (validate_response_body (body e)) (\<lambda>_.
        if \<not> same_phase (body e) b then matching_responses b acc es
        else
          guardR (Some (JStr (prov_doc_id (ev_provenance e))) = jget b ''doc_id'') (ValueError ''response provenance differs'')
          (guardR (jget (body e) ''transport_attempt'' = Some (JInt (int (length acc)))) (ValueError ''response order differs'')
          (guardR (jget (body e) ''configured_model'' = jget b ''model'' \<and>
                   jget (body e) ''prompt_version'' = jget b ''prompt_version'' \<and>
                   jget (body e) ''input_mode'' =
                     Some (case jget b ''input_mode'' of None \<Rightarrow> JStr ''text+image'' | Some m \<Rightarrow> m))
             (ValueError ''response configuration differs'')
          (matching_responses b (acc @ [event_id e]) es)))))"

fun str_list :: "json option \<Rightarrow> string list option" where
  "str_list (Some (JArr xs)) =
     (if list_all (\<lambda>x. case x of JStr s \<Rightarrow> s \<noteq> [] | _ \<Rightarrow> False) xs
      then Some (map (\<lambda>x. case x of JStr s \<Rightarrow> s | _ \<Rightarrow> []) xs) else None)"
| "str_list _ = None"

definition validate_links :: "json \<Rightarrow> event list \<Rightarrow> unit res" where
  "validate_links b events =
     (let present = filter (\<lambda>k. jget b k \<noteq> None) SCOPED_FIELDS in
      if present = [] then Inr ()
      else
        guardR (present = SCOPED_FIELDS) (ValueError ''incomplete scoped extraction response fields'')
        (case str_list (jget b ''transport_receipt_ids'') of
           None \<Rightarrow> Inl (ValueError ''invalid extraction response links'')
         | Some links \<Rightarrow>
             guardR (distinct links \<and>
                     (case jget b ''transport_complete'' of Some (JBool _) \<Rightarrow> True | _ \<Rightarrow> False) \<and>
                     is_nonempty_str (jget b ''extraction_id'') \<and> is_ordinal (jget b ''phase_attempt''))
               (ValueError ''invalid extraction response links'')
             (bindR (matching_responses b [] events) (\<lambda>ids.
                guardR (ids = links) (ValueError ''missing or foreign extraction response links'') (Inr ())))))"

definition responses_for :: "json \<Rightarrow> event list \<Rightarrow> event list" where
  "responses_for b es = filter (\<lambda>e. event_type e = RESPONSE_EVENT \<and> same_phase (body e) b) es"

lemma matching_responses_Inr:
  "matching_responses b acc es = Inr ids \<Longrightarrow>
     ids = acc @ map event_id (responses_for b es) \<and>
     map (\<lambda>e. jget (body e) ''transport_attempt'') (responses_for b es)
       = map (\<lambda>i. Some (JInt (int i))) [length acc..<length ids] \<and>
     (\<forall>e \<in> set (responses_for b es). jget (body e) ''configured_model'' = jget b ''model'')"
proof (induction b acc es rule: matching_responses.induct)
  case (2 b acc e es)
  show ?case
  proof (cases "event_type e = RESPONSE_EVENT \<and> same_phase (body e) b")
    case True
    with 2 have "matching_responses b (acc @ [event_id e]) es = Inr ids"
      and "jget (body e) ''transport_attempt'' = Some (JInt (int (length acc)))"
      and "jget (body e) ''configured_model'' = jget b ''model''"
      by (auto simp: res_iffs)
    moreover from this(1) 2 True have "ids = (acc @ [event_id e]) @ map event_id (responses_for b es) \<and>
       map (\<lambda>e. jget (body e) ''transport_attempt'') (responses_for b es)
         = map (\<lambda>i. Some (JInt (int i))) [length (acc @ [event_id e])..<length ids] \<and>
       (\<forall>e \<in> set (responses_for b es). jget (body e) ''configured_model'' = jget b ''model'')"
      by (auto simp: res_iffs)
    ultimately show ?thesis using True by (simp add: responses_for_def upt_rec)
  next
    case False
    with 2 show ?thesis by (auto simp: responses_for_def res_iffs split: if_splits)
  qed
qed (simp add: responses_for_def)

text \<open>
  C37: a read cites exactly the responses it was made from. If the links of a read are accepted
  against the preceding events, they are the identities of all captured responses of the same
  document, extraction, phase and attempt, in log order, without repeats, and the transport
  attempts of those responses count up from zero with no gap.
\<close>

theorem links_are_the_exact_population:
  assumes "validate_links b es = Inr ()" and "jget b ''transport_receipt_ids'' \<noteq> None"
  shows "str_list (jget b ''transport_receipt_ids'') = Some (map event_id (responses_for b es))
    \<and> map (\<lambda>e. jget (body e) ''transport_attempt'') (responses_for b es)
        = map (\<lambda>i. Some (JInt (int i))) [0..<length (responses_for b es)]
    \<and> distinct (map event_id (responses_for b es))"
proof -
  from assms obtain links where l: "str_list (jget b ''transport_receipt_ids'') = Some links" "distinct links"
    and "matching_responses b [] es = Inr links"
    by (auto simp: validate_links_def Let_def SCOPED_FIELDS_def res_iffs split: option.splits)
  with matching_responses_Inr [of b "[]" es links] show ?thesis by simp
qed

text \<open>
  The raw response is recoverable. Whatever bytes a completed response body is built from, its
  event is accepted, is filed under its document, and its text decodes strictly to those bytes.
\<close>

lemma response_bytes_recovered:
  assumes "response_body doc ext phase pa ord kind model prompt mode status raw = Inr b"
  shows "\<exists>e s. model_extraction_response_recorded eid b occ = Inr e \<and> body e = b
     \<and> prov_doc_id (ev_provenance e) = doc \<and> jstr_of b ''response_bytes_base64'' = Some s
     \<and> b64decode_strict s = Some raw"
  using assms
  by (auto simp: response_body_def model_extraction_response_recorded_def res_iffs Let_def Event_def jstr_of_def prov_of_doc_def b64decode_strict_b64encode)


definition sample_response :: "nat \<Rightarrow> event" where
  "sample_response i =
     Event (show_nat i) RESPONSE_EVENT ''2024-01-05''
       (JObj [(''schema_version'', JInt 1), (''doc_id'', JStr ''d1''), (''extraction_id'', JStr ''x1''),
              (''phase'', JStr ''extract''), (''phase_attempt'', JInt 0), (''transport_attempt'', JInt (int i)),
              (''adapter_kind'', JStr ''anthropic''), (''configured_model'', JStr ''m''),
              (''prompt_version'', JStr ''p''), (''input_mode'', JStr ''text+image''), (''response_status'', JInt 200),
              (''response_bytes_base64'', JStr ''e30=''), (''response_encoding'', JStr ''base64'')])
       (prov_of_doc ''d1'')"

definition sample_read :: json where
  "sample_read =
     JObj [(''doc_id'', JStr ''d1''), (''model'', JStr ''m''), (''prompt_version'', JStr ''p''), (''phase'', JStr ''extract''),
           (''transport_receipt_ids'', JArr [JStr ''0'', JStr ''1'']), (''transport_complete'', JBool True),
           (''extraction_id'', JStr ''x1''), (''phase_attempt'', JInt 0)]"

theorem links_are_the_exact_population_witness:
  "str_list (jget sample_read ''transport_receipt_ids'')
     = Some (map event_id (responses_for sample_read [sample_response 0, sample_response 1]))"
proof -
  have "validate_links sample_read [sample_response 0, sample_response 1] = Inr ()" by code_simp
  moreover have "jget sample_read ''transport_receipt_ids'' \<noteq> None" by (simp add: sample_read_def)
  ultimately show ?thesis using links_are_the_exact_population by blast
qed

lemma accounting_rule_recorded_window:
  "accounting_rule_recorded eid rid anchor ad ctx legs occ cat starts ends rec excl said pv = Inr e \<Longrightarrow>
   iso_or_empty starts \<and> iso_or_empty ends \<and> (starts \<noteq> [] \<longrightarrow> ends \<noteq> [] \<longrightarrow> starts \<le> ends)"
  by (auto simp: accounting_rule_recorded_def res_iffs)

text \<open>
  A learned rule never ends before it starts. When the two ends of its window are written as
  calendar dates, an accepted rule's start is on or before its end in calendar order, although the
  code compares texts.
\<close>

lemma rule_window_is_ordered:
  assumes "accounting_rule_recorded eid rid anchor ad ctx legs occ cat (isoformat s) (isoformat t) rec excl said pv = Inr e"
    and "valid_date s" "valid_date t"
  shows "toordinal s \<le> toordinal t"
proof -
  have "isoformat s \<noteq> []" "isoformat t \<noteq> []" by (simp_all add: isoformat_def pad4_def)
  then have "isoformat s \<le> isoformat t" using accounting_rule_recorded_window [OF assms(1)] by blast
  then have "\<not> isoformat t < isoformat s" by simp
  then show ?thesis using isoformat_less_iff [OF assms(3,2)] by simp
qed

definition sample_context :: "(string \<times> json) list" where
  "sample_context = [(''party'', JStr ''acme''), (''private'', JBool False), (''direction'', JStr ''out''),
     (''source_role'', JStr ''checking''), (''source_account'', JStr []), (''category'', JStr []), (''subcategory'', JStr [])]"

definition sample_rule :: "string \<Rightarrow> string \<Rightarrow> event res" where
  "sample_rule starts ends =
     accounting_rule_recorded ''e'' ''r1'' ''m1'' ''2024-01-05'' sample_context [[(''major'', ''expense'')]]
       ''2024-01-06'' [] starts ends ''monthly'' None ''rent'' []"

text \<open>
  The textual comparison is not calendar order when the two accepted ISO spellings are mixed. A
  window from 2024-12-31 to 20240101 is accepted although it ends first, and the window from
  20240101 to 2024-12-31 is refused as ending before it starts.
\<close>

lemma rule_window_mixed_forms:
  "\<not> isl (sample_rule ''2024-12-31'' ''20240101'')
   \<and> sample_rule ''20240101'' ''2024-12-31'' = Inl (ValueError ''rule ends before it starts'')
   \<and> fromisoformat ''20240101'' = Some (Date 2024 1 1) \<and> fromisoformat ''2024-12-31'' = Some (Date 2024 12 31)"
  by code_simp

end
