(* ===== verification/Postings.thy ===== *)
theory Postings
  imports Arithmetic Event_Rulings
begin

text \<open>
  \<^verbatim>\<open>product/viva/ledger/postings.py\<close>: the double-entry shapes a movement is booked in. An amount is
  the signed change to the named account. Each builder returns the transaction event or the
  exception of its first failing guard; every one of them passes its legs through
  \<open>require_balanced\<close>, the sum check of the verifying arithmetic.
\<close>

subsection \<open>The chart of accounts\<close>

definition EQUITY_OPENING :: string where "EQUITY_OPENING = ''Equity:OpeningBalance''"
definition INCOME_UNCATEGORIZED :: string where "INCOME_UNCATEGORIZED = ''Income:Uncategorized''"
definition EXPENSE_UNCATEGORIZED :: string where "EXPENSE_UNCATEGORIZED = ''Expenses:Uncategorized''"
definition TRANSFERS_UNCATEGORIZED :: string where "TRANSFERS_UNCATEGORIZED = ''Transfers:Uncategorized''"
definition LIABILITIES_UNCATEGORIZED :: string where "LIABILITIES_UNCATEGORIZED = ''Liabilities:Uncategorized''"

definition MAJOR_ROOTS :: "(string \<times> string) list" where
  "MAJOR_ROOTS = [(''expense'', ''Expenses''), (''asset'', ''Assets''), (''liability'', ''Liabilities''),
                  (''income'', ''Income'')]"

definition MAJOR_UNCATEGORIZED :: "(string \<times> string) list" where
  "MAJOR_UNCATEGORIZED = [(''expense'', EXPENSE_UNCATEGORIZED), (''asset'', ''Assets:Uncategorized''),
                          (''liability'', LIABILITIES_UNCATEGORIZED), (''income'', INCOME_UNCATEGORIZED)]"

definition clean_part :: "string \<Rightarrow> string" where
  "clean_part p = strip (subst_char (CHR '':'') (CHR '' '') (strip p))"

definition account_path :: "string \<Rightarrow> string list \<Rightarrow> string res" where
  "account_path major parts =
     (case map_of MAJOR_ROOTS major of
        None \<Rightarrow> Inl (ValueError ''unknown major'')
      | Some rt \<Rightarrow> Inr (join '':'' (rt # filter (\<lambda>p. p \<noteq> []) (map clean_part parts))))"

definition counter_account :: "string \<Rightarrow> decimal \<Rightarrow> string" where
  "counter_account kind amount =
     (if kind = ''liability'' then (if dec_lt dec0 amount then EXPENSE_UNCATEGORIZED else TRANSFERS_UNCATEGORIZED)
      else (if dec_lt dec0 amount then INCOME_UNCATEGORIZED else EXPENSE_UNCATEGORIZED))"

definition INCOME_SALARY :: string where "INCOME_SALARY = ''Income:Salary''"

definition DEDUCTION_ACCOUNTS :: "(string \<times> string) list" where
  "DEDUCTION_ACCOUNTS = [(''tax'', ''Expenses:Tax''), (''retirement'', ''Assets:Retirement''),
                         (''insurance'', ''Expenses:Insurance''), (''other'', ''Expenses:Other'')]"

definition INCOME_DIVIDENDS :: string where "INCOME_DIVIDENDS = ''Income:Dividends''"
definition INCOME_INTEREST :: string where "INCOME_INTEREST = ''Income:Interest''"
definition INCOME_CAPITAL_GAINS :: string where "INCOME_CAPITAL_GAINS = ''Income:CapitalGains''"
definition EXPENSE_FEES :: string where "EXPENSE_FEES = ''Expenses:Fees''"
definition ASSET_INVESTMENTS :: string where "ASSET_INVESTMENTS = ''Assets:Investments''"

definition BROKERAGE_CASH_IN :: "string list" where
  "BROKERAGE_CASH_IN = [''contribution'', ''dividend'', ''interest'', ''sell'']"
definition BROKERAGE_CASH_OUT :: "string list" where
  "BROKERAGE_CASH_OUT = [''withdrawal'', ''fee'', ''buy'']"

subsection \<open>The double-entry law\<close>

definition transaction_balances :: "posting list \<Rightarrow> pynum \<Rightarrow> check_result res" where
  "transaction_balances ps tol =
     check_sum (map (\<lambda>p. PDec (p_amount p)) ps) (PDec dec0) ''transaction postings sum to zero'' tol"

definition require_balanced :: "posting list \<Rightarrow> posting list res" where
  "require_balanced ps =
     bindR (transaction_balances ps (PStr ''0'')) (\<lambda>r.
       guardR (passed r) (ValueError ''postings do not balance'') (Inr ps))"

subsection \<open>Bank movements\<close>

definition with_body :: "(json \<Rightarrow> json) \<Rightarrow> event \<Rightarrow> event" where
  "with_body f e = e\<lparr>body := f (body e)\<rparr>"

definition simple_transaction ::
    "string \<Rightarrow> string \<Rightarrow> pynum \<Rightarrow> string \<Rightarrow> string \<Rightarrow> string list option \<Rightarrow> provenance option \<Rightarrow> string \<Rightarrow> string
     \<Rightarrow> string \<Rightarrow> string \<Rightarrow> event res" where
  "simple_transaction eid account amount description occ tags prov account_grade kind
     source_reference counterparty_reference =
     bindR (py_Decimal amount) (\<lambda>amt.
     guardR (\<not> dec_eq amt dec0) (ValueError ''a transaction of zero is not a movement'')
     (bindR (Posting account (PDec amt) account_grade) (\<lambda>p.
      bindR (Posting (counter_account kind amt) (PDec (dec_neg amt)) UNVERIFIED) (\<lambda>c.
      bindR (require_balanced [p, c]) (\<lambda>postings.
        let e = transaction_recorded eid postings description occ tags prov in
        Inr (if source_reference \<noteq> [] \<or> counterparty_reference \<noteq> []
             then with_body (\<lambda>b. jset ''counterparty_reference'' (JStr counterparty_reference)
                                  (jset ''source_reference'' (JStr source_reference) b)) e
             else e))))))"

fun split_legs :: "decimal \<Rightarrow> decimal \<Rightarrow> posting list \<Rightarrow> (string \<times> pynum) list \<Rightarrow> (decimal \<times> posting list) res" where
  "split_legs sg tot legs [] = Inr (tot, legs)"
| "split_legs sg tot legs ((cat, mag) # rest) =
     bindR (py_Decimal mag) (\<lambda>m.
     guardR (\<not> dec_le m dec0) (ValueError ''split magnitude must be positive'')
     (bindR (Posting cat (PDec (dec_mul sg m)) UNVERIFIED) (\<lambda>p.
        split_legs sg (dec_add tot m) (legs @ [p]) rest)))"

definition split_transaction ::
    "string \<Rightarrow> string \<Rightarrow> pynum \<Rightarrow> (string \<times> pynum) list \<Rightarrow> string \<Rightarrow> string \<Rightarrow> string list option
     \<Rightarrow> provenance option \<Rightarrow> event res" where
  "split_transaction eid account amount splits description occ tags prov =
     bindR (py_Decimal amount) (\<lambda>amt.
     guardR (\<not> dec_eq amt dec0) (ValueError ''a transaction of zero is not a movement'')
     (bindR (Posting account (PDec amt) VERIFIED) (\<lambda>p.
      bindR (split_legs (if dec_lt dec0 amt then Dec (- 1) 0 else Dec 1 0) dec0 [p] splits) (\<lambda>(tot, legs).
      guardR (dec_eq tot (dec_abs amt)) (ValueError ''a split must account for the whole amount'')
      (bindR (require_balanced legs) (\<lambda>postings.
         Inr (transaction_recorded eid postings description occ tags prov)))))))"

subsection \<open>Brokerage cash activity\<close>

definition brokerage_cash_effect :: "string \<Rightarrow> pynum \<Rightarrow> decimal res" where
  "brokerage_cash_effect kind amount =
     bindR (py_Decimal amount) (\<lambda>amt.
       if kind \<in> set BROKERAGE_CASH_IN then Inr amt
       else if kind \<in> set BROKERAGE_CASH_OUT then Inr (dec_neg amt)
       else Inl (ValueError ''unknown brokerage activity kind''))"

definition one_leg :: "string \<Rightarrow> decimal \<Rightarrow> string \<Rightarrow> posting list res" where
  "one_leg account amount grade = bindR (Posting account (PDec amount) grade) (\<lambda>p. Inr [p])"

definition brokerage_counter :: "string \<Rightarrow> decimal \<Rightarrow> pynum option \<Rightarrow> posting list res" where
  "brokerage_counter kind cash realized_gain =
     (if kind = ''contribution'' \<or> kind = ''withdrawal'' then one_leg TRANSFERS_UNCATEGORIZED (dec_neg cash) UNVERIFIED
      else if kind = ''dividend'' then one_leg INCOME_DIVIDENDS (dec_neg cash) VERIFIED
      else if kind = ''interest'' then one_leg INCOME_INTEREST (dec_neg cash) VERIFIED
      else if kind = ''fee'' then one_leg EXPENSE_FEES (dec_neg cash) VERIFIED
      else if kind = ''buy'' then one_leg ASSET_INVESTMENTS (dec_neg cash) VERIFIED
      else if kind = ''sell'' then
        (case realized_gain of
           None \<Rightarrow> one_leg ASSET_INVESTMENTS (dec_neg cash) VERIFIED
         | Some g \<Rightarrow>
             if g = PStr [] then one_leg ASSET_INVESTMENTS (dec_neg cash) VERIFIED
             else
               bindR (py_Decimal g) (\<lambda>gain.
               bindR (Posting ASSET_INVESTMENTS (PDec (dec_neg (dec_sub cash gain))) VERIFIED) (\<lambda>b.
               bindR (Posting INCOME_CAPITAL_GAINS (PDec (dec_neg gain)) VERIFIED) (\<lambda>c. Inr [b, c]))))
      else Inl (ValueError ''unknown brokerage activity kind''))"

definition brokerage_activity_transaction ::
    "string \<Rightarrow> string \<Rightarrow> string \<Rightarrow> pynum \<Rightarrow> string \<Rightarrow> string \<Rightarrow> string \<Rightarrow> pynum option \<Rightarrow> provenance option \<Rightarrow> event res" where
  "brokerage_activity_transaction eid account kind amount description occ instrument realized_gain prov =
     bindR (py_Decimal amount) (\<lambda>amt.
     guardR (\<not> dec_le amt dec0) (ValueError ''a brokerage activity amount must be a positive magnitude'')
     (bindR (brokerage_cash_effect kind (PDec amt)) (\<lambda>cash.
      bindR (brokerage_counter kind cash realized_gain) (\<lambda>counter.
      let label = (if description \<noteq> [] then description else strip (kind @ '' '' @ instrument)) in
      bindR (Posting account (PDec cash) VERIFIED) (\<lambda>p.
      bindR (require_balanced (p # counter)) (\<lambda>legs.
        Inr (transaction_recorded eid legs label occ None prov)))))))"

subsection \<open>Pay stubs\<close>

record deduction =
  ded_amount :: pynum
  ded_category :: "string option"

definition deduction_account :: "string option \<Rightarrow> string" where
  "deduction_account category =
     (case map_of DEDUCTION_ACCOUNTS (case category of None \<Rightarrow> ''other'' | Some c \<Rightarrow> c) of
        Some a \<Rightarrow> a | None \<Rightarrow> ''Expenses:Other'')"

definition deduction_leg :: "deduction \<Rightarrow> posting res" where
  "deduction_leg d =
     bindR (py_Decimal (ded_amount d)) (\<lambda>a.
       Posting (deduction_account (ded_category d)) (PDec (dec_abs a)) UNVERIFIED)"

definition paystub_decomposition ::
    "string \<Rightarrow> pynum \<Rightarrow> pynum \<Rightarrow> deduction list \<Rightarrow> string \<Rightarrow> string \<Rightarrow> provenance option \<Rightarrow> string \<Rightarrow> string \<Rightarrow> event res" where
  "paystub_decomposition eid gross net deductions description occ prov matched_movement_key matched_currency =
     bindR (py_Decimal gross) (\<lambda>gross_d.
     bindR (py_Decimal net) (\<lambda>net_d.
     bindR (Posting INCOME_SALARY (PDec (dec_neg gross_d)) VERIFIED) (\<lambda>s.
     bindR (Posting INCOME_UNCATEGORIZED (PDec net_d) UNVERIFIED) (\<lambda>u.
     bindR (mapR deduction_leg deductions) (\<lambda>ds.
     bindR (require_balanced (s # u # ds)) (\<lambda>postings.
       let e = transaction_recorded eid postings description occ None prov in
       if matched_movement_key = [] then Inr e
       else guardR (matched_currency \<noteq> []) (ValueError ''matched paystub deposit must retain its currency'')
              (Inr (with_body (\<lambda>b. jset ''matched_currency'' (JStr matched_currency)
                                    (jset ''matched_movement_key'' (JStr matched_movement_key) b)) e))))))))"

subsection \<open>Exactness of the balance guard\<close>

text \<open>
  A leg is an amount of the money range, or the difference of two such; a transaction has at most
  a million legs beside its own. Sums of such legs stay below the 28 digits of the context.
\<close>

definition wide :: "decimal \<Rightarrow> bool" where
  "wide d = scaled 8 (10 ^ 21) d"

definition postings_total :: "posting list \<Rightarrow> rat" where
  "postings_total ps = sum_list (map (\<lambda>p. dec_val (p_amount p)) ps)"

definition bookable :: "posting list \<Rightarrow> bool" where
  "bookable ps = (list_all (\<lambda>p. wide (p_amount p)) ps \<and> length ps \<le> max_items + 2)"

lemma scaled_mono: "scaled p a d \<Longrightarrow> a \<le> b \<Longrightarrow> scaled p b d"
  by (simp add: scaled_def)

lemma money_wide: "money_range d \<Longrightarrow> wide d"
  using scaled_mono [of 8 "10 ^ 20" d "10 ^ 21"] by (simp add: money_range_def wide_def)

lemma money_neg: "money_range d \<Longrightarrow> money_range (dec_neg d) \<and> dec_val (dec_neg d) = - dec_val d"
  using dec_neg_scaled [of 8 "10 ^ 20" d] by (simp add: money_range_def prec_def)

lemma money_abs: "money_range d \<Longrightarrow> money_range (dec_abs d) \<and> dec_val (dec_abs d) = \<bar>dec_val d\<bar>"
  using dec_abs_scaled [of 8 "10 ^ 20" d] by (simp add: money_range_def prec_def)

lemma money_diff_neg:
  assumes "money_range a" "money_range b"
  shows "wide (dec_neg (dec_sub a b)) \<and> dec_val (dec_neg (dec_sub a b)) = dec_val b - dec_val a"
proof -
  have lt: "(10::int) ^ 20 + 10 ^ 20 < 10 ^ prec" "(10::int) ^ 20 + 10 ^ 20 \<le> 10 ^ 21" by (simp_all add: prec_def)
  note s = dec_sub_scaled [OF assms [unfolded money_range_def] lt(1)]
  note n = dec_neg_scaled [OF s(1) lt(1)]
  show ?thesis using scaled_mono [OF n(2) lt(2)] n(3) s(2) by (simp add: wide_def)
qed

lemma money_sign:
  assumes "money_range m" "s = 1 \<or> s = - 1"
  shows "money_range (dec_mul (Dec s 0) m) \<and> dec_val (dec_mul (Dec s 0) m) = of_int s * dec_val m"
proof -
  have "\<bar>s * coeff m\<bar> < 10 ^ prec"
    using scaled_coeff [OF assms(1) [unfolded money_range_def]] assms(2) by (auto simp: abs_mult prec_def)
  then have "dec_mul (Dec s 0) m = Dec (s * coeff m) (expo m)" by (simp add: dec_mul_def dec_fix_id)
  then show ?thesis using assms by (auto simp: money_range_def scaled_def lift_to_def dec_val_def)
qed

lemma money_foldl:
  assumes "list_all money_range xs" "length xs \<le> max_items"
  shows "dec_val (foldl dec_add dec0 xs) = sum_list (map dec_val xs)"
proof -
  have z: "scaled 8 0 dec0" by (simp add: scaled_def dec0_def lift_to_def)
  have "int (length xs) * 10 ^ 20 \<le> 10 ^ 6 * 10 ^ 20" using assms(2) by (simp add: max_items_def)
  then have lt: "0 + int (length xs) * 10 ^ 20 < 10 ^ prec" by (simp add: prec_def)
  have "\<And>d. d \<in> set xs \<Longrightarrow> scaled 8 (10 ^ 20) d" using assms(1) by (auto simp: list_all_iff money_range_def)
  from dec_foldl_scaled [OF this z _ lt] show ?thesis by simp
qed

lemma mapR_as_decimal_PDec: "mapR as_decimal (map (\<lambda>p. PDec (f p)) ps) = Inr (map f ps)"
  by (induction ps) auto

lemma require_balanced_iff:
  assumes "bookable ps"
  shows "require_balanced ps =
    (if postings_total ps = 0 then Inr ps else Inl (ValueError ''postings do not balance''))"
proof -
  let ?xs = "map p_amount ps"
  have "int (length ?xs) * 10 ^ 21 \<le> (10 ^ 6 + 2) * 10 ^ 21"
    using assms by (simp add: bookable_def max_items_def)
  then have lt: "int (length ?xs) * 10 ^ 21 < 10 ^ prec" by (simp add: prec_def)
  have all: "\<And>x. x \<in> set ?xs \<Longrightarrow> scaled 8 (10 ^ 21) x"
    using assms by (auto simp: bookable_def list_all_iff wide_def)
  note s = dec_sum_scaled [OF all _ lt]
  have z: "scaled 8 0 dec0" by (simp add: scaled_def dec0_def lift_to_def)
  have p0: "dec_parse ''0'' = Finite (Dec 0 0)" by code_simp
  have "passed (mk_result l (dec_sum ?xs) dec0 (Dec 0 0)) \<longleftrightarrow> postings_total ps = 0" for l
    using lt mk_result_exact [OF s(1) z, of l "Dec 0 0"] s(2)
    by (auto simp: postings_total_def dec_val_Dec_lift comp_def)
  then show ?thesis
    by (simp add: require_balanced_def transaction_balances_def check_sum_def mapR_as_decimal_PDec p0 guardR_def)
qed

definition dec_of :: "pynum \<Rightarrow> decimal" where
  "dec_of x = (case py_Decimal x of Inr d \<Rightarrow> d | Inl _ \<Rightarrow> dec0)"

lemma money_arg_dec_of:
  assumes "money_arg x"
  shows "py_Decimal x = Inr (dec_of x)" "money_range (dec_of x)" "dec_val (dec_of x) = arg_val x"
  by (rule money_argE [OF assms], cases x, simp_all add: dec_of_def)+

lemma Posting_ok: "g \<in> set GRADES \<Longrightarrow> Posting a (PDec d) g = Inr \<lparr>p_account = a, p_amount = d, p_grade = g\<rparr>"
  by (simp add: Posting_def)

lemma grades_ok [simp]: "VERIFIED \<in> set GRADES" "UNVERIFIED \<in> set GRADES" "CORROBORATED \<in> set GRADES"
  by (simp_all add: GRADES_def)

lemma jget_jset_other: "k \<noteq> k' \<Longrightarrow> jget (jset k v b) k' = jget b k'"
  by (cases b) (auto simp: map_of_dict_set)

lemma postings_of_with_body:
  "jget (f (body e)) ''postings'' = jget (body e) ''postings'' \<Longrightarrow> postings_of (with_body f e) = postings_of e"
  by (simp add: postings_of_def with_body_def)

lemma postings_total_simps [simp]:
  "postings_total [] = 0" "postings_total (p # ps) = dec_val (p_amount p) + postings_total ps"
  by (simp_all add: postings_total_def)

lemma simple_booking:
  assumes "money_arg amount" "arg_val amount \<noteq> 0" "account_grade \<in> set GRADES"
  shows "\<exists>e ps d. simple_transaction eid account amount description occ tags prov account_grade kind src cpty = Inr e
    \<and> py_Decimal amount = Inr d \<and> postings_of e = Inr ps
    \<and> ps = [\<lparr>p_account = account, p_amount = d, p_grade = account_grade\<rparr>,
            \<lparr>p_account = counter_account kind d, p_amount = dec_neg d, p_grade = UNVERIFIED\<rparr>]
    \<and> postings_total ps = 0"
proof -
  let ?d = "dec_of amount"
  let ?ps = "[\<lparr>p_account = account, p_amount = ?d, p_grade = account_grade\<rparr>,
            \<lparr>p_account = counter_account kind ?d, p_amount = dec_neg ?d, p_grade = UNVERIFIED\<rparr>]"
  note d = money_arg_dec_of [OF assms(1)]
  have t: "postings_total ?ps = 0" using money_neg [OF d(2)] by simp
  moreover have "bookable ?ps"
    using money_wide [OF d(2)] money_wide money_neg [OF d(2)] by (simp add: bookable_def max_items_def)
  ultimately have "require_balanced ?ps = Inr ?ps" by (simp add: require_balanced_iff)
  moreover have "list_all posting_wf ?ps" using assms(3) by (simp add: posting_wf_def)
  ultimately show ?thesis
    using assms d t by (auto simp: simple_transaction_def Posting_ok dec_cmp_iffs Let_def postings_of_with_body
      jget_jset_other postings_of_transaction_recorded)
qed

subsection \<open>Splits\<close>

definition split_leg :: "decimal \<Rightarrow> string \<times> pynum \<Rightarrow> posting" where
  "split_leg sg x = \<lparr>p_account = fst x, p_amount = dec_mul sg (dec_of (snd x)), p_grade = UNVERIFIED\<rparr>"

lemma split_leg_account: "p_account (split_leg sg x) = fst x"
  by (simp add: split_leg_def)

lemma split_legs_eq:
  assumes "list_all (\<lambda>x. money_arg (snd x)) splits"
  shows "split_legs sg tot legs splits =
    (if list_all (\<lambda>x. 0 < arg_val (snd x)) splits
     then Inr (foldl dec_add tot (map (\<lambda>x. dec_of (snd x)) splits), legs @ map (split_leg sg) splits)
     else Inl (ValueError ''split magnitude must be positive''))"
  using assms
proof (induction splits arbitrary: tot legs)
  case (Cons x splits)
  then show ?case
    by (cases x) (auto simp: money_arg_dec_of Posting_ok dec_cmp_iffs guardR_def split_leg_def)
qed simp

lemma split_sum:
  assumes "list_all (\<lambda>x. money_arg (snd x)) splits" "length splits \<le> max_items"
  shows "dec_val (foldl dec_add dec0 (map (\<lambda>x. dec_of (snd x)) splits)) = sum_list (map (\<lambda>x. arg_val (snd x)) splits)"
proof -
  have "map (\<lambda>x. dec_val (dec_of (snd x))) splits = map (\<lambda>x. arg_val (snd x)) splits"
    using assms(1) by (auto simp: list_all_iff money_arg_dec_of)
  moreover have "list_all money_range (map (\<lambda>x. dec_of (snd x)) splits)"
    using assms(1) by (auto simp: list_all_iff money_arg_dec_of)
  ultimately show ?thesis
    using money_foldl [of "map (\<lambda>x. dec_of (snd x)) splits"] assms(2) by (simp only: map_map comp_def length_map)
qed

lemma split_legs_total:
  assumes "list_all (\<lambda>x. money_arg (snd x)) splits" "s = 1 \<or> s = - 1"
  shows "postings_total (map (split_leg (Dec s 0)) splits) = of_int s * sum_list (map (\<lambda>x. arg_val (snd x)) splits)
     \<and> list_all (\<lambda>p. wide (p_amount p)) (map (split_leg (Dec s 0)) splits)"
  using assms(1)
proof (induction splits)
  case (Cons x splits)
  have "money_range (dec_of (snd x))" using Cons.prems by (simp add: money_arg_dec_of)
  then show ?case
    using Cons money_sign [OF _ assms(2), of "dec_of (snd x)"] money_wide
    by (auto simp: split_leg_def distrib_left money_arg_dec_of)
qed simp

lemma split_transaction_eq:
  assumes "money_arg amount" "list_all (\<lambda>x. money_arg (snd x)) splits" "length splits \<le> max_items"
  shows "split_transaction eid account amount splits description occ tags prov =
    (if arg_val amount = 0 then Inl (ValueError ''a transaction of zero is not a movement'')
     else if \<not> list_all (\<lambda>x. 0 < arg_val (snd x)) splits then Inl (ValueError ''split magnitude must be positive'')
     else if sum_list (map (\<lambda>x. arg_val (snd x)) splits) \<noteq> \<bar>arg_val amount\<bar>
       then Inl (ValueError ''a split must account for the whole amount'')
     else Inr (transaction_recorded eid
            (\<lparr>p_account = account, p_amount = dec_of amount, p_grade = VERIFIED\<rparr>
             # map (split_leg (Dec (if 0 < arg_val amount then - 1 else 1) 0)) splits) description occ tags prov))"
proof -
  let ?d = "dec_of amount" and ?s = "if 0 < arg_val amount then - 1 else 1 :: int"
  let ?ps = "\<lparr>p_account = account, p_amount = ?d, p_grade = VERIFIED\<rparr> # map (split_leg (Dec ?s 0)) splits"
  let ?sum = "sum_list (map (\<lambda>x. arg_val (snd x)) splits)"
  note d = money_arg_dec_of [OF assms(1)]
  have s: "?s = 1 \<or> ?s = - 1" by simp
  note legs = split_legs_total [OF assms(2) s]
  have "bookable ?ps" using legs assms(3) money_wide [OF d(2)] by (simp add: bookable_def)
  moreover have "postings_total ?ps = arg_val amount + of_int ?s * ?sum" using legs d(3) by simp
  ultimately have rb: "require_balanced ?ps = Inr ?ps" if "?sum = \<bar>arg_val amount\<bar>"
    using that by (simp add: require_balanced_iff split: if_splits)
  have sg: "(if dec_lt dec0 ?d then Dec (- 1) 0 else Dec 1 0) = Dec ?s 0" using d(3) by (simp add: dec_cmp_iffs)
  show ?thesis
    unfolding split_transaction_def d(1) bindR_simps sg Posting_ok [OF grades_ok(1)] split_legs_eq [OF assms(2)]
    using d money_abs [OF d(2)] split_sum [OF assms(2,3)] rb
    by (simp add: dec_cmp_iffs guardR_def)
qed

lemma split_leg_vals:
  assumes "list_all (\<lambda>x. money_arg (snd x)) splits" "s = 1 \<or> s = - 1"
  shows "map (dec_val \<circ> p_amount) (map (split_leg (Dec s 0)) splits) = map (\<lambda>x. of_int s * arg_val (snd x)) splits"
    "map p_grade (map (split_leg (Dec s 0)) splits) = map (\<lambda>_. UNVERIFIED) splits"
proof -
  have "dec_val (dec_mul (Dec s 0) (dec_of (snd x))) = of_int s * arg_val (snd x)" if "x \<in> set splits" for x
    using money_arg_dec_of [of "snd x"] money_sign [OF _ assms(2), of "dec_of (snd x)"] that assms(1) by (auto simp: list_all_iff)
  then show "map (dec_val \<circ> p_amount) (map (split_leg (Dec s 0)) splits) = map (\<lambda>x. of_int s * arg_val (snd x)) splits"
    "map p_grade (map (split_leg (Dec s 0)) splits) = map (\<lambda>_. UNVERIFIED) splits"
    by (simp_all add: split_leg_def)
qed

definition whole_split :: "pynum \<Rightarrow> (string \<times> pynum) list \<Rightarrow> bool" where
  "whole_split amount splits =
     (arg_val amount \<noteq> 0 \<and> list_all (\<lambda>x. 0 < arg_val (snd x)) splits
      \<and> sum_list (map (\<lambda>x. arg_val (snd x)) splits) = \<bar>arg_val amount\<bar>)"

lemma split_refused:
  assumes "money_arg amount" "list_all (\<lambda>x. money_arg (snd x)) splits" "length splits \<le> max_items" "\<not> whole_split amount splits"
  shows "\<exists>m. split_transaction eid account amount splits description occ tags prov = Inl (ValueError m)"
  using assms(4) by (auto simp: split_transaction_eq [OF assms(1-3)] whole_split_def)

lemma split_booking:
  assumes "money_arg amount" "list_all (\<lambda>x. money_arg (snd x)) splits" "length splits \<le> max_items" "whole_split amount splits"
  shows "\<exists>e ps. split_transaction eid account amount splits description occ tags prov = Inr e \<and> postings_of e = Inr ps
           \<and> postings_total ps = 0 \<and> map p_account ps = account # map fst splits
           \<and> map p_grade ps = VERIFIED # map (\<lambda>_. UNVERIFIED) splits
           \<and> map (dec_val \<circ> p_amount) ps
               = arg_val amount # map (\<lambda>x. if 0 < arg_val amount then - arg_val (snd x) else arg_val (snd x)) splits"
proof -
  let ?s = "if 0 < arg_val amount then - 1 else 1 :: int"
  let ?ps = "\<lparr>p_account = account, p_amount = dec_of amount, p_grade = VERIFIED\<rparr> # map (split_leg (Dec ?s 0)) splits"
  have s: "?s = 1 \<or> ?s = - 1" by simp
  note v = split_leg_vals [OF assms(2) s] and d = money_arg_dec_of [OF assms(1)]
  have eq: "split_transaction eid account amount splits description occ tags prov = Inr (transaction_recorded eid ?ps description occ tags prov)"
    using assms(4) by (simp add: split_transaction_eq [OF assms(1-3)] whole_split_def)
  have "list_all posting_wf ?ps" by (auto simp: posting_wf_def split_leg_def list_all_iff)
  then have ps: "postings_of (transaction_recorded eid ?ps description occ tags prov) = Inr ?ps"
    by (simp add: postings_of_transaction_recorded)
  have "postings_total ?ps = 0" using split_legs_total [OF assms(2) s] d assms(4) by (auto simp: whole_split_def)
  moreover have "map (dec_val \<circ> p_amount) ?ps
      = arg_val amount # map (\<lambda>x. if 0 < arg_val amount then - arg_val (snd x) else arg_val (snd x)) splits"
    using v(1) d by (simp add: comp_def)
  moreover have "map p_account ?ps = account # map fst splits" by (simp add: split_leg_account)
  moreover have "map p_grade ?ps = VERIFIED # map (\<lambda>_. UNVERIFIED) splits" using v(2) by simp
  ultimately show ?thesis using eq ps
    by (intro exI [of _ "transaction_recorded eid ?ps description occ tags prov"] exI [of _ ?ps] conjI) assumption+
qed

subsection \<open>Brokerage activity\<close>

definition gain_ok :: "pynum option \<Rightarrow> bool" where
  "gain_ok g = (case g of None \<Rightarrow> True | Some x \<Rightarrow> x = PStr [] \<or> money_arg x)"

definition legs_ok :: "posting list \<Rightarrow> bool" where
  "legs_ok ps = (list_all (\<lambda>p. wide (p_amount p) \<and> posting_wf p) ps)"

lemma one_leg_ok:
  assumes "money_range cash" "g \<in> set GRADES"
  shows "\<exists>c. one_leg a (dec_neg cash) g = Inr c \<and> postings_total c = - dec_val cash \<and> legs_ok c \<and> length c = 1
    \<and> map p_account c = [a]"
  using money_neg [OF assms(1)] money_wide assms(2) by (simp add: one_leg_def Posting_ok legs_ok_def posting_wf_def)

lemma brokerage_counter_ok:
  assumes "money_range cash" "gain_ok gain" "kind \<in> set (BROKERAGE_CASH_IN @ BROKERAGE_CASH_OUT)"
  shows "\<exists>c. brokerage_counter kind cash gain = Inr c \<and> postings_total c = - dec_val cash \<and> legs_ok c \<and> length c \<le> 2
    \<and> (kind = ''buy'' \<longrightarrow> map p_account c = [ASSET_INVESTMENTS])
    \<and> (kind = ''contribution'' \<or> kind = ''withdrawal'' \<longrightarrow> map p_account c = [TRANSFERS_UNCATEGORIZED])"
proof -
  note one = one_leg_ok [OF assms(1)]
  show ?thesis
  proof (cases "kind = ''sell''")
    case False
    then consider "kind = ''contribution'' \<or> kind = ''withdrawal''" | "kind = ''dividend''" | "kind = ''interest''"
      | "kind = ''fee''" | "kind = ''buy''"
      using assms(3) unfolding BROKERAGE_CASH_IN_def BROKERAGE_CASH_OUT_def append.simps list.set insert_iff empty_iff
      by argo
    then show ?thesis
      using one [of UNVERIFIED TRANSFERS_UNCATEGORIZED] one [of VERIFIED INCOME_DIVIDENDS] one [of VERIFIED INCOME_INTEREST]
        one [of VERIFIED EXPENSE_FEES] one [of VERIFIED ASSET_INVESTMENTS]
      by cases (auto simp: brokerage_counter_def)
  next
    case sell: True
    show ?thesis
    proof (cases "gain = None \<or> gain = Some (PStr [])")
      case True
      then show ?thesis using sell one [of VERIFIED ASSET_INVESTMENTS] by (auto simp: brokerage_counter_def)
    next
      case False
      with assms(2) obtain g where g: "gain = Some g" "g \<noteq> PStr []" "money_arg g" by (auto simp: gain_ok_def split: option.splits)
      note d = money_arg_dec_of [OF g(3)]
      show ?thesis
        using sell g d money_neg [OF d(2)] money_wide money_diff_neg [OF assms(1) d(2)]
        by (simp add: brokerage_counter_def Posting_ok legs_ok_def posting_wf_def)
    qed
  qed
qed

lemma brokerage_eq:
  assumes "money_arg amount" "gain_ok gain"
  shows "(\<exists>ps cash. brokerage_activity_transaction eid account kind amount description occ instrument gain prov =
            Inr (transaction_recorded eid ps (if description \<noteq> [] then description else strip (kind @ '' '' @ instrument)) occ None prov)
          \<and> postings_total ps = 0 \<and> list_all posting_wf ps \<and> hd ps = \<lparr>p_account = account, p_amount = cash, p_grade = VERIFIED\<rparr>
          \<and> dec_val cash = (if kind \<in> set BROKERAGE_CASH_IN then arg_val amount else - arg_val amount) \<and> ps \<noteq> []
          \<and> (kind = ''buy'' \<longrightarrow> map p_account (tl ps) = [ASSET_INVESTMENTS])
          \<and> (kind = ''contribution'' \<or> kind = ''withdrawal'' \<longrightarrow> map p_account (tl ps) = [TRANSFERS_UNCATEGORIZED]))
        \<and> 0 < arg_val amount \<and> kind \<in> set (BROKERAGE_CASH_IN @ BROKERAGE_CASH_OUT)
      \<or> (\<exists>x. brokerage_activity_transaction eid account kind amount description occ instrument gain prov = Inl (ValueError x))
        \<and> \<not> (0 < arg_val amount \<and> kind \<in> set (BROKERAGE_CASH_IN @ BROKERAGE_CASH_OUT))"
proof (cases "0 < arg_val amount \<and> kind \<in> set (BROKERAGE_CASH_IN @ BROKERAGE_CASH_OUT)")
  case True
  note d = money_arg_dec_of [OF assms(1)]
  let ?cash = "if kind \<in> set BROKERAGE_CASH_IN then dec_of amount else dec_neg (dec_of amount)"
  have cash: "brokerage_cash_effect kind (PDec (dec_of amount)) = Inr ?cash" using True by (auto simp: brokerage_cash_effect_def)
  have m: "money_range ?cash" and v: "dec_val ?cash = (if kind \<in> set BROKERAGE_CASH_IN then arg_val amount else - arg_val amount)"
    using money_neg [OF d(2)] d by auto
  obtain c where
    c: "brokerage_counter kind ?cash gain = Inr c" "postings_total c = - dec_val ?cash" "legs_ok c" "length c \<le> 2"
      "kind = ''buy'' \<longrightarrow> map p_account c = [ASSET_INVESTMENTS]"
      "kind = ''contribution'' \<or> kind = ''withdrawal'' \<longrightarrow> map p_account c = [TRANSFERS_UNCATEGORIZED]"
    using brokerage_counter_ok [OF m assms(2) conjunct2 [OF True]] by (elim exE conjE) (rule that)
  let ?ps = "\<lparr>p_account = account, p_amount = ?cash, p_grade = VERIFIED\<rparr> # c"
  have wf: "list_all posting_wf ?ps" using c(3) by (simp add: legs_ok_def list_all_iff posting_wf_def)
  have "bookable ?ps" using c(3,4) money_wide [OF m] by (simp add: bookable_def legs_ok_def list_all_iff max_items_def)
  with c(2) have "require_balanced ?ps = Inr ?ps" by (simp add: require_balanced_iff)
  then have eq: "brokerage_activity_transaction eid account kind amount description occ instrument gain prov =
      Inr (transaction_recorded eid ?ps (if description \<noteq> [] then description else strip (kind @ '' '' @ instrument)) occ None prov)"
    using True d cash c(1) by (simp add: brokerage_activity_transaction_def Posting_ok dec_cmp_iffs Let_def)
  have "postings_total ?ps = 0" using c(2) by simp
  with eq wf v c(5,6) True show ?thesis
    by (intro disjI1 conjI exI [of _ ?ps] exI [of _ ?cash]) (assumption | simp only: list.sel list.distinct not_False_eq_True)+
next
  case False
  note d = money_arg_dec_of [OF assms(1)]
  have "kind \<notin> set BROKERAGE_CASH_IN \<and> kind \<notin> set BROKERAGE_CASH_OUT" if "0 < arg_val amount"
    using False that by simp
  with False d show ?thesis
    by (cases "0 < arg_val amount")
      (simp_all add: brokerage_activity_transaction_def brokerage_cash_effect_def dec_cmp_iffs guardR_def)
qed

text \<open>
  C23: a brokerage cash event is booked exactly when its magnitude is positive and its kind is known,
  and then the account's cash leg is the signed amount, the legs sum to zero, a buy only moves
  money into investments at cost and a contribution or withdrawal only into transfers.
\<close>

theorem brokerage_activity_books_realized_cash:
  assumes "money_arg amount" "gain_ok gain"
  shows "(\<exists>e ps. brokerage_activity_transaction eid account kind amount description occ instrument gain prov = Inr e
           \<and> postings_of e = Inr ps \<and> postings_total ps = 0 \<and> ps \<noteq> [] \<and> p_account (hd ps) = account
           \<and> dec_val (p_amount (hd ps)) = (if kind \<in> set BROKERAGE_CASH_IN then arg_val amount else - arg_val amount)
           \<and> (kind = ''buy'' \<longrightarrow> map p_account (tl ps) = [ASSET_INVESTMENTS])
           \<and> (kind = ''contribution'' \<or> kind = ''withdrawal'' \<longrightarrow> map p_account (tl ps) = [TRANSFERS_UNCATEGORIZED]))
      \<longleftrightarrow> 0 < arg_val amount \<and> kind \<in> set (BROKERAGE_CASH_IN @ BROKERAGE_CASH_OUT)"
  using brokerage_eq [OF assms, of eid account kind description occ instrument prov]
  by (auto simp: postings_of_transaction_recorded simp del: set_append)

subsection \<open>Pay stubs\<close>

definition stub_leg :: "deduction \<Rightarrow> posting" where
  "stub_leg d = \<lparr>p_account = deduction_account (ded_category d), p_amount = dec_abs (dec_of (ded_amount d)), p_grade = UNVERIFIED\<rparr>"

definition stub_legs :: "pynum \<Rightarrow> pynum \<Rightarrow> deduction list \<Rightarrow> posting list" where
  "stub_legs gross net ds =
     \<lparr>p_account = INCOME_SALARY, p_amount = dec_neg (dec_of gross), p_grade = VERIFIED\<rparr>
     # \<lparr>p_account = INCOME_UNCATEGORIZED, p_amount = dec_of net, p_grade = UNVERIFIED\<rparr> # map stub_leg ds"

definition deducted :: "deduction list \<Rightarrow> rat" where
  "deducted ds = sum_list (map (\<lambda>d. \<bar>arg_val (ded_amount d)\<bar>) ds)"

lemma deduction_legs:
  assumes "list_all (\<lambda>d. money_arg (ded_amount d)) ds"
  shows "mapR deduction_leg ds = Inr (map stub_leg ds)" "postings_total (map stub_leg ds) = deducted ds"
    "list_all (\<lambda>p. wide (p_amount p) \<and> posting_wf p) (map stub_leg ds)"
  using assms
  by (induction ds) (auto simp: deduction_leg_def money_arg_dec_of Posting_ok stub_leg_def deducted_def money_abs
      money_wide posting_wf_def)

lemma stub_legs_ok:
  assumes "money_arg gross" "money_arg net" "list_all (\<lambda>d. money_arg (ded_amount d)) ds" "length ds \<le> max_items"
  shows "bookable (stub_legs gross net ds)" "list_all posting_wf (stub_legs gross net ds)"
    "postings_total (stub_legs gross net ds) = arg_val net + deducted ds - arg_val gross"
  using money_arg_dec_of [OF assms(1)] money_arg_dec_of [OF assms(2)] deduction_legs [OF assms(3)] assms(4)
    money_neg [of "dec_of gross"] money_wide
  by (simp_all add: stub_legs_def bookable_def posting_wf_def list_all_iff)

lemma paystub_eq:
  assumes "money_arg gross" "money_arg net" "list_all (\<lambda>d. money_arg (ded_amount d)) ds" "length ds \<le> max_items"
  shows "paystub_decomposition eid gross net ds description occ prov key currency =
    (if arg_val gross - deducted ds \<noteq> arg_val net then Inl (ValueError ''postings do not balance'')
     else if key \<noteq> [] \<and> currency = [] then Inl (ValueError ''matched paystub deposit must retain its currency'')
     else Inr (if key = [] then transaction_recorded eid (stub_legs gross net ds) description occ None prov
               else with_body (\<lambda>b. jset ''matched_currency'' (JStr currency) (jset ''matched_movement_key'' (JStr key) b))
                      (transaction_recorded eid (stub_legs gross net ds) description occ None prov)))"
proof -
  have "require_balanced (stub_legs gross net ds) =
      (if arg_val gross - deducted ds = arg_val net then Inr (stub_legs gross net ds)
       else Inl (ValueError ''postings do not balance''))"
    using stub_legs_ok [OF assms] by (auto simp: require_balanced_iff)
  then show ?thesis
    using money_arg_dec_of(1) [OF assms(1)] money_arg_dec_of(1) [OF assms(2)] deduction_legs(1) [OF assms(3)]
    by (simp add: paystub_decomposition_def Posting_ok Let_def guardR_def stub_legs_def)
qed

definition account_total :: "string \<Rightarrow> posting list \<Rightarrow> rat" where
  "account_total a ps = postings_total (filter (\<lambda>p. p_account p = a) ps)"

lemma deduction_account_not_income:
  "deduction_account c \<noteq> INCOME_UNCATEGORIZED" "deduction_account c \<noteq> INCOME_SALARY"
  by (simp_all add: deduction_account_def DEDUCTION_ACCOUNTS_def INCOME_UNCATEGORIZED_def INCOME_SALARY_def split: option.splits)

lemma stub_account_totals:
  assumes "money_arg gross" "money_arg net"
  shows "account_total INCOME_UNCATEGORIZED (stub_legs gross net ds) = arg_val net"
    "account_total INCOME_SALARY (stub_legs gross net ds) = - arg_val gross"
proof -
  have "filter (\<lambda>p. p_account p = a) (map stub_leg ds) = []" if "a = INCOME_UNCATEGORIZED \<or> a = INCOME_SALARY" for a
    using that deduction_account_not_income by (auto simp: filter_empty_conv stub_leg_def)
  moreover have "INCOME_SALARY \<noteq> INCOME_UNCATEGORIZED" by (simp add: INCOME_SALARY_def INCOME_UNCATEGORIZED_def)
  ultimately show "account_total INCOME_UNCATEGORIZED (stub_legs gross net ds) = arg_val net"
    "account_total INCOME_SALARY (stub_legs gross net ds) = - arg_val gross"
    using money_arg_dec_of [OF assms(1)] money_arg_dec_of [OF assms(2)] money_neg [of "dec_of gross"]
    by (simp_all add: account_total_def stub_legs_def)
qed

lemma account_total_append: "account_total a (ps @ qs) = account_total a ps + account_total a qs"
  by (simp add: account_total_def postings_total_def)

text \<open>
  C24: a pay stub counts the net once. Booked beside the deposit it explains, it leaves nothing in
  uncategorized income, puts exactly the gross into salary, and is only accepted when gross minus
  the deductions is the net.
\<close>

theorem paystub_counts_the_net_once:
  assumes "money_arg gross" "money_arg net" "list_all (\<lambda>d. money_arg (ded_amount d)) ds" "length ds \<le> max_items"
    and "0 < arg_val net" "account \<noteq> INCOME_UNCATEGORIZED" "account \<noteq> INCOME_SALARY"
    and "paystub_decomposition eid gross net ds description occ prov key currency = Inr stub"
  shows "\<exists>deposit ps qs.
      simple_transaction eid' account net description' occ' tags prov' VERIFIED ''depository'' src cpty = Inr deposit
    \<and> postings_of deposit = Inr ps \<and> postings_of stub = Inr qs \<and> postings_total qs = 0
    \<and> arg_val gross - deducted ds = arg_val net
    \<and> account_total INCOME_UNCATEGORIZED (ps @ qs) = 0
    \<and> account_total INCOME_SALARY (ps @ qs) = - arg_val gross"
proof -
  let ?q = "stub_legs gross net ds"
  have eq: "arg_val gross - deducted ds = arg_val net"
    and stub: "stub = transaction_recorded eid ?q description occ None prov \<or>
        stub = with_body (\<lambda>b. jset ''matched_currency'' (JStr currency) (jset ''matched_movement_key'' (JStr key) b))
                      (transaction_recorded eid ?q description occ None prov)"
    using assms(8) by (auto simp: paystub_eq [OF assms(1-4)] split: if_splits)
  have qs: "postings_of stub = Inr ?q"
    using stub stub_legs_ok(2) [OF assms(1-4)] by (auto simp: postings_of_with_body jget_jset_other postings_of_transaction_recorded)
  note d = money_arg_dec_of [OF assms(2)]
  obtain e ps where e: "simple_transaction eid' account net description' occ' tags prov' VERIFIED ''depository'' src cpty = Inr e"
    "postings_of e = Inr ps"
    "ps = [\<lparr>p_account = account, p_amount = dec_of net, p_grade = VERIFIED\<rparr>,
            \<lparr>p_account = counter_account ''depository'' (dec_of net), p_amount = dec_neg (dec_of net), p_grade = UNVERIFIED\<rparr>]"
    using simple_booking [OF assms(2), of VERIFIED eid' account description' occ' tags prov' "''depository''" src cpty] assms(5) d(1)
    by auto
  have "counter_account ''depository'' (dec_of net) = INCOME_UNCATEGORIZED"
    using assms(5) d by (simp add: counter_account_def dec_cmp_iffs)
  moreover have "INCOME_SALARY \<noteq> INCOME_UNCATEGORIZED" by (simp add: INCOME_SALARY_def INCOME_UNCATEGORIZED_def)
  ultimately have "account_total INCOME_UNCATEGORIZED ps = - arg_val net" "account_total INCOME_SALARY ps = 0"
    using e(3) assms(6,7) money_neg [OF d(2)] d(3) by (simp_all add: account_total_def)
  with e(1,2) qs eq show ?thesis
    using stub_account_totals [OF assms(1,2), of ds] stub_legs_ok(3) [OF assms(1-4)]
    by (simp add: account_total_append)
qed


theorem paystub_counts_the_net_once_witness:
  "\<exists>stub qs. paystub_decomposition ''s'' (PStr ''5000.00'') (PStr ''3800.00'')
         [\<lparr>ded_amount = PStr ''900.00'', ded_category = Some ''tax''\<rparr>, \<lparr>ded_amount = PStr ''-300.00'', ded_category = Some ''retirement''\<rparr>]
         ''pay'' ''2024-01-31'' None [] [] = Inr stub
     \<and> postings_of stub = Inr qs \<and> postings_total qs = 0"
proof -
  let ?ds = "[\<lparr>ded_amount = PStr ''900.00'', ded_category = Some ''tax''\<rparr>, \<lparr>ded_amount = PStr ''-300.00'', ded_category = Some ''retirement''\<rparr>]"
  have "\<exists>stub. paystub_decomposition ''s'' (PStr ''5000.00'') (PStr ''3800.00'') ?ds ''pay'' ''2024-01-31'' None [] [] = Inr stub"
    unfolding not_isl_iff [symmetric] by code_simp
  moreover have "money_arg (PStr ''5000.00'')" "money_arg (PStr ''3800.00'')" "list_all (\<lambda>d. money_arg (ded_amount d)) ?ds"
    "length ?ds \<le> max_items" "0 < arg_val (PStr ''3800.00'')"
    "''Assets:Checking'' \<noteq> INCOME_UNCATEGORIZED" "''Assets:Checking'' \<noteq> INCOME_SALARY" by code_simp+
  ultimately show ?thesis using paystub_counts_the_net_once by meson
qed

subsection \<open>Account paths\<close>

lemma colon_not_in_clean_part: "CHR '':'' \<notin> set (clean_part p)"
proof -
  have "set (strip s) \<subseteq> set s" for s
    by (auto simp: strip_def strip_by_def lstrip_by_def rstrip_by_def dest!: set_dropWhileD)
  then show ?thesis by (fastforce simp: clean_part_def subst_char_def)
qed

text \<open>
  A name cannot inject a level into the chart of accounts. Splitting an account path at its
  colons gives the root of the major followed by the non-blank parts, whatever they contained.
\<close>

lemma account_path_levels:
  assumes "account_path major parts = Inr path"
  shows "\<exists>rt. map_of MAJOR_ROOTS major = Some rt
    \<and> split_char (CHR '':'') path = rt # filter (\<lambda>p. p \<noteq> []) (map clean_part parts)"
proof -
  from assms obtain rt where rt: "map_of MAJOR_ROOTS major = Some rt"
    and p: "path = join '':'' (rt # filter (\<lambda>p. p \<noteq> []) (map clean_part parts))"
    by (auto simp: account_path_def split: option.splits)
  have "CHR '':'' \<notin> set rt" using rt by (auto simp: MAJOR_ROOTS_def split: if_splits)
  then show ?thesis
    using rt p colon_not_in_clean_part by (auto intro!: split_char_join)
qed

subsection \<open>The contract every builder keeps\<close>

locale double_entry =
  fixes build :: "'a \<Rightarrow> event res"
    and in_range :: "'a \<Rightarrow> bool"
  assumes balances:
    "in_range a \<Longrightarrow> build a = Inr e \<Longrightarrow> \<exists>ps. postings_of e = Inr ps \<and> postings_total ps = 0"
begin

lemma trial_balance:
  assumes "list_all in_range xs" "mapR build xs = Inr es"
  shows "\<exists>pss. mapR postings_of es = Inr pss \<and> postings_total (concat pss) = 0"
  using assms
proof (induction xs arbitrary: es)
  case (Cons x xs)
  then obtain e es' where e: "build x = Inr e" "mapR build xs = Inr es'" "es = e # es'"
    by (auto simp: res_iffs)
  with Cons obtain pss where "mapR postings_of es' = Inr pss" "postings_total (concat pss) = 0" by auto
  moreover obtain ps where "postings_of e = Inr ps" "postings_total ps = 0"
    using balances Cons.prems(1) e(1) by auto
  ultimately show ?case using e(3) by (simp add: postings_total_def)
qed simp

end

datatype booking =
    Simple string string pynum string string "string list option" "provenance option" string string string string
  | Split string string pynum "(string \<times> pynum) list" string string "string list option" "provenance option"
  | Brokerage string string string pynum string string string "pynum option" "provenance option"
  | Paystub string pynum pynum "deduction list" string string "provenance option" string string

fun book :: "booking \<Rightarrow> event res" where
  "book (Simple eid account amount description occ tags prov grade kind src cpty) =
     simple_transaction eid account amount description occ tags prov grade kind src cpty"
| "book (Split eid account amount splits description occ tags prov) =
     split_transaction eid account amount splits description occ tags prov"
| "book (Brokerage eid account kind amount description occ instrument gain prov) =
     brokerage_activity_transaction eid account kind amount description occ instrument gain prov"
| "book (Paystub eid gross net ds description occ prov key currency) =
     paystub_decomposition eid gross net ds description occ prov key currency"

fun booking_range :: "booking \<Rightarrow> bool" where
  "booking_range (Simple eid account amount description occ tags prov grade kind src cpty) = money_arg amount"
| "booking_range (Split eid account amount splits description occ tags prov) =
     (money_arg amount \<and> list_all (\<lambda>x. money_arg (snd x)) splits \<and> length splits \<le> max_items)"
| "booking_range (Brokerage eid account kind amount description occ instrument gain prov) = (money_arg amount \<and> gain_ok gain)"
| "booking_range (Paystub eid gross net ds description occ prov key currency) =
     (money_arg gross \<and> money_arg net \<and> list_all (\<lambda>d. money_arg (ded_amount d)) ds \<and> length ds \<le> max_items)"


lemma simple_transaction_balances:
  assumes "money_arg amount" "simple_transaction eid account amount description occ tags prov grade kind src cpty = Inr e"
  shows "\<exists>ps. postings_of e = Inr ps \<and> postings_total ps = 0"
proof -
  have "arg_val amount \<noteq> 0" "grade \<in> set GRADES"
    using assms(2) money_arg_dec_of [OF assms(1)]
    by (auto simp: simple_transaction_def Posting_def res_iffs dec_cmp_iffs)
  from simple_booking [OF assms(1) this, of eid account description occ tags prov kind src cpty] assms(2)
  show ?thesis by auto
qed

lemma book_balances:
  assumes "booking_range b" "book b = Inr e"
  shows "\<exists>ps. postings_of e = Inr ps \<and> postings_total ps = 0"
proof (cases b)
  case (Simple eid account amount description occ tags prov grade kind src cpty)
  then show ?thesis using assms simple_transaction_balances by simp
next
  case (Split eid account amount splits description occ tags prov)
  then have r: "money_arg amount" "list_all (\<lambda>x. money_arg (snd x)) splits" "length splits \<le> max_items"
    using assms(1) by auto
  have "whole_split amount splits"
    using assms(2) Split split_refused [OF r, of eid account description occ tags prov] by auto
  from split_booking [OF r this, of eid account description occ tags prov] assms(2) Split show ?thesis by auto
next
  case (Brokerage eid account kind amount description occ instrument gain prov)
  then show ?thesis
    using assms brokerage_eq [of amount gain eid account kind description occ instrument prov]
    by (auto simp: postings_of_transaction_recorded)
next
  case (Paystub eid gross net ds description occ prov key currency)
  then have r: "money_arg gross" "money_arg net" "list_all (\<lambda>d. money_arg (ded_amount d)) ds" "length ds \<le> max_items"
    using assms(1) by auto
  show ?thesis
    using assms(2) Paystub stub_legs_ok [OF r]
    by (auto simp: paystub_eq [OF r] postings_of_with_body jget_jset_other postings_of_transaction_recorded split: if_splits)
qed

interpretation books: double_entry book booking_range
  by unfold_locales (rule book_balances)

text \<open>
  C20: the trial balance of the books is zero. Over any sequence of movements, splits, brokerage events
  and pay stubs that were accepted, the postings of all of them together sum to exactly zero.
\<close>

theorem trial_balance_is_zero:
  assumes "list_all booking_range bs" "mapR book bs = Inr es"
  shows "\<exists>pss. mapR postings_of es = Inr pss \<and> postings_total (concat pss) = 0"
  using assms by (rule books.trial_balance)

definition sample_bookings :: "booking list" where
  "sample_bookings =
     [Simple ''1'' ''Assets:Checking'' (PStr ''-42.10'') ''lunch'' ''2024-01-05'' None None VERIFIED ''depository'' [] [],
      Split ''2'' ''Assets:Checking'' (PStr ''-10'') [(''Expenses:A'', PStr ''7.5''), (''Expenses:B'', PStr ''2.5'')] ''x'' ''2024-01-06'' None None,
      Brokerage ''3'' ''Assets:Broker'' ''sell'' (PStr ''100'') [] ''2024-01-07'' ''ACME'' (Some (PStr ''12.25'')) None,
      Paystub ''4'' (PInt 100) (PInt 80) [\<lparr>ded_amount = PInt 20, ded_category = None\<rparr>] ''pay'' ''2024-01-08'' None [] []]"

theorem trial_balance_is_zero_witness:
  "\<exists>es pss. mapR book sample_bookings = Inr es \<and> mapR postings_of es = Inr pss \<and> postings_total (concat pss) = 0"
proof -
  have "list_all booking_range sample_bookings" by code_simp
  moreover have "\<exists>es. mapR book sample_bookings = Inr es" unfolding not_isl_iff [symmetric] by code_simp
  ultimately show ?thesis using trial_balance_is_zero by meson
qed

text \<open>
  A movement books its two legs. For an amount of the money range other than zero the booking
  succeeds, the account leg is the amount, the counter-leg its exact negation graded unverified, and
  its bucket is decided by kind and sign; a payment on a liability is a transfer, never income.
\<close>

lemma movement_books_both_legs:
  assumes "money_arg amount" "arg_val amount \<noteq> 0" "account_grade \<in> set GRADES"
  shows "\<exists>e d. simple_transaction eid account amount description occ tags prov account_grade kind src cpty = Inr e
    \<and> py_Decimal amount = Inr d \<and> dec_val (dec_neg d) = - dec_val d
    \<and> postings_of e = Inr [\<lparr>p_account = account, p_amount = d, p_grade = account_grade\<rparr>,
            \<lparr>p_account = counter_account kind d, p_amount = dec_neg d, p_grade = UNVERIFIED\<rparr>]
    \<and> counter_account kind d =
        (if kind = ''liability'' then (if 0 < arg_val amount then ''Expenses:Uncategorized'' else ''Transfers:Uncategorized'')
         else (if 0 < arg_val amount then ''Income:Uncategorized'' else ''Expenses:Uncategorized''))"
  using simple_booking [OF assms, of eid account description occ tags prov kind src cpty] money_arg_dec_of [OF assms(1)]
    money_neg [of "dec_of amount"]
  by (auto simp: counter_account_def dec_cmp_iffs EXPENSE_UNCATEGORIZED_def TRANSFERS_UNCATEGORIZED_def INCOME_UNCATEGORIZED_def)

text \<open>
  C22: a split is booked exactly when it accounts for the whole movement. For amounts of the money range, a split is
  refused with a \<^verbatim>\<open>ValueError\<close> when the movement is zero, a part is not positive or the parts do not sum to the
  magnitude of the movement. Otherwise it is booked, with the account leg of the movement, verified, and one leg for each
  part in order, unverified and signed against the movement, and the legs sum to zero.
\<close>

theorem split_accounts_for_the_whole:
  assumes "money_arg amount" "list_all (\<lambda>x. money_arg (snd x)) splits" "length splits \<le> max_items"
  shows "case split_transaction eid account amount splits description occ tags prov of
      Inl x \<Rightarrow> (\<exists>m. x = ValueError m)
        \<and> (arg_val amount = 0 \<or> (\<exists>p \<in> set splits. arg_val (snd p) \<le> 0)
           \<or> sum_list (map (\<lambda>p. arg_val (snd p)) splits) \<noteq> \<bar>arg_val amount\<bar>)
    | Inr e \<Rightarrow> arg_val amount \<noteq> 0 \<and> (\<forall>p \<in> set splits. 0 < arg_val (snd p))
        \<and> sum_list (map (\<lambda>p. arg_val (snd p)) splits) = \<bar>arg_val amount\<bar>
        \<and> (\<exists>ps. postings_of e = Inr ps \<and> postings_total ps = 0 \<and> map p_account ps = account # map fst splits
             \<and> map p_grade ps = VERIFIED # map (\<lambda>_. UNVERIFIED) splits
             \<and> map (dec_val \<circ> p_amount) ps
                 = arg_val amount # map (\<lambda>p. if 0 < arg_val amount then - arg_val (snd p) else arg_val (snd p)) splits)"
proof (cases "whole_split amount splits")
  case True
  then show ?thesis using split_booking [OF assms True, of eid account description occ tags prov]
    by (auto simp: whole_split_def list_all_iff)
next
  case False
  then have "arg_val amount = 0 \<or> (\<exists>p \<in> set splits. arg_val (snd p) \<le> 0)
      \<or> sum_list (map (\<lambda>p. arg_val (snd p)) splits) \<noteq> \<bar>arg_val amount\<bar>"
    unfolding whole_split_def list_all_iff not_less [symmetric] by blast
  then show ?thesis using split_refused [OF assms False, of eid account description occ tags prov] by (elim exE) simp
qed

theorem split_accounts_for_the_whole_witness:
  "(\<exists>m. split_transaction ''e'' ''Assets:Checking'' (PInt (- 10)) [(''Expenses:A'', PStr ''7.5''), (''Expenses:B'', PInt 2)] ''x'' ''d'' None None
        = Inl (ValueError m))
   \<and> (\<exists>e ps. split_transaction ''e'' ''Assets:Checking'' (PInt (- 10)) [(''Expenses:A'', PStr ''7.5''), (''Expenses:B'', PStr ''2.5'')] ''x'' ''d'' None None
        = Inr e \<and> postings_of e = Inr ps \<and> postings_total ps = 0)"
proof -
  let ?bad = "[(''Expenses:A'', PStr ''7.5''), (''Expenses:B'', PInt 2)]" and ?good = "[(''Expenses:A'', PStr ''7.5''), (''Expenses:B'', PStr ''2.5'')]"
  have m: "money_arg (PInt (- 10))" "list_all (\<lambda>x. money_arg (snd x)) ?bad" "length ?bad \<le> max_items"
    "list_all (\<lambda>x. money_arg (snd x)) ?good" "length ?good \<le> max_items" by code_simp+
  have "sum_list (map (\<lambda>x. arg_val (snd x)) ?bad) \<noteq> \<bar>arg_val (PInt (- 10))\<bar>"
    "\<not> (arg_val (PInt (- 10)) = 0 \<or> (\<exists>p \<in> set ?good. arg_val (snd p) \<le> 0)
        \<or> sum_list (map (\<lambda>p. arg_val (snd p)) ?good) \<noteq> \<bar>arg_val (PInt (- 10))\<bar>)" by code_simp+
  then show ?thesis
    using split_accounts_for_the_whole [OF m(1-3), where eid = "''e''" and account = "''Assets:Checking''" and description = "''x''"
        and occ = "''d''" and tags = None and prov = None]
      split_accounts_for_the_whole [OF m(1,4,5), where eid = "''e''" and account = "''Assets:Checking''" and description = "''x''"
        and occ = "''d''" and tags = None and prov = None]
    by (auto split: sum.splits simp del: sum_list_simps list.map list.set)
qed

theorem brokerage_activity_books_realized_cash_witness:
  "\<exists>e ps. brokerage_activity_transaction ''e'' ''Assets:Broker'' ''buy'' (PStr ''250.00'') [] ''2024-01-05'' ''ACME'' None None = Inr e
     \<and> postings_of e = Inr ps \<and> postings_total ps = 0 \<and> map p_account (tl ps) = [ASSET_INVESTMENTS]"
proof -
  have "money_arg (PStr ''250.00'')" "gain_ok None" "0 < arg_val (PStr ''250.00'')"
    "''buy'' \<in> set (BROKERAGE_CASH_IN @ BROKERAGE_CASH_OUT)" by code_simp+
  from brokerage_activity_books_realized_cash [OF this(1,2), of "''e''" "''Assets:Broker''" "''buy''" "[]" "''2024-01-05''" "''ACME''" None] this(3,4)
  show ?thesis by (auto simp del: set_append)
qed

end
