(* ===== verification/Crypto.thy ===== *)
theory Crypto
  imports Json Base64 Py_Decimal
begin

text \<open>
  \<^verbatim>\<open>product/viva/crypto.py\<close>: the encryption envelope and the vault header. The primitives of the
  \<^verbatim>\<open>cryptography\<close> package and of \<^verbatim>\<open>hmac\<close> and \<^verbatim>\<open>hashlib\<close> are the record \<open>prims\<close>, an argument of
  every definition that uses one; random bytes (\<^verbatim>\<open>os.urandom\<close>) are arguments too. What the theorems
  need of them is stated as hypotheses: decryption inverts encryption (\<open>aead_opens\<close>), decryption
  accepts nothing but an encryption (\<open>aead_tight\<close>), and a ciphertext is its plaintext plus a tag
  of fixed length (\<open>aead_length\<close>).
\<close>

record prims =
  scrypt :: "string \<Rightarrow> int \<Rightarrow> int \<Rightarrow> int \<Rightarrow> string \<Rightarrow> string res"
  aes_encrypt :: "string \<Rightarrow> string \<Rightarrow> string \<Rightarrow> string \<Rightarrow> string"
  aes_decrypt :: "string \<Rightarrow> string \<Rightarrow> string \<Rightarrow> string \<Rightarrow> string option"
  hmac_sha256 :: "string \<Rightarrow> string \<Rightarrow> string"
  sha256 :: "string \<Rightarrow> string"

text \<open>\<^verbatim>\<open>hexdigest()\<close> of a digest.\<close>

definition hexdigest :: "string \<Rightarrow> string" where
  "hexdigest b = concat (map (\<lambda>c. [hex_digit (of_char c div 16), hex_digit (of_char c mod 16)]) b)"

definition VERSION :: string where "VERSION = ''viva-vault-aesgcm-scrypt-v1''"
definition HEAD_BOUND_HEADER_VERSION :: string where
  "HEAD_BOUND_HEADER_VERSION = ''viva-vault-aesgcm-scrypt-h1''"
definition HEAD_CAPABILITY_VERSION :: string where "HEAD_CAPABILITY_VERSION = ''head-v1''"

definition SCRYPT_N :: int where "SCRYPT_N = 2 ^ 15"
definition SCRYPT_R :: int where "SCRYPT_R = 8"
definition SCRYPT_P :: int where "SCRYPT_P = 1"
definition KEY_LEN :: nat where "KEY_LEN = 32"
definition SALT_LEN :: nat where "SALT_LEN = 16"
definition NONCE_LEN :: nat where "NONCE_LEN = 12"

subsection \<open>Key derivation parameters\<close>

definition b64e :: "string \<Rightarrow> string" where
  "b64e b = b64encode b"

definition b64d :: "string \<Rightarrow> string res" where
  "b64d s =
     guardR (list_all (\<lambda>c. (of_char c :: nat) < 128) s) (ValueError ''ascii codec'')
     (case b64decode s of None \<Rightarrow> Inl (ValueError ''base64'') | Some b \<Rightarrow> Inr b)"

record kdf_params =
  salt :: string
  kdf_n :: int
  kdf_r :: int
  kdf_p :: int

definition kdf_to_dict :: "kdf_params \<Rightarrow> json" where
  "kdf_to_dict k =
     JObj [(''salt'', JStr (b64e (salt k))), (''n'', JInt (kdf_n k)), (''r'', JInt (kdf_r k)), (''p'', JInt (kdf_p k))]"

text \<open>\<^verbatim>\<open>int(x)\<close> of a stored value; a float is truncated, a text must be a plain signed numeral.\<close>

fun py_int :: "json \<Rightarrow> int res" where
  "py_int (JInt i) = Inr i"
| "py_int (JBool b) = Inr (if b then 1 else 0)"
| "py_int (JFloat t) =
     (case dec_parse t of Finite d \<Rightarrow> Inr (if coeff d < 0 then \<lceil>dec_val d\<rceil> else \<lfloor>dec_val d\<rfloor>)
      | _ \<Rightarrow> Inl (ValueError ''int''))"
| "py_int (JStr s) =
     (case take_sign (strip s) of (neg, ds) \<Rightarrow>
        guardR (ds \<noteq> [] \<and> list_all is_digit ds) (ValueError ''invalid literal for int'')
          (Inr (if neg then - int (digits_val ds) else int (digits_val ds))))"
| "py_int _ = Inl (TypeError ''int'')"

fun as_text :: "json \<Rightarrow> string res" where
  "as_text (JStr s) = Inr s"
| "as_text _ = Inl (AttributeError ''encode'')"

definition kdf_from_dict :: "json \<Rightarrow> kdf_params res" where
  "kdf_from_dict d =
     bindR (jitem d ''salt'') (\<lambda>sj. bindR (as_text sj) (\<lambda>st. bindR (b64d st) (\<lambda>slt.
     bindR (jitem d ''n'') (\<lambda>nj. bindR (py_int nj) (\<lambda>n.
     bindR (jitem d ''r'') (\<lambda>rj. bindR (py_int rj) (\<lambda>r.
     bindR (jitem d ''p'') (\<lambda>pj. bindR (py_int pj) (\<lambda>p.
       Inr \<lparr>salt = slt, kdf_n = n, kdf_r = r, kdf_p = p\<rparr>)))))))))"

definition kdf_new :: "string \<Rightarrow> kdf_params" where
  "kdf_new random_salt = \<lparr>salt = random_salt, kdf_n = SCRYPT_N, kdf_r = SCRYPT_R, kdf_p = SCRYPT_P\<rparr>"

definition derive_key :: "prims \<Rightarrow> string \<Rightarrow> kdf_params \<Rightarrow> string res" where
  "derive_key P passphrase k =
     guardR (passphrase \<noteq> []) (CryptoError ''empty passphrase'')
     (scrypt P (salt k) (kdf_n k) (kdf_r k) (kdf_p k) passphrase)"

subsection \<open>Sealed records\<close>

definition seal :: "prims \<Rightarrow> string \<Rightarrow> string \<Rightarrow> string \<Rightarrow> string \<Rightarrow> json res" where
  "seal P nonce key plaintext aad =
     guardR (length key = KEY_LEN) (CryptoError ''key must be 32 bytes'')
     (Inr (JObj [(''v'', JStr VERSION), (''nonce'', JStr (b64e nonce)),
                 (''ct'', JStr (b64e (aes_encrypt P key nonce plaintext aad)))]))"

definition b64_item :: "json \<Rightarrow> string \<Rightarrow> string res" where
  "b64_item d k = bindR (jitem d k) (\<lambda>j. bindR (as_text j) b64d)"

definition open_sealed :: "prims \<Rightarrow> string \<Rightarrow> json \<Rightarrow> string \<Rightarrow> string res" where
  "open_sealed P key sealed aad =
     (case sealed of
        JObj fs \<Rightarrow>
          guardR (jget sealed ''v'' = Some (JStr VERSION)) (CryptoError ''unknown envelope version'')
          (case bindR (b64_item sealed ''nonce'') (\<lambda>nonce. bindR (b64_item sealed ''ct'') (\<lambda>ct.
                  case aes_decrypt P key nonce ct aad of None \<Rightarrow> Inl (ValueError ''InvalidTag'') | Some pt \<Rightarrow> Inr pt)) of
             Inl _ \<Rightarrow> Inl (CryptoError ''decryption failed'')
           | Inr pt \<Rightarrow> Inr pt)
      | _ \<Rightarrow> Inl (AttributeError ''get''))"

subsection \<open>The vault header\<close>

definition CHECK_TOKEN :: string where "CHECK_TOKEN = ''viva-vault-ok''"
definition CHECK_AAD :: string where "CHECK_AAD = ''header''"

definition header_check_aad :: "json option \<Rightarrow> string res" where
  "header_check_aad version =
     (if version = Some (JStr VERSION) then Inr CHECK_AAD
      else if version = Some (JStr HEAD_BOUND_HEADER_VERSION) then
        Inr (CHECK_AAD @ '':'' @ canonical (JObj [(''event_head'', JStr HEAD_CAPABILITY_VERSION)]))
      else Inl (CryptoError ''header written with unknown envelope''))"

definition new_vault_header :: "prims \<Rightarrow> string \<Rightarrow> string \<Rightarrow> string \<Rightarrow> string \<Rightarrow> (json \<times> string) res" where
  "new_vault_header P random_salt nonce passphrase header_version =
     bindR (header_check_aad (Some (JStr header_version))) (\<lambda>aad.
     bindR (derive_key P passphrase (kdf_new random_salt)) (\<lambda>key.
     bindR (seal P nonce key CHECK_TOKEN aad) (\<lambda>check.
       Inr (JObj [(''v'', JStr header_version), (''kdf'', kdf_to_dict (kdf_new random_salt)), (''check'', check)], key))))"

definition rebind_vault_header :: "prims \<Rightarrow> string \<Rightarrow> json \<Rightarrow> string \<Rightarrow> string \<Rightarrow> json res" where
  "rebind_vault_header P nonce header key header_version =
     bindR (header_check_aad (Some (JStr header_version))) (\<lambda>aad.
     bindR (jitem header ''kdf'') (\<lambda>kdf.
     guardR (case kdf of JObj _ \<Rightarrow> True | _ \<Rightarrow> False) (TypeError ''dict'')
     (bindR (seal P nonce key CHECK_TOKEN aad) (\<lambda>check.
       Inr (JObj [(''v'', JStr header_version), (''kdf'', kdf), (''check'', check)])))))"

fun is_key_or_type :: "exc \<Rightarrow> bool" where
  "is_key_or_type (KeyError _) = True"
| "is_key_or_type (TypeError _) = True"
| "is_key_or_type _ = False"

definition verify_vault_header :: "prims \<Rightarrow> json \<Rightarrow> string \<Rightarrow> string res" where
  "verify_vault_header P header key =
     (let version = jget header ''v'' in
      guardR (case header of JObj _ \<Rightarrow> True | _ \<Rightarrow> False) (AttributeError ''get'')
      (bindR (header_check_aad version) (\<lambda>aad.
        case bindR (jitem header ''check'') (\<lambda>check. open_sealed P key check aad) of
          Inl e \<Rightarrow> Inl (if is_key_or_type e then CryptoError ''vault header is incomplete'' else e)
        | Inr opened \<Rightarrow>
            guardR (opened = CHECK_TOKEN) (CryptoError ''wrong passphrase'')
            (case version of Some (JStr v) \<Rightarrow> Inr v | _ \<Rightarrow> Inl (CryptoError ''header written with unknown envelope'')))))"

fun is_kdf_failure :: "exc \<Rightarrow> bool" where
  "is_kdf_failure (KeyError _) = True"
| "is_kdf_failure (TypeError _) = True"
| "is_kdf_failure (ValueError _) = True"
| "is_kdf_failure _ = False"

definition open_vault_header :: "prims \<Rightarrow> json \<Rightarrow> string \<Rightarrow> string res" where
  "open_vault_header P header passphrase =
     (case bindR (jitem header ''kdf'') (\<lambda>kj. bindR (kdf_from_dict kj) (derive_key P passphrase)) of
        Inl e \<Rightarrow> Inl (if is_kdf_failure e then CryptoError ''vault header has invalid KDF parameters'' else e)
      | Inr key \<Rightarrow> bindR (verify_vault_header P header key) (\<lambda>_. Inr key))"

subsection \<open>What the primitives promise\<close>

definition aead_opens :: "prims \<Rightarrow> bool" where
  "aead_opens P = (\<forall>key nonce pt aad. length key = KEY_LEN \<longrightarrow>
     aes_decrypt P key nonce (aes_encrypt P key nonce pt aad) aad = Some pt)"

definition aead_tight :: "prims \<Rightarrow> bool" where
  "aead_tight P = (\<forall>key nonce ct aad pt. aes_decrypt P key nonce ct aad = Some pt \<longrightarrow>
     ct = aes_encrypt P key nonce pt aad)"

definition aead_length :: "prims \<Rightarrow> bool" where
  "aead_length P = (\<forall>key nonce pt aad. length (aes_encrypt P key nonce pt aad) = length pt + 16)"

definition kdf_length :: "prims \<Rightarrow> bool" where
  "kdf_length P = (\<forall>s n r p pass key. scrypt P s n r p pass = Inr key \<longrightarrow> length key = KEY_LEN)"

subsection \<open>The envelope\<close>

lemma b64encode_ascii: "list_all (\<lambda>c. (of_char c :: nat) < 128) (b64encode s)"
proof -
  have "(of_char (b64_char n) :: nat) < 128" for n
    by (simp add: b64_char_def) arith
  then show ?thesis by (induction s rule: b64encode.induct) (auto simp: Let_def)
qed

lemma b64d_b64e [simp]: "b64d (b64e s) = Inr s"
  by (simp add: b64d_def b64e_def b64encode_ascii b64decode_b64encode)

lemma open_seal:
  assumes "aead_opens P" "seal P nonce key pt aad = Inr s"
  shows "open_sealed P key s aad = Inr pt"
  using assms by (auto simp: seal_def open_sealed_def aead_opens_def b64_item_def res_iffs)

lemma open_sealed_tight:
  assumes "aead_tight P" "open_sealed P key s aad = Inr pt"
  shows "\<exists>nonce. b64_item s ''nonce'' = Inr nonce \<and> b64_item s ''ct'' = Inr (aes_encrypt P key nonce pt aad)"
proof (cases s)
  case (JObj fs)
  with assms(2) obtain nonce ct where "b64_item s ''nonce'' = Inr nonce" "b64_item s ''ct'' = Inr ct"
    "aes_decrypt P key nonce ct aad = Some pt"
    by (auto simp: open_sealed_def res_iffs split: sum.splits option.splits)
  with assms(1) show ?thesis by (auto simp: aead_tight_def)
qed (use assms(2) in \<open>simp_all add: open_sealed_def\<close>)

lemma seal_ok: "length key = KEY_LEN \<Longrightarrow> \<exists>s. seal P nonce key pt aad = Inr s \<and> wf_json s \<and> (\<exists>fs. s = JObj fs)"
  by (simp add: seal_def)

lemma kdf_from_to [simp]: "kdf_from_dict (kdf_to_dict k) = Inr k"
  by (cases k) (simp add: kdf_from_dict_def kdf_to_dict_def)

definition vault_header :: "string \<Rightarrow> kdf_params \<Rightarrow> json \<Rightarrow> json" where
  "vault_header v k check = JObj [(''v'', JStr v), (''kdf'', kdf_to_dict k), (''check'', check)]"

definition header_versions :: "string list" where
  "header_versions = [VERSION, HEAD_BOUND_HEADER_VERSION]"

lemma versions_differ: "VERSION \<noteq> HEAD_BOUND_HEADER_VERSION" "length VERSION = length HEAD_BOUND_HEADER_VERSION"
  by (simp_all add: VERSION_def HEAD_BOUND_HEADER_VERSION_def)

lemma verify_own_header:
  assumes "aead_opens P" "header_check_aad (Some (JStr v)) = Inr aad" "seal P nonce key CHECK_TOKEN aad = Inr check"
  shows "verify_vault_header P (vault_header v k check) key = Inr v"
  using assms open_seal [OF assms(1,3)] by (simp add: verify_vault_header_def vault_header_def)

lemma open_own_header:
  assumes "aead_opens P" "header_check_aad (Some (JStr v)) = Inr aad" "seal P nonce key CHECK_TOKEN aad = Inr check"
    "derive_key P passphrase k = Inr key"
  shows "open_vault_header P (vault_header v k check) passphrase = Inr key"
  using assms verify_own_header [OF assms(1-3), of k] by (simp add: open_vault_header_def vault_header_def)

lemma new_vault_header_Inr:
  assumes "new_vault_header P slt nonce passphrase v = Inr (header, key)"
  obtains aad check where "header_check_aad (Some (JStr v)) = Inr aad" "derive_key P passphrase (kdf_new slt) = Inr key"
    "seal P nonce key CHECK_TOKEN aad = Inr check" "header = vault_header v (kdf_new slt) check"
  using assms by (auto simp: new_vault_header_def res_iffs vault_header_def)

lemma rebind_own_header:
  "rebind_vault_header P nonce (vault_header v k check) key v' =
     bindR (header_check_aad (Some (JStr v'))) (\<lambda>aad. bindR (seal P nonce key CHECK_TOKEN aad) (\<lambda>c. Inr (vault_header v' k c)))"
  by (simp add: rebind_vault_header_def vault_header_def kdf_to_dict_def)

text \<open>
  C38: a vault opens with its passphrase, before and after the header is upgraded. A header minted for
  a passphrase opens with it to the minted key; rebinding it to the head-bound version yields a
  header with the same derivation parameters that opens to the same key and authenticates the new
  version. Hypothesis: authenticated decryption inverts encryption.
\<close>

theorem upgraded_header_keeps_the_key:
  assumes "aead_opens P" "new_vault_header P slt nonce passphrase VERSION = Inr (header, key)"
  shows "open_vault_header P header passphrase = Inr key \<and>
    (\<exists>header'. rebind_vault_header P nonce' header key HEAD_BOUND_HEADER_VERSION = Inr header'
       \<and> open_vault_header P header' passphrase = Inr key
       \<and> verify_vault_header P header' key = Inr HEAD_BOUND_HEADER_VERSION
       \<and> jget header' ''kdf'' = jget header ''kdf'')"
proof -
  obtain aad check where h: "header_check_aad (Some (JStr VERSION)) = Inr aad" "derive_key P passphrase (kdf_new slt) = Inr key"
    "seal P nonce key CHECK_TOKEN aad = Inr check" "header = vault_header VERSION (kdf_new slt) check"
    using assms(2) by (rule new_vault_header_Inr)
  have len: "length key = KEY_LEN" using h(3) by (auto simp: seal_def res_iffs)
  obtain aad' where aad': "header_check_aad (Some (JStr HEAD_BOUND_HEADER_VERSION)) = Inr aad'"
    using versions_differ by (simp add: header_check_aad_def)
  obtain check' where c': "seal P nonce' key CHECK_TOKEN aad' = Inr check'" using seal_ok [OF len] by blast
  show ?thesis
    using open_own_header [OF assms(1) h(1,3,2)] open_own_header [OF assms(1) aad' c' h(2)]
      verify_own_header [OF assms(1) aad' c'] h(4) aad' c'
    by (simp add: rebind_own_header) (simp add: vault_header_def)
qed

lemma length_b64encode: "length (b64encode s) = (length s + 2) div 3 * 4"
proof (induction s rule: b64encode.induct)
  case (4 a b c r)
  have "(5 + length r) div 3 = (length r + 2) div 3 + 1" by presburger
  with 4 show ?case by (simp add: Let_def)
qed (simp_all add: Let_def)

subsection \<open>A concrete instance of the primitives\<close>

text \<open>Executable stand-ins with the promised laws, for evaluating the definitions on inputs.\<close>

definition toy_digest :: "nat \<Rightarrow> string \<Rightarrow> string" where
  "toy_digest n s = take n (rev s @ replicate n (CHR ''0''))"

definition toy_prims :: prims where
  "toy_prims =
     \<lparr>scrypt = (\<lambda>slt n r p pass. Inr (toy_digest 32 (slt @ pass))),
      aes_encrypt = (\<lambda>key nonce pt aad. pt @ toy_digest 16 (key @ nonce @ aad @ pt)),
      aes_decrypt = (\<lambda>key nonce ct aad.
        let pt = take (length ct - 16) ct in
        if ct = pt @ toy_digest 16 (key @ nonce @ aad @ pt) then Some pt else None),
      hmac_sha256 = (\<lambda>key msg. toy_digest 32 (key @ msg)),
      sha256 = toy_digest 32\<rparr>"

lemma length_toy_digest [simp]: "length (toy_digest n s) = n"
  by (simp add: toy_digest_def)

lemma toy_prims_laws: "aead_opens toy_prims" "aead_tight toy_prims" "aead_length toy_prims" "kdf_length toy_prims"
  by (auto simp: toy_prims_def aead_opens_def aead_tight_def aead_length_def kdf_length_def Let_def KEY_LEN_def
      split: if_splits)

theorem upgraded_header_keeps_the_key_witness:
  "\<exists>header key header'. new_vault_header toy_prims (replicate 16 (CHR ''s'')) (replicate 12 (CHR ''n'')) ''open sesame'' VERSION
        = Inr (header, key)
     \<and> rebind_vault_header toy_prims (replicate 12 (CHR ''m'')) header key HEAD_BOUND_HEADER_VERSION = Inr header'
     \<and> open_vault_header toy_prims header' ''open sesame'' = Inr key"
proof -
  have "\<exists>x. new_vault_header toy_prims (replicate 16 (CHR ''s'')) (replicate 12 (CHR ''n'')) ''open sesame'' VERSION = Inr x"
    unfolding not_isl_iff [symmetric] by code_simp
  then obtain header key where
    "new_vault_header toy_prims (replicate 16 (CHR ''s'')) (replicate 12 (CHR ''n'')) ''open sesame'' VERSION = Inr (header, key)"
    by auto
  with upgraded_header_keeps_the_key [OF toy_prims_laws(1) this] show ?thesis by blast
qed

text \<open>
  Not every failure of the module is a CryptoError. A stored header whose salt is not a text, or
  whose check token is not an object, escapes as an AttributeError.
\<close>

lemma header_failure_outside_CryptoError:
  "open_vault_header P (JObj [(''kdf'', JObj [(''salt'', JInt 1)])]) passphrase = Inl (AttributeError ''encode'')
   \<and> verify_vault_header P (JObj [(''v'', JStr VERSION), (''check'', JStr [])]) key = Inl (AttributeError ''get'')"
  by (simp add: open_vault_header_def kdf_from_dict_def verify_vault_header_def open_sealed_def header_check_aad_def)

end
