(* ===== verification/Event_Store.thy ===== *)
theory Event_Store
  imports Crypto Events
begin

text \<open>
  \<^verbatim>\<open>product/viva/ledger/store.py\<close>: the encrypted, append-only, hash-chained event log, modelled on
  its bytes. A disk is the log file and the head file beside it, each absent or a byte string; a
  handle is the state of an \<^verbatim>\<open>EventStore\<close>. Every operation holds the exclusive writer lock while it
  touches the disk, so an operation is one step on (disk, handle); what a failing or interrupted
  write leaves behind is an argument (\<open>write_io\<close>). Threads appear only through the two re-entry
  flags: \<open>in_decision\<close> and \<open>in_observer\<close> say that the calling thread is the recorded owner. The
  temporary file of the head, logging, locking calls and the Windows extent limit are left out;
  replacing the head is atomic.
\<close>

definition GENESIS :: string where
  "GENESIS = replicate 64 (CHR ''0'')"

definition HEAD_VERSION :: string where
  "HEAD_VERSION = HEAD_CAPABILITY_VERSION"

record disk =
  log_file :: "string option"
  head_file :: "string option"

record handle =
  h_key :: string
  h_kdf :: kdf_params
  write_failed :: bool
  decrypted_events :: "(json \<times> string \<times> json) list"
  in_decision :: bool
  in_observer :: bool
  head_required :: bool
  committed_head :: "(int \<times> string) option"
  last_hash :: string
  h_count :: int
  h_size :: int

record committed_identity =
  id_count :: int
  id_head_hash :: string
  id_end_offset :: "int option"
  id_cursor_mac :: "string option"

record committed_event =
  ce_sequence :: json
  ce_record_hash :: string
  ce_event :: event

subsection \<open>Records and their hashes\<close>

definition record_body :: "json \<Rightarrow> string \<Rightarrow> json \<Rightarrow> json" where
  "record_body seq prev sealed = JObj [(''seq'', seq), (''prev_hash'', JStr prev), (''sealed'', sealed)]"

definition record_hash :: "prims \<Rightarrow> json \<Rightarrow> string \<Rightarrow> json \<Rightarrow> string" where
  "record_hash P seq prev sealed = hexdigest (sha256 P (canonical (record_body seq prev sealed)))"

text \<open>\<^verbatim>\<open>record["seq"], record["prev_hash"], record["sealed"], record["record_hash"]\<close>.\<close>

type_synonym raw = "json \<times> json \<times> json \<times> json"

definition parse_record :: "string \<Rightarrow> raw res" where
  "parse_record line =
     bindR (loads line) (\<lambda>r.
     bindR (jitem r ''seq'') (\<lambda>seq. bindR (jitem r ''prev_hash'') (\<lambda>prev.
     bindR (jitem r ''sealed'') (\<lambda>sealed. bindR (jitem r ''record_hash'') (\<lambda>h.
       Inr (seq, prev, sealed, h))))))"

text \<open>Python equality of a stored number with an integer.\<close>

fun py_eq_int :: "json \<Rightarrow> int \<Rightarrow> bool" where
  "py_eq_int (JInt i) n = (i = n)"
| "py_eq_int (JBool b) n = ((if b then 1 else 0) = n)"
| "py_eq_int (JFloat t) n = (case dec_parse t of Finite d \<Rightarrow> dec_eq d (Dec n 0) | _ \<Rightarrow> False)"
| "py_eq_int _ n = False"

text \<open>The text of a stored number in an f-string.\<close>

fun py_str :: "json \<Rightarrow> string" where
  "py_str (JInt i) = show_int i"
| "py_str (JBool b) = (if b then ''True'' else ''False'')"
| "py_str (JFloat t) = t"
| "py_str (JStr s) = s"
| "py_str j = dumps_default j"

definition record_aad :: "json \<Rightarrow> string \<Rightarrow> string" where
  "record_aad seq prev = py_str seq @ '':'' @ prev"

fun is_unreadable :: "exc \<Rightarrow> bool" where
  "is_unreadable JSONDecodeError = True"
| "is_unreadable (KeyError _) = True"
| "is_unreadable (TypeError _) = True"
| "is_unreadable _ = False"

definition catch_unreadable :: "string \<Rightarrow> 'a res \<Rightarrow> 'a res" where
  "catch_unreadable msg r = (case r of Inl e \<Rightarrow> Inl (if is_unreadable e then CryptoError msg else e) | Inr x \<Rightarrow> Inr x)"

subsection \<open>Lines\<close>

definition NL :: char where "NL = CHR 0x0A"

definition readline :: "string \<Rightarrow> string \<times> string" where
  "readline s =
     (case dropWhile (\<lambda>c. c \<noteq> NL) s of
        [] \<Rightarrow> (s, [])
      | n # rest \<Rightarrow> (takeWhile (\<lambda>c. c \<noteq> NL) s @ [NL], rest))"

definition ends_nl :: "string \<Rightarrow> bool" where
  "ends_nl l = (l \<noteq> [] \<and> last l = NL)"

text \<open>Text mode translates carriage returns; the iteration then yields the lines with their ends.\<close>

fun universal_newlines :: "string \<Rightarrow> string" where
  "universal_newlines [] = []"
| "universal_newlines [c] = (if c = CHR 0x0D then [NL] else [c])"
| "universal_newlines (c # d # s) =
     (if c = CHR 0x0D then NL # (if d = NL then universal_newlines s else universal_newlines (d # s))
      else c # universal_newlines (d # s))"

fun split_lines :: "string \<Rightarrow> string \<Rightarrow> string list" where
  "split_lines acc [] = (if acc = [] then [] else [acc])"
| "split_lines acc (c # s) = (if c = NL then (acc @ [c]) # split_lines [] s else split_lines (acc @ [c]) s)"

subsection \<open>The head record\<close>

definition head_mac :: "prims \<Rightarrow> string \<Rightarrow> json \<Rightarrow> string" where
  "head_mac P key b = hexdigest (hmac_sha256 P (hmac_sha256 P key ''viva-head-mac-v1'') (canonical b))"

definition cursor_mac :: "prims \<Rightarrow> string \<Rightarrow> int \<Rightarrow> string \<Rightarrow> int \<Rightarrow> string" where
  "cursor_mac P key cnt head_hash end_offset =
     hexdigest (hmac_sha256 P (hmac_sha256 P key ''viva-event-cursor-mac-v1'')
       (canonical (JObj [(''count'', JInt cnt), (''head_hash'', JStr head_hash), (''end_offset'', JInt end_offset)])))"

definition head_body :: "int \<Rightarrow> string \<Rightarrow> json" where
  "head_body cnt head_hash = JObj [(''count'', JInt cnt), (''head_hash'', JStr head_hash)]"

definition head_text :: "prims \<Rightarrow> string \<Rightarrow> int \<Rightarrow> string \<Rightarrow> string" where
  "head_text P key cnt head_hash =
     dumps_default (jset ''mac'' (JStr (head_mac P key (head_body cnt head_hash))) (head_body cnt head_hash)) @ [NL]"

definition write_head :: "prims \<Rightarrow> string \<Rightarrow> int \<Rightarrow> string \<Rightarrow> disk \<Rightarrow> disk" where
  "write_head P key cnt head_hash d = d\<lparr>head_file := Some (head_text P key cnt head_hash)\<rparr>"

definition parse_head :: "string \<Rightarrow> (json \<times> json \<times> json) res" where
  "parse_head t =
     bindR (loads t) (\<lambda>h. bindR (jitem h ''count'') (\<lambda>c. bindR (jitem h ''head_hash'') (\<lambda>hh.
     bindR (jitem h ''mac'') (\<lambda>m. Inr (c, hh, m)))))"

definition authenticated_head :: "prims \<Rightarrow> disk \<Rightarrow> string \<Rightarrow> bool \<Rightarrow> (int \<times> string) option res" where
  "authenticated_head P d key required =
     (case head_file d of
        None \<Rightarrow> if required then Inl (CryptoError ''head record is missing'') else Inr None
      | Some t \<Rightarrow>
          bindR (catch_unreadable ''not a readable head record'' (parse_head t)) (\<lambda>(c, hh, m).
            case (c, hh, m) of
              (JInt cnt, JStr head_hash, JStr mac) \<Rightarrow>
                guardR (\<not> cnt < 0) (CryptoError ''not a readable head record'')
                (guardR (list_all (\<lambda>ch. (of_char ch :: nat) < 128) mac) (TypeError ''compare_digest'')
                (guardR (head_mac P key (head_body cnt head_hash) = mac) (CryptoError ''head does not authenticate'')
                (Inr (Some (cnt, head_hash)))))
            | _ \<Rightarrow> Inl (CryptoError ''not a readable head record'')))"

subsection \<open>The committed prefix\<close>

fun scan_committed :: "prims \<Rightarrow> (int \<times> string) option \<Rightarrow> nat \<Rightarrow> int \<Rightarrow> string \<Rightarrow> int \<Rightarrow> string \<Rightarrow> (string \<times> int) res" where
  "scan_committed P pre 0 expected_seq previous fin source = Inr (previous, fin)"
| "scan_committed P pre (Suc k) expected_seq previous fin source =
     (case readline source of (line, rest) \<Rightarrow>
        guardR (ends_nl line) (CryptoError ''records removed from the end'')
        (bindR (parse_record line) (\<lambda>(seq, rec_previous, sealed, rec_hash).
         guardR (py_eq_int seq expected_seq \<and> rec_previous = JStr previous) (CryptoError ''chain broken at committed seq'')
         (guardR (JStr (record_hash P seq previous sealed) = rec_hash) (CryptoError ''record hash mismatch at committed seq'')
         (let previous' = record_hash P seq previous sealed in
          guardR (case pre of None \<Rightarrow> True | Some (c, h) \<Rightarrow> expected_seq + 1 = c \<longrightarrow> previous' = h)
            (CryptoError ''chain does not extend the observed commit'')
          (scan_committed P pre k (expected_seq + 1) previous' (fin + int (length line)) rest))))))"

definition committed_prefix_end :: "prims \<Rightarrow> string \<Rightarrow> int \<Rightarrow> string \<Rightarrow> (int \<times> string) option \<Rightarrow> int res" where
  "committed_prefix_end P lg cnt expected_hash pre =
     guardR (case pre of None \<Rightarrow> True | Some (c, h) \<Rightarrow> \<not> c > cnt) (CryptoError ''head moved behind the observed commit'')
     (case readline lg of (header, rest) \<Rightarrow>
        guardR (ends_nl header) (CryptoError ''incomplete vault header'')
        (bindR (catch_unreadable ''unreadable record inside its committed batch''
                  (scan_committed P pre (nat cnt) 0 GENESIS (int (length header)) rest)) (\<lambda>(previous, fin).
         guardR (previous = expected_hash) (CryptoError ''different committed head'') (Inr fin))))"

definition recover_to_authenticated_head ::
    "prims \<Rightarrow> disk \<Rightarrow> string \<Rightarrow> bool \<Rightarrow> (int \<times> string) option \<Rightarrow> ((int \<times> string \<times> int) option \<times> disk) res" where
  "recover_to_authenticated_head P d key required expected_head =
     bindR (authenticated_head P d key required) (\<lambda>head.
       case head of None \<Rightarrow> Inr (None, d)
       | Some (cnt, committed_hash) \<Rightarrow>
           guardR (case expected_head of None \<Rightarrow> True
                   | Some (c, h) \<Rightarrow> \<not> (cnt < c \<or> (cnt = c \<and> committed_hash \<noteq> h)))
             (CryptoError ''head moved backward or changed'')
           (case log_file d of None \<Rightarrow> Inl (OSError ''no such file'')
            | Some lg \<Rightarrow>
                bindR (committed_prefix_end P lg cnt committed_hash expected_head) (\<lambda>fin.
                  guardR (\<not> int (length lg) < fin) (CryptoError ''records removed from the end'')
                  (Inr (Some (cnt, committed_hash, fin), d\<lparr>log_file := Some (take (nat fin) lg)\<rparr>)))))"

text \<open>The last line, found backwards from the end of the file.\<close>

definition last_line :: "string \<Rightarrow> string" where
  "last_line s = (if s = [] then [] else rev (takeWhile (\<lambda>c. c \<noteq> NL) (rev (butlast s))) @ [last s])"

text \<open>\<^verbatim>\<open>bytes.strip\<close> takes off fewer characters than \<^verbatim>\<open>str.strip\<close>: not the four separators from 0x1C.\<close>

definition byte_space :: "char \<Rightarrow> bool" where
  "byte_space c = (c \<in> {CHR 0x09, CHR 0x0A, CHR 0x0B, CHR 0x0C, CHR 0x0D, CHR '' ''})"

definition fast_committed_boundary :: "prims \<Rightarrow> string \<Rightarrow> int \<Rightarrow> string \<Rightarrow> int option res" where
  "fast_committed_boundary P lg cnt head_hash =
     (if cnt = 0 then
        (case readline lg of (header, rest) \<Rightarrow>
           Inr (if ends_nl header \<and> strip_by byte_space rest = [] then Some (int (length lg)) else None))
      else
        (case loads (last_line lg) of
           Inl _ \<Rightarrow> Inr None
         | Inr (JObj fs) \<Rightarrow>
             (case (map_of fs ''seq'', map_of fs ''record_hash'', map_of fs ''prev_hash'', map_of fs ''sealed'') of
                (Some seq, Some (JStr h), Some prev, Some sealed) \<Rightarrow>
                  Inr (if py_eq_int seq (cnt - 1) \<and> h = head_hash \<and>
                          hexdigest (sha256 P (canonical (JObj [(''seq'', seq), (''prev_hash'', prev), (''sealed'', sealed)]))) = head_hash
                       then Some (int (length lg)) else None)
              | _ \<Rightarrow> Inr None)
         | Inr _ \<Rightarrow> Inl (AttributeError ''get'')))"

subsection \<open>The header on disk\<close>

fun is_header_failure :: "exc \<Rightarrow> bool" where
  "is_header_failure JSONDecodeError = True"
| "is_header_failure (KeyError _) = True"
| "is_header_failure (TypeError _) = True"
| "is_header_failure (ValueError _) = True"
| "is_header_failure _ = False"

definition header_requires_head :: "json \<Rightarrow> bool res" where
  "header_requires_head header =
     guardR (jget header ''head'' = None) (CryptoError ''unauthenticated head marker'')
     (Inr (jget header ''v'' = Some (JStr HEAD_BOUND_HEADER_VERSION)))"

definition header_line :: "disk \<Rightarrow> string res" where
  "header_line d = (case log_file d of None \<Rightarrow> Inl (OSError ''no such file'') | Some lg \<Rightarrow> Inr (fst (readline lg)))"

definition authenticate_current_header :: "prims \<Rightarrow> disk \<Rightarrow> handle \<Rightarrow> bool res" where
  "authenticate_current_header P d h =
     (case bindR (header_line d) (\<lambda>line. bindR (loads line) (\<lambda>header.
           bindR (verify_vault_header P header (h_key h)) (\<lambda>_.
           bindR (jitem header ''kdf'') (\<lambda>kj. bindR (kdf_from_dict kj) (\<lambda>k.
           guardR (k = h_kdf h) (CryptoError ''vault header KDF changed after this handle opened'') (Inr header)))))) of
        Inl e \<Rightarrow> Inl (if is_header_failure e then CryptoError ''unreadable vault header'' else e)
      | Inr header \<Rightarrow> header_requires_head header)"

text \<open>
  The new header line in place of the old one, padded to its length. \<open>io\<close> is \<open>None\<close> when the write
  reaches the disk, and the number of bytes that did when it does not.
\<close>

definition upgraded_line :: "prims \<Rightarrow> string \<Rightarrow> string \<Rightarrow> string \<Rightarrow> string res" where
  "upgraded_line P nonce key old_line =
     guardR (ends_nl old_line) (CryptoError ''incomplete vault header'')
     (bindR (case loads old_line of Inl JSONDecodeError \<Rightarrow> Inl (CryptoError ''unreadable vault header'') | r \<Rightarrow> r) (\<lambda>header.
      bindR (rebind_vault_header P nonce header key HEAD_BOUND_HEADER_VERSION) (\<lambda>upgraded.
      let compact = dumps upgraded; capacity = length old_line - 1 in
      guardR (\<not> length compact > capacity) (CryptoError ''legacy header cannot be upgraded in place'')
      (Inr (compact @ replicate (capacity - length compact) (CHR '' '') @ [NL])))))"

definition upgrade_header_in_place :: "prims \<Rightarrow> string \<Rightarrow> nat option \<Rightarrow> string \<Rightarrow> disk \<Rightarrow> disk \<times> unit res" where
  "upgrade_header_in_place P nonce io key d =
     (case log_file d of None \<Rightarrow> (d, Inl (OSError ''no such file''))
      | Some lg \<Rightarrow>
          (case upgraded_line P nonce key (fst (readline lg)) of
             Inl e \<Rightarrow> (d, Inl e)
           | Inr new_line \<Rightarrow>
               (case io of
                  None \<Rightarrow> (d\<lparr>log_file := Some (new_line @ drop (length new_line) lg)\<rparr>, Inr ())
                | Some n \<Rightarrow> (d\<lparr>log_file := Some (take n new_line @ drop (min n (length new_line)) lg)\<rparr>,
                             Inl (OSError ''header upgrade did not reach its boundary'')))))"

subsection \<open>Reading raw records\<close>

fun iter_lines :: "int option \<Rightarrow> bool \<Rightarrow> int \<Rightarrow> string list \<Rightarrow> raw res list" where
  "iter_lines limit first yielded [] = []"
| "iter_lines limit first yielded (line # ls) =
     (if strip line = [] then iter_lines limit first yielded ls
      else if first then iter_lines limit False yielded ls
      else if (case limit of None \<Rightarrow> False | Some n \<Rightarrow> yielded \<ge> n) then []
      else if \<not> ends_nl line then [Inl (CryptoError ''ends in a partial record'')]
      else (case parse_record (strip line) of
              Inl e \<Rightarrow> [Inl e]
            | Inr r \<Rightarrow> Inr r # iter_lines limit first (yielded + 1) ls))"

definition iter_raw :: "disk \<Rightarrow> int option \<Rightarrow> raw res list" where
  "iter_raw d limit =
     (case log_file d of None \<Rightarrow> []
      | Some lg \<Rightarrow> iter_lines limit True 0 (split_lines [] (universal_newlines lg)))"

text \<open>The tail of an unauthenticated log: how many records, and the hash the last one states.\<close>

fun raw_tail :: "int \<Rightarrow> string \<Rightarrow> raw res list \<Rightarrow> (int \<times> string) res" where
  "raw_tail cnt h [] = Inr (cnt, h)"
| "raw_tail cnt h (Inl e # rs) = Inl e"
| "raw_tail cnt h (Inr (seq, prev, sealed, rec_hash) # rs) = raw_tail (cnt + 1) (py_str rec_hash) rs"

definition log_size :: "disk \<Rightarrow> int" where
  "log_size d = (case log_file d of None \<Rightarrow> 0 | Some lg \<Rightarrow> int (length lg))"

text \<open>\<^verbatim>\<open>path.open("a")\<close> creates the file when it is missing.\<close>

definition open_append :: "disk \<Rightarrow> disk" where
  "open_append d = (case log_file d of None \<Rightarrow> d\<lparr>log_file := Some []\<rparr> | Some _ \<Rightarrow> d)"

subsection \<open>Synchronizing the cached tail\<close>

definition refuse_observer_reentry :: "handle \<Rightarrow> unit res" where
  "refuse_observer_reentry h = guardR (\<not> in_observer h) (CryptoError ''called from its own post-commit observer'') (Inr ())"

definition refuse_decision_reentry :: "handle \<Rightarrow> unit res" where
  "refuse_decision_reentry h =
     bindR (refuse_observer_reentry h) (\<lambda>_.
       guardR (\<not> in_decision h) (CryptoError ''called from its own atomic decision callback'') (Inr ()))"

definition check_head :: "prims \<Rightarrow> disk \<Rightarrow> handle \<Rightarrow> bool \<Rightarrow> unit res" where
  "check_head P d h required =
     bindR (authenticated_head P d (h_key h) required) (\<lambda>head.
       case head of None \<Rightarrow> Inr ()
       | Some x \<Rightarrow> guardR (x = (h_count h, last_hash h)) (CryptoError ''records have been removed from the end of the log'') (Inr ()))"

definition reread_tail :: "prims \<Rightarrow> disk \<Rightarrow> handle \<Rightarrow> disk \<times> handle \<times> unit res" where
  "reread_tail P d h =
     (case authenticate_current_header P d h of
        Inl e \<Rightarrow> (d, h, Inl e)
      | Inr required \<Rightarrow>
          if head_required h \<and> \<not> required then (d, h, Inl (CryptoError ''header was downgraded''))
          else
            (let h1 = (if required then h\<lparr>head_required := True\<rparr> else h) in
             case recover_to_authenticated_head P d (h_key h) (required \<or> head_required h1 \<or> committed_head h \<noteq> None)
                    (committed_head h) of
               Inl e \<Rightarrow> (d, h1, Inl e)
             | Inr (None, d') \<Rightarrow>
                 (case raw_tail 0 GENESIS (iter_raw d' None) of
                    Inl e \<Rightarrow> (d', h1, Inl e)
                  | Inr (cnt, hash) \<Rightarrow>
                      (d', h1\<lparr>last_hash := hash, h_count := cnt, h_size := log_size d'\<rparr>, Inr ()))
             | Inr (Some (cnt, hash, sz), d') \<Rightarrow>
                 (d', h1\<lparr>committed_head := Some (cnt, hash), last_hash := hash, h_count := cnt, h_size := sz\<rparr>, Inr ())))"

text \<open>Under the lock, with a failure of the tail marking the handle.\<close>

definition synchronized :: "prims \<Rightarrow> disk \<Rightarrow> handle \<Rightarrow> disk \<times> handle \<times> unit res" where
  "synchronized P d h =
     (case reread_tail P (open_append d) h of
        (d', h', Inl e) \<Rightarrow> (d', h'\<lparr>write_failed := True\<rparr>, Inl e)
      | (d', h', Inr u) \<Rightarrow> (d', h', Inr u))"

subsection \<open>Replay\<close>

definition open_payload :: "prims \<Rightarrow> string \<Rightarrow> json \<Rightarrow> string \<Rightarrow> json \<Rightarrow> json res" where
  "open_payload P key seq prev sealed =
     bindR (open_sealed P key sealed (record_aad seq prev)) loads"

type_synonym cache = "(json \<times> string \<times> json) list"

definition cached_event :: "cache \<Rightarrow> json \<Rightarrow> json \<Rightarrow> json option" where
  "cached_event cache seq rec_hash =
     (case map_of cache seq of None \<Rightarrow> None | Some (hash, ev) \<Rightarrow> if JStr hash = rec_hash then Some ev else None)"

fun replay :: "prims \<Rightarrow> string \<Rightarrow> (nat \<Rightarrow> string) \<Rightarrow> nat \<Rightarrow> string \<Rightarrow> cache \<Rightarrow> raw res list \<Rightarrow> cache \<times> event list res" where
  "replay P key fresh n prev cache [] = (cache, Inr [])"
| "replay P key fresh n prev cache (Inl e # rs) = (cache, Inl e)"
| "replay P key fresh n prev cache (Inr (seq, rec_prev, sealed, rec_hash) # rs) =
     (if rec_prev \<noteq> JStr prev then (cache, Inl (CryptoError ''chain broken''))
      else if JStr (record_hash P seq prev sealed) \<noteq> rec_hash then (cache, Inl (CryptoError ''record hash mismatch''))
      else
        (let step = (\<lambda>cache' ev.
               case event_from_dict (fresh n) ev of
                 Inl e \<Rightarrow> (cache', Inl e)
               | Inr e \<Rightarrow>
                   (case replay P key fresh (Suc n) (record_hash P seq prev sealed) cache' rs of
                      (c, r) \<Rightarrow> (c, bindR r (\<lambda>es. Inr (e # es)))))
         in case cached_event cache seq rec_hash of
              Some ev \<Rightarrow> step cache ev
            | None \<Rightarrow>
                (case bindR (open_payload P key seq prev sealed) (\<lambda>payload. jitem payload ''event'') of
                   Inl e \<Rightarrow> (cache, Inl e)
                 | Inr ev \<Rightarrow> step (dict_set seq (record_hash P seq prev sealed, ev) cache) ev)))"

definition events_unlocked :: "prims \<Rightarrow> (nat \<Rightarrow> string) \<Rightarrow> disk \<Rightarrow> handle \<Rightarrow> handle \<times> event list res" where
  "events_unlocked P fresh d h =
     (if write_failed h then (h, Inl (CryptoError ''cannot replay after an uncertain write''))
      else case replay P (h_key h) fresh 0 GENESIS (decrypted_events h) (iter_raw d (Some (h_count h))) of
             (c, r) \<Rightarrow> (h\<lparr>decrypted_events := c\<rparr>, r))"

definition cached_identity :: "handle \<Rightarrow> int option \<times> string option \<times> int" where
  "cached_identity h =
     (case committed_head h of None \<Rightarrow> (None, None, h_size h) | Some (c, hash) \<Rightarrow> (Some c, Some hash, h_size h))"

definition ready :: "handle \<Rightarrow> unit res" where
  "ready h =
     bindR (refuse_decision_reentry h) (\<lambda>_.
       guardR (\<not> write_failed h) (CryptoError ''uncertain write: reopen the vault'') (Inr ()))"

definition snapshot_events_with_identity ::
    "prims \<Rightarrow> (nat \<Rightarrow> string) \<Rightarrow> disk \<Rightarrow> handle
     \<Rightarrow> disk \<times> handle \<times> (event list \<times> int option \<times> string option \<times> int) res" where
  "snapshot_events_with_identity P fresh d h =
     (case ready h of Inl e \<Rightarrow> (d, h, Inl e)
      | Inr _ \<Rightarrow>
          (case synchronized P d h of
             (d', h', Inl e) \<Rightarrow> (d', h', Inl e)
           | (d', h', Inr _) \<Rightarrow>
               (case events_unlocked P fresh d' h' of
                  (h2, r) \<Rightarrow> (d', h2, bindR r (\<lambda>es. Inr (es, cached_identity h2))))))"

definition authenticated_identity ::
    "prims \<Rightarrow> disk \<Rightarrow> handle \<Rightarrow> disk \<times> handle \<times> (int option \<times> string option \<times> int) res" where
  "authenticated_identity P d h =
     (case ready h of Inl e \<Rightarrow> (d, h, Inl e)
      | Inr _ \<Rightarrow>
          (case synchronized P d h of
             (d', h', Inl e) \<Rightarrow> (d', h', Inl e)
           | (d', h', Inr _) \<Rightarrow> (d', h', Inr (cached_identity h'))))"

definition store_len :: "prims \<Rightarrow> disk \<Rightarrow> handle \<Rightarrow> disk \<times> handle \<times> int res" where
  "store_len P d h =
     (case authenticated_identity P d h of (d', h', r) \<Rightarrow> (d', h', bindR r (\<lambda>_. Inr (h_count h'))))"

subsection \<open>Append\<close>

text \<open>
  How the physical write ends: completed; cut after some bytes of the batch; or the batch complete
  and the head replacement failing, with or without the new head in place.
\<close>

datatype write_io = Completed | Batch_Cut nat | Head_Failed bool

record append_env =
  nonces :: "nat \<Rightarrow> string"
  clock :: "nat \<Rightarrow> string"
  batch_io :: write_io
  legacy_head_io :: "bool option"
  upgrade_nonce :: string
  upgrade_io :: "nat option"

definition event_payload :: "json \<Rightarrow> string \<Rightarrow> event \<Rightarrow> json" where
  "event_payload seq recorded_at e =
     JObj [(''seq'', seq), (''recorded_at'', JStr recorded_at), (''event'', event_to_dict e)]"

definition record_json :: "json \<Rightarrow> string \<Rightarrow> json \<Rightarrow> string \<Rightarrow> json" where
  "record_json seq prev sealed hash =
     JObj [(''seq'', seq), (''prev_hash'', JStr prev), (''sealed'', sealed), (''record_hash'', JStr hash)]"

definition record_line :: "json \<Rightarrow> string" where
  "record_line r = dumps_default r @ [NL]"

text \<open>The records to write, with the count and the hash the batch would end at.\<close>

fun prepare :: "prims \<Rightarrow> string \<Rightarrow> append_env \<Rightarrow> nat \<Rightarrow> int \<Rightarrow> string \<Rightarrow> event list \<Rightarrow> (json list \<times> int \<times> string) res" where
  "prepare P key env i cnt hash [] = Inr ([], cnt, hash)"
| "prepare P key env i cnt hash (e # es) =
     bindR (seal P (nonces env i) key (canonical (event_payload (JInt cnt) (clock env i) e)) (record_aad (JInt cnt) hash)) (\<lambda>sealed.
       let rec_hash = record_hash P (JInt cnt) hash sealed in
       bindR (prepare P key env (Suc i) (cnt + 1) rec_hash es) (\<lambda>(records, cnt', hash').
         Inr (record_json (JInt cnt) hash sealed rec_hash # records, cnt', hash')))"

definition batch_text :: "json list \<Rightarrow> string" where
  "batch_text records = concat (map record_line records)"

definition add_bytes :: "string \<Rightarrow> disk \<Rightarrow> disk" where
  "add_bytes b d = d\<lparr>log_file := Some ((case log_file d of None \<Rightarrow> [] | Some lg \<Rightarrow> lg) @ b)\<rparr>"

definition write_batch :: "prims \<Rightarrow> string \<Rightarrow> write_io \<Rightarrow> int \<Rightarrow> string \<Rightarrow> int \<Rightarrow> string \<Rightarrow> disk \<Rightarrow> disk \<times> unit res" where
  "write_batch P key io sz content cnt hash d =
     (case io of
        Batch_Cut n \<Rightarrow> (add_bytes (take n content) d, Inl (OSError ''write''))
      | _ \<Rightarrow>
          (let d1 = add_bytes content d in
           if log_size d1 \<noteq> sz + int (length content) then (d1, Inl (OSError ''batch did not reach its boundary''))
           else (case io of
                   Head_Failed installed \<Rightarrow> (if installed then write_head P key cnt hash d1 else d1, Inl (OSError ''head''))
                 | _ \<Rightarrow> (write_head P key cnt hash d1, Inr ()))))"

text \<open>The first non-empty append of a log without an authenticated boundary establishes one.\<close>

definition migrate_legacy :: "prims \<Rightarrow> append_env \<Rightarrow> disk \<Rightarrow> handle \<Rightarrow> disk \<times> handle \<times> unit res" where
  "migrate_legacy P env d h =
     (if head_required h then (d, h, Inr ())
      else case legacy_head_io env of
             Some installed \<Rightarrow>
               (if installed then write_head P (h_key h) (h_count h) (last_hash h) d else d, h, Inl (OSError ''head''))
           | None \<Rightarrow>
               (case upgrade_header_in_place P (upgrade_nonce env) (upgrade_io env) (h_key h)
                       (write_head P (h_key h) (h_count h) (last_hash h) d) of
                  (d', Inl e) \<Rightarrow> (d', h\<lparr>write_failed := True\<rparr>, Inl e)
                | (d', Inr _) \<Rightarrow>
                    (d', h\<lparr>head_required := True, committed_head := Some (h_count h, last_hash h), h_size := log_size d'\<rparr>, Inr ())))"

definition commit_batch ::
    "prims \<Rightarrow> append_env \<Rightarrow> event list \<Rightarrow> disk \<Rightarrow> handle \<Rightarrow> disk \<times> handle \<times> json list res" where
  "commit_batch P env events d h =
     (case prepare P (h_key h) env 0 (h_count h) (last_hash h) events of
        Inl e \<Rightarrow> (d, h, Inl e)
      | Inr (records, cnt, hash) \<Rightarrow>
          (case write_batch P (h_key h) (batch_io env) (h_size h) (batch_text records) cnt hash d of
             (d', Inl e) \<Rightarrow>
               (case reread_tail P d' h of
                  (d2, h2, Inl _) \<Rightarrow> (d2, h2\<lparr>write_failed := True\<rparr>, Inl e)
                | (d2, h2, Inr _) \<Rightarrow> (d2, h2\<lparr>write_failed := False\<rparr>, Inl e))
           | (d', Inr _) \<Rightarrow>
               (d', h\<lparr>h_count := cnt, last_hash := hash, h_size := log_size d', committed_head := Some (cnt, hash)\<rparr>, Inr records)))"

definition append_atomically ::
    "prims \<Rightarrow> append_env \<Rightarrow> (nat \<Rightarrow> string) \<Rightarrow> (event list \<Rightarrow> event list res) \<Rightarrow> disk \<Rightarrow> handle
     \<Rightarrow> disk \<times> handle \<times> json list res" where
  "append_atomically P env fresh decide d h =
     (case ready h of Inl e \<Rightarrow> (d, h, Inl e)
      | Inr _ \<Rightarrow>
          (case synchronized P d h of
             (d1, h1, Inl e) \<Rightarrow> (d1, h1, Inl e)
           | (d1, h1, Inr _) \<Rightarrow>
               (case events_unlocked P fresh d1 h1 of
                  (h2, Inl e) \<Rightarrow> (d1, h2, Inl e)
                | (h2, Inr current) \<Rightarrow>
                    (case decide current of
                       Inl e \<Rightarrow> (d1, h2, Inl e)
                     | Inr [] \<Rightarrow> (d1, h2, Inr [])
                     | Inr events \<Rightarrow>
                         (case migrate_legacy P env d1 h2 of
                            (d3, h3, Inl e) \<Rightarrow> (d3, h3, Inl e)
                          | (d3, h3, Inr _) \<Rightarrow> commit_batch P env events d3 h3)))))"

definition append_event ::
    "prims \<Rightarrow> append_env \<Rightarrow> (nat \<Rightarrow> string) \<Rightarrow> event \<Rightarrow> disk \<Rightarrow> handle \<Rightarrow> disk \<times> handle \<times> json res" where
  "append_event P env fresh e d h =
     (case append_atomically P env fresh (\<lambda>_. Inr [e]) d h of
        (d', h', r) \<Rightarrow> (d', h', bindR r (\<lambda>rs. case rs of [] \<Rightarrow> Inl (IndexError ''0'') | x # _ \<Rightarrow> Inr x)))"

subsection \<open>Opening\<close>

definition new_handle :: "string \<Rightarrow> kdf_params \<Rightarrow> int \<Rightarrow> string \<Rightarrow> int \<Rightarrow> handle" where
  "new_handle key k cnt hash sz =
     \<lparr>h_key = key, h_kdf = k, write_failed = False, decrypted_events = [], in_decision = False, in_observer = False,
      head_required = False, committed_head = None, last_hash = hash, h_count = cnt, h_size = sz\<rparr>"

definition init_handle :: "disk \<Rightarrow> string \<Rightarrow> kdf_params \<Rightarrow> (int \<times> string \<times> int) option \<Rightarrow> handle res" where
  "init_handle d key k trusted =
     (case trusted of
        Some (cnt, hash, sz) \<Rightarrow> Inr (new_handle key k cnt hash sz)
      | None \<Rightarrow> bindR (raw_tail 0 GENESIS (iter_raw d None)) (\<lambda>(cnt, hash). Inr (new_handle key k cnt hash (log_size d))))"

definition recovered_boundary ::
    "prims \<Rightarrow> disk \<Rightarrow> string \<Rightarrow> bool \<Rightarrow> ((int \<times> string \<times> int) option \<times> disk) res" where
  "recovered_boundary P d key required =
     bindR (authenticated_head P d key required) (\<lambda>head.
     bindR (case (head, log_file d) of
              (Some (cnt, hash), Some lg) \<Rightarrow> fast_committed_boundary P lg cnt hash
            | _ \<Rightarrow> Inr None) (\<lambda>fast.
       case (head, fast) of
         (Some (cnt, hash), Some fin) \<Rightarrow> Inr (Some (cnt, hash, fin), d)
       | _ \<Rightarrow> recover_to_authenticated_head P (open_append d) key required None))"

definition open_store :: "prims \<Rightarrow> string \<Rightarrow> string \<Rightarrow> string \<Rightarrow> disk \<Rightarrow> (disk \<times> handle) res" where
  "open_store P random_salt nonce passphrase d =
     (case log_file d of
        Some lg \<Rightarrow>
          (let line = (case split_lines [] (universal_newlines lg) of [] \<Rightarrow> [] | l # _ \<Rightarrow> l) in
           guardR (strip line \<noteq> []) (CryptoError ''exists but has no header'')
           (bindR (loads line) (\<lambda>header.
            bindR (open_vault_header P header passphrase) (\<lambda>key.
            bindR (header_requires_head header) (\<lambda>required.
            bindR (recovered_boundary P d key required) (\<lambda>(recovered, d').
            bindR (jitem header ''kdf'') (\<lambda>kj. bindR (kdf_from_dict kj) (\<lambda>k.
            bindR (init_handle d' key k recovered) (\<lambda>h.
            let h' = h\<lparr>head_required := required, committed_head := map_option (\<lambda>(c, hash, _). (c, hash)) recovered\<rparr> in
            bindR (check_head P d' h' required) (\<lambda>_. Inr (d', h')))))))))))
      | None \<Rightarrow>
          bindR (new_vault_header P random_salt nonce passphrase HEAD_BOUND_HEADER_VERSION) (\<lambda>(header, key).
            let d1 = d\<lparr>log_file := Some (dumps_default header @ [NL])\<rparr> in
            bindR (jitem header ''kdf'') (\<lambda>kj. bindR (kdf_from_dict kj) (\<lambda>k.
            bindR (init_handle d1 key k None) (\<lambda>h.
              Inr (write_head P key (h_count h) (last_hash h) d1,
                   h\<lparr>head_required := True, committed_head := Some (h_count h, last_hash h)\<rparr>))))))"

end
