(* ===== verification/Event_Store_Reads.thy ===== *)
theory Event_Store_Reads
  imports Event_Store
begin

text \<open>
  The projection boundary of \<^verbatim>\<open>product/viva/ledger/store.py\<close>: strict committed scans, suffix reads
  behind a cursor, the keyless chain check, and the cheap refresh and fork of a trusted handle. A
  frozen event is the event itself, since the model's values are immutable.
\<close>

subsection \<open>Committed entries\<close>

definition immutable_event :: "string \<Rightarrow> json \<Rightarrow> event res" where
  "immutable_event fresh payload =
     (case payload of
        JObj fs \<Rightarrow>
          (case map_of fs ''event'' of
             Some (JObj es) \<Rightarrow>
               (case map_of es ''event_id'' of
                  Some (JStr i) \<Rightarrow> guardR (i \<noteq> []) (CryptoError ''no canonical event_id'') (event_from_dict fresh (JObj es))
                | _ \<Rightarrow> Inl (CryptoError ''no canonical event_id''))
           | _ \<Rightarrow> Inl (CryptoError ''no canonical event_id''))
      | _ \<Rightarrow> Inl (AttributeError ''get''))"

fun collect :: "'a res list \<Rightarrow> 'a list res" where
  "collect [] = Inr []"
| "collect (Inl e # xs) = Inl e"
| "collect (Inr x # xs) = bindR (collect xs) (\<lambda>ys. Inr (x # ys))"

fun entries_loop ::
    "prims \<Rightarrow> string \<Rightarrow> string \<Rightarrow> int \<Rightarrow> committed_identity option \<Rightarrow> int \<Rightarrow> string \<Rightarrow> string \<Rightarrow> raw list
     \<Rightarrow> (committed_event list \<times> string) res" where
  "entries_loop P key fresh start pre expected_seq previous_hash observed [] = Inr ([], observed)"
| "entries_loop P key fresh start pre expected_seq previous_hash observed ((seq, previous, sealed, rec_hash) # rs) =
     guardR (py_eq_int seq expected_seq \<and> previous = JStr previous_hash) (CryptoError ''chain broken at committed seq'')
     (guardR (JStr (record_hash P seq previous_hash sealed) = rec_hash) (CryptoError ''record hash mismatch at committed seq'')
     (bindR (open_payload P key seq previous_hash sealed) (\<lambda>payload.
      let hash = record_hash P seq previous_hash sealed;
          observed' = (case pre of None \<Rightarrow> observed | Some i \<Rightarrow> if expected_seq + 1 = id_count i then hash else observed) in
      if expected_seq \<ge> start then
        bindR (immutable_event fresh payload) (\<lambda>e.
        bindR (entries_loop P key fresh start pre (expected_seq + 1) hash observed' rs) (\<lambda>(es, o').
          Inr (\<lparr>ce_sequence = seq, ce_record_hash = hash, ce_event = e\<rparr> # es, o')))
      else entries_loop P key fresh start pre (expected_seq + 1) hash observed' rs)))"

definition committed_entries_unlocked ::
    "prims \<Rightarrow> string \<Rightarrow> int \<Rightarrow> committed_identity option \<Rightarrow> disk \<Rightarrow> handle \<Rightarrow> (committed_event list \<times> int) res" where
  "committed_entries_unlocked P fresh start pre d h =
     bindR (collect (iter_raw d (Some (h_count h)))) (\<lambda>records.
     guardR (int (length records) = h_count h) (CryptoError ''snapshot changed during replay'')
     (bindR (entries_loop P (h_key h) fresh start pre 0 GENESIS GENESIS records) (\<lambda>(entries, observed).
      case pre of
        None \<Rightarrow> Inr (entries, log_size d)
      | Some i \<Rightarrow>
          guardR (\<not> id_count i > h_count h) (CommittedPrefixMismatch ''ahead of the event log'')
          (guardR ((if id_count i = 0 then GENESIS else observed) = id_head_hash i)
             (CommittedPrefixMismatch ''does not match the event log'')
             (Inr (entries, log_size d))))))"

definition identity_for :: "prims \<Rightarrow> handle \<Rightarrow> int \<Rightarrow> string \<Rightarrow> int \<Rightarrow> committed_identity" where
  "identity_for P h cnt head_hash end_offset =
     \<lparr>id_count = cnt, id_head_hash = head_hash, id_end_offset = Some end_offset,
      id_cursor_mac = Some (cursor_mac P (h_key h) cnt head_hash end_offset)\<rparr>"

definition committed_identity_at :: "prims \<Rightarrow> handle \<Rightarrow> int \<Rightarrow> committed_identity" where
  "committed_identity_at P h end_offset = identity_for P h (h_count h) (last_hash h) end_offset"

text \<open>A scan after the tail was synchronized; any failure marks the handle.\<close>

definition strict_scan ::
    "prims \<Rightarrow> string \<Rightarrow> int \<Rightarrow> committed_identity option \<Rightarrow> disk \<Rightarrow> handle
     \<Rightarrow> disk \<times> handle \<times> (committed_identity \<times> committed_event list) res" where
  "strict_scan P fresh start pre d h =
     (case synchronized P d h of
        (d', h', Inl e) \<Rightarrow> (d', h', Inl e)
      | (d', h', Inr _) \<Rightarrow>
          (case committed_entries_unlocked P fresh start pre d' h' of
             Inl e \<Rightarrow> (d', h'\<lparr>write_failed := True\<rparr>, Inl e)
           | Inr (entries, fin) \<Rightarrow> (d', h', Inr (committed_identity_at P h' fin, entries))))"

definition committed_snapshot ::
    "prims \<Rightarrow> string \<Rightarrow> disk \<Rightarrow> handle \<Rightarrow> disk \<times> handle \<times> (committed_identity \<times> committed_event list) res" where
  "committed_snapshot P fresh d h =
     (case ready h of Inl e \<Rightarrow> (d, h, Inl e) | Inr _ \<Rightarrow> strict_scan P fresh 0 None d h)"

definition verify_committed_log :: "prims \<Rightarrow> string \<Rightarrow> disk \<Rightarrow> handle \<Rightarrow> disk \<times> handle \<times> committed_identity res" where
  "verify_committed_log P fresh d h =
     (case ready h of Inl e \<Rightarrow> (d, h, Inl e)
      | Inr _ \<Rightarrow> (case strict_scan P fresh 0 None d h of (d', h', r) \<Rightarrow> (d', h', bindR r (\<lambda>(i, _). Inr i))))"

subsection \<open>Suffix reads\<close>

fun suffix_loop :: "prims \<Rightarrow> string \<Rightarrow> string \<Rightarrow> nat \<Rightarrow> int \<Rightarrow> string \<Rightarrow> int \<Rightarrow> string \<Rightarrow> (committed_event list \<times> string \<times> int) res" where
  "suffix_loop P key fresh 0 expected_seq previous fin source = Inr ([], previous, fin)"
| "suffix_loop P key fresh (Suc k) expected_seq previous fin source =
     (case readline source of (line, rest) \<Rightarrow>
        guardR (ends_nl line) (CryptoError ''committed event suffix is truncated'')
        (bindR (parse_record line) (\<lambda>(seq, rec_previous, sealed, rec_hash).
         guardR (py_eq_int seq expected_seq \<and> rec_previous = JStr previous) (CryptoError ''chain broken at committed seq'')
         (guardR (JStr (record_hash P seq previous sealed) = rec_hash) (CryptoError ''record hash mismatch at committed seq'')
         (bindR (open_payload P key seq previous sealed) (\<lambda>payload.
          bindR (immutable_event fresh payload) (\<lambda>e.
          bindR (suffix_loop P key fresh k (expected_seq + 1) (record_hash P seq previous sealed) (fin + int (length line)) rest)
            (\<lambda>(es, p, f). Inr (\<lparr>ce_sequence = seq, ce_record_hash = record_hash P seq previous sealed, ce_event = e\<rparr> # es, p, f)))))))))"

definition committed_suffix_from_cursor ::
    "prims \<Rightarrow> string \<Rightarrow> disk \<Rightarrow> handle \<Rightarrow> committed_identity \<Rightarrow> int \<Rightarrow> string \<Rightarrow> (committed_event list \<times> int) res" where
  "committed_suffix_from_cursor P fresh d h pre cnt head_hash =
     (case (id_end_offset pre, log_file d) of
        (None, _) \<Rightarrow> Inl (AssertionError ''end_offset'')
      | (_, None) \<Rightarrow> Inl (OSError ''no such file'')
      | (Some off, Some lg) \<Rightarrow>
          guardR (\<not> off > int (length lg)) (CommittedPrefixMismatch ''beyond the event log'')
          (guardR (off = 0 \<or> lg ! nat (off - 1) = NL) (CommittedPrefixMismatch ''not a record boundary'')
          (bindR (catch_unreadable ''event suffix contains an unreadable record''
                    (suffix_loop P (h_key h) fresh (nat (cnt - id_count pre)) (id_count pre) (id_head_hash pre) off
                       (drop (nat off) lg))) (\<lambda>(entries, previous, fin).
           guardR (previous = head_hash) (CryptoError ''suffix does not reach the authenticated head'')
           (Inr (entries, fin))))))"

fun is_prefix_mismatch :: "exc \<Rightarrow> bool" where
  "is_prefix_mismatch (CommittedPrefixMismatch _) = True"
| "is_prefix_mismatch _ = False"

definition valid_cursor :: "prims \<Rightarrow> handle \<Rightarrow> committed_identity \<Rightarrow> bool" where
  "valid_cursor P h pre =
     (case (id_end_offset pre, id_cursor_mac pre) of
        (Some off, Some mac) \<Rightarrow> \<not> off < 0 \<and> cursor_mac P (h_key h) (id_count pre) (id_head_hash pre) off = mac
      | _ \<Rightarrow> False)"

definition suffix_under_lock ::
    "prims \<Rightarrow> string \<Rightarrow> committed_identity \<Rightarrow> disk \<Rightarrow> handle
     \<Rightarrow> disk \<times> handle \<times> (committed_identity \<times> committed_event list) res" where
  "suffix_under_lock P fresh pre d h =
     (case bindR (authenticate_current_header P d h) (authenticated_head P d (h_key h)) of
        Inl e \<Rightarrow> (d, h, Inl e)
      | Inr None \<Rightarrow>
          (case reread_tail P d h of
             (d', h', Inl e) \<Rightarrow> (d', h', Inl e)
           | (d', h', Inr _) \<Rightarrow>
               (d', h', bindR (committed_entries_unlocked P fresh (id_count pre) (Some pre) d' h')
                          (\<lambda>(entries, fin). Inr (committed_identity_at P h' fin, entries))))
      | Inr (Some (cnt, head_hash)) \<Rightarrow>
          (d, h,
           guardR (\<not> id_count pre > cnt) (CommittedPrefixMismatch ''ahead of the event log'')
           (guardR (valid_cursor P h pre) (CommittedPrefixMismatch ''not a valid EventStore cursor'')
           (guardR (\<not> (id_count pre = cnt \<and> id_head_hash pre \<noteq> head_hash)) (CommittedPrefixMismatch ''does not match the event log'')
           (bindR (committed_suffix_from_cursor P fresh d h pre cnt head_hash) (\<lambda>(entries, fin).
              Inr (identity_for P h cnt head_hash fin, entries)))))))"

definition committed_suffix_after ::
    "prims \<Rightarrow> string \<Rightarrow> committed_identity \<Rightarrow> disk \<Rightarrow> handle
     \<Rightarrow> disk \<times> handle \<times> (committed_identity \<times> committed_event list) res" where
  "committed_suffix_after P fresh pre d h =
     (case bindR (refuse_decision_reentry h) (\<lambda>_.
            guardR (\<not> id_count pre < 0) (ValueError ''committed prefix identity is invalid'') (ready h)) of
        Inl e \<Rightarrow> (d, h, Inl e)
      | Inr _ \<Rightarrow>
          (case suffix_under_lock P fresh pre (open_append d) h of
             (d', h', Inl e) \<Rightarrow> (d', if is_prefix_mismatch e then h' else h'\<lparr>write_failed := True\<rparr>, Inl e)
           | r \<Rightarrow> r))"

subsection \<open>Refreshing and forking a trusted handle\<close>

definition trusted_end :: "prims \<Rightarrow> string \<Rightarrow> disk \<Rightarrow> handle \<Rightarrow> int \<Rightarrow> string \<Rightarrow> int res" where
  "trusted_end P fresh d h cnt head_hash =
     (if cnt = h_count h then
        (case log_file d of None \<Rightarrow> Inl (OSError ''no such file'')
         | Some lg \<Rightarrow>
             guardR (\<not> h_size h > int (length lg)) (CryptoError ''shorter than its trusted boundary'')
             (guardR (h_size h = 0 \<or> lg ! nat (h_size h - 1) = NL) (CryptoError ''not a record boundary'')
             (Inr (h_size h))))
      else bindR (committed_suffix_from_cursor P fresh d h (identity_for P h (h_count h) (last_hash h) (h_size h)) cnt head_hash)
             (\<lambda>(_, fin). Inr fin))"

definition refresh_trusted_tail :: "prims \<Rightarrow> string \<Rightarrow> disk \<Rightarrow> handle \<Rightarrow> disk \<times> handle \<times> unit res" where
  "refresh_trusted_tail P fresh d h =
     (case authenticate_current_header P d h of
        Inl e \<Rightarrow> (d, h, Inl e)
      | Inr required \<Rightarrow>
          if head_required h \<and> \<not> required then (d, h, Inl (CryptoError ''header was downgraded''))
          else if \<not> required then reread_tail P d h
          else
            (let h1 = h\<lparr>head_required := True\<rparr> in
             case authenticated_head P d (h_key h) True of
               Inl e \<Rightarrow> (d, h1, Inl e)
             | Inr None \<Rightarrow> (d, h1, Inl (AssertionError ''head''))
             | Inr (Some (cnt, head_hash)) \<Rightarrow>
                 if cnt < h_count h \<or> (cnt = h_count h \<and> head_hash \<noteq> last_hash h)
                 then (d, h1, Inl (CryptoError ''head moved backward or changed''))
                 else (case trusted_end P fresh d h1 cnt head_hash of
                         Inl e \<Rightarrow> (d, h1, Inl e)
                       | Inr fin \<Rightarrow>
                           (d\<lparr>log_file := map_option (take (nat fin)) (log_file d)\<rparr>,
                            h1\<lparr>h_count := cnt, last_hash := head_hash, h_size := fin, committed_head := Some (cnt, head_hash)\<rparr>,
                            Inr ()))))"

definition fork :: "prims \<Rightarrow> string \<Rightarrow> disk \<Rightarrow> handle \<Rightarrow> disk \<times> handle \<times> handle res" where
  "fork P fresh d h =
     (case ready h of Inl e \<Rightarrow> (d, h, Inl e)
      | Inr _ \<Rightarrow>
          (case refresh_trusted_tail P fresh (open_append d) h of
             (d', h', Inl e) \<Rightarrow> (d', h'\<lparr>write_failed := True\<rparr>, Inl e)
           | (d', h', Inr _) \<Rightarrow>
               (d', h', Inr ((new_handle (h_key h') (h_kdf h') (h_count h') (last_hash h') (h_size h'))
                   \<lparr>head_required := head_required h', committed_head := committed_head h'\<rparr>))))"

subsection \<open>The keyless chain check\<close>

fun walk_chain :: "prims \<Rightarrow> string \<Rightarrow> int \<Rightarrow> raw res list \<Rightarrow> (bool \<times> int \<times> string) res" where
  "walk_chain P prev cnt [] = Inr (True, cnt, prev)"
| "walk_chain P prev cnt (Inl e # rs) = Inl e"
| "walk_chain P prev cnt (Inr (seq, rec_prev, sealed, rec_hash) # rs) =
     (if rec_prev \<noteq> JStr prev then Inr (False, cnt, prev)
      else if JStr (record_hash P seq prev sealed) \<noteq> rec_hash then Inr (False, cnt, prev)
      else walk_chain P (record_hash P seq prev sealed) (cnt + 1) rs)"

definition head_agrees :: "disk \<Rightarrow> int \<Rightarrow> string \<Rightarrow> bool" where
  "head_agrees d cnt prev =
     (case head_file d of None \<Rightarrow> True
      | Some t \<Rightarrow>
          (case bindR (loads t) (\<lambda>hd. bindR (jitem hd ''count'') (\<lambda>c. bindR (jitem hd ''head_hash'') (\<lambda>hh. Inr (c, hh)))) of
             Inl _ \<Rightarrow> False
           | Inr (c, hh) \<Rightarrow> py_eq_int c cnt \<and> hh = JStr prev))"

definition verify_chain :: "prims \<Rightarrow> disk \<Rightarrow> handle \<Rightarrow> (bool \<times> int) res" where
  "verify_chain P d h =
     bindR (refuse_decision_reentry h) (\<lambda>_.
     bindR (walk_chain P GENESIS 0 (iter_raw d None)) (\<lambda>(intact, cnt, prev).
       Inr (if \<not> intact then (False, cnt) else if head_agrees d cnt prev then (True, cnt) else (False, cnt))))"

end
