(* ===== verification/Event_Store_Chain.thy ===== *)
theory Event_Store_Chain
  imports Event_Store_Reads
begin

text \<open>
  The chain of \<^verbatim>\<open>store.py\<close> as a whole: what a list of sealed payloads looks like on disk, that every
  reader accepts it, and what two logs with the same head must have in common.
\<close>

subsection \<open>Lines of the log\<close>

lemma readline_line: "NL \<notin> set t \<Longrightarrow> readline (t @ NL # r) = (t @ [NL], r)"
  by (simp add: readline_def takeWhile_append dropWhile_append)

lemma ends_nl_line [simp]: "ends_nl (t @ [NL])"
  by (simp add: ends_nl_def)

lemma dumps_default_no_nl: "wf_json v \<Longrightarrow> NL \<notin> set (dumps_default v) \<and> CHR 0x0D \<notin> set (dumps_default v)"
  using dumpsP_printable(1) [of v "'' ''"] by (auto simp: NL_def)

lemma dumps_no_nl: "wf_json v \<Longrightarrow> NL \<notin> set (dumps v) \<and> CHR 0x0D \<notin> set (dumps v)"
  using dumpsP_printable(1) [of v "[]"] by (auto simp: NL_def)

lemma loads_obj_ws:
  assumes "wf_json (JObj fs)" "list_all json_ws sp" "list_all json_ws ws"
  shows "loads (dumpsP sp (JObj fs) @ ws) = Inr (JObj fs)"
proof -
  let ?t = "dumpsP sp (JObj fs)"
  have "p_value (Suc (length ?t)) (?t @ []) = Some (JObj fs, [])"
    using jsize_le_length(1) [OF assms(1), of sp] by (intro parse_dumps(1) [OF assms(1,2)]) auto
  then have pv: "p_value (Suc (length ?t)) ?t = Some (JObj fs, [])" by (simp only: append_Nil2)
  have hd: "closed_by [] \<or> (?t \<noteq> [] \<and> hd ?t \<in> {CHR 0x22, CHR ''{'', CHR ''[''})" by simp
  have "p_value (Suc (length (?t @ ws))) (?t @ ws) = Some (JObj fs, ws)"
    using parse_fuel_le [OF parse_append(1) [OF pv hd, of ws]] by (simp only: append_Nil length_append le_add1 Suc_le_mono)
  moreover have "skip_ws (?t @ ws) = ?t @ ws" by (rule skip_ws_id) (simp add: json_ws_def)
  moreover have "skip_ws ws = []" using skip_ws_pad [OF assms(3), of "[]"] by (simp add: skip_ws_def)
  ultimately show ?thesis by (simp add: loads_def del: p_value.simps dumpsP.simps)
qed

lemma json_ws_simps [simp]: "json_ws NL" "json_ws (CHR '' '')"
  by (simp_all add: json_ws_def NL_def)

subsection \<open>The chain a list of sealed payloads makes\<close>

definition rec_at :: "prims \<Rightarrow> int \<Rightarrow> string \<Rightarrow> json \<Rightarrow> json" where
  "rec_at P n prev s = record_json (JInt n) prev s (record_hash P (JInt n) prev s)"

fun chain_text :: "prims \<Rightarrow> int \<Rightarrow> string \<Rightarrow> json list \<Rightarrow> string" where
  "chain_text P n prev [] = []"
| "chain_text P n prev (s # ss) = record_line (rec_at P n prev s) @ chain_text P (n + 1) (record_hash P (JInt n) prev s) ss"

fun chain_head :: "prims \<Rightarrow> int \<Rightarrow> string \<Rightarrow> json list \<Rightarrow> string" where
  "chain_head P n prev [] = prev"
| "chain_head P n prev (s # ss) = chain_head P (n + 1) (record_hash P (JInt n) prev s) ss"

fun chain_raws :: "prims \<Rightarrow> int \<Rightarrow> string \<Rightarrow> json list \<Rightarrow> raw list" where
  "chain_raws P n prev [] = []"
| "chain_raws P n prev (s # ss) =
     (JInt n, JStr prev, s, JStr (record_hash P (JInt n) prev s)) # chain_raws P (n + 1) (record_hash P (JInt n) prev s) ss"

lemma chain_append:
  "chain_text P n prev (ss @ ts) = chain_text P n prev ss @ chain_text P (n + int (length ss)) (chain_head P n prev ss) ts"
  "chain_head P n prev (ss @ ts) = chain_head P (n + int (length ss)) (chain_head P n prev ss) ts"
  "chain_raws P n prev (ss @ ts) = chain_raws P n prev ss @ chain_raws P (n + int (length ss)) (chain_head P n prev ss) ts"
  by (induction ss arbitrary: n prev) (simp_all add: algebra_simps)

lemma length_chain_raws [simp]: "length (chain_raws P n prev ss) = length ss"
  by (induction ss arbitrary: n prev) auto

lemma wf_rec_at [simp]: "wf_json s \<Longrightarrow> wf_json (rec_at P n prev s)"
  by (simp add: rec_at_def record_json_def)

lemma parse_record_line:
  assumes "wf_json s"
  shows "parse_record (record_line (rec_at P n prev s)) = Inr (JInt n, JStr prev, s, JStr (record_hash P (JInt n) prev s))"
    and "parse_record (dumps_default (rec_at P n prev s)) = Inr (JInt n, JStr prev, s, JStr (record_hash P (JInt n) prev s))"
proof -
  have w: "wf_json (rec_at P n prev s)" using assms by simp
  then have "loads (dumps_default (rec_at P n prev s) @ ws) = Inr (rec_at P n prev s)" if "list_all json_ws ws" for ws
    unfolding rec_at_def record_json_def using that by (intro loads_obj_ws) (auto simp del: wf_rec_at)
  from this [of "[NL]"] this [of "[]"] show
    "parse_record (record_line (rec_at P n prev s)) = Inr (JInt n, JStr prev, s, JStr (record_hash P (JInt n) prev s))"
    "parse_record (dumps_default (rec_at P n prev s)) = Inr (JInt n, JStr prev, s, JStr (record_hash P (JInt n) prev s))"
    by (simp_all add: parse_record_def record_line_def) (simp_all add: rec_at_def record_json_def)
qed

lemma readline_record:
  "wf_json s \<Longrightarrow> readline (record_line (rec_at P n prev s) @ r) = (record_line (rec_at P n prev s), r)"
  using dumps_default_no_nl [OF wf_rec_at, of s P n prev] readline_line [of "dumps_default (rec_at P n prev s)" r]
  by (simp add: record_line_def)

lemma ends_nl_record [simp]: "ends_nl (record_line r)"
  by (simp add: record_line_def)

text \<open>A scan accepts the chain, whatever follows it.\<close>

definition pre_ok :: "prims \<Rightarrow> (int \<times> string) option \<Rightarrow> int \<Rightarrow> string \<Rightarrow> json list \<Rightarrow> bool" where
  "pre_ok P pre n prev ss =
     (case pre of None \<Rightarrow> True
      | Some (c, h) \<Rightarrow> n < c \<longrightarrow> c \<le> n + int (length ss) \<longrightarrow> chain_head P n prev (take (nat (c - n)) ss) = h)"

lemma pre_ok_Cons:
  "pre_ok P pre n prev (s # ss) \<longleftrightarrow>
     (case pre of None \<Rightarrow> True | Some (c, h) \<Rightarrow> n + 1 = c \<longrightarrow> record_hash P (JInt n) prev s = h)
     \<and> pre_ok P pre (n + 1) (record_hash P (JInt n) prev s) ss"
proof (cases pre)
  case (Some x)
  obtain c h where x: "x = (c, h)" by (cases x)
  consider "c \<le> n" | "c = n + 1" | "n + 1 < c" by linarith
  then show ?thesis
  proof cases
    case 3
    then have "nat (c - n) = Suc (nat (c - (n + 1)))" by simp
    then show ?thesis using 3 Some x by (auto simp: pre_ok_def)
  qed (auto simp: pre_ok_def Some x)
qed (simp add: pre_ok_def)

lemma scan_chain:
  assumes "list_all wf_json ss" "pre_ok P pre n prev ss"
  shows "scan_committed P pre (length ss) n prev fin (chain_text P n prev ss @ rest)
       = Inr (chain_head P n prev ss, fin + int (length (chain_text P n prev ss)))"
  using assms
proof (induction ss arbitrary: n prev fin)
  case (Cons s ss)
  then show ?case
    by (simp add: readline_record parse_record_line pre_ok_Cons Let_def algebra_simps)
qed simp

subsection \<open>Tamper evidence\<close>

lemma hexdigest_Cons: "hexdigest (c # s) = hex_digit (of_char c div 16) # hex_digit (of_char c mod 16) # hexdigest s"
  by (simp add: hexdigest_def)

lemma hex_digit_inj: "a < 16 \<Longrightarrow> b < 16 \<Longrightarrow> hex_digit a = hex_digit b \<Longrightarrow> a = b"
  by (metis hex_val_hex_digit option.inject)

lemma hexdigest_inj: "hexdigest s = hexdigest t \<Longrightarrow> s = t"
proof (induction s arbitrary: t)
  case Nil
  then show ?case by (cases t) (auto simp: hexdigest_def)
next
  case (Cons c s)
  then obtain d u where t: "t = d # u" by (cases t) (auto simp: hexdigest_def)
  have lt: "(of_char c :: nat) div 16 < 16" "(of_char d :: nat) div 16 < 16"
    using byte_less [of c] byte_less [of d] by (simp_all add: less_mult_imp_div_less)
  have "(of_char c :: nat) div 16 = of_char d div 16" "(of_char c :: nat) mod 16 = of_char d mod 16"
    using Cons.prems t lt by (auto simp: hexdigest_Cons intro: hex_digit_inj)
  then have "(of_char c :: nat) = of_char d" by (metis div_mult_mod_eq)
  then have "c = d" by simp
  then show ?case using Cons t by (simp add: hexdigest_Cons)
qed

lemma canonical_record_body:
  "canonical (record_body seq prev sealed) =
     ''{'' @ dumps_str ''prev_hash'' @ '':'' @ dumps_str prev @ '','' @ dumps_str ''sealed'' @ '':'' @ dumps (sort_keys sealed)
     @ '','' @ dumps_str ''seq'' @ '':'' @ dumps (sort_keys seq) @ ''}''"
proof -
  have "''prev_hash'' < ''sealed''" "''sealed'' < ''seq''" "''prev_hash'' < ''seq''" by code_simp+
  then have "sort_key fst [(''seq'', sort_keys seq), (''prev_hash'', JStr prev), (''sealed'', sort_keys sealed)]
      = [(''prev_hash'', JStr prev), (''sealed'', sort_keys sealed), (''seq'', sort_keys seq)]"
    by (simp only: sort_key_simps insort_key.simps fst_conv not_le less_imp_le if_True if_False) (simp add: not_le)
  then show ?thesis by (simp add: canonical_def record_body_def)
qed

lemma record_body_prev:
  assumes "canonical (record_body s1 p1 e1) = canonical (record_body s2 p2 e2)"
  shows "p1 = p2"
proof -
  let ?r = "\<lambda>s e. '','' @ dumps_str ''sealed'' @ '':'' @ dumps (sort_keys e) @ '','' @ dumps_str ''seq'' @ '':'' @ dumps (sort_keys s) @ ''}''"
  have "concat (map escape_char p1) @ CHR 0x22 # ?r s1 e1 = concat (map escape_char p2) @ CHR 0x22 # ?r s2 e2"
    using assms unfolding canonical_record_body dumps_str_def by simp
  then have "p_string (concat (map escape_char p1) @ CHR 0x22 # ?r s1 e1) = p_string (concat (map escape_char p2) @ CHR 0x22 # ?r s2 e2)"
    by (rule arg_cong)
  then show ?thesis unfolding p_string_escape by simp
qed

text \<open>The sequence numbers and sealed payloads of the next records, and the hash they chain to.\<close>

fun scanned :: "nat \<Rightarrow> string \<Rightarrow> (json \<times> json) list" where
  "scanned 0 s = []"
| "scanned (Suc k) s =
     (case readline s of (line, rest) \<Rightarrow>
        (case parse_record line of Inl _ \<Rightarrow> [] | Inr (seq, _, sealed, _) \<Rightarrow> (seq, sealed) # scanned k rest))"

fun link_head :: "prims \<Rightarrow> string \<Rightarrow> (json \<times> json) list \<Rightarrow> string" where
  "link_head P prev [] = prev"
| "link_head P prev ((seq, sealed) # rs) = link_head P (record_hash P seq prev sealed) rs"

fun link_texts :: "prims \<Rightarrow> string \<Rightarrow> (json \<times> json) list \<Rightarrow> string list" where
  "link_texts P prev [] = []"
| "link_texts P prev ((seq, sealed) # rs) =
     canonical (record_body seq prev sealed) # link_texts P (record_hash P seq prev sealed) rs"

lemma link_snoc:
  "link_head P prev (rs @ [(seq, sealed)]) = record_hash P seq (link_head P prev rs) sealed"
  "link_texts P prev (rs @ [(seq, sealed)]) = link_texts P prev rs @ [canonical (record_body seq (link_head P prev rs) sealed)]"
  by (induction rs arbitrary: prev) auto

lemma length_link_texts [simp]: "length (link_texts P prev rs) = length rs"
  by (induction rs arbitrary: prev) auto

text \<open>
  Two chains of one length that start from one hash and end in one hash: walking back from the end, the
  first place where the hashed texts differ is a collision, because equal texts have equal previous hashes.
\<close>

lemma same_head_collision:
  assumes "length rs = length qs" "link_head P prev rs = link_head P prev qs" "link_texts P prev rs \<noteq> link_texts P prev qs"
  shows "\<exists>i < length rs. link_texts P prev rs ! i \<noteq> link_texts P prev qs ! i
     \<and> sha256 P (link_texts P prev rs ! i) = sha256 P (link_texts P prev qs ! i)
     \<and> drop (Suc i) (link_texts P prev rs) = drop (Suc i) (link_texts P prev qs)"
  using assms
proof (induction rs arbitrary: qs rule: rev_induct)
  case (snoc r rs)
  obtain q qs' where q: "qs = qs' @ [q]" using snoc.prems(1) by (cases qs rule: rev_cases) auto
  obtain s e s' e' where rq: "r = (s, e)" "q = (s', e')" by (cases r, cases q)
  have len: "length rs = length qs'" using snoc.prems(1) q by simp
  let ?t = "canonical (record_body s (link_head P prev rs) e)" and ?u = "canonical (record_body s' (link_head P prev qs') e')"
  have txts: "link_texts P prev (rs @ [r]) = link_texts P prev rs @ [?t]" "link_texts P prev qs = link_texts P prev qs' @ [?u]"
    by (simp_all add: q rq link_snoc)
  have hash: "sha256 P ?t = sha256 P ?u"
    by (rule hexdigest_inj) (use snoc.prems(2) in \<open>simp add: q rq link_snoc record_hash_def\<close>)
  show ?case
  proof (cases "?t = ?u")
    case True
    then have "link_head P prev rs = link_head P prev qs'" by (rule record_body_prev)
    moreover have "link_texts P prev rs \<noteq> link_texts P prev qs'" using snoc.prems(3) True unfolding txts by simp
    ultimately obtain i where "i < length rs"
      "link_texts P prev rs ! i \<noteq> link_texts P prev qs' ! i" "sha256 P (link_texts P prev rs ! i) = sha256 P (link_texts P prev qs' ! i)"
      "drop (Suc i) (link_texts P prev rs) = drop (Suc i) (link_texts P prev qs')"
      using snoc.IH [OF len] by blast
    then show ?thesis using True len unfolding txts by (intro exI [of _ i]) (simp add: nth_append)
  next
    case False
    then show ?thesis using hash len unfolding txts by (intro exI [of _ "length rs"]) (simp add: nth_append)
  qed
qed simp

lemma scan_links:
  "scan_committed P pre k n prev fin s = Inr (h, e) \<Longrightarrow> length (scanned k s) = k \<and> link_head P prev (scanned k s) = h"
proof (induction k arbitrary: n prev fin s)
  case (Suc k)
  obtain line rest where l: "readline s = (line, rest)" by (cases "readline s")
  from Suc.prems l obtain seq sealed where p: "parse_record line = Inr (seq, JStr prev, sealed, JStr (record_hash P seq prev sealed))"
    and "scan_committed P pre k (n + 1) (record_hash P seq prev sealed) (fin + int (length line)) rest = Inr (h, e)"
    by (auto simp: res_iffs Let_def)
  from Suc.IH [OF this(2)] l p show ?case by simp
qed simp

definition log_records :: "prims \<Rightarrow> int \<Rightarrow> string \<Rightarrow> string list" where
  "log_records P cnt lg = link_texts P GENESIS (scanned (nat cnt) (snd (readline lg)))"

lemma catch_unreadable_Inr [simp]: "catch_unreadable m r = Inr x \<longleftrightarrow> r = Inr x"
  by (auto simp: catch_unreadable_def split: sum.splits)

lemma committed_prefix_links:
  assumes "committed_prefix_end P lg cnt h pre = Inr e"
  shows "length (scanned (nat cnt) (snd (readline lg))) = nat cnt"
    "link_head P GENESIS (scanned (nat cnt) (snd (readline lg))) = h"
  using assms scan_links unfolding committed_prefix_end_def
  by (auto simp: res_iffs split: prod.splits)

text \<open>
  C8: tampering needs a hash collision. If two logs are both accepted up to the same committed
  count and head hash, and the records hashed in them differ, then the last place where they differ
  holds two different records with the same SHA-256 digest, one from each log: the collision is
  read off the logs themselves. Dropping, reordering, splicing or editing committed records is
  therefore noticed, with no assumption on the key.
\<close>

theorem tampering_needs_a_collision:
  assumes "committed_prefix_end P lg cnt head_hash pre = Inr e"
    and "committed_prefix_end P lg' cnt head_hash pre' = Inr e'"
    and "log_records P cnt lg \<noteq> log_records P cnt lg'"
  shows "\<exists>i < nat cnt. log_records P cnt lg ! i \<noteq> log_records P cnt lg' ! i
     \<and> sha256 P (log_records P cnt lg ! i) = sha256 P (log_records P cnt lg' ! i)
     \<and> drop (Suc i) (log_records P cnt lg) = drop (Suc i) (log_records P cnt lg')"
  using same_head_collision [of _ _ P GENESIS] committed_prefix_links [OF assms(1)] committed_prefix_links [OF assms(2)] assms(3)
  unfolding log_records_def by metis

text \<open>With a digest that forgets its input, two logs of one record each are accepted under one head.\<close>

definition flat_prims :: prims where
  "flat_prims = toy_prims\<lparr>sha256 := (\<lambda>_. [])\<rparr>"

definition flat_log :: "string \<Rightarrow> string" where
  "flat_log t = ''{}'' @ [NL] @ record_line (rec_at flat_prims 0 GENESIS (JStr t))"

theorem tampering_needs_a_collision_witness:
  "log_records flat_prims 1 (flat_log ''a'') ! 0 \<noteq> log_records flat_prims 1 (flat_log ''b'') ! 0
   \<and> sha256 flat_prims (log_records flat_prims 1 (flat_log ''a'') ! 0) = sha256 flat_prims (log_records flat_prims 1 (flat_log ''b'') ! 0)"
proof -
  have "\<not> isl (committed_prefix_end flat_prims (flat_log ''a'') 1 [] None)" by code_simp
  moreover have "\<not> isl (committed_prefix_end flat_prims (flat_log ''b'') 1 [] None)" by code_simp
  moreover have "log_records flat_prims 1 (flat_log ''a'') \<noteq> log_records flat_prims 1 (flat_log ''b'')" by code_simp
  ultimately have "\<exists>i < nat 1. log_records flat_prims 1 (flat_log ''a'') ! i \<noteq> log_records flat_prims 1 (flat_log ''b'') ! i
     \<and> sha256 flat_prims (log_records flat_prims 1 (flat_log ''a'') ! i) = sha256 flat_prims (log_records flat_prims 1 (flat_log ''b'') ! i)
     \<and> drop (Suc i) (log_records flat_prims 1 (flat_log ''a'')) = drop (Suc i) (log_records flat_prims 1 (flat_log ''b''))"
    unfolding not_isl_iff by (auto dest: tampering_needs_a_collision)
  then show ?thesis by simp
qed

end
