(* ===== verification/Event_Store_Recovery.thy ===== *)
theory Event_Store_Recovery
  imports Event_Store_Chain
begin

text \<open>
  What an intact store looks like on disk and in a handle, and that every read, append, failed write
  and reopening of \<^verbatim>\<open>store.py\<close> leads from one intact store to the next.
\<close>

subsection \<open>The head record\<close>

lemma hexdigest_ascii: "list_all (\<lambda>c. (of_char c :: nat) < 128) (hexdigest b)"
proof (induction b)
  case (Cons c b)
  have "(of_char (hex_digit n) :: nat) < 128" if "n < 16" for n using that by (auto simp: hex_digit_def)
  moreover have "(of_char c :: nat) div 16 < 16" using byte_less [of c] by (simp add: less_mult_imp_div_less)
  ultimately show ?case using Cons by (simp add: hexdigest_Cons)
qed (simp add: hexdigest_def)

lemma authenticated_head_text:
  assumes "head_file d = Some (head_text P key c h)" "0 \<le> c"
  shows "authenticated_head P d key req = Inr (Some (c, h))"
proof -
  let ?m = "head_mac P key (head_body c h)"
  have "loads (head_text P key c h) = Inr (JObj [(''count'', JInt c), (''head_hash'', JStr h), (''mac'', JStr ?m)])"
    unfolding head_text_def head_body_def jset.simps dict_set.simps by (simp add: loads_obj_ws del: dumpsP.simps)
  moreover have "list_all (\<lambda>ch. (of_char ch :: nat) < 128) ?m" by (simp add: head_mac_def hexdigest_ascii)
  ultimately show ?thesis
    using assms by (simp add: authenticated_head_def parse_head_def catch_unreadable_def)
qed

subsection \<open>A disk in order\<close>

text \<open>The header line of a vault that requires a head, under the key and the parameters of its handles.\<close>

definition header_text_ok :: "prims \<Rightarrow> string \<Rightarrow> kdf_params \<Rightarrow> string \<Rightarrow> bool" where
  "header_text_ok P key k t \<longleftrightarrow>
     NL \<notin> set t \<and> CHR 0x0D \<notin> set t \<and> strip (t @ [NL]) \<noteq> [] \<and>
     (\<exists>fs kj. loads t = Inr (JObj fs) \<and> loads (t @ [NL]) = Inr (JObj fs)
        \<and> verify_vault_header P (JObj fs) key = Inr HEAD_BOUND_HEADER_VERSION
        \<and> map_of fs ''v'' = Some (JStr HEAD_BOUND_HEADER_VERSION) \<and> map_of fs ''head'' = None
        \<and> map_of fs ''kdf'' = Some kj \<and> kdf_from_dict kj = Inr k)"

definition committed_disk :: "prims \<Rightarrow> string \<Rightarrow> string \<Rightarrow> json list \<Rightarrow> string \<Rightarrow> disk \<Rightarrow> bool" where
  "committed_disk P key t ss junk d \<longleftrightarrow>
     log_file d = Some (t @ [NL] @ chain_text P 0 GENESIS ss @ junk) \<and>
     head_file d = Some (head_text P key (int (length ss)) (chain_head P 0 GENESIS ss))"

definition observed_ok :: "prims \<Rightarrow> json list \<Rightarrow> (int \<times> string) option \<Rightarrow> bool" where
  "observed_ok P ss pre =
     (case pre of None \<Rightarrow> True
      | Some (c, h) \<Rightarrow> 0 \<le> c \<and> c \<le> int (length ss) \<and> chain_head P 0 GENESIS (take (nat c) ss) = h)"

lemma observed_pre_ok: "observed_ok P ss pre \<Longrightarrow> pre_ok P pre 0 GENESIS ss"
  by (auto simp: observed_ok_def pre_ok_def split: option.splits)

lemma committed_prefix_chain:
  assumes "NL \<notin> set t" "list_all wf_json ss" "observed_ok P ss pre"
  shows "committed_prefix_end P (t @ [NL] @ chain_text P 0 GENESIS ss @ junk) (int (length ss)) (chain_head P 0 GENESIS ss) pre
    = Inr (int (length (t @ [NL] @ chain_text P 0 GENESIS ss)))"
proof -
  have "readline (t @ [NL] @ chain_text P 0 GENESIS ss @ junk) = (t @ [NL], chain_text P 0 GENESIS ss @ junk)"
    using readline_line [OF assms(1)] by simp
  then show ?thesis
    using scan_chain [OF assms(2) observed_pre_ok [OF assms(3)]] assms(3)
    by (auto simp: committed_prefix_end_def catch_unreadable_def observed_ok_def split: option.splits)
qed

lemma recover_committed:
  assumes "committed_disk P key t ss junk d" "NL \<notin> set t" "list_all wf_json ss" "observed_ok P ss pre"
  shows "recover_to_authenticated_head P d key req pre =
    Inr (Some (int (length ss), chain_head P 0 GENESIS ss, int (length (t @ [NL] @ chain_text P 0 GENESIS ss))),
         d\<lparr>log_file := Some (t @ [NL] @ chain_text P 0 GENESIS ss)\<rparr>)"
proof -
  have log: "log_file d = Some (t @ [NL] @ chain_text P 0 GENESIS ss @ junk)"
    and hd: "authenticated_head P d key req = Inr (Some (int (length ss), chain_head P 0 GENESIS ss))"
    using assms(1) authenticated_head_text by (auto simp: committed_disk_def)
  have "case pre of None \<Rightarrow> True | Some (c, h) \<Rightarrow>
      \<not> (int (length ss) < c \<or> (int (length ss) = c \<and> chain_head P 0 GENESIS ss \<noteq> h))"
    using assms(4) by (auto simp: observed_ok_def split: option.splits)
  moreover have "take (nat (int (length (t @ [NL] @ chain_text P 0 GENESIS ss)))) (t @ [NL] @ chain_text P 0 GENESIS ss @ junk)
      = t @ [NL] @ chain_text P 0 GENESIS ss" unfolding nat_int by simp
  ultimately show ?thesis
    unfolding recover_to_authenticated_head_def hd log bindR_simps option.case prod.case
      committed_prefix_chain [OF assms(2-4)] by (simp only: guardR_simps) simp
qed

subsection \<open>A handle in order\<close>

definition handle_ok :: "prims \<Rightarrow> string \<Rightarrow> kdf_params \<Rightarrow> json list \<Rightarrow> handle \<Rightarrow> bool" where
  "handle_ok P key k ss h \<longleftrightarrow>
     h_key h = key \<and> h_kdf h = k \<and> \<not> write_failed h \<and> \<not> in_decision h \<and> \<not> in_observer h \<and> observed_ok P ss (committed_head h)"

definition at_tail :: "prims \<Rightarrow> string \<Rightarrow> json list \<Rightarrow> handle \<Rightarrow> handle" where
  "at_tail P t ss h =
     h\<lparr>head_required := True, committed_head := Some (int (length ss), chain_head P 0 GENESIS ss),
       last_hash := chain_head P 0 GENESIS ss, h_count := int (length ss),
       h_size := int (length (t @ [NL] @ chain_text P 0 GENESIS ss))\<rparr>"

lemma authenticate_header_ok:
  assumes "header_text_ok P key k t" "log_file d = Some (t @ [NL] @ r)" "h_key h = key" "h_kdf h = k"
  shows "authenticate_current_header P d h = Inr True"
proof -
  have "fst (readline (t @ [NL] @ r)) = t @ [NL]" using readline_line assms(1) by (simp add: header_text_ok_def)
  with assms show ?thesis
    by (auto simp: authenticate_current_header_def header_line_def header_text_ok_def header_requires_head_def)
qed

lemma reread_tail_ok:
  assumes "committed_disk P key t ss junk d" "header_text_ok P key k t" "list_all wf_json ss" "handle_ok P key k ss h"
  shows "reread_tail P d h = (d\<lparr>log_file := Some (t @ [NL] @ chain_text P 0 GENESIS ss)\<rparr>, at_tail P t ss h, Inr ())"
proof -
  have "authenticate_current_header P d h = Inr True"
    using authenticate_header_ok [OF assms(2)] assms(1,4) by (auto simp: committed_disk_def handle_ok_def)
  moreover have "NL \<notin> set t" using assms(2) by (simp add: header_text_ok_def)
  ultimately show ?thesis
    using recover_committed [OF assms(1) _ assms(3)] assms(4)
    by (simp add: reread_tail_def handle_ok_def Let_def at_tail_def)
qed

lemma synchronized_ok:
  assumes "committed_disk P key t ss junk d" "header_text_ok P key k t" "list_all wf_json ss" "handle_ok P key k ss h"
  shows "synchronized P d h = (d\<lparr>log_file := Some (t @ [NL] @ chain_text P 0 GENESIS ss)\<rparr>, at_tail P t ss h, Inr ())"
proof -
  have "open_append d = d" using assms(1) by (simp add: open_append_def committed_disk_def)
  then show ?thesis using reread_tail_ok [OF assms] by (simp add: synchronized_def)
qed

subsection \<open>Reading an intact log\<close>

lemma universal_newlines_id: "CHR 0x0D \<notin> set s \<Longrightarrow> universal_newlines s = s"
  by (induction s rule: universal_newlines.induct) auto

lemma universal_newlines_NL: "universal_newlines (NL # r) = NL # universal_newlines r"
  by (cases r) (auto simp: NL_def)

lemma universal_newlines_line: "CHR 0x0D \<notin> set t \<Longrightarrow> universal_newlines (t @ NL # r) = t @ NL # universal_newlines r"
  by (induction t rule: universal_newlines.induct) (auto simp: universal_newlines_NL)

lemma split_lines_line: "NL \<notin> set t \<Longrightarrow> split_lines acc (t @ NL # r) = (acc @ t @ [NL]) # split_lines [] r"
  by (induction t arbitrary: acc) auto

lemma strip_braces: "strip (CHR ''{'' # s @ CHR ''}'' # [NL]) = CHR ''{'' # s @ ''}''"
  by (simp add: strip_def strip_by_def lstrip_by_def rstrip_by_def is_space_def NL_def)

lemma strip_record_line [simp]: "strip (record_line (rec_at P n prev s)) = dumps_default (rec_at P n prev s)"
proof -
  obtain u where u: "dumps_default (rec_at P n prev s) = CHR ''{'' # u @ ''}''"
    by (simp add: rec_at_def record_json_def)
  show ?thesis using strip_braces [of u] by (simp only: record_line_def u) simp
qed

lemma dumps_rec_not_Nil [simp]: "dumps_default (rec_at P n prev s) \<noteq> []"
  by (simp add: rec_at_def record_json_def)

lemma iter_lines_chain:
  assumes "list_all wf_json ss" "\<And>m. limit = Some m \<Longrightarrow> y + int (length ss) \<le> m"
  shows "iter_lines limit False y (split_lines [] (chain_text P n prev ss)) = map Inr (chain_raws P n prev ss)"
  using assms
proof (induction ss arbitrary: n prev y)
  case (Cons s ss)
  have "NL \<notin> set (dumps_default (rec_at P n prev s))" using Cons.prems dumps_default_no_nl by auto
  then have sp: "split_lines [] (chain_text P n prev (s # ss)) =
      record_line (rec_at P n prev s) # split_lines [] (chain_text P (n + 1) (record_hash P (JInt n) prev s) ss)"
    using split_lines_line [of "dumps_default (rec_at P n prev s)" "[]"] by (simp add: record_line_def)
  have "\<not> (case limit of None \<Rightarrow> False | Some m \<Rightarrow> m \<le> y)" using Cons.prems(2) by (auto split: option.splits)
  moreover have "iter_lines limit False (y + 1) (split_lines [] (chain_text P (n + 1) (record_hash P (JInt n) prev s) ss))
      = map Inr (chain_raws P (n + 1) (record_hash P (JInt n) prev s) ss)"
    using Cons.prems by (intro Cons.IH) fastforce+
  ultimately show ?case using Cons.prems sp by (simp add: parse_record_line)
qed simp

lemma chain_text_no_cr: "list_all wf_json ss \<Longrightarrow> CHR 0x0D \<notin> set (chain_text P n prev ss)"
  using dumps_default_no_nl [OF wf_rec_at] by (induction ss arbitrary: n prev) (auto simp: record_line_def NL_def)

lemma iter_raw_chain:
  assumes "header_text_ok P key k t" "list_all wf_json ss" "log_file d = Some (t @ [NL] @ chain_text P 0 GENESIS ss)"
    "limit = None \<or> limit = Some (int (length ss))"
  shows "iter_raw d limit = map Inr (chain_raws P 0 GENESIS ss)"
proof -
  have t: "NL \<notin> set t" "CHR 0x0D \<notin> set t" "strip (t @ [NL]) \<noteq> []" using assms(1) by (auto simp: header_text_ok_def)
  have "universal_newlines (t @ [NL] @ chain_text P 0 GENESIS ss) = t @ [NL] @ chain_text P 0 GENESIS ss"
    using t(2) chain_text_no_cr [OF assms(2)] by (intro universal_newlines_id) (simp add: NL_def)
  then show ?thesis
    using t split_lines_line [OF t(1), of "[]"] iter_lines_chain [OF assms(2), of limit 0] assms(3,4)
    by (auto simp: iter_raw_def)
qed

subsection \<open>Sealed events\<close>

text \<open>
  The payloads \<open>ss\<close> of the records from \<open>n\<close> on are the seals of the events \<open>es\<close>: each opens, at its own
  position in the chain, to the canonical payload of its event.
\<close>

fun sealed_log :: "prims \<Rightarrow> string \<Rightarrow> int \<Rightarrow> string \<Rightarrow> json list \<Rightarrow> event list \<Rightarrow> bool" where
  "sealed_log P key n prev [] [] = True"
| "sealed_log P key n prev (s # ss) (e # es) =
     (wf_json s \<and> wf_json (body e) \<and>
      (\<exists>t. open_payload P key (JInt n) prev s = Inr (sort_keys (event_payload (JInt n) t e))) \<and>
      sealed_log P key (n + 1) (record_hash P (JInt n) prev s) ss es)"
| "sealed_log P key n prev _ _ = False"

lemma sealed_log_wf: "sealed_log P key n prev ss es \<Longrightarrow> list_all wf_json ss \<and> length ss = length es"
  by (induction P key n prev ss es rule: sealed_log.induct) auto

lemma sealed_log_append:
  "sealed_log P key n prev ss es \<Longrightarrow> sealed_log P key (n + int (length ss)) (chain_head P n prev ss) ts fs
     \<Longrightarrow> sealed_log P key n prev (ss @ ts) (es @ fs)"
  by (induction P key n prev ss es rule: sealed_log.induct) (auto simp: algebra_simps)

lemma event_from_sorted: "wf_json (body e) \<Longrightarrow> event_from_dict fresh (sort_keys (event_to_dict e)) = Inr (event_sorted e)"
  using event_from_canonical [of e fresh] by (simp add: loads_canonical)

lemma wf_event_payload [simp]: "wf_json (event_payload (JInt n) t e) = wf_json (body e)"
  by (simp add: event_payload_def)

lemma payload_event: "wf_json (body e) \<Longrightarrow> jitem (sort_keys (event_payload (JInt n) t e)) ''event'' = Inr (sort_keys (event_to_dict e))"
  using jitem_sort_keys [of "event_payload (JInt n) t e" "''event''"] by (simp add: event_payload_def)

fun decrypted :: "prims \<Rightarrow> int \<Rightarrow> string \<Rightarrow> json list \<Rightarrow> event list \<Rightarrow> cache" where
  "decrypted P n prev (s # ss) (e # es) =
     (JInt n, record_hash P (JInt n) prev s, sort_keys (event_to_dict e)) # decrypted P (n + 1) (record_hash P (JInt n) prev s) ss es"
| "decrypted P n prev _ _ = []"

lemma decrypted_append:
  "length ss = length es \<Longrightarrow> decrypted P n prev (ss @ ts) (es @ fs) =
     decrypted P n prev ss es @ decrypted P (n + int (length ss)) (chain_head P n prev ss) ts fs"
  by (induction ss es arbitrary: n prev rule: list_induct2) (auto simp: algebra_simps)

lemma decrypted_keys: "k \<in> fst ` set (decrypted P n prev ss es) \<Longrightarrow> \<exists>i. k = JInt i \<and> n \<le> i"
  by (induction P n prev ss es rule: decrypted.induct) force+

lemma decrypted_grows:
  assumes "length ss = length es"
  shows "map_of (decrypted P 0 GENESIS ss es) \<subseteq>\<^sub>m map_of (decrypted P 0 GENESIS (ss @ ts) (es @ fs))"
  unfolding decrypted_append [OF assms] map_of_append by (rule map_le_map_add)
  

lemma replay_sealed:
  assumes "sealed_log P key n prev ss es" "map_of cache \<subseteq>\<^sub>m map_of L"
    "\<And>x. x \<in> set (decrypted P n prev ss es) \<Longrightarrow> map_of L (fst x) = Some (snd x)"
  shows "\<exists>cache'. replay P key fresh m prev cache (map Inr (chain_raws P n prev ss)) = (cache', Inr (map event_sorted es))
    \<and> map_of cache' \<subseteq>\<^sub>m map_of L"
  using assms
proof (induction P key n prev ss es arbitrary: cache m rule: sealed_log.induct)
  case (2 P key n prev s ss e es)
  let ?h = "record_hash P (JInt n) prev s" and ?ev = "sort_keys (event_to_dict e)"
  from 2 obtain t where op: "open_payload P key (JInt n) prev s = Inr (sort_keys (event_payload (JInt n) t e))"
    and wf: "wf_json (body e)" by auto
  have L: "map_of L (JInt n) = Some (?h, ?ev)" using "2.prems"(3) by fastforce
  define cache1 where "cache1 = (case cached_event cache (JInt n) (JStr ?h) of Some _ \<Rightarrow> cache | None \<Rightarrow> dict_set (JInt n) (?h, ?ev) cache)"
  have ev: "cached_event cache (JInt n) (JStr ?h) = Some v \<Longrightarrow> v = ?ev" for v
    using L "2.prems"(2) by (auto simp: cached_event_def map_le_def dom_def split: option.splits prod.splits if_splits)
  have c1: "map_of cache1 \<subseteq>\<^sub>m map_of L"
    using "2.prems"(2) L by (auto simp: cache1_def map_of_dict_set map_le_def split: option.splits)
  obtain cache' where c': "replay P key fresh (Suc m) ?h cache1 (map Inr (chain_raws P (n + 1) ?h ss)) = (cache', Inr (map event_sorted es))"
    "map_of cache' \<subseteq>\<^sub>m map_of L"
    using "2.IH" [OF _ c1, of "Suc m"] "2.prems" by auto
  show ?case
  proof (cases "cached_event cache (JInt n) (JStr ?h)")
    case None
    with c' op wf show ?thesis by (auto simp: payload_event event_from_sorted Let_def cache1_def)
  next
    case (Some v)
    with c' ev wf show ?thesis by (auto simp: event_from_sorted Let_def cache1_def)
  qed
qed auto

subsection \<open>Preparing a batch\<close>

fun chain_jsons :: "prims \<Rightarrow> int \<Rightarrow> string \<Rightarrow> json list \<Rightarrow> json list" where
  "chain_jsons P n prev [] = []"
| "chain_jsons P n prev (s # ss) = rec_at P n prev s # chain_jsons P (n + 1) (record_hash P (JInt n) prev s) ss"

lemma length_chain_jsons [simp]: "length (chain_jsons P n prev ss) = length ss"
  by (induction ss arbitrary: n prev) auto

lemma batch_text_chain: "batch_text (chain_jsons P n prev ss) = chain_text P n prev ss"
  by (induction ss arbitrary: n prev) (simp_all add: batch_text_def)

lemma open_payload_seal:
  assumes "aead_opens P" "seal P nonce key (canonical (event_payload (JInt n) t e)) (record_aad (JInt n) prev) = Inr s" "wf_json (body e)"
  shows "open_payload P key (JInt n) prev s = Inr (sort_keys (event_payload (JInt n) t e))"
  using open_seal [OF assms(1,2)] assms(3) by (simp add: open_payload_def loads_canonical)

lemma prepare_seals:
  assumes "aead_opens P" "length key = KEY_LEN" "list_all (\<lambda>e. wf_json (body e)) es"
  shows "\<exists>ss. prepare P key env i n prev es = Inr (chain_jsons P n prev ss, n + int (length es), chain_head P n prev ss)
    \<and> sealed_log P key n prev ss es"
  using assms(3)
proof (induction es arbitrary: i n prev)
  case Nil
  have "sealed_log P key n prev [] []" by simp
  then show ?case by (intro exI [of _ "[]"]) simp
next
  case (Cons e es)
  obtain s where s: "seal P (nonces env i) key (canonical (event_payload (JInt n) (clock env i) e)) (record_aad (JInt n) prev) = Inr s"
    "wf_json s" using seal_ok [OF assms(2)] by blast
  obtain ss where ss: "prepare P key env (Suc i) (n + 1) (record_hash P (JInt n) prev s) es =
      Inr (chain_jsons P (n + 1) (record_hash P (JInt n) prev s) ss, n + 1 + int (length es),
           chain_head P (n + 1) (record_hash P (JInt n) prev s) ss)"
    "sealed_log P key (n + 1) (record_hash P (JInt n) prev s) ss es"
    using Cons.IH Cons.prems by fastforce
  have "sealed_log P key n prev (s # ss) (e # es)"
    using s ss(2) Cons.prems open_payload_seal [OF assms(1) s(1)] by auto
  moreover have "prepare P key env i n prev (e # es) =
      Inr (chain_jsons P n prev (s # ss), n + int (length (e # es)), chain_head P n prev (s # ss))"
    using s ss(1) by (simp add: Let_def rec_at_def)
  ultimately show ?case by blast
qed

subsection \<open>An intact store\<close>

text \<open>
  On disk: a readable header bound to the key, the chain of the sealed events, an authenticated head
  that commits exactly them, and whatever an interrupted write left behind. In a handle: the key of
  the vault, a commit it has observed that is a prefix of the chain, and a cache of decrypted events
  that agrees with it.
\<close>

definition vault_ok :: "prims \<Rightarrow> string \<Rightarrow> kdf_params \<Rightarrow> string \<Rightarrow> json list \<Rightarrow> event list \<Rightarrow> string \<Rightarrow> disk \<Rightarrow> bool" where
  "vault_ok P key k t ss es junk d \<longleftrightarrow>
     length key = KEY_LEN \<and> header_text_ok P key k t \<and> committed_disk P key t ss junk d \<and> sealed_log P key 0 GENESIS ss es"

definition handle_in :: "prims \<Rightarrow> string \<Rightarrow> kdf_params \<Rightarrow> json list \<Rightarrow> event list \<Rightarrow> handle \<Rightarrow> bool" where
  "handle_in P key k ss es h \<longleftrightarrow>
     handle_ok P key k ss h \<and> map_of (decrypted_events h) \<subseteq>\<^sub>m map_of (decrypted P 0 GENESIS ss es)"

definition cleaned :: "prims \<Rightarrow> string \<Rightarrow> json list \<Rightarrow> disk \<Rightarrow> disk" where
  "cleaned P t ss d = d\<lparr>log_file := Some (t @ [NL] @ chain_text P 0 GENESIS ss)\<rparr>"

lemma vault_ok_cleaned: "vault_ok P key k t ss es junk d \<Longrightarrow> vault_ok P key k t ss es [] (cleaned P t ss d)"
  by (simp add: vault_ok_def committed_disk_def cleaned_def)

lemma vault_ok_wf: "vault_ok P key k t ss es junk d \<Longrightarrow> list_all wf_json ss \<and> length ss = length es"
  using sealed_log_wf by (auto simp: vault_ok_def)

lemma observed_whole [simp]: "observed_ok P ss (Some (int (length ss), chain_head P 0 GENESIS ss))"
  by (simp add: observed_ok_def)

lemma at_tail_in: "handle_in P key k ss es h \<Longrightarrow> handle_in P key k ss es (at_tail P t ss h)"
  by (simp add: handle_in_def handle_ok_def at_tail_def)

lemma observed_ok_extend: "observed_ok P ss pre \<Longrightarrow> observed_ok P (ss @ ts) pre"
  by (auto simp: observed_ok_def split: option.splits)

lemma handle_in_extend:
  assumes "handle_in P key k ss es h" "length ss = length es"
  shows "handle_in P key k (ss @ ts) (es @ fs) h"
  using assms map_le_trans [OF _ decrypted_grows [OF assms(2)]] observed_ok_extend
  by (auto simp: handle_in_def handle_ok_def)

lemma synchronized_in:
  assumes "vault_ok P key k t ss es junk d" "handle_in P key k ss es h"
  shows "synchronized P d h = (cleaned P t ss d, at_tail P t ss h, Inr ())"
    and "reread_tail P d h = (cleaned P t ss d, at_tail P t ss h, Inr ())"
  using synchronized_ok reread_tail_ok assms vault_ok_wf [OF assms(1)] unfolding cleaned_def vault_ok_def handle_in_def by blast+

lemma distinct_decrypted: "distinct (map fst (decrypted P n prev ss es))"
proof (induction P n prev ss es rule: decrypted.induct)
  case (1 P n prev s ss e es)
  have "JInt n \<notin> fst ` set (decrypted P (n + 1) (record_hash P (JInt n) prev s) ss es)"
    using decrypted_keys [of "JInt n" P "n + 1"] by force
  with 1 show ?case by simp
qed auto

lemma events_unlocked_in:
  assumes "vault_ok P key k t ss es [] d" "handle_in P key k ss es h" "h_count h = int (length ss)"
  shows "\<exists>c. events_unlocked P fresh d h = (h\<lparr>decrypted_events := c\<rparr>, Inr (map event_sorted es))
    \<and> handle_in P key k ss es (h\<lparr>decrypted_events := c\<rparr>)"
proof -
  have h: "h_key h = key" "\<not> write_failed h" using assms(2) by (auto simp: handle_in_def handle_ok_def)
  have "iter_raw d (Some (h_count h)) = map Inr (chain_raws P 0 GENESIS ss)"
    using assms vault_ok_wf [OF assms(1)] by (intro iter_raw_chain) (auto simp: vault_ok_def committed_disk_def)
  moreover obtain c where "replay P key fresh 0 GENESIS (decrypted_events h) (map Inr (chain_raws P 0 GENESIS ss)) = (c, Inr (map event_sorted es))"
    "map_of c \<subseteq>\<^sub>m map_of (decrypted P 0 GENESIS ss es)"
    using replay_sealed [of P key 0 GENESIS ss es "decrypted_events h" "decrypted P 0 GENESIS ss es"] assms(1,2) distinct_decrypted
    by (fastforce simp: vault_ok_def handle_in_def map_of_is_SomeI)
  ultimately show ?thesis using h assms(2)
    by (auto simp: events_unlocked_def handle_in_def handle_ok_def)
qed

lemma ready_in: "handle_in P key k ss es h \<Longrightarrow> ready h = Inr ()"
  by (simp add: ready_def refuse_decision_reentry_def refuse_observer_reentry_def handle_in_def handle_ok_def)

lemma at_tail_simps [simp]:
  "h_count (at_tail P t ss h) = int (length ss)" "last_hash (at_tail P t ss h) = chain_head P 0 GENESIS ss"
  "h_size (at_tail P t ss h) = int (length (t @ [NL] @ chain_text P 0 GENESIS ss))" "head_required (at_tail P t ss h)"
  "committed_head (at_tail P t ss h) = Some (int (length ss), chain_head P 0 GENESIS ss)" "h_key (at_tail P t ss h) = h_key h"
  by (simp_all add: at_tail_def)

lemma snapshot_in:
  assumes "vault_ok P key k t ss es junk d" "handle_in P key k ss es h"
  shows "\<exists>h'. snapshot_events_with_identity P fresh d h =
      (cleaned P t ss d, h', Inr (map event_sorted es, Some (int (length es)), Some (chain_head P 0 GENESIS ss), log_size (cleaned P t ss d)))
    \<and> handle_in P key k ss es h'"
  using events_unlocked_in [OF vault_ok_cleaned [OF assms(1)] at_tail_in [OF assms(2)], of t fresh] vault_ok_wf [OF assms(1)]
  by (auto simp: snapshot_events_with_identity_def ready_in [OF assms(2)] synchronized_in [OF assms] cached_identity_def
      cleaned_def log_size_def)

subsection \<open>Writing a batch\<close>

lemma committed_extend:
  "log_file d = Some (t @ [NL] @ chain_text P 0 GENESIS ss) \<Longrightarrow>
   committed_disk P key t (ss @ ts) [] (write_head P key (int (length ss) + int (length ts)) (chain_head P (int (length ss)) (chain_head P 0 GENESIS ss) ts)
     (add_bytes (chain_text P (int (length ss)) (chain_head P 0 GENESIS ss) ts) d))"
  by (simp add: committed_disk_def write_head_def add_bytes_def chain_append)

text \<open>However the write of a batch ends, the disk commits the old events or the old and all of the new ones.\<close>

definition installs :: "write_io \<Rightarrow> bool" where
  "installs io = (case io of Completed \<Rightarrow> True | Batch_Cut _ \<Rightarrow> False | Head_Failed b \<Rightarrow> b)"

lemma write_batch_outcome:
  assumes v: "vault_ok P key k t ss es [] d" and s: "sealed_log P key (int (length ss)) (chain_head P 0 GENESIS ss) ts new"
    and w: "write_batch P key io (int (length (t @ [NL] @ chain_text P 0 GENESIS ss)))
      (chain_text P (int (length ss)) (chain_head P 0 GENESIS ss) ts)
      (int (length ss) + int (length ts)) (chain_head P (int (length ss)) (chain_head P 0 GENESIS ss) ts) d = (d', r)"
  shows "if installs io then vault_ok P key k t (ss @ ts) (es @ new) [] d' \<and> (r = Inr () \<longleftrightarrow> io = Completed)
    else (\<exists>n. vault_ok P key k t ss es (take n (chain_text P (int (length ss)) (chain_head P 0 GENESIS ss) ts)) d') \<and> r \<noteq> Inr ()"
proof -
  let ?c = "chain_text P (int (length ss)) (chain_head P 0 GENESIS ss) ts"
  have lg: "log_file d = Some (t @ [NL] @ chain_text P 0 GENESIS ss)" using v by (simp add: vault_ok_def committed_disk_def)
  have sz: "log_size (add_bytes ?c d) = int (length (t @ [NL] @ chain_text P 0 GENESIS ss)) + int (length ?c)"
    using lg by (simp add: log_size_def add_bytes_def)
  have new: "vault_ok P key k t (ss @ ts) (es @ new) [] (write_head P key (int (length ss) + int (length ts))
      (chain_head P (int (length ss)) (chain_head P 0 GENESIS ss) ts) (add_bytes ?c d))"
    using v s committed_extend [OF lg] sealed_log_append by (auto simp: vault_ok_def)
  have old: "vault_ok P key k t ss es (take n ?c) (add_bytes (take n ?c) d)" for n
    using v by (simp add: vault_ok_def committed_disk_def add_bytes_def)
  show ?thesis
  proof (cases io)
    case Completed
    with w sz new show ?thesis by (auto simp: write_batch_def installs_def Let_def)
  next
    case (Batch_Cut n)
    with w old [of n] show ?thesis by (auto simp: write_batch_def installs_def)
  next
    case (Head_Failed b)
    have "\<exists>n. vault_ok P key k t ss es (take n ?c) (add_bytes ?c d)" using old [of "length ?c"] by (intro exI [of _ "length ?c"]) simp
    with Head_Failed w sz new show ?thesis by (auto simp: write_batch_def installs_def Let_def split: if_splits)
  qed
qed


subsection \<open>Append\<close>

lemma commit_batch_in:
  assumes "aead_opens P" "vault_ok P key k t ss es [] d" "handle_in P key k ss es h"
    and tail: "h_count h = int (length ss)" "last_hash h = chain_head P 0 GENESIS ss"
      "h_size h = int (length (t @ [NL] @ chain_text P 0 GENESIS ss))"
    and new: "list_all (\<lambda>e. wf_json (body e)) new"
  shows "\<exists>d' h' r ts. commit_batch P env new d h = (d', h', r)
    \<and> (if installs (batch_io env) then vault_ok P key k t (ss @ ts) (es @ new) [] d' \<and> handle_in P key k (ss @ ts) (es @ new) h'
       else vault_ok P key k t ss es [] d' \<and> handle_in P key k ss es h')
    \<and> (if batch_io env = Completed then r = Inr (chain_jsons P (int (length ss)) (chain_head P 0 GENESIS ss) ts) else isl r)"
proof -
  have key: "length key = KEY_LEN" "h_key h = key" "\<not> write_failed h"
    using assms(2,3) by (auto simp: vault_ok_def handle_in_def handle_ok_def)
  obtain ts where ts: "prepare P key env 0 (int (length ss)) (chain_head P 0 GENESIS ss) new =
      Inr (chain_jsons P (int (length ss)) (chain_head P 0 GENESIS ss) ts, int (length ss) + int (length new),
           chain_head P (int (length ss)) (chain_head P 0 GENESIS ss) ts)"
    "sealed_log P key (int (length ss)) (chain_head P 0 GENESIS ss) ts new"
    using prepare_seals [OF assms(1) key(1) new] by blast
  have len: "length ts = length new" "length ss = length es" using sealed_log_wf [OF ts(2)] vault_ok_wf [OF assms(2)] by auto
  obtain d1 r where w: "write_batch P key (batch_io env) (int (length (t @ [NL] @ chain_text P 0 GENESIS ss)))
      (chain_text P (int (length ss)) (chain_head P 0 GENESIS ss) ts) (int (length ss) + int (length ts))
      (chain_head P (int (length ss)) (chain_head P 0 GENESIS ss) ts) d = (d1, r)" by fastforce
  note out = write_batch_outcome [OF assms(2) ts(2) w]
  have ext: "handle_in P key k (ss @ ts) (es @ new) h" using handle_in_extend [OF assms(3) len(2)] .
  have c: "commit_batch P env new d h =
     (case r of Inl e \<Rightarrow> (case reread_tail P d1 h of
                  (d2, h2, Inl _) \<Rightarrow> (d2, h2\<lparr>write_failed := True\<rparr>, Inl e)
                | (d2, h2, Inr _) \<Rightarrow> (d2, h2\<lparr>write_failed := False\<rparr>, Inl e))
      | Inr _ \<Rightarrow> (d1, h\<lparr>h_count := int (length ss) + int (length new), last_hash := chain_head P (int (length ss)) (chain_head P 0 GENESIS ss) ts,
                     h_size := log_size d1, committed_head := Some (int (length ss) + int (length new),
                       chain_head P (int (length ss)) (chain_head P 0 GENESIS ss) ts)\<rparr>,
                   Inr (chain_jsons P (int (length ss)) (chain_head P 0 GENESIS ss) ts)))"
    using ts(1) w by (simp add: commit_batch_def key tail batch_text_chain len split: sum.splits)
  show ?thesis
  proof (cases "batch_io env = Completed")
    case True
    have "observed_ok P (ss @ ts) (Some (int (length ss) + int (length new), chain_head P (int (length ss)) (chain_head P 0 GENESIS ss) ts))"
      using observed_whole [of P "ss @ ts"] by (simp add: chain_append len)
    with True out c ext show ?thesis by (auto simp: installs_def handle_in_def handle_ok_def)
  next
    case False
    then obtain e where r: "r = Inl e" using out by (cases r) (auto split: if_splits)
    have f: "(at_tail P t zs h)\<lparr>write_failed := False\<rparr> = at_tail P t zs h" for zs using key(3) by (simp add: at_tail_def)
    show ?thesis
    proof (cases "installs (batch_io env)")
      case True
      with out have v: "vault_ok P key k t (ss @ ts) (es @ new) [] d1" by simp
      show ?thesis using c r False True synchronized_in(2) [OF v ext] vault_ok_cleaned [OF v] at_tail_in [OF ext] f by auto
    next
      case no: False
      with out obtain n where v: "vault_ok P key k t ss es (take n (chain_text P (int (length ss)) (chain_head P 0 GENESIS ss) ts)) d1" by auto
      show ?thesis using c r False no synchronized_in(2) [OF v assms(3)] vault_ok_cleaned [OF v] at_tail_in [OF assms(3)] f by auto
    qed
  qed
qed

lemma append_atomically_in:
  assumes "aead_opens P" "vault_ok P key k t ss es junk d" "handle_in P key k ss es h"
    and "decide (map event_sorted es) = Inr new" "list_all (\<lambda>e. wf_json (body e)) new" "new \<noteq> []"
  shows "\<exists>d' h' r ts. append_atomically P env fresh decide d h = (d', h', r)
    \<and> (if installs (batch_io env) then vault_ok P key k t (ss @ ts) (es @ new) [] d' \<and> handle_in P key k (ss @ ts) (es @ new) h'
       else vault_ok P key k t ss es [] d' \<and> handle_in P key k ss es h')
    \<and> (if batch_io env = Completed then r = Inr (chain_jsons P (int (length ss)) (chain_head P 0 GENESIS ss) ts) else isl r)"
proof -
  obtain c where c: "events_unlocked P fresh (cleaned P t ss d) (at_tail P t ss h) = ((at_tail P t ss h)\<lparr>decrypted_events := c\<rparr>, Inr (map event_sorted es))"
    "handle_in P key k ss es ((at_tail P t ss h)\<lparr>decrypted_events := c\<rparr>)"
    using events_unlocked_in [OF vault_ok_cleaned [OF assms(2)] at_tail_in [OF assms(3)], of t] by auto
  have "append_atomically P env fresh decide d h = commit_batch P env new (cleaned P t ss d) ((at_tail P t ss h)\<lparr>decrypted_events := c\<rparr>)"
    using assms(4,6) c(1) by (cases new) (auto simp: append_atomically_def ready_in [OF assms(3)] synchronized_in [OF assms(2,3)] migrate_legacy_def)
  then show ?thesis
    using commit_batch_in [OF assms(1) vault_ok_cleaned [OF assms(2)] c(2) _ _ _ assms(5)] by simp
qed

lemma append_nothing_in:
  assumes "vault_ok P key k t ss es junk d" "handle_in P key k ss es h" "decide (map event_sorted es) = Inr [] \<or> isl (decide (map event_sorted es))"
  shows "\<exists>h'. append_atomically P env fresh decide d h = (cleaned P t ss d, h', bindR (decide (map event_sorted es)) (\<lambda>_. Inr []))
    \<and> handle_in P key k ss es h'"
proof -
  obtain c where c: "events_unlocked P fresh (cleaned P t ss d) (at_tail P t ss h) = ((at_tail P t ss h)\<lparr>decrypted_events := c\<rparr>, Inr (map event_sorted es))"
    "handle_in P key k ss es ((at_tail P t ss h)\<lparr>decrypted_events := c\<rparr>)"
    using events_unlocked_in [OF vault_ok_cleaned [OF assms(1)] at_tail_in [OF assms(2)], of t] by auto
  then show ?thesis
    using assms(3) by (cases "decide (map event_sorted es)")
      (auto simp: append_atomically_def ready_in [OF assms(2)] synchronized_in [OF assms(1,2)])
qed

end
