(* ===== verification/Event_Store_Contract.thy ===== *)
theory Event_Store_Contract
  imports Event_Store_Recovery
begin

text \<open>
  The contract of the event log: opening and reopening, atomic appends, durable and append-only reads,
  for one handle and for a sequence of writes under any write conditions. Clients see the log through the locale \<open>event_log\<close>, which the store implements.
\<close>

subsection \<open>Opening\<close>

lemma last_line_after: "NL \<notin> set (butlast u) \<Longrightarrow> u \<noteq> [] \<Longrightarrow> last_line (y @ NL # u) = u"
proof -
  assume u: "NL \<notin> set (butlast u)" "u \<noteq> []"
  then have "takeWhile (\<lambda>c. c \<noteq> NL) (rev (butlast u) @ NL # rev y) = rev (butlast u)"
    by (simp add: takeWhile_append takeWhile_tail)
  then show ?thesis using u by (simp add: last_line_def butlast_append)
qed

lemma last_line_cut:
  assumes "list_all wf_json ss" "take n (chain_text P m prev ss) \<noteq> []"
  shows "\<exists>i p s b. wf_json s \<and> last_line (y @ NL # take n (chain_text P m prev ss)) @ b = record_line (rec_at P i p s)"
  using assms
proof (induction ss arbitrary: n m prev y)
  case (Cons s ss)
  let ?R = "record_line (rec_at P m prev s)" and ?D = "dumps_default (rec_at P m prev s)"
  have nl: "NL \<notin> set ?D" using Cons.prems(1) dumps_default_no_nl by auto
  show ?case
  proof (cases "n \<le> length ?R")
    case True
    then have "butlast (take n ?R) = take (n - 1) ?R" by (simp add: butlast_take)
    also have "\<dots> = take (n - 1) ?D" using True by (simp add: record_line_def)
    finally have "butlast (take n ?R) = take (n - 1) ?D" .
    then have "NL \<notin> set (butlast (take n ?R))" using nl by (metis in_set_takeD)
    moreover have "take n ?R \<noteq> []" using Cons.prems(2) True by auto
    ultimately have "last_line (y @ NL # take n (chain_text P m prev (s # ss))) @ drop n ?R = ?R"
      using last_line_after True by simp
    then show ?thesis using Cons.prems(1) by auto
  next
    case False
    then have "y @ NL # take n (chain_text P m prev (s # ss)) =
        (y @ NL # ?D) @ NL # take (n - length ?R) (chain_text P (m + 1) (record_hash P (JInt m) prev s) ss)"
      by (simp add: record_line_def take_Cons')
    note cut = this
    show ?thesis
    proof (cases "take (n - length ?R) (chain_text P (m + 1) (record_hash P (JInt m) prev s) ss) = []")
      case True
      then have "y @ NL # take n (chain_text P m prev (s # ss)) = y @ NL # ?R" using False by simp
      then have "last_line (y @ NL # take n (chain_text P m prev (s # ss))) = ?R"
        using last_line_after [of ?R y] nl by (simp add: record_line_def)
      then show ?thesis using Cons.prems(1) by (metis append_Nil2 list.pred_inject(2))
    next
      case no: False
      then show ?thesis
        unfolding cut using Cons.prems(1) by (intro Cons.IH) auto
    qed
  qed
qed simp

lemma loads_cut_record:
  assumes "u @ b = record_line (rec_at P i p s)" "wf_json s" "loads u = Inr v"
  shows "\<exists>fs. v = JObj fs"
proof (cases b rule: rev_cases)
  case Nil
  then have "loads u = Inr (rec_at P i p s)"
    using assms(1,2) loads_obj_ws [of _ "'' ''" "[NL]"] wf_rec_at [OF assms(2), of P i p]
    by (simp add: record_line_def rec_at_def record_json_def del: dumpsP.simps wf_rec_at)
  then show ?thesis using assms(3) by (simp add: rec_at_def record_json_def)
next
  case (snoc b' x)
  then have "dumps_default (rec_at P i p s) = u @ b'" using assms(1) by (auto simp: record_line_def)
  moreover obtain fs where "rec_at P i p s = JObj fs" by (simp add: rec_at_def record_json_def)
  ultimately have "u = dumps_default (rec_at P i p s)"
    using loads_prefix [of fs "'' ''" u b' v] wf_rec_at [OF assms(2), of P i p] assms(3) by simp
  then have "loads u = Inr (rec_at P i p s)" using loads_dumps_default assms(2) by simp
  then show ?thesis using assms(3) by (simp add: rec_at_def record_json_def)
qed

lemma fast_boundary_of_cut:
  assumes "list_all wf_json ss" "take n (chain_text P 0 GENESIS ss) \<noteq> [] \<or> cnt = 0"
  shows "\<exists>r. fast_committed_boundary P (t @ NL # take n (chain_text P 0 GENESIS ss)) cnt h = Inr r"
proof (cases "cnt = 0")
  case True
  then show ?thesis by (auto simp: fast_committed_boundary_def split: prod.splits)
next
  case False
  then obtain i p s b where "wf_json s" "last_line (t @ NL # take n (chain_text P 0 GENESIS ss)) @ b = record_line (rec_at P i p s)"
    using last_line_cut [OF assms(1)] assms(2) by blast
  then have "\<exists>fs. v = JObj fs" if "loads (last_line (t @ NL # take n (chain_text P 0 GENESIS ss))) = Inr v" for v
    using loads_cut_record that by blast
  then show ?thesis using False unfolding fast_committed_boundary_def
    by (fastforce split: sum.split json.split option.split)
qed

lemma fast_boundary_end: "fast_committed_boundary P lg cnt h = Inr (Some f) \<Longrightarrow> f = int (length lg)"
  by (auto simp: fast_committed_boundary_def split: if_splits prod.splits sum.splits json.splits option.splits)

lemma open_header_ok:
  assumes "header_text_ok P key k t" "derive_key P passphrase k = Inr key"
  obtains fs kj where "loads (t @ [NL]) = Inr (JObj fs)" "open_vault_header P (JObj fs) passphrase = Inr key"
    "header_requires_head (JObj fs) = Inr True" "jitem (JObj fs) ''kdf'' = Inr kj" "kdf_from_dict kj = Inr k"
proof -
  from assms(1) obtain fs kj where h: "loads (t @ [NL]) = Inr (JObj fs)" "verify_vault_header P (JObj fs) key = Inr HEAD_BOUND_HEADER_VERSION"
    "map_of fs ''v'' = Some (JStr HEAD_BOUND_HEADER_VERSION)" "map_of fs ''head'' = None" "map_of fs ''kdf'' = Some kj" "kdf_from_dict kj = Inr k"
    by (auto simp: header_text_ok_def)
  show ?thesis by (rule that [of fs kj]) (use h assms(2) in \<open>simp_all add: open_vault_header_def header_requires_head_def\<close>)
qed

lemma open_store_in:
  assumes "vault_ok P key k t ss es junk d" "derive_key P passphrase k = Inr key"
    and fast: "fast_committed_boundary P (t @ [NL] @ chain_text P 0 GENESIS ss @ junk) (int (length ss)) (chain_head P 0 GENESIS ss) = Inr f"
  shows "\<exists>d' h junk'. open_store P slt nonce passphrase d = Inr (d', h) \<and> vault_ok P key k t ss es junk' d' \<and> handle_in P key k ss es h
    \<and> (junk' = [] \<or> junk' = junk)"
proof -
  have lg: "log_file d = Some (t @ [NL] @ chain_text P 0 GENESIS ss @ junk)"
    and hd: "authenticated_head P d key True = Inr (Some (int (length ss), chain_head P 0 GENESIS ss))"
    and hk: "header_text_ok P key k t" and t: "NL \<notin> set t" "CHR 0x0D \<notin> set t" "strip (t @ [NL]) \<noteq> []"
    and cd: "committed_disk P key t ss junk d"
    using assms(1) by (auto simp: vault_ok_def committed_disk_def authenticated_head_text header_text_ok_def)
  obtain fs kj where h: "loads (t @ [NL]) = Inr (JObj fs)" "open_vault_header P (JObj fs) passphrase = Inr key"
    "header_requires_head (JObj fs) = Inr True" "jitem (JObj fs) ''kdf'' = Inr kj" "kdf_from_dict kj = Inr k"
    using open_header_ok [OF hk assms(2)] .
  have oa: "open_append d = d" using lg by (simp add: open_append_def)
  have line: "\<exists>ls. split_lines [] (universal_newlines (t @ [NL] @ chain_text P 0 GENESIS ss @ junk)) = (t @ [NL]) # ls"
    using universal_newlines_line [OF t(2)] split_lines_line [OF t(1), of "[]"] by simp
  have "\<exists>junk' d' fin. recovered_boundary P d key True = Inr (Some (int (length ss), chain_head P 0 GENESIS ss, fin), d') \<and> vault_ok P key k t ss es junk' d'
      \<and> (junk' = [] \<or> junk' = junk)"
  proof (cases f)
    case None
    have "recovered_boundary P d key True = Inr (Some (int (length ss), chain_head P 0 GENESIS ss, int (length (t @ [NL] @ chain_text P 0 GENESIS ss))), cleaned P t ss d)"
      unfolding recovered_boundary_def cleaned_def
      using hd lg fast None oa recover_committed [OF cd t(1), of None True] vault_ok_wf [OF assms(1)] by (simp add: observed_ok_def)
    then show ?thesis using vault_ok_cleaned [OF assms(1)] by blast
  next
    case (Some fin)
    then show ?thesis using hd lg fast assms(1) by (auto simp: recovered_boundary_def)
  qed
  then obtain junk' d' fin where rb: "recovered_boundary P d key True = Inr (Some (int (length ss), chain_head P 0 GENESIS ss, fin), d')"
    and v': "vault_ok P key k t ss es junk' d'" and junk': "junk' = [] \<or> junk' = junk" by blast
  have hd': "authenticated_head P d' key True = Inr (Some (int (length ss), chain_head P 0 GENESIS ss))"
    using v' by (auto simp: vault_ok_def committed_disk_def authenticated_head_text)
  let ?h = "(new_handle key k (int (length ss)) (chain_head P 0 GENESIS ss) fin)\<lparr>head_required := True,
      committed_head := Some (int (length ss), chain_head P 0 GENESIS ss)\<rparr>"
  have "open_store P slt nonce passphrase d = Inr (d', ?h)"
    using line lg t(3) h rb hd' by (auto simp: open_store_def init_handle_def check_head_def new_handle_def simp del: jitem.simps)
  moreover have "handle_in P key k ss es ?h" by (simp add: handle_in_def handle_ok_def new_handle_def)
  ultimately show ?thesis using v' junk' by blast
qed

lemma strip_padded: "list_all is_space pad \<Longrightarrow> strip (CHR ''{'' # s @ CHR ''}'' # pad) = CHR ''{'' # s @ ''}''"
proof -
  assume "list_all is_space pad"
  then have "dropWhile is_space (rev pad @ CHR ''}'' # rev s @ ''{'') = CHR ''}'' # rev s @ ''{''"
    by (subst dropWhile_append2) (auto simp: list_all_iff is_space_def)
  then show ?thesis by (simp add: strip_def strip_by_def lstrip_by_def rstrip_by_def) (simp add: is_space_def)
qed

lemma dumps_obj: "\<exists>s. dumpsP sp (JObj fs) = CHR ''{'' # s @ ''}''"
  by simp

text \<open>A header line this build writes: the dump of the header, then padding.\<close>

lemma header_text_own:
  assumes "aead_opens P" "header_check_aad (Some (JStr HEAD_BOUND_HEADER_VERSION)) = Inr aad" "seal P nonce key CHECK_TOKEN aad = Inr check"
    and sp: "sp = [] \<or> sp = '' ''"
  shows "header_text_ok P key k (dumpsP sp (vault_header HEAD_BOUND_HEADER_VERSION k check) @ replicate n (CHR '' ''))"
proof -
  let ?H = "vault_header HEAD_BOUND_HEADER_VERSION k check" and ?pad = "replicate n (CHR '' '')"
  have w: "wf_json ?H" using assms(3) by (auto simp: vault_header_def kdf_to_dict_def seal_def res_iffs)
  obtain fs where fs: "?H = JObj fs" by (simp add: vault_header_def)
  have sws: "list_all json_ws sp" using sp by auto
  have ld: "loads (dumpsP sp ?H @ ws) = Inr ?H" if "list_all json_ws ws" for ws
    using loads_obj_ws [OF w [unfolded fs] sws that] fs by simp
  have "NL \<notin> set (dumpsP sp ?H) \<and> CHR 0x0D \<notin> set (dumpsP sp ?H)" using sp dumps_default_no_nl [OF w] dumps_no_nl [OF w] by auto
  moreover have "strip (dumpsP sp ?H @ ?pad @ [NL]) \<noteq> []"
  proof -
    obtain s where "dumpsP sp ?H = CHR ''{'' # s @ ''}''" using dumps_obj fs by metis
    moreover have "list_all is_space (?pad @ [NL])" by (auto simp: list_all_iff is_space_def NL_def)
    ultimately show ?thesis using strip_padded [of "?pad @ [NL]" s] by simp
  qed
  moreover have "loads (dumpsP sp ?H @ ?pad) = Inr ?H" "loads (dumpsP sp ?H @ ?pad @ [NL]) = Inr ?H"
    by (rule ld, simp add: list_all_iff)+
  moreover have "verify_vault_header P ?H key = Inr HEAD_BOUND_HEADER_VERSION"
    using verify_own_header [OF assms(1-3)] .
  ultimately show ?thesis
    by (auto simp: header_text_ok_def NL_def vault_header_def simp del: dumpsP.simps)
qed

lemma open_new_store_in:
  assumes "aead_opens P" "derive_key P passphrase (kdf_new slt) = Inr key" "length key = KEY_LEN" "log_file d = None"
  shows "\<exists>d' h t. open_store P slt nonce passphrase d = Inr (d', h)
    \<and> vault_ok P key (kdf_new slt) t [] [] [] d' \<and> handle_in P key (kdf_new slt) [] [] h"
proof -
  obtain aad where aad: "header_check_aad (Some (JStr HEAD_BOUND_HEADER_VERSION)) = Inr aad"
    using versions_differ by (simp add: header_check_aad_def)
  obtain check where c: "seal P nonce key CHECK_TOKEN aad = Inr check" using seal_ok [OF assms(3)] by blast
  let ?H = "vault_header HEAD_BOUND_HEADER_VERSION (kdf_new slt) check" and ?k = "kdf_new slt"
  have nh: "new_vault_header P slt nonce passphrase HEAD_BOUND_HEADER_VERSION = Inr (?H, key)"
    using aad c assms(2) by (simp add: new_vault_header_def vault_header_def)
  have ht: "header_text_ok P key ?k (dumps_default ?H)" using header_text_own [OF assms(1) aad c, of "'' ''" ?k 0] by simp
  let ?d = "d\<lparr>log_file := Some (dumps_default ?H @ [NL])\<rparr>"
  have raw: "iter_raw ?d None = []" using iter_raw_chain [OF ht, of "[]" ?d None] by simp
  have jk: "jitem ?H ''kdf'' = Inr (kdf_to_dict ?k)" by (simp add: vault_header_def)
  have "open_store P slt nonce passphrase d = Inr (write_head P key 0 GENESIS ?d,
      (new_handle key ?k 0 GENESIS (log_size ?d))\<lparr>head_required := True, committed_head := Some (0, GENESIS)\<rparr>)"
    unfolding open_store_def assms(4) option.case nh bindR_simps prod.case Let_def jk kdf_from_to init_handle_def raw raw_tail.simps
    by (simp add: new_handle_def)
  moreover have "vault_ok P key ?k (dumps_default ?H) [] [] [] (write_head P key 0 GENESIS ?d)"
    using ht assms(3) by (simp add: vault_ok_def committed_disk_def write_head_def)
  moreover have "handle_in P key ?k [] [] ((new_handle key ?k 0 GENESIS (log_size ?d))\<lparr>head_required := True, committed_head := Some (0, GENESIS)\<rparr>)"
    by (simp add: handle_in_def handle_ok_def new_handle_def observed_ok_def)
  ultimately show ?thesis by blast
qed

subsection \<open>A process dying inside an append\<close>

text \<open>The disk when the process dies while the batch or its head is being written: no recovery runs.\<close>

definition interrupted_append ::
    "prims \<Rightarrow> append_env \<Rightarrow> (nat \<Rightarrow> string) \<Rightarrow> event list \<Rightarrow> disk \<Rightarrow> handle \<Rightarrow> disk" where
  "interrupted_append P env fresh new d h =
     (case synchronized P d h of (d1, h1, _) \<Rightarrow>
        (case prepare P (h_key h1) env 0 (h_count h1) (last_hash h1) new of
           Inl _ \<Rightarrow> d1
         | Inr (records, cnt, hash) \<Rightarrow>
             fst (write_batch P (h_key h1) (batch_io env) (h_size h1) (batch_text records) cnt hash d1)))"

lemma interrupted_append_in:
  assumes "aead_opens P" "vault_ok P key k t ss es junk d" "handle_in P key k ss es h" "list_all (\<lambda>e. wf_json (body e)) new"
  shows "\<exists>ts. if installs (batch_io env) then vault_ok P key k t (ss @ ts) (es @ new) [] (interrupted_append P env fresh new d h)
    else \<exists>n. vault_ok P key k t ss es (take n (chain_text P (int (length ss)) (chain_head P 0 GENESIS ss) ts)) (interrupted_append P env fresh new d h)
           \<and> list_all wf_json ts"
proof -
  have key: "length key = KEY_LEN" "h_key h = key" using assms(2,3) by (auto simp: vault_ok_def handle_in_def handle_ok_def)
  obtain ts where ts: "prepare P key env 0 (int (length ss)) (chain_head P 0 GENESIS ss) new =
      Inr (chain_jsons P (int (length ss)) (chain_head P 0 GENESIS ss) ts, int (length ss) + int (length new),
           chain_head P (int (length ss)) (chain_head P 0 GENESIS ss) ts)"
    "sealed_log P key (int (length ss)) (chain_head P 0 GENESIS ss) ts new"
    using prepare_seals [OF assms(1) key(1) assms(4)] by blast
  have len: "length new = length ts" "list_all wf_json ts" using sealed_log_wf [OF ts(2)] by auto
  obtain d1 r where w: "write_batch P key (batch_io env) (int (length (t @ [NL] @ chain_text P 0 GENESIS ss)))
      (chain_text P (int (length ss)) (chain_head P 0 GENESIS ss) ts) (int (length ss) + int (length ts))
      (chain_head P (int (length ss)) (chain_head P 0 GENESIS ss) ts) (cleaned P t ss d) = (d1, r)" by fastforce
  have "interrupted_append P env fresh new d h = d1"
    using ts(1) w by (simp add: interrupted_append_def synchronized_in [OF assms(2,3)] key batch_text_chain len)
  then show ?thesis using write_batch_outcome [OF vault_ok_cleaned [OF assms(2)] ts(2) w] len(2) by (auto split: if_splits)
qed

lemma fast_boundary_cut_junk:
  assumes "list_all wf_json ss" "list_all wf_json ts"
  shows "\<exists>r. fast_committed_boundary P (t @ [NL] @ chain_text P 0 GENESIS ss @ take n (chain_text P (int (length ss)) (chain_head P 0 GENESIS ss) ts))
    (int (length ss)) (chain_head P 0 GENESIS ss) = Inr r"
proof -
  let ?m = "length (chain_text P 0 GENESIS ss) + n"
  have "chain_text P 0 GENESIS ss @ take n (chain_text P (int (length ss)) (chain_head P 0 GENESIS ss) ts) = take ?m (chain_text P 0 GENESIS (ss @ ts))"
    by (simp add: chain_append)
  moreover have "take ?m (chain_text P 0 GENESIS (ss @ ts)) \<noteq> [] \<or> int (length ss) = 0"
    by (cases ss) (auto simp: record_line_def)
  ultimately show ?thesis using fast_boundary_of_cut [of "ss @ ts" ?m P "int (length ss)" t "chain_head P 0 GENESIS ss"] assms by simp
qed

lemma reopen_after_crash:
  assumes "aead_opens P" "vault_ok P key k t ss es junk d" "handle_in P key k ss es h" "list_all (\<lambda>e. wf_json (body e)) new"
    and "derive_key P passphrase k = Inr key"
  shows "\<exists>d' h' junk' ts. open_store P slt nonce passphrase (interrupted_append P env fresh new d h) = Inr (d', h')
    \<and> (if installs (batch_io env) then vault_ok P key k t (ss @ ts) (es @ new) junk' d' \<and> handle_in P key k (ss @ ts) (es @ new) h'
       else vault_ok P key k t ss es junk' d' \<and> handle_in P key k ss es h')"
proof (cases "installs (batch_io env)")
  case True
  then obtain ts where v: "vault_ok P key k t (ss @ ts) (es @ new) [] (interrupted_append P env fresh new d h)"
    using interrupted_append_in [OF assms(1-4), of env fresh] by auto
  then obtain r where "fast_committed_boundary P (t @ [NL] @ chain_text P 0 GENESIS (ss @ ts) @ []) (int (length (ss @ ts)))
      (chain_head P 0 GENESIS (ss @ ts)) = Inr r"
    using fast_boundary_cut_junk [of "ss @ ts" "[]" P t 0] vault_ok_wf [OF v] by auto
  from open_store_in [OF v assms(5) this, of slt nonce] True show ?thesis by auto
next
  case False
  then obtain ts n where v: "vault_ok P key k t ss es (take n (chain_text P (int (length ss)) (chain_head P 0 GENESIS ss) ts))
      (interrupted_append P env fresh new d h)" and ts: "list_all wf_json ts"
    using interrupted_append_in [OF assms(1-4), of env fresh] by auto
  obtain r where "fast_committed_boundary P (t @ [NL] @ chain_text P 0 GENESIS ss @ take n (chain_text P (int (length ss)) (chain_head P 0 GENESIS ss) ts))
      (int (length ss)) (chain_head P 0 GENESIS ss) = Inr r"
    using fast_boundary_cut_junk ts vault_ok_wf [OF v] by blast
  from open_store_in [OF v assms(5) this, of slt nonce] False show ?thesis by auto
qed

subsection \<open>The contract\<close>

definition store_ok :: "prims \<Rightarrow> string \<Rightarrow> event list \<Rightarrow> disk \<times> handle \<Rightarrow> bool" where
  "store_ok P passphrase es s \<longleftrightarrow>
     aead_opens P \<and>
     (\<exists>key k t ss junk. derive_key P passphrase k = Inr key \<and> vault_ok P key k t ss es junk (fst s) \<and> handle_in P key k ss es (snd s))"

lemma store_okI:
  "aead_opens P \<Longrightarrow> derive_key P passphrase k = Inr key \<Longrightarrow> vault_ok P key k t ss es junk d \<Longrightarrow> handle_in P key k ss es h
    \<Longrightarrow> store_ok P passphrase es (d, h)"
  unfolding store_ok_def fst_conv snd_conv by blast

lemma store_okE:
  assumes "store_ok P passphrase es (d, h)"
  obtains key k t ss junk where "aead_opens P" "derive_key P passphrase k = Inr key" "vault_ok P key k t ss es junk d" "handle_in P key k ss es h"
  using assms by (auto simp: store_ok_def)

text \<open>
  C5: every append to an intact store is all or nothing. When the write
  completes, exactly the records of all new events are returned and the log holds them after the old
  ones; when it fails at any byte, or the new head does, the append reports the failure and the log
  holds the old events alone, or all of them when the head had already been replaced. The store stays
  intact, so the handle remains usable.
\<close>

theorem append_is_all_or_nothing:
  assumes "store_ok P passphrase es (d, h)" "decide (map event_sorted es) = Inr new" "new \<noteq> []"
    and "list_all (\<lambda>e. wf_json (body e)) new" "append_atomically P env fresh decide d h = (d', h', r)"
  shows "store_ok P passphrase (if installs (batch_io env) then es @ new else es) (d', h')
    \<and> (if batch_io env = Completed then \<exists>records. r = Inr records \<and> length records = length new else isl r)"
proof -
  obtain key k t ss junk where i: "aead_opens P" "derive_key P passphrase k = Inr key"
    "vault_ok P key k t ss es junk d" "handle_in P key k ss es h" using assms(1) by (rule store_okE)
  from append_atomically_in [where decide = decide, OF i(1,3,4) assms(2,4,3), of env fresh] assms(5) obtain ts where
    a: "if installs (batch_io env) then vault_ok P key k t (ss @ ts) (es @ new) [] d' \<and> handle_in P key k (ss @ ts) (es @ new) h'
       else vault_ok P key k t ss es [] d' \<and> handle_in P key k ss es h'"
      "if batch_io env = Completed then r = Inr (chain_jsons P (int (length ss)) (chain_head P 0 GENESIS ss) ts) else isl r" by auto
  have "length ts = length new" if "batch_io env = Completed"
    using a(1) that vault_ok_wf vault_ok_wf [OF i(3)] by (fastforce simp: installs_def)
  with a i(1,2) show ?thesis by (auto intro!: store_okI split: if_splits)
qed

text \<open>
  C7: a snapshot of an intact store returns exactly the committed events, in order, and the number of
  them; it discards what an interrupted write left behind and leaves the store intact.
\<close>

theorem snapshot_returns_the_committed_events:
  assumes "store_ok P passphrase es (d, h)" "snapshot_events_with_identity P fresh d h = (d', h', r)"
  shows "\<exists>hash sz. r = Inr (map event_sorted es, Some (int (length es)), hash, sz) \<and> sz = log_size d' \<and> store_ok P passphrase es (d', h')"
proof -
  obtain key k t ss junk where i: "aead_opens P" "derive_key P passphrase k = Inr key"
    "vault_ok P key k t ss es junk d" "handle_in P key k ss es h" using assms(1) by (rule store_okE)
  obtain h2 where "snapshot_events_with_identity P fresh d h = (cleaned P t ss d, h2, Inr (map event_sorted es, Some (int (length es)),
      Some (chain_head P 0 GENESIS ss), log_size (cleaned P t ss d)))" "handle_in P key k ss es h2"
    using snapshot_in [OF i(3,4)] by blast
  then show ?thesis using assms(2) store_okI [OF i(1,2) vault_ok_cleaned [OF i(3)]] by auto
qed

text \<open>
  C4: whatever byte of an append a crash cuts, reopening the vault with its passphrase succeeds. The
  reopened store is intact and holds the old events, or all the old and new ones when the new head
  was already in place; never a part of the batch.
\<close>

theorem reopening_after_a_crash_succeeds:
  assumes "store_ok P passphrase es (d, h)" "list_all (\<lambda>e. wf_json (body e)) new"
  shows "\<exists>s. open_store P slt nonce passphrase (interrupted_append P env fresh new d h) = Inr s
    \<and> store_ok P passphrase (if installs (batch_io env) then es @ new else es) s"
proof -
  obtain key k t ss junk where i: "aead_opens P" "derive_key P passphrase k = Inr key"
    "vault_ok P key k t ss es junk d" "handle_in P key k ss es h" using assms(1) by (rule store_okE)
  from reopen_after_crash [OF i(1,3,4) assms(2) i(2), of slt nonce env fresh] store_okI [OF i(1,2)] show ?thesis
    by (cases "installs (batch_io env)") auto
qed

lemma open_creates_empty_store:
  assumes "aead_opens P" "derive_key P passphrase (kdf_new slt) = Inr key" "length key = KEY_LEN" "log_file d = None"
  shows "\<exists>s. open_store P slt nonce passphrase d = Inr s \<and> store_ok P passphrase [] s"
  using open_new_store_in [OF assms, of nonce] store_okI [OF assms(1,2)] by blast

subsection \<open>The log as an interface\<close>

text \<open>
  What a client of the event log relies on: reading returns the log; a batch is appended whole or not
  at all, and whole when it is acknowledged. The write conditions \<open>'w\<close> are beyond the control of the
  client.
\<close>

fun write_all :: "('w \<Rightarrow> 'b \<Rightarrow> 's \<Rightarrow> 's \<times> bool) \<Rightarrow> ('w \<times> 'b) list \<Rightarrow> 's \<Rightarrow> 's \<times> bool list" where
  "write_all f [] s = (s, [])"
| "write_all f ((w, b) # bs) s =
     (case f w b s of (s', a) \<Rightarrow> (case write_all f bs s' of (s2, as) \<Rightarrow> (s2, a # as)))"

locale event_log =
  fixes holds :: "'s \<Rightarrow> 'e list \<Rightarrow> bool"
    and read_log :: "'s \<Rightarrow> 's \<times> 'e list"
    and write_log :: "'w \<Rightarrow> 'b \<Rightarrow> 's \<Rightarrow> 's \<times> bool"
    and entries :: "'b \<Rightarrow> 'e list"
    and fits :: "'b \<Rightarrow> bool"
  assumes read_law: "holds s es \<Longrightarrow> snd (read_log s) = es \<and> holds (fst (read_log s)) es"
    and write_law: "holds s es \<Longrightarrow> fits b \<Longrightarrow> write_log w b s = (s', acked) \<Longrightarrow>
      holds s' (es @ entries b) \<or> \<not> acked \<and> holds s' es"
begin

lemma write_all_durable:
  assumes "holds s es" "list_all (\<lambda>x. fits (snd x)) bs" "write_all write_log bs s = (s', acks)"
  shows "\<exists>kept. length kept = length bs \<and> list_all2 (\<longrightarrow>) acks kept
    \<and> holds s' (es @ concat (map (\<lambda>x. entries (snd (fst x))) (filter snd (zip bs kept))))"
  using assms
proof (induction bs arbitrary: s es acks)
  case (Cons x bs)
  obtain w b where x: "x = (w, b)" by (cases x)
  obtain s1 a where w1: "write_log w b s = (s1, a)" by fastforce
  obtain as where all: "write_all write_log bs s1 = (s', as)" "acks = a # as"
    using Cons.prems(3) by (auto simp: x w1 split: prod.splits)
  have fits: "fits b" "list_all (\<lambda>x. fits (snd x)) bs" using Cons.prems(2) by (auto simp: x)
  from write_law [OF Cons.prems(1) fits(1) w1] show ?case
  proof
    assume "holds s1 (es @ entries b)"
    from Cons.IH [OF this fits(2) all(1)] obtain kept where "length kept = length bs" "list_all2 (\<longrightarrow>) as kept"
      "holds s' ((es @ entries b) @ concat (map (\<lambda>x. entries (snd (fst x))) (filter snd (zip bs kept))))" by blast
    then show ?thesis by (intro exI [of _ "True # kept"]) (simp add: x all(2))
  next
    assume a: "\<not> a \<and> holds s1 es"
    from Cons.IH [OF conjunct2 [OF a] fits(2) all(1)] obtain kept where "length kept = length bs" "list_all2 (\<longrightarrow>) as kept"
      "holds s' (es @ concat (map (\<lambda>x. entries (snd (fst x))) (filter snd (zip bs kept))))" by blast
    then show ?thesis using a by (intro exI [of _ "False # kept"]) (simp add: x all(2))
  qed
qed auto

lemma read_after_writes:
  assumes "holds s es" "list_all (\<lambda>x. fits (snd x)) bs" "write_all write_log bs s = (s', acks)"
  shows "\<exists>kept. length kept = length bs \<and> list_all2 (\<longrightarrow>) acks kept
    \<and> snd (read_log s') = es @ concat (map (\<lambda>x. entries (snd (fst x))) (filter snd (zip bs kept)))"
  using write_all_durable [OF assms] read_law by blast

end

text \<open>
  The operations of the store behind that interface. A write is an append of the given events under
  given write conditions; with \<open>crash\<close> the process dies inside it and the vault is reopened.
\<close>

record write_conditions =
  w_env :: append_env
  crash :: bool
  w_nonce :: string

definition store_holds :: "prims \<Rightarrow> string \<Rightarrow> disk \<times> handle \<Rightarrow> event list \<Rightarrow> bool" where
  "store_holds P passphrase s es \<longleftrightarrow> (\<exists>written. es = map event_sorted written \<and> store_ok P passphrase written s)"

definition store_read :: "prims \<Rightarrow> (nat \<Rightarrow> string) \<Rightarrow> disk \<times> handle \<Rightarrow> (disk \<times> handle) \<times> event list" where
  "store_read P fresh s =
     (case snapshot_events_with_identity P fresh (fst s) (snd s) of
        (d', h', Inr (es, _)) \<Rightarrow> ((d', h'), es)
      | (d', h', Inl _) \<Rightarrow> ((d', h'), []))"

definition store_write :: "prims \<Rightarrow> (nat \<Rightarrow> string) \<Rightarrow> string \<Rightarrow> write_conditions \<Rightarrow> event list \<Rightarrow> disk \<times> handle \<Rightarrow> (disk \<times> handle) \<times> bool" where
  "store_write P fresh passphrase w new s =
     (if crash w then
        (case open_store P [] (w_nonce w) passphrase (interrupted_append P (w_env w) fresh new (fst s) (snd s)) of
           Inr s' \<Rightarrow> (s', False) | Inl _ \<Rightarrow> (s, False))
      else (case append_atomically P (w_env w) fresh (\<lambda>_. Inr new) (fst s) (snd s) of (d', h', r) \<Rightarrow> ((d', h'), \<not> isl r)))"

lemma append_intact:
  assumes "store_ok P passphrase es (d, h)" "list_all (\<lambda>e. wf_json (body e)) new" "append_atomically P env fresh (\<lambda>_. Inr new) d h = (d', h', r)"
  shows "store_ok P passphrase (if new = [] \<or> installs (batch_io env) then es @ new else es) (d', h')
    \<and> (\<not> isl r \<longrightarrow> new = [] \<or> installs (batch_io env))"
proof -
  obtain key k t ss junk where i: "aead_opens P" "derive_key P passphrase k = Inr key"
    "vault_ok P key k t ss es junk d" "handle_in P key k ss es h" using assms(1) by (rule store_okE)
  show ?thesis
  proof (cases "new = []")
    case True
    then show ?thesis
      using append_nothing_in [where decide = "\<lambda>_. Inr []", OF i(3,4), of env fresh] assms(3) store_okI [OF i(1,2) vault_ok_cleaned [OF i(3)]] by auto
  next
    case False
    from append_atomically_in [where decide = "\<lambda>_. Inr new", OF i(1,3,4) refl assms(2) False, of env fresh] assms(3) False show ?thesis
      by (cases "batch_io env") (auto simp: installs_def intro!: store_okI [OF i(1,2)])
  qed
qed

interpretation vault_log: event_log "store_holds P passphrase" "store_read P fresh" "store_write P fresh passphrase"
    "map event_sorted" "list_all (\<lambda>e. wf_json (body e))" for P fresh passphrase
proof
  fix s es assume "store_holds P passphrase s es"
  then obtain written where w: "es = map event_sorted written" "store_ok P passphrase written s" by (auto simp: store_holds_def)
  obtain key k t ss junk where i: "aead_opens P" "derive_key P passphrase k = Inr key"
    "vault_ok P key k t ss written junk (fst s)" "handle_in P key k ss written (snd s)"
    using w(2) store_okE [of P passphrase written "fst s" "snd s"] by (metis prod.collapse)
  from snapshot_in [OF i(3,4), of fresh] store_okI [OF i(1,2) vault_ok_cleaned [OF i(3)]] w(1)
  show "snd (store_read P fresh s) = es \<and> store_holds P passphrase (fst (store_read P fresh s)) es"
    by (auto simp: store_read_def store_holds_def)
next
  fix s s' es new w acked
  assume s: "store_holds P passphrase s es" and new: "list_all (\<lambda>e. wf_json (body e)) new"
    and r: "store_write P fresh passphrase w new s = (s', acked)"
  obtain d h where dh: "s = (d, h)" by (cases s)
  obtain written where w: "es = map event_sorted written" "store_ok P passphrase written (d, h)" using s dh by (auto simp: store_holds_def)
  show "store_holds P passphrase s' (es @ map event_sorted new) \<or> \<not> acked \<and> store_holds P passphrase s' es"
  proof (cases "crash w")
    case True
    obtain key k t ss junk where i: "aead_opens P" "derive_key P passphrase k = Inr key"
      "vault_ok P key k t ss written junk d" "handle_in P key k ss written h" using w(2) by (rule store_okE)
    from reopen_after_crash [OF i(1,3,4) new i(2), of "[]" "w_nonce w" "w_env w" fresh] obtain d' h' junk' ts where
      o: "open_store P [] (w_nonce w) passphrase (interrupted_append P (w_env w) fresh new d h) = Inr (d', h')"
      "if installs (batch_io (w_env w)) then vault_ok P key k t (ss @ ts) (written @ new) junk' d' \<and> handle_in P key k (ss @ ts) (written @ new) h'
       else vault_ok P key k t ss written junk' d' \<and> handle_in P key k ss written h'" by blast
    have "store_ok P passphrase (if installs (batch_io (w_env w)) then written @ new else written) (d', h')"
      using o(2) store_okI [OF i(1,2)] by (auto split: if_splits)
    then show ?thesis using r o(1) True dh w(1) by (auto simp: store_write_def store_holds_def split: if_splits)
  next
    case False
    obtain d' h' r' where a: "append_atomically P (w_env w) fresh (\<lambda>_. Inr new) d h = (d', h', r')" by (metis prod_cases3)
    from append_intact [OF w(2) new a] a r False dh w(1) show ?thesis
      by (auto simp: store_write_def store_holds_def split: if_splits)
  qed
qed


text \<open>
  C3: acknowledged writes are durable and in order. Through any sequence of batches, each written under
  any conditions (complete, cut at any byte, failing at the head, or a crash followed by reopening),
  the events read afterwards are those read before followed by whole batches in the order they were
  written, and every acknowledged batch is among them.
\<close>

theorem acknowledged_batches_are_durable:
  assumes "store_ok P passphrase es s" "list_all (\<lambda>(w, new). list_all (\<lambda>e. wf_json (body e)) new) bs"
    and "write_all (store_write P fresh passphrase) bs s = (s', acks)"
  shows "\<exists>kept. length kept = length bs \<and> list_all2 (\<longrightarrow>) acks kept
    \<and> snd (store_read P fresh s') = map event_sorted (es @ concat (map (\<lambda>x. snd (fst x)) (filter snd (zip bs kept))))"
proof -
  have "store_holds P passphrase s (map event_sorted es)" using assms(1) by (auto simp: store_holds_def)
  from vault_log.read_after_writes [OF this _ assms(3)] assms(2) show ?thesis
    by (auto simp: split_def map_concat comp_def)
qed

subsection \<open>Concrete runs\<close>

definition demo_event :: event where
  "demo_event = Event ''e1'' ''AccountOpened'' ''2024-01-05'' (JObj [(''account'', JStr ''checking'')]) prov_empty"

definition demo_env :: "write_io \<Rightarrow> append_env" where
  "demo_env io = \<lparr>nonces = (\<lambda>i. replicate 12 (CHR ''n'')), clock = (\<lambda>i. ''2024-01-05T00:00:00Z''), batch_io = io,
     legacy_head_io = None, upgrade_nonce = replicate 12 (CHR ''m''), upgrade_io = None\<rparr>"

definition demo_open :: "(disk \<times> handle) res" where
  "demo_open = open_store toy_prims (replicate 16 (CHR ''s'')) (replicate 12 (CHR ''n'')) ''open sesame'' \<lparr>log_file = None, head_file = None\<rparr>"

lemma wf_demo_event [simp]: "wf_json (body demo_event)"
  by (simp add: demo_event_def Event_def)

lemma demo_open_ok: "\<exists>d h. demo_open = Inr (d, h) \<and> store_ok toy_prims ''open sesame'' [] (d, h)"
proof -
  have "\<exists>key. derive_key toy_prims ''open sesame'' (kdf_new (replicate 16 (CHR ''s''))) = Inr key \<and> length key = KEY_LEN"
    by (simp add: derive_key_def toy_prims_def kdf_new_def KEY_LEN_def)
  then show ?thesis
    using open_creates_empty_store [OF toy_prims_laws(1)] unfolding demo_open_def by (metis disk.select_convs(1) surj_pair)
qed

theorem append_is_all_or_nothing_witness:
  "\<exists>d h d' h' r. demo_open = Inr (d, h)
     \<and> append_atomically toy_prims (demo_env (Batch_Cut 7)) (\<lambda>_. ''x'') (\<lambda>_. Inr [demo_event]) d h = (d', h', r)
     \<and> store_ok toy_prims ''open sesame'' [] (d', h') \<and> isl r"
proof -
  obtain d h where o: "demo_open = Inr (d, h)" "store_ok toy_prims ''open sesame'' [] (d, h)" using demo_open_ok by blast
  obtain d' h' r where a: "append_atomically toy_prims (demo_env (Batch_Cut 7)) (\<lambda>_. ''x'') (\<lambda>_. Inr [demo_event]) d h = (d', h', r)"
    by (metis prod_cases3)
  from append_is_all_or_nothing [OF o(2) _ _ _ a, of "[demo_event]"] o(1) a
  have "store_ok toy_prims ''open sesame'' [] (d', h')" "isl r" by (simp_all add: demo_env_def installs_def)
  with o(1) a show ?thesis by blast
qed

theorem snapshot_returns_the_committed_events_witness:
  "\<exists>d h d' h' x. demo_open = Inr (d, h) \<and> snapshot_events_with_identity toy_prims (\<lambda>_. ''x'') d h = (d', h', Inr ([], Some 0, x))"
proof -
  obtain d h where o: "demo_open = Inr (d, h)" "store_ok toy_prims ''open sesame'' [] (d, h)" using demo_open_ok by blast
  obtain d' h' r where a: "snapshot_events_with_identity toy_prims (\<lambda>_. ''x'') d h = (d', h', r)" by (metis prod_cases3)
  from snapshot_returns_the_committed_events [OF o(2) a] obtain x where "r = Inr ([], Some 0, x)" by auto
  with o(1) a show ?thesis by blast
qed

theorem reopening_after_a_crash_succeeds_witness:
  "\<exists>d h s. demo_open = Inr (d, h)
     \<and> open_store toy_prims [] [] ''open sesame'' (interrupted_append toy_prims (demo_env (Batch_Cut 9)) (\<lambda>_. ''x'') [demo_event] d h) = Inr s"
proof -
  obtain d h where o: "demo_open = Inr (d, h)" "store_ok toy_prims ''open sesame'' [] (d, h)" using demo_open_ok by blast
  from reopening_after_a_crash_succeeds [OF o(2), of "[demo_event]"] o(1) show ?thesis by simp blast
qed

definition demo_batches :: "(write_conditions \<times> event list) list" where
  "demo_batches = [(\<lparr>w_env = demo_env Completed, crash = False, w_nonce = []\<rparr>, [demo_event]),
                   (\<lparr>w_env = demo_env (Batch_Cut 3), crash = True, w_nonce = []\<rparr>, [demo_event, demo_event])]"

theorem acknowledged_batches_are_durable_witness:
  "\<exists>d h s' acks kept. demo_open = Inr (d, h)
     \<and> write_all (store_write toy_prims (\<lambda>_. ''x'') ''open sesame'') demo_batches (d, h) = (s', acks)
     \<and> list_all2 (\<longrightarrow>) acks kept
     \<and> snd (store_read toy_prims (\<lambda>_. ''x'') s') = map event_sorted (concat (map (\<lambda>x. snd (fst x)) (filter snd (zip demo_batches kept))))"
proof -
  obtain d h where o: "demo_open = Inr (d, h)" "store_ok toy_prims ''open sesame'' [] (d, h)" using demo_open_ok by blast
  obtain s' acks where w: "write_all (store_write toy_prims (\<lambda>_. ''x'') ''open sesame'') demo_batches (d, h) = (s', acks)" by fastforce
  have "list_all (\<lambda>(w, new). list_all (\<lambda>e. wf_json (body e)) new) demo_batches" by (simp add: demo_batches_def)
  from acknowledged_batches_are_durable [OF o(2) this w] o(1) w show ?thesis unfolding append_Nil by blast
qed

end
