(* ===== verification/Event_Store_Suffix.thy ===== *)
theory Event_Store_Suffix
  imports Event_Store_Contract
begin

text \<open>
  Strict scans and suffix reads of an intact store: both return the committed events with their record
  identities, and a cursor minted at one commit reads exactly what was committed after it.
\<close>

subsection \<open>Committed entries\<close>

fun committed_events :: "prims \<Rightarrow> int \<Rightarrow> string \<Rightarrow> json list \<Rightarrow> event list \<Rightarrow> committed_event list" where
  "committed_events P n prev (s # ss) (e # es) =
     \<lparr>ce_sequence = JInt n, ce_record_hash = record_hash P (JInt n) prev s, ce_event = event_sorted e\<rparr>
     # committed_events P (n + 1) (record_hash P (JInt n) prev s) ss es"
| "committed_events P n prev _ _ = []"

definition identified_event :: "event \<Rightarrow> bool" where
  "identified_event e = (event_id e \<noteq> [])"

lemma committed_events_append:
  "length ss = length es \<Longrightarrow> committed_events P n prev (ss @ ts) (es @ fs) =
     committed_events P n prev ss es @ committed_events P (n + int (length ss)) (chain_head P n prev ss) ts fs"
  by (induction ss es arbitrary: n prev rule: list_induct2) (auto simp: algebra_simps)

lemma immutable_sorted:
  assumes "wf_json (body e)"
  shows "immutable_event fresh (sort_keys (event_payload (JInt n) t e)) =
    (if identified_event e then Inr (event_sorted e) else Inl (CryptoError ''no canonical event_id''))"
proof -
  obtain fs where fs: "sort_keys (event_payload (JInt n) t e) = JObj fs" by (simp add: event_payload_def)
  obtain gs where gs: "sort_keys (event_to_dict e) = JObj gs" by (simp add: event_to_dict_def)
  have "map_of fs ''event'' = Some (JObj gs)"
    using jget_sort_keys [of "event_payload (JInt n) t e" "''event''"] assms fs gs by (auto simp: event_payload_def)
  moreover have "map_of gs ''event_id'' = Some (JStr (event_id e))"
    using jget_sort_keys [of "event_to_dict e" "''event_id''"] assms gs by (auto simp: event_to_dict_def)
  moreover have "event_from_dict fresh (JObj gs) = Inr (event_sorted e)" using event_from_sorted [OF assms] gs by simp
  ultimately show ?thesis by (simp add: immutable_event_def fs identified_event_def)
qed

lemma entries_loop_sealed:
  assumes "sealed_log P key n prev ss es" "start \<le> n"
  shows "list_all identified_event es \<Longrightarrow>
      entries_loop P key fresh start None n prev obs (chain_raws P n prev ss) = Inr (committed_events P n prev ss es, obs)"
    and "entries_loop P key fresh start None n prev obs (chain_raws P n prev ss) = Inr x \<Longrightarrow> list_all identified_event es"
  using assms
proof (induction P key n prev ss es arbitrary: x rule: sealed_log.induct)
  case (2 P key n prev s ss e es)
  { case 1
    with "2.IH"(1) show ?case by (auto simp: immutable_sorted Let_def)
  next
    case 2
    then show ?case using "2.IH"(2) by (auto simp: immutable_sorted Let_def res_iffs split: if_splits)
  }
qed auto

lemma suffix_loop_sealed:
  assumes "sealed_log P key n prev ss es" "list_all identified_event es"
  shows "suffix_loop P key fresh (length ss) n prev fin (chain_text P n prev ss @ rest) =
    Inr (committed_events P n prev ss es, chain_head P n prev ss, fin + int (length (chain_text P n prev ss)))"
  using assms
proof (induction P key n prev ss es arbitrary: fin rule: sealed_log.induct)
  case (2 P key n prev s ss e es)
  then show ?case by (auto simp: readline_record parse_record_line immutable_sorted algebra_simps)
qed auto

lemma collect_Inr: "collect (map Inr xs) = Inr xs"
  by (induction xs) auto

lemma sealed_log_drop:
  "length ss = length es \<Longrightarrow> sealed_log P key n prev (ss @ ts) (es @ fs) \<Longrightarrow>
     sealed_log P key (n + int (length ss)) (chain_head P n prev ss) ts fs"
proof (induction ss es arbitrary: n prev rule: list_induct2)
  case (Cons s ss e es)
  then show ?case using Cons.IH [of "n + 1" "record_hash P (JInt n) prev s"] by (simp add: algebra_simps)
qed simp

subsection \<open>A strict scan\<close>

definition cursor_at :: "prims \<Rightarrow> string \<Rightarrow> string \<Rightarrow> json list \<Rightarrow> committed_identity" where
  "cursor_at P key t ss =
     (let off = int (length (t @ [NL] @ chain_text P 0 GENESIS ss)) in
      \<lparr>id_count = int (length ss), id_head_hash = chain_head P 0 GENESIS ss, id_end_offset = Some off,
       id_cursor_mac = Some (cursor_mac P key (int (length ss)) (chain_head P 0 GENESIS ss) off)\<rparr>)"

lemma committed_snapshot_in:
  assumes "vault_ok P key k t ss es junk d" "handle_in P key k ss es h"
  shows "list_all identified_event es \<Longrightarrow> committed_snapshot P fresh d h =
      (cleaned P t ss d, at_tail P t ss h, Inr (cursor_at P key t ss, committed_events P 0 GENESIS ss es))"
    and "committed_snapshot P fresh d h = (d', h', Inr x) \<Longrightarrow> list_all identified_event es"
proof -
  have h: "h_key h = key" using assms(2) by (simp add: handle_in_def handle_ok_def)
  have v: "vault_ok P key k t ss es [] (cleaned P t ss d)" by (rule vault_ok_cleaned [OF assms(1)])
  have raw: "iter_raw (cleaned P t ss d) (Some (int (length ss))) = map Inr (chain_raws P 0 GENESIS ss)"
    using v vault_ok_wf [OF v] by (intro iter_raw_chain) (auto simp: vault_ok_def committed_disk_def)
  have s: "sealed_log P key 0 GENESIS ss es" using v by (simp add: vault_ok_def)
  have c: "committed_entries_unlocked P fresh 0 None (cleaned P t ss d) (at_tail P t ss h) =
      bindR (entries_loop P key fresh 0 None 0 GENESIS GENESIS (chain_raws P 0 GENESIS ss))
        (\<lambda>(entries, observed). Inr (entries, log_size (cleaned P t ss d)))"
    by (simp add: committed_entries_unlocked_def raw collect_Inr h)
  have m: "committed_snapshot P fresh d h = (case committed_entries_unlocked P fresh 0 None (cleaned P t ss d) (at_tail P t ss h) of
      Inl e \<Rightarrow> (cleaned P t ss d, (at_tail P t ss h)\<lparr>write_failed := True\<rparr>, Inl e)
    | Inr (entries, fin) \<Rightarrow> (cleaned P t ss d, at_tail P t ss h, Inr (committed_identity_at P (at_tail P t ss h) fin, entries)))"
    by (simp add: committed_snapshot_def ready_in [OF assms(2)] strict_scan_def synchronized_in [OF assms])
  have sz: "log_size (cleaned P t ss d) = int (length (t @ [NL] @ chain_text P 0 GENESIS ss))" by (simp add: log_size_def cleaned_def)
  show "list_all identified_event es \<Longrightarrow> committed_snapshot P fresh d h =
      (cleaned P t ss d, at_tail P t ss h, Inr (cursor_at P key t ss, committed_events P 0 GENESIS ss es))"
    unfolding m c by (simp add: entries_loop_sealed(1) [OF s] committed_identity_at_def identity_for_def cursor_at_def Let_def sz h)
  show "committed_snapshot P fresh d h = (d', h', Inr x) \<Longrightarrow> list_all identified_event es"
    unfolding m c using entries_loop_sealed(2) [OF s, of 0 fresh GENESIS]
    by (cases "entries_loop P key fresh 0 None 0 GENESIS GENESIS (chain_raws P 0 GENESIS ss)") auto
qed

subsection \<open>A suffix read\<close>

lemma nth_boundary: "(t @ [NL] @ chain_text P 0 GENESIS ss @ r) ! (length (t @ [NL] @ chain_text P 0 GENESIS ss) - 1) = NL"
proof -
  have "chain_text P n prev zs = [] \<or> last (chain_text P n prev zs) = NL" for n prev zs
    by (induction zs arbitrary: n prev) (auto simp: record_line_def)
  then have "last (t @ [NL] @ chain_text P 0 GENESIS ss) = NL" by (metis append_is_Nil_conv last_appendR last_snoc append_Nil2 not_Cons_self2)
  moreover have "t @ [NL] @ chain_text P 0 GENESIS ss \<noteq> []" by simp
  ultimately show ?thesis
    by (metis append_assoc diff_less last_conv_nth length_greater_0_conv less_numeral_extra(1) nth_append)
qed

lemma suffix_in:
  assumes v: "vault_ok P key k t (ss @ ts) (es @ new) junk d" and h: "handle_in P key k (ss @ ts) (es @ new) h"
    and len: "length ss = length es" and ids: "list_all identified_event new"
  shows "committed_suffix_after P fresh (cursor_at P key t ss) d h =
    (d, h, Inr (cursor_at P key t (ss @ ts), committed_events P (int (length ss)) (chain_head P 0 GENESIS ss) ts new))"
proof -
  let ?lg = "t @ [NL] @ chain_text P 0 GENESIS (ss @ ts) @ junk" and ?off = "length (t @ [NL] @ chain_text P 0 GENESIS ss)"
  have lg: "log_file d = Some ?lg" and hd: "authenticated_head P d key True = Inr (Some (int (length (ss @ ts)), chain_head P 0 GENESIS (ss @ ts)))"
    using v by (auto simp: vault_ok_def committed_disk_def authenticated_head_text)
  have key: "h_key h = key" using h by (simp add: handle_in_def handle_ok_def)
  have oa: "open_append d = d" using lg by (simp add: open_append_def)
  have hdr: "authenticate_current_header P d h = Inr True"
    using authenticate_header_ok [of P key k t d "chain_text P 0 GENESIS (ss @ ts) @ junk" h] v h lg
    by (auto simp: vault_ok_def handle_in_def handle_ok_def)
  have ready: "refuse_decision_reentry h = Inr ()" "ready h = Inr ()"
    using ready_in [OF h] h by (auto simp: refuse_decision_reentry_def refuse_observer_reentry_def handle_in_def handle_ok_def)
  have split: "?lg = (t @ [NL] @ chain_text P 0 GENESIS ss) @ chain_text P (int (length ss)) (chain_head P 0 GENESIS ss) ts @ junk"
    by (simp add: chain_append)
  have dr: "drop ?off ?lg = chain_text P (int (length ss)) (chain_head P 0 GENESIS ss) ts @ junk" unfolding split by simp
  have nl: "?lg ! (?off - 1) = NL" unfolding split using nth_boundary [of t P ss] by simp
  have sl: "sealed_log P key (int (length ss)) (chain_head P 0 GENESIS ss) ts new"
    using sealed_log_drop [OF len, of P key 0 GENESIS ts new] v by (simp add: vault_ok_def)
  note loop = suffix_loop_sealed [OF sl ids, of fresh "int ?off" junk]
  have "committed_suffix_from_cursor P fresh d h (cursor_at P key t ss) (int (length (ss @ ts))) (chain_head P 0 GENESIS (ss @ ts)) =
    Inr (committed_events P (int (length ss)) (chain_head P 0 GENESIS ss) ts new, int ?off + int (length (chain_text P (int (length ss)) (chain_head P 0 GENESIS ss) ts)))"
  proof -
    have n: "nat (int ?off - 1) = ?off - 1" "nat (int ?off) = ?off" "nat (int (length (ss @ ts)) - int (length ss)) = length ts" by auto
    have "\<not> int ?off > int (length ?lg)" unfolding split by simp
    then show ?thesis
      unfolding committed_suffix_from_cursor_def cursor_at_def Let_def committed_identity.simps option.case prod.case lg n nl dr key loop
      by (simp add: catch_unreadable_def chain_append)
  qed
  moreover have "valid_cursor P h (cursor_at P key t ss)" by (simp add: valid_cursor_def cursor_at_def Let_def key)
  moreover have "\<not> (int (length ss) = int (length (ss @ ts)) \<and> chain_head P 0 GENESIS ss \<noteq> chain_head P 0 GENESIS (ss @ ts))"
    by auto
  moreover have "identity_for P h (int (length (ss @ ts))) (chain_head P 0 GENESIS (ss @ ts))
      (int ?off + int (length (chain_text P (int (length ss)) (chain_head P 0 GENESIS ss) ts))) = cursor_at P key t (ss @ ts)"
    by (simp add: identity_for_def cursor_at_def Let_def key chain_append algebra_simps)
  ultimately show ?thesis
    unfolding committed_suffix_after_def suffix_under_lock_def oa hdr ready key bindR_simps hd
    by (simp add: cursor_at_def [of P key t ss] Let_def)
qed

end
