(* ===== verification/Event_Store_System.thy ===== *)
theory Event_Store_System
  imports Event_Store_Suffix
begin

text \<open>
  Several handles on one vault. Processes share a vault: each opens handles of its own, reads and
  appends through them, and may die inside an append. The writer lock makes each operation one step.
\<close>

definition writable :: "event \<Rightarrow> bool" where
  "writable e = (wf_json (body e) \<and> identified_event e)"

inductive store_step :: "prims \<Rightarrow> string \<Rightarrow> disk \<times> handle list \<Rightarrow> disk \<times> handle list \<Rightarrow> bool" for P passphrase where
  opened: "open_store P slt nonce passphrase d = Inr (d', h) \<Longrightarrow> store_step P passphrase (d, hs) (d', hs @ [h])"
| snapshotted: "i < length hs \<Longrightarrow> snapshot_events_with_identity P fresh d (hs ! i) = (d', h', r)
    \<Longrightarrow> store_step P passphrase (d, hs) (d', hs[i := h'])"
| identified: "i < length hs \<Longrightarrow> authenticated_identity P d (hs ! i) = (d', h', r')
    \<Longrightarrow> store_step P passphrase (d, hs) (d', hs[i := h'])"
| scanned_all: "i < length hs \<Longrightarrow> committed_snapshot P fresh' d (hs ! i) = (d', h', r3)
    \<Longrightarrow> store_step P passphrase (d, hs) (d', hs[i := h'])"
| appended: "i < length hs \<Longrightarrow> (\<And>es new. decide es = Inr new \<Longrightarrow> list_all writable new)
    \<Longrightarrow> append_atomically P env fresh decide d (hs ! i) = (d', h', r'')
    \<Longrightarrow> store_step P passphrase (d, hs) (d', hs[i := h'])"
| died: "i < length hs \<Longrightarrow> list_all writable new
    \<Longrightarrow> store_step P passphrase (d, hs) (interrupted_append P env fresh new d (hs ! i), take i hs @ drop (Suc i) hs)"

text \<open>The bytes past the commit are always the beginning of a batch.\<close>

definition cut_batch :: "prims \<Rightarrow> json list \<Rightarrow> string \<Rightarrow> bool" where
  "cut_batch P ss junk \<longleftrightarrow> (\<exists>n ts. list_all wf_json ts \<and> junk = take n (chain_text P (int (length ss)) (chain_head P 0 GENESIS ss) ts))"

definition system_in :: "prims \<Rightarrow> string \<Rightarrow> string \<Rightarrow> kdf_params \<Rightarrow> string \<Rightarrow> json list \<Rightarrow> event list \<Rightarrow> disk \<times> handle list \<Rightarrow> bool" where
  "system_in P passphrase key k t ss es s \<longleftrightarrow>
     aead_opens P \<and> derive_key P passphrase k = Inr key \<and> list_all identified_event es
     \<and> (\<exists>junk. vault_ok P key k t ss es junk (fst s) \<and> cut_batch P ss junk) \<and> list_all (handle_in P key k ss es) (snd s)"

definition system_ok :: "prims \<Rightarrow> string \<Rightarrow> event list \<Rightarrow> disk \<times> handle list \<Rightarrow> bool" where
  "system_ok P passphrase es s \<longleftrightarrow> (\<exists>key k t ss. system_in P passphrase key k t ss es s)"

lemma cut_batch_Nil [simp]: "cut_batch P ss []"
  unfolding cut_batch_def by (intro exI [of _ 0] exI [of _ "[]"]) simp

lemma system_inE:
  assumes "system_in P passphrase key k t ss es (d, hs)"
  obtains junk where "aead_opens P" "derive_key P passphrase k = Inr key" "list_all identified_event es" "vault_ok P key k t ss es junk d"
    "cut_batch P ss junk" "list_all (handle_in P key k ss es) hs" "length ss = length es"
  using assms vault_ok_wf unfolding system_in_def fst_conv snd_conv by blast

lemma system_handle: "system_in P passphrase key k t ss es (d, hs) \<Longrightarrow> i < length hs \<Longrightarrow> handle_in P key k ss es (hs ! i)"
  by (auto simp: system_in_def list_all_length)

lemma handles_update: "list_all Q hs \<Longrightarrow> Q h \<Longrightarrow> list_all Q (hs[i := h])"
  by (auto simp: list_all_iff dest!: set_update_subset_insert [THEN subsetD])

text \<open>A step that leaves an extension of the vault on disk keeps the handles it does not touch.\<close>

lemma system_extend:
  assumes s: "system_in P passphrase key k t ss es (d, hs)"
    and d': "vault_ok P key k t (ss @ ts) (es @ new) junk d'" "cut_batch P (ss @ ts) junk" "list_all identified_event new"
    and hs': "\<And>Q. list_all Q hs \<Longrightarrow> (\<And>h. h \<in> set changed \<Longrightarrow> Q h) \<Longrightarrow> list_all Q hs'"
    and changed: "\<And>h. h \<in> set changed \<Longrightarrow> handle_in P key k (ss @ ts) (es @ new) h"
  shows "system_in P passphrase key k t (ss @ ts) (es @ new) (d', hs')"
proof -
  obtain junk0 where i: "aead_opens P" "derive_key P passphrase k = Inr key" "list_all identified_event es" "list_all (handle_in P key k ss es) hs"
    "length ss = length es" using s by (rule system_inE)
  have "list_all (handle_in P key k (ss @ ts) (es @ new)) hs" using i(4) handle_in_extend [OF _ i(5)] by (auto simp: list_all_iff)
  with hs' changed have "list_all (handle_in P key k (ss @ ts) (es @ new)) hs'" by blast
  with i d' show ?thesis by (auto simp: system_in_def)
qed

lemma system_update:
  assumes "system_in P passphrase key k t ss es (d, hs)" "vault_ok P key k t (ss @ ts) (es @ new) [] d'" "list_all identified_event new"
    "handle_in P key k (ss @ ts) (es @ new) h'"
  shows "system_in P passphrase key k t (ss @ ts) (es @ new) (d', hs[i := h'])"
  using system_extend [OF assms(1,2) cut_batch_Nil assms(3), of "[h']" "hs[i := h']"] assms(4) by (simp add: handles_update)

lemmas system_read = system_update [where ts = "[]" and new = "[]", simplified]

lemma open_step:
  assumes "system_in P passphrase key k t ss es (d, hs)" "open_store P slt nonce passphrase d = Inr (d', h)"
  shows "system_in P passphrase key k t ss es (d', hs @ [h])"
proof -
  obtain junk where i: "derive_key P passphrase k = Inr key" "vault_ok P key k t ss es junk d" "cut_batch P ss junk"
    using assms(1) by (rule system_inE)
  obtain f where "fast_committed_boundary P (t @ [NL] @ chain_text P 0 GENESIS ss @ junk) (int (length ss)) (chain_head P 0 GENESIS ss) = Inr f"
    using fast_boundary_cut_junk i(3) vault_ok_wf [OF i(2)] unfolding cut_batch_def by blast
  from open_store_in [OF i(2,1) this, of slt nonce] assms(2) obtain junk' where
    o: "vault_ok P key k t ss es junk' d'" "handle_in P key k ss es h" "cut_batch P ss junk'" using i(3) by auto
  show ?thesis using system_extend [OF assms(1), of "[]" "[]" junk' d' "[h]" "hs @ [h]"] o by simp
qed

lemma append_step:
  assumes s: "system_in P passphrase key k t ss es (d, hs)" and i: "i < length hs"
    and decide: "\<And>new. decide (map event_sorted es) = Inr new \<Longrightarrow> list_all writable new"
    and a: "append_atomically P env fresh decide d (hs ! i) = (d', h', r)"
  shows "\<exists>ts new. system_in P passphrase key k t (ss @ ts) (es @ new) (d', hs[i := h'])"
proof -
  obtain junk where j: "aead_opens P" "vault_ok P key k t ss es junk d" using s by (rule system_inE)
  note hi = system_handle [OF s i]
  show ?thesis
  proof (cases "\<exists>new. decide (map event_sorted es) = Inr new \<and> new \<noteq> []")
    case True
    then obtain new where new: "decide (map event_sorted es) = Inr new" "new \<noteq> []" by blast
    have w: "list_all (\<lambda>e. wf_json (body e)) new" "list_all identified_event new" using decide [OF new(1)] by (auto simp: writable_def list_all_iff)
    from append_atomically_in [where decide = decide, OF j hi new(1) w(1) new(2), of env fresh] a obtain ts where
      "if installs (batch_io env) then vault_ok P key k t (ss @ ts) (es @ new) [] d' \<and> handle_in P key k (ss @ ts) (es @ new) h'
       else vault_ok P key k t ss es [] d' \<and> handle_in P key k ss es h'" by auto
    then show ?thesis using system_update [OF s _ w(2)] system_read [OF s] by (metis append_Nil2)
  next
    case False
    then have "decide (map event_sorted es) = Inr [] \<or> isl (decide (map event_sorted es))" by (cases "decide (map event_sorted es)") auto
    from append_nothing_in [where decide = decide, OF j(2) hi this, of env fresh] a vault_ok_cleaned [OF j(2)]
    have "system_in P passphrase key k t ss es (d', hs[i := h'])" by (auto intro: system_read [OF s])
    then show ?thesis by (metis append_Nil2)
  qed
qed

lemma die_step:
  assumes s: "system_in P passphrase key k t ss es (d, hs)" and i: "i < length hs" and w: "list_all writable new"
  shows "\<exists>ts new'. system_in P passphrase key k t (ss @ ts) (es @ new') (interrupted_append P env fresh new d (hs ! i), take i hs @ drop (Suc i) hs)"
proof -
  obtain junk where j: "aead_opens P" "vault_ok P key k t ss es junk d" using s by (rule system_inE)
  note hi = system_handle [OF s i]
  have new: "list_all (\<lambda>e. wf_json (body e)) new" "list_all identified_event new" using w by (auto simp: writable_def list_all_iff)
  have rest: "list_all Q (take i hs @ drop (Suc i) hs)" if "list_all Q hs" for Q
    using that by (auto simp: list_all_iff dest: in_set_takeD in_set_dropD)
  obtain ts where "if installs (batch_io env) then vault_ok P key k t (ss @ ts) (es @ new) [] (interrupted_append P env fresh new d (hs ! i))
    else \<exists>n. vault_ok P key k t ss es (take n (chain_text P (int (length ss)) (chain_head P 0 GENESIS ss) ts)) (interrupted_append P env fresh new d (hs ! i))
           \<and> list_all wf_json ts"
    using interrupted_append_in [OF j hi new(1)] by blast
  then consider "vault_ok P key k t (ss @ ts) (es @ new) [] (interrupted_append P env fresh new d (hs ! i))"
    | n where "vault_ok P key k t ss es (take n (chain_text P (int (length ss)) (chain_head P 0 GENESIS ss) ts)) (interrupted_append P env fresh new d (hs ! i))"
      "list_all wf_json ts" by (auto split: if_splits)
  then show ?thesis
  proof cases
    case 1
    then show ?thesis using system_extend [OF s _ cut_batch_Nil new(2), where changed = "[]"] rest by (metis empty_iff empty_set)
  next
    case 2
    then have "cut_batch P ss (take n (chain_text P (int (length ss)) (chain_head P 0 GENESIS ss) ts))" by (auto simp: cut_batch_def)
    with 2 show ?thesis using system_extend [OF s, of "[]" "[]" _ _ "[]" "take i hs @ drop (Suc i) hs"] rest
      by (metis append_Nil2 empty_iff empty_set list.pred_inject(1))
  qed
qed

lemma store_step_grows:
  assumes "store_step P passphrase s s'" "system_in P passphrase key k t ss es s"
  shows "\<exists>ts new. system_in P passphrase key k t (ss @ ts) (es @ new) s'"
  using assms
proof (cases rule: store_step.cases)
  case (opened slt nonce d d' h hs)
  then have "system_in P passphrase key k t (ss @ []) (es @ []) s'" using open_step assms(2) by simp
  then show ?thesis by blast
next
  case (snapshotted i hs fresh d d' h' r)
  obtain junk where v: "vault_ok P key k t ss es junk d" using assms(2) snapshotted(1) by (blast elim: system_inE)
  have hi: "handle_in P key k ss es (hs ! i)" using system_handle snapshotted assms(2) by blast
  have "d' = cleaned P t ss d \<and> handle_in P key k ss es h'" using snapshot_in [OF v hi, of fresh] snapshotted(4) by auto
  then have "system_in P passphrase key k t (ss @ []) (es @ []) s'" using system_read [OF _ vault_ok_cleaned [OF v]] snapshotted assms(2) by simp
  then show ?thesis by blast
next
  case (identified i hs d d' h' r')
  obtain junk where v: "vault_ok P key k t ss es junk d" using assms(2) identified(1) by (blast elim: system_inE)
  have hi: "handle_in P key k ss es (hs ! i)" using system_handle identified assms(2) by blast
  have "d' = cleaned P t ss d \<and> handle_in P key k ss es h'"
    using identified(4) at_tail_in [OF hi] by (auto simp: authenticated_identity_def ready_in [OF hi] synchronized_in [OF v hi])
  then have "system_in P passphrase key k t (ss @ []) (es @ []) s'" using system_read [OF _ vault_ok_cleaned [OF v]] identified assms(2) by simp
  then show ?thesis by blast
next
  case (scanned_all i hs fresh d d' h' r)
  obtain junk where v: "vault_ok P key k t ss es junk d" and ids: "list_all identified_event es" using assms(2) scanned_all(1) by (blast elim: system_inE)
  have hi: "handle_in P key k ss es (hs ! i)" using system_handle scanned_all assms(2) by blast
  have "d' = cleaned P t ss d \<and> handle_in P key k ss es h'"
    using scanned_all(4) at_tail_in [OF hi] committed_snapshot_in(1) [OF v hi ids, of fresh] by auto
  then have "system_in P passphrase key k t (ss @ []) (es @ []) s'" using system_read [OF _ vault_ok_cleaned [OF v]] scanned_all assms(2) by simp
  then show ?thesis by blast
next
  case (appended i hs decide env fresh d d' h' r)
  have "system_in P passphrase key k t ss es (d, hs)" using assms(2) appended(1) by simp
  from append_step [where decide = decide, OF this appended(3) appended(4) appended(5)] show ?thesis unfolding appended(2) .
next
  case (died i hs new d env fresh)
  then show ?thesis using die_step assms(2) by blast
qed


lemma store_steps_grow:
  assumes "(store_step P passphrase)\<^sup>*\<^sup>* s s'" "system_in P passphrase key k t ss es s"
  shows "\<exists>ts new. system_in P passphrase key k t (ss @ ts) (es @ new) s'"
  using assms
proof (induction rule: rtranclp_induct)
  case base
  then show ?case by (metis append_Nil2)
next
  case (step y z)
  then obtain ts new where "system_in P passphrase key k t (ss @ ts) (es @ new) y" by blast
  from store_step_grows [OF step(2) this] show ?case by (metis append_assoc)
qed

lemma system_snapshot:
  assumes "system_in P passphrase key k t ss es s" "i < length (snd s)"
  shows "\<exists>d' h' x. snapshot_events_with_identity P fresh (fst s) (snd s ! i) = (d', h', Inr (map event_sorted es, x))"
proof -
  have s: "system_in P passphrase key k t ss es (fst s, snd s)" using assms(1) by simp
  then obtain junk where v: "vault_ok P key k t ss es junk (fst s)" by (rule system_inE)
  from snapshot_in [OF v system_handle [OF s assms(2)], of fresh] show ?thesis by blast
qed

text \<open>
  C1: the log is append-only for every observer. In any run of processes that open, read, append and
  crash on one vault, starting from an intact vault, every live handle can read at every moment, all
  of them read the same events, and what was read once is a prefix of what any handle reads later:
  no crash, failed write or concurrent writer removes or reorders a committed event.
\<close>

theorem reads_only_ever_extend:
  assumes "system_ok P passphrase es s" "(store_step P passphrase)\<^sup>*\<^sup>* s s1" "(store_step P passphrase)\<^sup>*\<^sup>* s1 s2"
    and "i < length (snd s1)" "j < length (snd s2)"
  shows "\<exists>d1 h1 x1 d2 h2 x2 earlier later.
    snapshot_events_with_identity P fresh (fst s1) (snd s1 ! i) = (d1, h1, Inr (earlier, x1))
    \<and> snapshot_events_with_identity P fresh (fst s2) (snd s2 ! j) = (d2, h2, Inr (earlier @ later, x2))"
proof -
  obtain key k t ss where s: "system_in P passphrase key k t ss es s" using assms(1) by (auto simp: system_ok_def)
  obtain ts new where n1: "system_in P passphrase key k t (ss @ ts) (es @ new) s1" using store_steps_grow [OF assms(2) s] by blast
  obtain ts' new' where n2: "system_in P passphrase key k t ((ss @ ts) @ ts') ((es @ new) @ new') s2" using store_steps_grow [OF assms(3) n1] by blast
  from system_snapshot [OF n2 assms(5), of fresh] system_snapshot [OF n1 assms(4), of fresh] show ?thesis
    unfolding map_append [of _ "es @ new"] by blast
qed

text \<open>
  C6: an incremental read agrees with a full one. When a strict snapshot gave a cursor and some entries,
  and the vault has since gone through any run of operations, reading only what follows the cursor
  yields exactly the entries by which a full strict snapshot would now extend the first one, with the
  same identity. The suffix read decrypts only the new records.
\<close>

theorem suffix_read_agrees_with_a_full_scan:
  assumes "system_ok P passphrase es s" "(store_step P passphrase)\<^sup>*\<^sup>* s s1" "i < length (snd s1)"
    and "committed_snapshot P fresh (fst s1) (snd s1 ! i) = (d1, h1, Inr (cursor, entries))"
    and "(store_step P passphrase)\<^sup>*\<^sup>* (d1, (snd s1)[i := h1]) s2" "j < length (snd s2)"
  shows "\<exists>identity more d2 h2.
    committed_suffix_after P fresh cursor (fst s2) (snd s2 ! j) = (fst s2, snd s2 ! j, Inr (identity, more))
    \<and> committed_snapshot P fresh (fst s2) (snd s2 ! j) = (d2, h2, Inr (identity, entries @ more))"
proof -
  obtain key k t ss where s: "system_in P passphrase key k t ss es s" using assms(1) by (auto simp: system_ok_def)
  obtain ts new where "system_in P passphrase key k t (ss @ ts) (es @ new) s1" using store_steps_grow [OF assms(2) s] by blast
  then have n1: "system_in P passphrase key k t (ss @ ts) (es @ new) (fst s1, snd s1)" by simp
  then obtain junk1 where v1: "vault_ok P key k t (ss @ ts) (es @ new) junk1 (fst s1)" and id1: "list_all identified_event (es @ new)"
    and len: "length (ss @ ts) = length (es @ new)" by (rule system_inE)
  note c1 = committed_snapshot_in(1) [OF v1 system_handle [OF n1 assms(3)] id1, of fresh]
  have cur: "cursor = cursor_at P key t (ss @ ts)" "entries = committed_events P 0 GENESIS (ss @ ts) (es @ new)" using c1 assms(4) by auto
  have "system_in P passphrase key k t (ss @ ts) (es @ new) (d1, (snd s1)[i := h1])"
    using system_read [OF n1 vault_ok_cleaned [OF v1] at_tail_in [OF system_handle [OF n1 assms(3)]]] c1 assms(4) by simp
  from store_steps_grow [OF assms(5) this] obtain ts' new' where
    n2: "system_in P passphrase key k t ((ss @ ts) @ ts') ((es @ new) @ new') (fst s2, snd s2)" by auto
  then obtain junk2 where v2: "vault_ok P key k t ((ss @ ts) @ ts') ((es @ new) @ new') junk2 (fst s2)"
    and id2: "list_all identified_event ((es @ new) @ new')" by (rule system_inE)
  note h2 = system_handle [OF n2 assms(6)]
  have id': "list_all identified_event new'" using id2 by simp
  show ?thesis
    using suffix_in [OF v2 h2 len id', of fresh] committed_snapshot_in(1) [OF v2 h2 id2, of fresh] committed_events_append [OF len]
    unfolding cur by simp
qed

subsection \<open>Concrete runs\<close>

lemma writable_demo: "writable demo_event"
  by (simp add: writable_def identified_event_def) (simp add: demo_event_def Event_def)

lemma demo_system_ok: "\<exists>d h. demo_open = Inr (d, h) \<and> system_ok toy_prims ''open sesame'' [] (d, [h])"
proof -
  obtain key where k: "derive_key toy_prims ''open sesame'' (kdf_new (replicate 16 (CHR ''s''))) = Inr key" "length key = KEY_LEN"
    by (simp add: derive_key_def toy_prims_def kdf_new_def KEY_LEN_def)
  obtain d h t where "demo_open = Inr (d, h)" "vault_ok toy_prims key (kdf_new (replicate 16 (CHR ''s''))) t [] [] [] d"
    "handle_in toy_prims key (kdf_new (replicate 16 (CHR ''s''))) [] [] h"
    using open_new_store_in [OF toy_prims_laws(1) k] unfolding demo_open_def by (metis disk.select_convs(1))
  with k(1) toy_prims_laws(1) have "system_in toy_prims ''open sesame'' key (kdf_new (replicate 16 (CHR ''s''))) t [] [] (d, [h])"
    by (auto simp: system_in_def intro: cut_batch_Nil)
  with \<open>demo_open = _\<close> show ?thesis unfolding system_ok_def by blast
qed

lemma demo_append_step:
  "append_atomically toy_prims env (\<lambda>_. ''x'') (\<lambda>_. Inr [demo_event]) d h = (d', h', r)
    \<Longrightarrow> (store_step toy_prims ''open sesame'')\<^sup>*\<^sup>* (d, [h]) (d', [h'])"
  using appended [of 0 "[h]" "\<lambda>_. Inr [demo_event]" toy_prims env "\<lambda>_. ''x''" d d' h' r] writable_demo by auto

theorem reads_only_ever_extend_witness:
  "\<exists>d h d' h' r d1 h1 x1 d2 h2 x2 earlier later. demo_open = Inr (d, h)
     \<and> append_atomically toy_prims (demo_env (Head_Failed True)) (\<lambda>_. ''x'') (\<lambda>_. Inr [demo_event]) d h = (d', h', r)
     \<and> snapshot_events_with_identity toy_prims (\<lambda>_. ''x'') d h = (d1, h1, Inr (earlier, x1))
     \<and> snapshot_events_with_identity toy_prims (\<lambda>_. ''x'') d' h' = (d2, h2, Inr (earlier @ later, x2))"
proof -
  obtain d h where o: "demo_open = Inr (d, h)" "system_ok toy_prims ''open sesame'' [] (d, [h])" using demo_system_ok by blast
  obtain d' h' r where a: "append_atomically toy_prims (demo_env (Head_Failed True)) (\<lambda>_. ''x'') (\<lambda>_. Inr [demo_event]) d h = (d', h', r)"
    by (metis prod_cases3)
  from reads_only_ever_extend [OF o(2) rtranclp.rtrancl_refl demo_append_step [OF a], of 0 0 "\<lambda>_. ''x''"] o(1) a show ?thesis
    unfolding fst_conv snd_conv nth_Cons_0 by simp blast
qed

theorem suffix_read_agrees_with_a_full_scan_witness:
  "\<exists>d h d1 h1 cursor entries d' h' r identity more d2 h2. demo_open = Inr (d, h)
     \<and> committed_snapshot toy_prims ''x'' d h = (d1, h1, Inr (cursor, entries))
     \<and> append_atomically toy_prims (demo_env Completed) (\<lambda>_. ''x'') (\<lambda>_. Inr [demo_event]) d1 h1 = (d', h', r)
     \<and> committed_suffix_after toy_prims ''x'' cursor d' h' = (d', h', Inr (identity, more))
     \<and> committed_snapshot toy_prims ''x'' d' h' = (d2, h2, Inr (identity, entries @ more))"
proof -
  obtain d h where o: "demo_open = Inr (d, h)" "system_ok toy_prims ''open sesame'' [] (d, [h])" using demo_system_ok by blast
  obtain key k t ss where s: "system_in toy_prims ''open sesame'' key k t ss [] (d, [h])" using o(2) by (auto simp: system_ok_def)
  obtain junk where v: "vault_ok toy_prims key k t ss [] junk d" using s by (rule system_inE)
  have hi: "handle_in toy_prims key k ss [] h" using system_handle [OF s, of 0] by simp
  obtain d1 h1 cursor entries where c: "committed_snapshot toy_prims ''x'' d h = (d1, h1, Inr (cursor, entries))"
    using committed_snapshot_in(1) [OF v hi, of "''x''"] by simp
  obtain d' h' r where a: "append_atomically toy_prims (demo_env Completed) (\<lambda>_. ''x'') (\<lambda>_. Inr [demo_event]) d1 h1 = (d', h', r)"
    by (metis prod_cases3)
  have c0: "committed_snapshot toy_prims ''x'' (fst (d, [h])) (snd (d, [h]) ! 0) = (d1, h1, Inr (cursor, entries))" using c by simp
  have st: "(store_step toy_prims ''open sesame'')\<^sup>*\<^sup>* (d1, (snd (d, [h]))[0 := h1]) (d', [h'])" using demo_append_step [OF a] by simp
  from suffix_read_agrees_with_a_full_scan [OF o(2) rtranclp.rtrancl_refl _ c0 st, of 0] o(1) c a show ?thesis
    unfolding fst_conv snd_conv nth_Cons_0 by simp blast
qed

end
