(* ===== verification/Event_Store_Legacy.thy ===== *)
theory Event_Store_Legacy
  imports Event_Store_System
begin

text \<open>
  Two further promises of \<^verbatim>\<open>store.py\<close>: the check of the chain that needs no key, and the in-place upgrade
  of a legacy header to the head-required mode.
\<close>

subsection \<open>The keyless check\<close>

lemma walk_chain_raws: "walk_chain P prev n (map Inr (chain_raws P n prev ss)) = Inr (True, n + int (length ss), chain_head P n prev ss)"
  by (induction ss arbitrary: n prev) (auto simp: algebra_simps)

lemma head_agrees_text: "head_file d = Some (head_text P key c hash) \<Longrightarrow> head_agrees d n prev \<longleftrightarrow> c = n \<and> hash = prev"
  unfolding head_agrees_def head_text_def head_body_def jset.simps dict_set.simps by (simp add: loads_obj_ws del: dumpsP.simps)

lemma verify_chain_cut:
  assumes v: "vault_ok P key k t ss es junk d" and h: "\<not> in_decision h" "\<not> in_observer h" and m: "m \<le> length ss"
  shows "verify_chain P (d\<lparr>log_file := Some (t @ [NL] @ chain_text P 0 GENESIS (take m ss))\<rparr>) h = Inr (m = length ss, int m)"
proof -
  let ?d = "d\<lparr>log_file := Some (t @ [NL] @ chain_text P 0 GENESIS (take m ss))\<rparr>"
  have wf: "list_all wf_json (take m ss)" using vault_ok_wf [OF v] by (auto simp: list_all_iff dest: in_set_takeD)
  have "iter_raw ?d None = map Inr (chain_raws P 0 GENESIS (take m ss))"
    using iter_raw_chain [of P key k t "take m ss" ?d None] v wf by (simp add: vault_ok_def)
  moreover have "head_file ?d = Some (head_text P key (int (length ss)) (chain_head P 0 GENESIS ss))"
    using v by (simp add: vault_ok_def committed_disk_def)
  ultimately show ?thesis
    using m h walk_chain_raws [of P GENESIS 0 "take m ss"]
    by (auto simp: verify_chain_def refuse_decision_reentry_def refuse_observer_reentry_def head_agrees_text min_def)
qed

text \<open>The header line and the first \<open>m\<close> lines after it.\<close>

definition keep_records :: "nat \<Rightarrow> string \<Rightarrow> string" where
  "keep_records m lg = concat (take (Suc m) (split_lines [] lg))"

lemma take_lines_chain:
  "list_all wf_json ss \<Longrightarrow> concat (take m (split_lines [] (chain_text P n prev ss))) = chain_text P n prev (take m ss)"
proof (induction ss arbitrary: n prev m)
  case (Cons s ss)
  have "NL \<notin> set (dumps_default (rec_at P n prev s))" using Cons.prems dumps_default_no_nl by auto
  then have "split_lines [] (chain_text P n prev (s # ss)) =
      record_line (rec_at P n prev s) # split_lines [] (chain_text P (n + 1) (record_hash P (JInt n) prev s) ss)"
    using split_lines_line [of "dumps_default (rec_at P n prev s)" "[]"] by (simp add: record_line_def)
  with Cons show ?case by (cases m) auto
qed simp

text \<open>
  C21: the chain check needs no key and notices a truncation. On an intact log it answers that the log is
  intact, with the number of events; when complete records have been cut from the end while the head
  record stayed, it answers that it is not, with the number of records left.
\<close>

theorem chain_check_notices_truncation:
  assumes "store_ok P passphrase es (d, h)" "snapshot_events_with_identity P fresh d h = (d', h', r)" "log_file d' = Some lg"
  shows "verify_chain P d' h' = Inr (True, int (length es))
    \<and> (\<forall>m < length es. verify_chain P (d'\<lparr>log_file := Some (keep_records m lg)\<rparr>) h' = Inr (False, int m))"
proof -
  obtain key k t ss junk where i: "vault_ok P key k t ss es junk d" "handle_in P key k ss es h" using assms(1) by (rule store_okE)
  have d': "d' = cleaned P t ss d" "handle_in P key k ss es h'" using snapshot_in [OF i, of fresh] assms(2) by auto
  note v = vault_ok_cleaned [OF i(1)]
  have h': "\<not> in_decision h'" "\<not> in_observer h'" using d'(2) by (auto simp: handle_in_def handle_ok_def)
  have len: "length ss = length es" and wf: "list_all wf_json ss" using vault_ok_wf [OF v] by auto
  have lg: "lg = t @ [NL] @ chain_text P 0 GENESIS ss" using assms(3) d'(1) by (simp add: cleaned_def)
  have t: "NL \<notin> set t" using i(1) by (simp add: vault_ok_def header_text_ok_def)
  have keep: "keep_records m lg = t @ [NL] @ chain_text P 0 GENESIS (take m ss)" for m
    using split_lines_line [OF t, of "[]"] take_lines_chain [OF wf] by (simp add: keep_records_def lg)
  have same: "d'\<lparr>log_file := Some (t @ [NL] @ chain_text P 0 GENESIS (take (length ss) ss))\<rparr> = d'" using d'(1) by (simp add: cleaned_def)
  show ?thesis
    using verify_chain_cut [OF v [folded d'(1)] h', of "length ss"] verify_chain_cut [OF v [folded d'(1)] h'] same
    unfolding keep by (simp add: len)
qed

theorem chain_check_notices_truncation_witness:
  "\<exists>d h d' h' r. demo_open = Inr (d, h) \<and> snapshot_events_with_identity toy_prims (\<lambda>_. ''x'') d h = (d', h', r)
     \<and> verify_chain toy_prims d' h' = Inr (True, 0)"
proof -
  obtain d h where o: "demo_open = Inr (d, h)" "store_ok toy_prims ''open sesame'' [] (d, h)" using demo_open_ok by blast
  obtain d' h' r where a: "snapshot_events_with_identity toy_prims (\<lambda>_. ''x'') d h = (d', h', r)" by (metis prod_cases3)
  obtain key k t ss junk where i: "vault_ok toy_prims key k t ss [] junk d" "handle_in toy_prims key k ss [] h" using o(2) by (rule store_okE)
  obtain lg where "log_file d' = Some lg" using snapshot_in [OF i, of "\<lambda>_. ''x''"] a by (auto simp: cleaned_def)
  from chain_check_notices_truncation [OF o(2) a this] have "verify_chain toy_prims d' h' = Inr (True, 0)" by simp
  with o(1) a show ?thesis by blast
qed

subsection \<open>Upgrading a legacy header\<close>

definition plain_char :: "char \<Rightarrow> bool" where
  "plain_char c = (escape_char c = [c])"

lemma plain_code: "32 \<le> (of_char c :: nat) \<Longrightarrow> (of_char c :: nat) \<noteq> 34 \<Longrightarrow> (of_char c :: nat) \<noteq> 92 \<Longrightarrow> plain_char c"
proof -
  assume c: "32 \<le> (of_char c :: nat)" "(of_char c :: nat) \<noteq> 34" "(of_char c :: nat) \<noteq> 92"
  then have "c \<noteq> CHR 0x22" "c \<noteq> CHR 0x5C" "c \<noteq> CHR 0x0A" "c \<noteq> CHR 0x0D" "c \<noteq> CHR 0x09" "c \<noteq> CHR 0x0C" "c \<noteq> CHR 0x08"
    by (rule_tac notI, simp)+
  with c(1) show ?thesis by (simp add: plain_char_def escape_char_def)
qed

lemma length_dumps_plain: "list_all plain_char s \<Longrightarrow> length (dumps_str s) = length s + 2"
proof -
  assume "list_all plain_char s"
  then have "concat (map escape_char s) = s" by (induction s) (auto simp: plain_char_def)
  then show ?thesis by (simp add: dumps_str_def)
qed

lemma plain_b64: "list_all plain_char (b64encode s)"
proof -
  have "plain_char (b64_char n)" for n
    by (rule plain_code) (auto simp: b64_char_def)
  moreover have "plain_char (CHR ''='')" by (rule plain_code) auto
  ultimately show ?thesis by (induction s rule: b64encode.induct) (auto simp: Let_def)
qed

lemma length_dumps_seal:
  assumes "aead_length P" "seal P nonce key pt aad = Inr s" "seal P nonce' key pt aad' = Inr s'" "length nonce = length nonce'"
  shows "length (dumpsP sp s') = length (dumpsP sp s)"
proof -
  have "length (dumps_str (b64e (aes_encrypt P key nonce pt aad))) = length (dumps_str (b64e (aes_encrypt P key nonce' pt aad')))"
    "length (dumps_str (b64e nonce)) = length (dumps_str (b64e nonce'))"
    using assms(1,4) by (simp_all add: length_dumps_plain plain_b64 b64e_def length_b64encode aead_length_def)
  with assms(2,3) show ?thesis by (auto simp: seal_def res_iffs)
qed

lemma length_dumps_compact:
  "length (dumpsP [] v) \<le> length (dumpsP sp v)" "length (dumpsP_list [] vs) \<le> length (dumpsP_list sp vs)"
  "length (dumpsP_fields [] fs) \<le> length (dumpsP_fields sp fs)"
  by (induction sp v and sp vs and sp fs rule: dumpsP_dumpsP_list_dumpsP_fields.induct) auto

lemma length_dumps_header:
  assumes "aead_length P" "seal P nonce key pt aad = Inr s" "seal P nonce' key pt aad' = Inr s'" "length nonce = length nonce'"
  shows "length (dumps (vault_header HEAD_BOUND_HEADER_VERSION k s')) \<le> length (dumpsP sp (vault_header VERSION k s))"
proof -
  have "list_all plain_char VERSION" "list_all plain_char HEAD_BOUND_HEADER_VERSION" by code_simp+
  then have "length (dumps_str HEAD_BOUND_HEADER_VERSION) = length (dumps_str VERSION)"
    using versions_differ(2) by (simp add: length_dumps_plain)
  moreover have "length (dumps s') = length (dumps s)" using length_dumps_seal [OF assms] .
  ultimately have "length (dumps (vault_header HEAD_BOUND_HEADER_VERSION k s')) = length (dumps (vault_header VERSION k s))"
    by (simp add: vault_header_def)
  then show ?thesis using length_dumps_compact(1) by simp
qed

text \<open>
  Upgrading a legacy header always fits in place. For a header of this build's legacy form, written
  compactly or with the default spacing, the head-bound header is never longer; the upgrade overwrites
  exactly the header line, leaves every record byte at its offset, and the new line authenticates the
  head-required mode under the same key and derivation parameters. Hypotheses: decryption inverts
  encryption, a ciphertext is sixteen bytes longer than its plaintext, and nonces have one length.
\<close>

lemma legacy_upgrade_fits_in_place:
  assumes "aead_opens P" "aead_length P" "seal P nonce key CHECK_TOKEN CHECK_AAD = Inr check" "length nonce = length nonce'"
    and "sp = [] \<or> sp = '' ''" "log_file d = Some (dumpsP sp (vault_header VERSION k check) @ [NL] @ records)"
  shows "\<exists>t. upgrade_header_in_place P nonce' None key d = (d\<lparr>log_file := Some (t @ [NL] @ records)\<rparr>, Inr ())
    \<and> length t = length (dumpsP sp (vault_header VERSION k check)) \<and> header_text_ok P key k t"
proof -
  let ?H = "vault_header VERSION k check" and ?old = "dumpsP sp (vault_header VERSION k check)"
  have key: "length key = KEY_LEN" using assms(3) by (auto simp: seal_def res_iffs)
  obtain aad where aad: "header_check_aad (Some (JStr HEAD_BOUND_HEADER_VERSION)) = Inr aad"
    using versions_differ by (simp add: header_check_aad_def)
  obtain check' where c': "seal P nonce' key CHECK_TOKEN aad = Inr check'" using seal_ok [OF key] by blast
  let ?new = "dumps (vault_header HEAD_BOUND_HEADER_VERSION k check')"
  let ?t = "?new @ replicate (length ?old - length ?new) (CHR '' '')"
  have w: "wf_json ?H" using assms(3) by (auto simp: vault_header_def kdf_to_dict_def seal_def res_iffs)
  obtain fs where fs: "?H = JObj fs" by (simp add: vault_header_def)
  have nl: "NL \<notin> set ?old" using assms(5) dumps_default_no_nl [OF w] dumps_no_nl [OF w] by auto
  then have rl: "fst (readline (?old @ [NL] @ records)) = ?old @ [NL]" using readline_line [OF nl] by simp
  have ld: "loads (?old @ [NL]) = Inr ?H" using loads_obj_ws [of fs sp "[NL]"] w assms(5) unfolding fs by auto
  have le: "length ?new \<le> length ?old" by (rule length_dumps_header [OF assms(2,3) c' assms(4)])
  have "upgraded_line P nonce' key (?old @ [NL]) = Inr (?t @ [NL])"
    using le by (simp add: upgraded_line_def ld rebind_own_header aad c' Let_def)
  then have "upgrade_header_in_place P nonce' None key d = (d\<lparr>log_file := Some (?t @ [NL] @ records)\<rparr>, Inr ())"
    unfolding upgrade_header_in_place_def assms(6) option.case rl using le by simp
  moreover have "header_text_ok P key k ?t" using header_text_own [OF assms(1) aad c', of "[]"] by simp
  ultimately show ?thesis using le by (intro exI [of _ ?t]) simp
qed


end
