(* ===== verification/Ledger.thy ===== *)
theory Ledger
  imports Event_Store_System
begin

text \<open>
  \<^verbatim>\<open>product/viva/ledger/ledger.py\<close>: the facade that joins the event store with a cached projection. A
  projection is represented by the source events it has folded, which determine it; the families of
  reads over that fold are not modelled. Whether the fold accepts a list of events, or raises, is the
  argument \<open>accepts\<close>, and every theorem holds for all of them. A published view carries the witness
  that registers it as owned; folding into a view or exposing its events drops the witness. Those two are
  the ways the code gives a caller to change a view, and \<open>touched\<close> is any change made through them; a caller
  that assigns to the fields of a view's core directly, past both, is outside the model and goes unnoticed by the code.
  The reentrant lock makes each operation one step.
\<close>

type_synonym projection = "event list"
type_synonym fold_check = "event list \<Rightarrow> unit res"

definition make_projection :: "fold_check \<Rightarrow> event list \<Rightarrow> projection res" where
  "make_projection accepts events = bindR (accepts events) (\<lambda>_. Inr events)"

definition apply_event :: "fold_check \<Rightarrow> projection \<Rightarrow> event \<Rightarrow> projection res" where
  "apply_event accepts p e = bindR (accepts (p @ [e])) (\<lambda>_. Inr (p @ [e]))"

fun apply_events :: "fold_check \<Rightarrow> projection \<Rightarrow> event list \<Rightarrow> projection res" where
  "apply_events accepts p [] = Inr p"
| "apply_events accepts p (e # es) = bindR (apply_event accepts p e) (\<lambda>p'. apply_events accepts p' es)"

subsection \<open>The cache\<close>

type_synonym full_identity = "int option \<times> string option \<times> int"

record view =
  v_projection :: projection
  v_owned :: "(nat \<times> int \<times> string) option"

record ledger =
  l_store :: handle
  l_basis :: "projection option"
  l_view :: "view option"
  l_generation :: nat
  l_identity :: full_identity

definition new_ledger :: "handle \<Rightarrow> ledger" where
  "new_ledger h = \<lparr>l_store = h, l_basis = None, l_view = None, l_generation = 0, l_identity = cached_identity h\<rparr>"

definition revoke_projection :: "view \<Rightarrow> view" where
  "revoke_projection v = v\<lparr>v_owned := None\<rparr>"

definition revoke_cache :: "ledger \<Rightarrow> ledger" where
  "revoke_cache l = l\<lparr>l_generation := l_generation l + 1, l_view := map_option revoke_projection (l_view l)\<rparr>"

definition drop_cache :: "ledger \<Rightarrow> ledger" where
  "drop_cache l = (revoke_cache l)\<lparr>l_view := None, l_basis := None\<rparr>"

definition set_basis :: "ledger \<Rightarrow> projection \<Rightarrow> full_identity \<Rightarrow> bool \<Rightarrow> ledger" where
  "set_basis l p identity witnessed =
     l\<lparr>l_view := None, l_identity := identity,
       l_basis := (if witnessed \<and> (fst identity = None \<or> fst identity = Some (int (length p))) then Some p else None)\<rparr>"

definition publish_basis :: "ledger \<Rightarrow> ledger res" where
  "publish_basis l =
     (case l_basis l of
        None \<Rightarrow> Inl (AssertionError ''no basis'')
      | Some p \<Rightarrow>
          (let l1 = revoke_cache l;
               owned = (case l_identity l of
                          (Some cnt, Some head, _) \<Rightarrow>
                            if head \<noteq> [] \<and> cnt = int (length p) then Some (l_generation l1, cnt, head) else None
                        | _ \<Rightarrow> None) in
           Inr (l1\<lparr>l_view := Some \<lparr>v_projection = p, v_owned = owned\<rparr>\<rparr>)))"

definition basis_reusable :: "ledger \<Rightarrow> bool" where
  "basis_reusable l =
     (case (l_basis l, l_identity l) of
        (Some p, Some cnt, Some head, _) \<Rightarrow> head \<noteq> [] \<and> cnt = int (length p)
      | _ \<Rightarrow> False)"

text \<open>\<^verbatim>\<open>_owned_projection_identity\<close> of the ledger's current view.\<close>

definition owned_projection_identity :: "ledger \<Rightarrow> view \<Rightarrow> (int \<times> string) option" where
  "owned_projection_identity l v =
     (case v_owned v of
        None \<Rightarrow> None
      | Some (generation, cnt, head) \<Rightarrow>
          (case (l_identity l, cached_identity (l_store l)) of ((c1, h1, _), (c2, h2, _)) \<Rightarrow>
             if l_generation l \<noteq> generation \<or> c1 \<noteq> Some cnt \<or> h1 \<noteq> Some head \<or> c2 \<noteq> Some cnt \<or> h2 \<noteq> Some head
                \<or> write_failed (l_store l)
             then None else Some (cnt, head)))"

definition advance_cache :: "fold_check \<Rightarrow> ledger \<Rightarrow> event list \<Rightarrow> bool \<Rightarrow> projection res" where
  "advance_cache accepts l events reusable =
     (if reusable then
        (case l_basis l of
           None \<Rightarrow> Inl (AssertionError ''no basis'')
         | Some p \<Rightarrow> apply_events accepts p (drop (length p) events))
      else make_projection accepts events)"

definition install_cache :: "fold_check \<Rightarrow> ledger \<Rightarrow> event list \<Rightarrow> full_identity \<Rightarrow> bool \<Rightarrow> ledger res" where
  "install_cache accepts l events identity witnessed =
     bindR (make_projection accepts events) (\<lambda>p. Inr (set_basis (revoke_cache l) p identity witnessed))"

subsection \<open>Reads\<close>

type_synonym 'a ledger_result = "disk \<times> ledger \<times> 'a res"

definition failed :: "disk \<Rightarrow> ledger \<Rightarrow> handle \<Rightarrow> exc \<Rightarrow> 'a ledger_result" where
  "failed d l h e = (d, (drop_cache l)\<lparr>l_store := h\<rparr>, Inl e)"

definition finish_sync :: "bool \<Rightarrow> disk \<Rightarrow> ledger \<Rightarrow> unit ledger_result" where
  "finish_sync publish d l =
     (if publish \<and> (case l_view l of None \<Rightarrow> True | Some v \<Rightarrow> owned_projection_identity l v = None)
      then (case publish_basis l of Inl e \<Rightarrow> failed d l (l_store l) e | Inr l' \<Rightarrow> (d, l', Inr ()))
      else (d, l, Inr ()))"

definition sync_if_external_write ::
    "prims \<Rightarrow> (nat \<Rightarrow> string) \<Rightarrow> fold_check \<Rightarrow> bool \<Rightarrow> disk \<Rightarrow> ledger \<Rightarrow> unit ledger_result" where
  "sync_if_external_write P fresh accepts publish d l =
     (let reusable = basis_reusable l in
      case authenticated_identity P d (l_store l) of
        (d1, h1, Inl e) \<Rightarrow> failed d1 l h1 e
      | (d1, h1, Inr identity) \<Rightarrow>
          if l_basis l = None \<or> identity \<noteq> l_identity l \<or> \<not> reusable then
            (case snapshot_events_with_identity P fresh d1 h1 of
               (d2, h2, Inl e) \<Rightarrow> failed d2 (revoke_cache l) h2 e
             | (d2, h2, Inr (events, identity2)) \<Rightarrow>
                 (case advance_cache accepts l events reusable of
                    Inl e \<Rightarrow> failed d2 (revoke_cache l) h2 e
                  | Inr p \<Rightarrow> finish_sync publish d2 (set_basis ((revoke_cache l)\<lparr>l_store := h2\<rparr>) p identity2 True)))
          else finish_sync publish d1 (l\<lparr>l_store := h1\<rparr>))"

definition projection_of :: "prims \<Rightarrow> (nat \<Rightarrow> string) \<Rightarrow> fold_check \<Rightarrow> disk \<Rightarrow> ledger \<Rightarrow> view ledger_result" where
  "projection_of P fresh accepts d l =
     (case sync_if_external_write P fresh accepts True d l of
        (d', l', Inl e) \<Rightarrow> (d', l', Inl e)
      | (d', l', Inr _) \<Rightarrow>
          (d', l', case l_view l' of None \<Rightarrow> Inl (AssertionError ''no projection'') | Some v \<Rightarrow> Inr v))"

text \<open>A read of the private basis, for the one the code has: a function of what it has folded.\<close>

definition is_resolved ::
    "prims \<Rightarrow> (nat \<Rightarrow> string) \<Rightarrow> fold_check \<Rightarrow> (projection \<Rightarrow> bool) \<Rightarrow> disk \<Rightarrow> ledger \<Rightarrow> bool ledger_result" where
  "is_resolved P fresh accepts resolved d l =
     (case sync_if_external_write P fresh accepts False d l of
        (d', l', Inl e) \<Rightarrow> (d', l', Inl e)
      | (d', l', Inr _) \<Rightarrow>
          (d', l', case l_basis l' of None \<Rightarrow> Inl (AssertionError ''no basis'') | Some p \<Rightarrow> Inr (resolved p)))"

definition snapshot_projection ::
    "prims \<Rightarrow> (nat \<Rightarrow> string) \<Rightarrow> fold_check \<Rightarrow> disk \<Rightarrow> ledger \<Rightarrow> (projection \<times> event list) ledger_result" where
  "snapshot_projection P fresh accepts d l =
     (case snapshot_events_with_identity P fresh d (l_store l) of (d', h', r) \<Rightarrow>
        (d', l\<lparr>l_store := h'\<rparr>,
         bindR r (\<lambda>(events, _). bindR (make_projection accepts events) (\<lambda>p. Inr (p, events)))))"

definition fresh_projection :: "prims \<Rightarrow> (nat \<Rightarrow> string) \<Rightarrow> fold_check \<Rightarrow> disk \<Rightarrow> ledger \<Rightarrow> projection ledger_result" where
  "fresh_projection P fresh accepts d l =
     (case snapshot_projection P fresh accepts d l of (d', l', r) \<Rightarrow> (d', l', bindR r (\<lambda>(p, _). Inr p)))"

definition ledger_events :: "prims \<Rightarrow> (nat \<Rightarrow> string) \<Rightarrow> disk \<Rightarrow> ledger \<Rightarrow> event list ledger_result" where
  "ledger_events P fresh d l =
     (case snapshot_events_with_identity P fresh d (l_store l) of (d', h', r) \<Rightarrow>
        (d', l\<lparr>l_store := h'\<rparr>, bindR r (\<lambda>(events, _). Inr events)))"

definition ledger_len :: "prims \<Rightarrow> disk \<Rightarrow> ledger \<Rightarrow> int ledger_result" where
  "ledger_len P d l = (case store_len P d (l_store l) of (d', h', r) \<Rightarrow> (d', l\<lparr>l_store := h'\<rparr>, r))"

definition open_ledger :: "prims \<Rightarrow> string \<Rightarrow> string \<Rightarrow> string \<Rightarrow> disk \<Rightarrow> (disk \<times> ledger) res" where
  "open_ledger P slt nonce passphrase d = bindR (open_store P slt nonce passphrase d) (\<lambda>(d', h). Inr (d', new_ledger h))"

definition fork_ledger :: "prims \<Rightarrow> string \<Rightarrow> disk \<Rightarrow> ledger \<Rightarrow> ledger ledger_result" where
  "fork_ledger P fresh d l =
     (case fork P fresh d (l_store l) of (d', h', r) \<Rightarrow> (d', l\<lparr>l_store := h'\<rparr>, bindR r (\<lambda>h2. Inr (new_ledger h2))))"

subsection \<open>Appends\<close>

text \<open>
  \<^verbatim>\<open>_append_decision\<close>. The store calls the decision with the events it read under its lock; \<open>pick\<close> sees
  their fold. What the closure kept of that call (the fold, what was chosen and the identity of the
  prefix) is what reading the same store under the same lock yields.
\<close>

definition record_identity :: "json \<Rightarrow> int option \<times> string option" where
  "record_identity r =
     (case jget r ''seq'' of Some (JInt n) \<Rightarrow> Some (n + 1) | _ \<Rightarrow> None,
      (case jget r ''record_hash'' of Some (JStr h) \<Rightarrow> Some h | _ \<Rightarrow> None))"

definition append_decision ::
    "prims \<Rightarrow> append_env \<Rightarrow> (nat \<Rightarrow> string) \<Rightarrow> fold_check \<Rightarrow> (projection \<Rightarrow> event list res) \<Rightarrow> disk \<Rightarrow> ledger
     \<Rightarrow> json list ledger_result" where
  "append_decision P env fresh accepts pick d l =
     (let advance = (\<lambda>events. advance_cache accepts l events (basis_reusable l)) in
      case append_atomically P env fresh (\<lambda>events. bindR (advance events) pick) d (l_store l) of
        (d', h', Inl e) \<Rightarrow> failed d' (revoke_cache l) h' e
      | (d', h', Inr records) \<Rightarrow>
          (case snapshot_events_with_identity P fresh d (l_store l) of
             (_, _, Inl e) \<Rightarrow> failed d' (revoke_cache l) h' (AssertionError ''no projection'')
           | (_, _, Inr (events, prefix_identity)) \<Rightarrow>
               (case bindR (advance events) (\<lambda>p. bindR (pick p) (apply_events accepts p)) of
                  Inl e \<Rightarrow> failed d' (revoke_cache l) h' e
                | Inr p \<Rightarrow>
                    (let identity = cached_identity h';
                         witnessed = (if records = [] then prefix_identity = identity
                                      else record_identity (last records) = (fst identity, fst (snd identity))) in
                     (d', set_basis ((revoke_cache l)\<lparr>l_store := h'\<rparr>) p identity witnessed, Inr records)))))"

definition append_many ::
    "prims \<Rightarrow> append_env \<Rightarrow> (nat \<Rightarrow> string) \<Rightarrow> fold_check \<Rightarrow> event list \<Rightarrow> disk \<Rightarrow> ledger \<Rightarrow> json list ledger_result" where
  "append_many P env fresh accepts events d l = append_decision P env fresh accepts (\<lambda>_. Inr events) d l"

definition append_one ::
    "prims \<Rightarrow> append_env \<Rightarrow> (nat \<Rightarrow> string) \<Rightarrow> fold_check \<Rightarrow> event \<Rightarrow> disk \<Rightarrow> ledger \<Rightarrow> json ledger_result" where
  "append_one P env fresh accepts e d l =
     (case append_many P env fresh accepts [e] d l of
        (d', l', r) \<Rightarrow> (d', l', bindR r (\<lambda>rs. case rs of [] \<Rightarrow> Inl (IndexError ''0'') | x # _ \<Rightarrow> Inr x)))"

definition ledger_append_atomically ::
    "prims \<Rightarrow> append_env \<Rightarrow> (nat \<Rightarrow> string) \<Rightarrow> fold_check \<Rightarrow> (projection \<Rightarrow> event list res) \<Rightarrow> disk \<Rightarrow> ledger
     \<Rightarrow> json list ledger_result" where
  "ledger_append_atomically P env fresh accepts decide d l = append_decision P env fresh accepts decide d l"

subsection \<open>Staged work\<close>

text \<open>
  \<^verbatim>\<open>_StagedLedger\<close>: an isolated ledger in memory, whose additions are committed together when the
  operation over it returns. The clean-up callbacks of derived caches are not modelled; the
  generation that guards them is. An operation is a function of the staged ledger.
\<close>

record staged =
  s_basis :: projection
  s_view :: "projection option"
  s_additions :: "event list"
  s_active :: bool
  s_failed :: bool
  s_generation :: nat

definition new_staged :: "projection \<Rightarrow> staged" where
  "new_staged p = \<lparr>s_basis = p, s_view = None, s_additions = [], s_active = True, s_failed = False, s_generation = 0\<rparr>"

definition check_active :: "staged \<Rightarrow> unit res" where
  "check_active s =
     guardR (s_active s \<and> \<not> s_failed s) (RuntimeError ''staged ledger is closed, failed or outside its owning thread'') (Inr ())"

definition invalidate_work :: "staged \<Rightarrow> staged" where
  "invalidate_work s = s\<lparr>s_generation := s_generation s + 1\<rparr>"

definition staged_projection :: "staged \<Rightarrow> staged \<times> projection res" where
  "staged_projection s =
     (case check_active s of Inl e \<Rightarrow> (s, Inl e)
      | Inr _ \<Rightarrow>
          (case s_view s of Some v \<Rightarrow> (s, Inr v) | None \<Rightarrow> (s\<lparr>s_view := Some (s_basis s)\<rparr>, Inr (s_basis s))))"

text \<open>The basis is folded in place: what was folded before a failure stays.\<close>

fun fold_in_place :: "fold_check \<Rightarrow> projection \<Rightarrow> event list \<Rightarrow> projection \<times> unit res" where
  "fold_in_place accepts p [] = (p, Inr ())"
| "fold_in_place accepts p (e # es) =
     (case accepts (p @ [e]) of Inl x \<Rightarrow> (p @ [e], Inl x) | Inr _ \<Rightarrow> fold_in_place accepts (p @ [e]) es)"

definition staged_append_many :: "fold_check \<Rightarrow> event list \<Rightarrow> staged \<Rightarrow> staged \<times> unit res" where
  "staged_append_many accepts events s =
     (case check_active s of Inl e \<Rightarrow> (s, Inl e)
      | Inr _ \<Rightarrow>
          if events = [] then (s, Inr ())
          else (let s1 = (invalidate_work s)\<lparr>s_view := None\<rparr> in
                case fold_in_place accepts (s_basis s1) events of
                  (p, Inl e) \<Rightarrow> (invalidate_work (s1\<lparr>s_basis := p, s_failed := True, s_view := None\<rparr>), Inl e)
                | (p, Inr _) \<Rightarrow> (s1\<lparr>s_basis := p, s_additions := s_additions s1 @ events\<rparr>, Inr ())))"

definition staged_append_atomically ::
    "fold_check \<Rightarrow> (projection \<Rightarrow> event list res) \<Rightarrow> staged \<Rightarrow> staged \<times> event list res" where
  "staged_append_atomically accepts decide s =
     (case bindR (check_active s) (\<lambda>_. decide (s_basis s)) of
        Inl e \<Rightarrow> (s, Inl e)
      | Inr events \<Rightarrow> (case staged_append_many accepts events s of (s', r) \<Rightarrow> (s', bindR r (\<lambda>_. Inr events))))"

definition staged_events :: "staged \<Rightarrow> event list res" where
  "staged_events s = bindR (check_active s) (\<lambda>_. Inr (s_basis s))"

definition staged_len :: "staged \<Rightarrow> nat res" where
  "staged_len s = bindR (check_active s) (\<lambda>_. Inr (length (s_basis s)))"

definition stage_decision :: "(staged \<Rightarrow> staged \<times> 'a res) \<Rightarrow> projection \<Rightarrow> (event list \<times> 'a) res" where
  "stage_decision operation p =
     (case operation (new_staged p) of (s, r) \<Rightarrow>
        bindR r (\<lambda>result. bindR (check_active s) (\<lambda>_. Inr (s_additions s, result))))"

definition stage_atomically ::
    "prims \<Rightarrow> append_env \<Rightarrow> (nat \<Rightarrow> string) \<Rightarrow> fold_check \<Rightarrow> (staged \<Rightarrow> staged \<times> 'a res) \<Rightarrow> disk \<Rightarrow> ledger \<Rightarrow> 'a ledger_result" where
  "stage_atomically P env fresh accepts operation d l =
     (case append_decision P env fresh accepts (\<lambda>p. bindR (stage_decision operation p) (\<lambda>(events, _). Inr events)) d l of
        (d', l', Inl e) \<Rightarrow> (d', l', Inl e)
      | (d', l', Inr _) \<Rightarrow>
          (d', l',
           case snapshot_events_with_identity P fresh d (l_store l) of
             (_, _, r) \<Rightarrow>
               bindR r (\<lambda>(events, _).
               bindR (advance_cache accepts l events (basis_reusable l)) (\<lambda>p.
               bindR (stage_decision operation p) (\<lambda>(_, result). Inr result)))))"

text \<open>As long as staging has not failed, its basis is the fold it started from followed by its additions.\<close>

definition staged_over :: "projection \<Rightarrow> staged \<Rightarrow> bool" where
  "staged_over base s \<longleftrightarrow> s_failed s \<or> s_basis s = base @ s_additions s"

lemma fold_in_place_result: "fold_in_place accepts p es = (q, Inr u) \<Longrightarrow> q = p @ es"
  by (induction es arbitrary: p) (fastforce split: sum.splits)+

lemma staged_over_new: "staged_over p (new_staged p)"
  by (simp add: staged_over_def new_staged_def)

lemma staged_over_append: "staged_over base s \<Longrightarrow> staged_append_many accepts events s = (s', r) \<Longrightarrow> staged_over base s'"
  by (auto simp: staged_append_many_def Let_def staged_over_def invalidate_work_def check_active_def guardR_def
      dest: fold_in_place_result split: sum.splits if_splits prod.splits)

lemma staged_over_atomic:
  "staged_over base s \<Longrightarrow> staged_append_atomically accepts decide s = (s', r) \<Longrightarrow> staged_over base s'"
  using staged_over_append by (fastforce simp: staged_append_atomically_def split: sum.splits prod.splits)

subsection \<open>The cache is the log\<close>

lemma sort_key_map_fst: "(\<And>x. fst (g x) = fst x) \<Longrightarrow> sort_key fst (map g xs) = map g (sort_key fst xs)"
proof -
  assume g: "\<And>x. fst (g x) = fst x"
  have "insort_key fst (g x) (map g ys) = map g (insort_key fst x ys)" for x ys by (induction ys) (auto simp: g)
  then show ?thesis by (induction xs) auto
qed

lemma sort_keys_idem: "wf_json v \<Longrightarrow> sort_keys (sort_keys v) = sort_keys v"
  and sort_keys_list_idem: "wf_json_list vs \<Longrightarrow> sort_keys_list (sort_keys_list vs) = sort_keys_list vs"
  and sort_keys_fields_idem: "wf_json_fields fs \<Longrightarrow> sort_keys_fields (sort_keys_fields fs) = sort_keys_fields fs"
proof (induction v and vs and fs rule: wf_json_wf_json_list_wf_json_fields.induct)
  case (3 fs)
  have eq: "sort_keys_fields xs = map (\<lambda>p. (fst p, sort_keys (snd p))) xs" for xs by (induction xs) auto
  have srt: "sort_key fst (sort_keys_fields ys) = sort_keys_fields (sort_key fst ys)" for ys
    unfolding eq by (rule sort_key_map_fst) simp
  have "sort_keys_fields (sort_keys_fields (sort_key fst fs)) = sort_keys_fields (sort_key fst fs)"
    using 3 by (simp flip: srt)
  then show ?case by (simp add: srt sort_key_id_if_sorted)
qed auto

lemma event_sorted_idem: "wf_json (body e) \<Longrightarrow> event_sorted (event_sorted e) = event_sorted e"
  by (simp add: event_sorted_def sort_keys_idem)

text \<open>Two lists of events that differ only in the order of the keys of their bodies.\<close>

abbreviation same_events :: "event list \<Rightarrow> event list \<Rightarrow> bool" where
  "same_events a b \<equiv> map event_sorted a = map event_sorted b"

definition wf_events :: "event list \<Rightarrow> bool" where
  "wf_events es = list_all (\<lambda>e. wf_json (body e)) es"

lemma same_events_sorted: "wf_events es \<Longrightarrow> same_events (map event_sorted es) es"
  by (simp add: wf_events_def list_all_iff event_sorted_idem)

text \<open>What holds of a ledger over the committed events: its basis is the fold of a prefix, and an owned view is the basis.\<close>

definition cache_ok :: "event list \<Rightarrow> ledger \<Rightarrow> bool" where
  "cache_ok es l \<longleftrightarrow>
     (\<forall>p. l_basis l = Some p \<longrightarrow> length p \<le> length es \<and> same_events p (take (length p) es))
     \<and> (\<forall>v. l_view l = Some v \<and> v_owned v \<noteq> None \<longrightarrow> l_basis l = Some (v_projection v))"

lemma cache_ok_extend: "cache_ok es l \<Longrightarrow> cache_ok (es @ new) l"
  by (auto simp: cache_ok_def)

lemma cache_ok_store [simp]: "cache_ok es (l\<lparr>l_store := h\<rparr>) = cache_ok es l"
  by (simp add: cache_ok_def)

lemma cache_ok_new [simp]: "cache_ok es (new_ledger h)"
  by (simp add: cache_ok_def new_ledger_def)

lemma cache_ok_drop [simp]: "cache_ok es (drop_cache l)"
  by (simp add: cache_ok_def drop_cache_def revoke_cache_def)

lemma cache_ok_revoke: "cache_ok es l \<Longrightarrow> cache_ok es (revoke_cache l)"
  by (auto simp: cache_ok_def revoke_cache_def revoke_projection_def)

lemma cache_ok_set: "same_events p es \<Longrightarrow> cache_ok es (set_basis l p identity w)"
  by (auto simp: cache_ok_def set_basis_def dest: map_eq_imp_length_eq)

lemma set_basis_store: "l_store (set_basis l p identity w) = l_store l"
  by (simp add: set_basis_def)

lemma cache_ok_publish: "cache_ok es l \<Longrightarrow> publish_basis l = Inr l' \<Longrightarrow> cache_ok es l'"
  by (auto simp: cache_ok_def publish_basis_def Let_def revoke_cache_def split: option.splits)

lemma apply_events_result: "apply_events accepts p es = Inr q \<Longrightarrow> q = p @ es"
  by (induction es arbitrary: p) (fastforce simp: apply_event_def res_iffs)+

lemma apply_events_total: "(\<And>xs. accepts xs = Inr ()) \<Longrightarrow> apply_events accepts p es = Inr (p @ es)"
  by (induction es arbitrary: p) (auto simp: apply_event_def)

lemma advance_cache_result:
  assumes "cache_ok es l" "wf_events es" "advance_cache accepts l (map event_sorted es) reusable = Inr p"
  shows "same_events p es"
proof (cases reusable)
  case True
  with assms(3) obtain q where q: "l_basis l = Some q" "p = q @ drop (length q) (map event_sorted es)"
    by (auto simp: advance_cache_def dest: apply_events_result split: option.splits)
  then have "map event_sorted p = map event_sorted (take (length q) es) @ map event_sorted (drop (length q) (map event_sorted es))"
    using assms(1) by (simp add: cache_ok_def)
  also have "map event_sorted (drop (length q) (map event_sorted es)) = map event_sorted (drop (length q) es)"
    using same_events_sorted [OF assms(2)] by (metis drop_map)
  finally show ?thesis by (metis append_take_drop_id map_append)
next
  case False
  with assms show ?thesis
    using same_events_sorted [OF assms(2)] by (auto simp: advance_cache_def make_projection_def res_iffs)
qed

lemma advance_cache_total:
  "(\<And>xs. accepts xs = Inr ()) \<Longrightarrow> reusable \<longrightarrow> l_basis l \<noteq> None \<Longrightarrow> \<exists>p. advance_cache accepts l es reusable = Inr p"
  by (auto simp: advance_cache_def make_projection_def apply_events_total)

lemma authenticated_identity_in:
  assumes "vault_ok P key k t ss es junk d" "handle_in P key k ss es h"
  shows "\<exists>h' sz. authenticated_identity P d h =
      (cleaned P t ss d, h', Inr (Some (int (length es)), Some (chain_head P 0 GENESIS ss), sz)) \<and> handle_in P key k ss es h'"
  using at_tail_in [OF assms(2)] vault_ok_wf [OF assms(1)]
  by (auto simp: authenticated_identity_def ready_in [OF assms(2)] synchronized_in [OF assms] cached_identity_def)

lemma finish_sync_ok:
  assumes "cache_ok es l" "l_basis l = Some p" "same_events p es"
  shows "\<exists>l'. finish_sync publish d l = (d, l', Inr ()) \<and> cache_ok es l' \<and> l_store l' = l_store l \<and> l_basis l' = Some p
    \<and> (publish \<longrightarrow> (\<exists>v. l_view l' = Some v \<and> same_events (v_projection v) es))"
proof (cases "publish \<and> (case l_view l of None \<Rightarrow> True | Some v \<Rightarrow> owned_projection_identity l v = None)")
  case True
  obtain l' where l': "publish_basis l = Inr l'" "l_store l' = l_store l" "l_basis l' = Some p"
      "\<exists>v. l_view l' = Some v \<and> v_projection v = p"
    using assms(2) by (auto simp: publish_basis_def Let_def revoke_cache_def)
  then show ?thesis using True cache_ok_publish [OF assms(1)] assms(3) by (auto simp: finish_sync_def)
next
  case False
  have "\<exists>v. l_view l = Some v \<and> v_projection v = p" if pub: publish
  proof -
    obtain v where v: "l_view l = Some v" "owned_projection_identity l v \<noteq> None"
      using False pub by (cases "l_view l") auto
    then have "v_owned v \<noteq> None" by (auto simp: owned_projection_identity_def split: option.splits)
    then show ?thesis using v(1) assms(1,2) by (auto simp: cache_ok_def)
  qed
  then show ?thesis using False assms by (auto simp: finish_sync_def)
qed

definition synced :: "event list \<Rightarrow> bool \<Rightarrow> ledger \<Rightarrow> bool" where
  "synced es publish l \<longleftrightarrow> (\<exists>p. l_basis l = Some p \<and> same_events p es)
     \<and> (publish \<longrightarrow> (\<exists>v. l_view l = Some v \<and> same_events (v_projection v) es))"

lemma sync_in:
  assumes v: "vault_ok P key k t ss es junk d" and h: "handle_in P key k ss es (l_store l)" and c: "cache_ok es l" and w: "wf_events es"
  shows "\<exists>l' r. sync_if_external_write P fresh accepts publish d l = (cleaned P t ss d, l', r)
    \<and> handle_in P key k ss es (l_store l') \<and> cache_ok es l' \<and> (r = Inr () \<longrightarrow> synced es publish l')
    \<and> ((\<forall>xs. accepts xs = Inr ()) \<longrightarrow> r = Inr ())"
proof -
  obtain h1 sz where a: "authenticated_identity P d (l_store l) = (cleaned P t ss d, h1,
      Inr (Some (int (length es)), Some (chain_head P 0 GENESIS ss), sz))" "handle_in P key k ss es h1"
    using authenticated_identity_in [OF v h] by blast
  show ?thesis
  proof (cases "l_basis l = None \<or> (Some (int (length es)), Some (chain_head P 0 GENESIS ss), sz) \<noteq> l_identity l \<or> \<not> basis_reusable l")
    case False
    then obtain p where p: "l_basis l = Some p" "l_identity l = (Some (int (length es)), Some (chain_head P 0 GENESIS ss), sz)" by auto
    then have "length p = length es" using False by (auto simp: basis_reusable_def split: prod.splits)
    then have "same_events p es" using c p(1) by (simp add: cache_ok_def)
    then obtain l' where "finish_sync publish (cleaned P t ss d) (l\<lparr>l_store := h1\<rparr>) = (cleaned P t ss d, l', Inr ())"
        "cache_ok es l'" "l_store l' = h1" "synced es publish l'"
      using finish_sync_ok [of es "l\<lparr>l_store := h1\<rparr>" p publish "cleaned P t ss d"] c p(1) unfolding synced_def by auto
    then show ?thesis using a False by (auto simp: sync_if_external_write_def Let_def)
  next
    case True
    obtain h2 where s: "snapshot_events_with_identity P fresh (cleaned P t ss d) h1 = (cleaned P t ss (cleaned P t ss d), h2,
        Inr (map event_sorted es, Some (int (length es)), Some (chain_head P 0 GENESIS ss), log_size (cleaned P t ss (cleaned P t ss d))))"
        "handle_in P key k ss es h2"
      using snapshot_in [OF vault_ok_cleaned [OF v] a(2)] by blast
    have cc: "cleaned P t ss (cleaned P t ss d) = cleaned P t ss d" by (simp add: cleaned_def)
    show ?thesis
    proof (cases "advance_cache accepts l (map event_sorted es) (basis_reusable l)")
      case (Inl e)
      then have "\<not> (\<forall>xs. accepts xs = Inr ())"
        using advance_cache_total [of accepts "basis_reusable l" l "map event_sorted es"]
        by (auto simp: basis_reusable_def split: option.splits)
      then show ?thesis using Inl True a s cc by (auto simp: sync_if_external_write_def Let_def failed_def)
    next
      case (Inr p)
      then have p: "same_events p es" using advance_cache_result c w by blast
      let ?l = "set_basis ((revoke_cache l)\<lparr>l_store := h2\<rparr>) p
        (Some (int (length es)), Some (chain_head P 0 GENESIS ss), log_size (cleaned P t ss d)) True"
      have "l_basis ?l = Some p" using map_eq_imp_length_eq [OF p] by (simp add: set_basis_def)
      from finish_sync_ok [OF cache_ok_set [OF p] this p, of publish "cleaned P t ss d"] obtain l' where
        "finish_sync publish (cleaned P t ss d) ?l = (cleaned P t ss d, l', Inr ())" "cache_ok es l'" "l_store l' = l_store ?l"
        "synced es publish l'" using p unfolding synced_def by blast
      then show ?thesis using Inr True a s cc by (auto simp: sync_if_external_write_def Let_def set_basis_def)
    qed
  qed
qed

text \<open>How an append of the store ends, whatever the decision: an extension of the log, which a success returns.\<close>

lemma append_outcome:
  assumes "aead_opens P" "vault_ok P key k t ss es junk d" "handle_in P key k ss es h"
    and decide: "\<And>new. decide (map event_sorted es) = Inr new \<Longrightarrow> wf_events new"
    and a: "append_atomically P env fresh decide d h = (d', h', r)"
  shows "\<exists>ts new. vault_ok P key k t (ss @ ts) (es @ new) [] d' \<and> handle_in P key k (ss @ ts) (es @ new) h'
    \<and> (new = [] \<or> decide (map event_sorted es) = Inr new) \<and> (\<forall>records. r = Inr records \<longrightarrow> decide (map event_sorted es) = Inr new)"
proof (cases "\<exists>new. decide (map event_sorted es) = Inr new \<and> new \<noteq> []")
  case True
  then obtain new where new: "decide (map event_sorted es) = Inr new" "new \<noteq> []" by blast
  obtain ts where o: "if installs (batch_io env) then vault_ok P key k t (ss @ ts) (es @ new) [] d' \<and> handle_in P key k (ss @ ts) (es @ new) h'
       else vault_ok P key k t ss es [] d' \<and> handle_in P key k ss es h'"
      "if batch_io env = Completed then \<exists>x. r = Inr x else isl r"
    using append_atomically_in [where decide = decide, OF assms(1-3) new(1) decide [OF new(1), unfolded wf_events_def] new(2), of env fresh] a by auto
  show ?thesis
  proof (cases "installs (batch_io env)")
    case True
    then show ?thesis using o new by auto
  next
    case False
    then have "batch_io env \<noteq> Completed" by (auto simp: installs_def)
    then show ?thesis using o False by (intro exI [of _ "[]"]) auto
  qed
next
  case False
  then have n: "decide (map event_sorted es) = Inr [] \<or> isl (decide (map event_sorted es))"
    by (cases "decide (map event_sorted es)") auto
  from append_nothing_in [where decide = decide, OF assms(2,3) n, of env fresh] a vault_ok_cleaned [OF assms(2)] n show ?thesis
    by (intro exI [of _ "[]"]) (auto simp: res_iffs)
qed

lemma append_in:
  assumes P: "aead_opens P" and v: "vault_ok P key k t ss es junk d" and h: "handle_in P key k ss es (l_store l)"
    and c: "cache_ok es l" and w: "wf_events es" and pick: "\<forall>p new. pick p = Inr new \<longrightarrow> list_all writable new"
    and a: "append_decision P env fresh accepts pick d l = (d', l', r)"
  shows "\<exists>ts new. vault_ok P key k t (ss @ ts) (es @ new) [] d' \<and> handle_in P key k (ss @ ts) (es @ new) (l_store l')
    \<and> cache_ok (es @ new) l' \<and> list_all writable new
    \<and> (\<forall>records. r = Inr records \<longrightarrow> (\<exists>p. same_events p es \<and> pick p = Inr new))"
proof -
  define decide where "decide = (\<lambda>events. bindR (advance_cache accepts l events (basis_reusable l)) pick)"
  have chosen: "\<exists>p. same_events p es \<and> pick p = Inr new" if "decide (map event_sorted es) = Inr new" for new
    using that advance_cache_result [OF c w] by (auto simp: decide_def res_iffs)
  then have ok: "wf_events new \<and> list_all writable new" if "decide (map event_sorted es) = Inr new" for new
    using that pick by (fastforce simp: wf_events_def writable_def list_all_iff)
  obtain d1 h1 r1 where s: "append_atomically P env fresh decide d (l_store l) = (d1, h1, r1)" by (metis prod_cases3)
  obtain ts new where o: "vault_ok P key k t (ss @ ts) (es @ new) [] d1" "handle_in P key k (ss @ ts) (es @ new) h1"
      "new = [] \<or> decide (map event_sorted es) = Inr new" "\<forall>records. r1 = Inr records \<longrightarrow> decide (map event_sorted es) = Inr new"
    using append_outcome [OF P v h _ s] ok by blast
  obtain h2 i2 where sn: "snapshot_events_with_identity P fresh d (l_store l) = (cleaned P t ss d, h2, Inr (map event_sorted es, i2))"
    using snapshot_in [OF v h, of fresh] by blast
  have wr: "list_all writable new" using o(3) ok by auto
  show ?thesis
  proof (cases r1)
    case (Inl e)
    then show ?thesis using a s o wr unfolding append_decision_def decide_def [symmetric] Let_def
      by (intro exI [of _ ts] exI [of _ new]) (auto simp: failed_def)
  next
    case (Inr records)
    then obtain p where p: "advance_cache accepts l (map event_sorted es) (basis_reusable l) = Inr p" "pick p = Inr new" "same_events p es"
      using o(4) advance_cache_result [OF c w] by (auto simp: decide_def res_iffs)
    show ?thesis
    proof (cases "apply_events accepts p new")
      case fail: (Inl e)
      then show ?thesis using a s Inr o wr p sn unfolding append_decision_def decide_def [symmetric] Let_def
        by (intro exI [of _ ts] exI [of _ new]) (auto simp: failed_def)
    next
      case applied: (Inr q)
      then have q: "same_events q (es @ new)" using apply_events_result p(3) by fastforce
      have "\<exists>wit. d' = d1 \<and> l' = set_basis ((revoke_cache l)\<lparr>l_store := h1\<rparr>) q (cached_identity h1) wit"
        using a s Inr p(1,2) sn applied unfolding append_decision_def decide_def [symmetric] Let_def by auto
      then have "d' = d1" "l_store l' = h1" "cache_ok (es @ new) l'" by (auto simp: set_basis_store intro: cache_ok_set [OF q])
      then show ?thesis using o(1,2) wr p(2,3)
        by (intro exI [of _ ts] exI [of _ new] conjI allI impI exI [of _ p]) simp_all
    qed
  qed
qed

subsection \<open>Ledgers that share a vault\<close>

text \<open>
  Several ledgers, of one process or of many, work on one vault: each is opened, read and appended
  through, and may be lost in a crash inside an append. A decision offers only events that can be
  written.
\<close>

inductive ledger_step :: "prims \<Rightarrow> string \<Rightarrow> fold_check \<Rightarrow> disk \<times> ledger list \<Rightarrow> disk \<times> ledger list \<Rightarrow> bool"
  for P passphrase accepts where
  opened: "open_ledger P slt nonce passphrase d = Inr (d', l) \<Longrightarrow> ledger_step P passphrase accepts (d, ls) (d', ls @ [l])"
| projected: "i < length ls \<Longrightarrow> projection_of P fresh accepts d (ls ! i) = (d', l', r1)
    \<Longrightarrow> ledger_step P passphrase accepts (d, ls) (d', ls[i := l'])"
| resolved: "i < length ls \<Longrightarrow> is_resolved P fresh accepts query d (ls ! i) = (d', l', r2)
    \<Longrightarrow> ledger_step P passphrase accepts (d, ls) (d', ls[i := l'])"
| touched: "i < length ls \<Longrightarrow> l' = (ls ! i)\<lparr>l_view := map_option (\<lambda>v. revoke_projection (v\<lparr>v_projection := q\<rparr>)) (l_view (ls ! i))\<rparr>
    \<Longrightarrow> ledger_step P passphrase accepts (d, ls) (d, ls[i := l'])"
| appended: "i < length ls \<Longrightarrow> (\<And>p new. pick p = Inr new \<Longrightarrow> list_all writable new)
    \<Longrightarrow> append_decision P env fresh accepts pick d (ls ! i) = (d', l', r3)
    \<Longrightarrow> ledger_step P passphrase accepts (d, ls) (d', ls[i := l'])"
| died: "i < length ls \<Longrightarrow> list_all writable new
    \<Longrightarrow> ledger_step P passphrase accepts (d, ls)
          (interrupted_append P env fresh new d (l_store (ls ! i)), take i ls @ drop (Suc i) ls)"

definition ledgers_in ::
    "prims \<Rightarrow> string \<Rightarrow> string \<Rightarrow> kdf_params \<Rightarrow> string \<Rightarrow> json list \<Rightarrow> event list \<Rightarrow> disk \<times> ledger list \<Rightarrow> bool" where
  "ledgers_in P passphrase key k t ss es s \<longleftrightarrow>
     system_in P passphrase key k t ss es (fst s, map l_store (snd s)) \<and> list_all (cache_ok es) (snd s)"

definition ledgers_ok :: "prims \<Rightarrow> string \<Rightarrow> event list \<Rightarrow> disk \<times> ledger list \<Rightarrow> bool" where
  "ledgers_ok P passphrase es s \<longleftrightarrow> (\<exists>key k t ss. ledgers_in P passphrase key k t ss es s)"

lemma wf_writable: "list_all writable new \<Longrightarrow> wf_events new \<and> list_all identified_event new"
  by (auto simp: wf_events_def writable_def list_all_iff)

lemma vault_wf_events: "vault_ok P key k t ss es junk d \<Longrightarrow> wf_events es"
proof -
  assume "vault_ok P key k t ss es junk d"
  then have "sealed_log P key 0 GENESIS ss es" by (simp add: vault_ok_def)
  moreover have "sealed_log P key n prev ss es \<Longrightarrow> wf_events es" for n prev
    by (induction P key n prev ss es rule: sealed_log.induct) (auto simp: wf_events_def)
  ultimately show ?thesis by blast
qed

lemma ledgers_inE:
  assumes "ledgers_in P passphrase key k t ss es (d, ls)" "i < length ls"
  obtains junk where "aead_opens P" "vault_ok P key k t ss es junk d" "handle_in P key k ss es (l_store (ls ! i))"
    "cache_ok es (ls ! i)" "wf_events es" "system_in P passphrase key k t ss es (d, map l_store ls)"
proof -
  have s: "system_in P passphrase key k t ss es (d, map l_store ls)" and rest: "cache_ok es (ls ! i)"
    using assms by (auto simp: ledgers_in_def list_all_length)
  obtain junk where v: "aead_opens P" "vault_ok P key k t ss es junk d" using s by (rule system_inE)
  have "handle_in P key k ss es (l_store (ls ! i))" using system_handle [OF s, of i] assms(2) by simp
  then show ?thesis using that s rest v vault_wf_events by blast
qed

text \<open>One ledger moves to an extension of the log; the others keep a prefix of it.\<close>

lemma ledgers_update:
  assumes "ledgers_in P passphrase key k t ss es (d, ls)" "vault_ok P key k t (ss @ ts) (es @ new) [] d'"
    "handle_in P key k (ss @ ts) (es @ new) (l_store l')" "cache_ok (es @ new) l'" "list_all writable new"
  shows "ledgers_in P passphrase key k t (ss @ ts) (es @ new) (d', ls[i := l'])"
proof -
  have s: "system_in P passphrase key k t ss es (d, map l_store ls)" and c: "list_all (cache_ok es) ls"
    using assms(1) by (auto simp: ledgers_in_def)
  have "system_in P passphrase key k t (ss @ ts) (es @ new) (d', (map l_store ls)[i := l_store l'])"
    using system_update [OF s assms(2) _ assms(3)] wf_writable [OF assms(5)] by blast
  moreover have "list_all (cache_ok (es @ new)) (ls[i := l'])"
    using c cache_ok_extend assms(4) by (intro handles_update) (auto simp: list_all_iff)
  ultimately show ?thesis by (simp add: ledgers_in_def map_update)
qed

lemmas ledgers_read = ledgers_update [where ts = "[]" and new = "[]", simplified]

lemma projection_of_in:
  assumes "ledgers_in P passphrase key k t ss es (d, ls)" "i < length ls"
  shows "\<exists>l' r. projection_of P fresh accepts d (ls ! i) = (cleaned P t ss d, l', r)
    \<and> ledgers_in P passphrase key k t ss es (cleaned P t ss d, ls[i := l'])
    \<and> (\<forall>v. r = Inr v \<longrightarrow> same_events (v_projection v) es) \<and> ((\<forall>xs. accepts xs = Inr ()) \<longrightarrow> \<not> isl r)"
proof -
  obtain junk where i: "vault_ok P key k t ss es junk d" "handle_in P key k ss es (l_store (ls ! i))"
    "cache_ok es (ls ! i)" "wf_events es" using assms by (rule ledgers_inE)
  obtain l' r where s: "sync_if_external_write P fresh accepts True d (ls ! i) = (cleaned P t ss d, l', r)"
      "handle_in P key k ss es (l_store l')" "cache_ok es l'" "r = Inr () \<longrightarrow> synced es True l'"
      "(\<forall>xs. accepts xs = Inr ()) \<longrightarrow> r = Inr ()"
    using sync_in [OF i, of fresh accepts True] by blast
  have "ledgers_in P passphrase key k t ss es (cleaned P t ss d, ls[i := l'])"
    using ledgers_read [OF assms(1) vault_ok_cleaned [OF i(1)]] s by simp
  then show ?thesis using s by (cases r) (auto simp: projection_of_def synced_def)
qed

lemma is_resolved_in:
  assumes "ledgers_in P passphrase key k t ss es (d, ls)" "i < length ls" "is_resolved P fresh accepts query d (ls ! i) = (d', l', r)"
  shows "ledgers_in P passphrase key k t ss es (d', ls[i := l'])"
proof -
  obtain junk where i: "vault_ok P key k t ss es junk d" "handle_in P key k ss es (l_store (ls ! i))"
    "cache_ok es (ls ! i)" "wf_events es" using assms(1,2) by (rule ledgers_inE)
  obtain l2 r2 where s: "sync_if_external_write P fresh accepts False d (ls ! i) = (cleaned P t ss d, l2, r2)"
      "handle_in P key k ss es (l_store l2)" "cache_ok es l2"
    using sync_in [OF i, of fresh accepts False] by blast
  then have "d' = cleaned P t ss d" "l' = l2" using assms(3) by (auto simp: is_resolved_def split: sum.splits)
  then show ?thesis using ledgers_read [OF assms(1) vault_ok_cleaned [OF i(1)]] s by simp
qed

lemma fresh_projection_in:
  assumes "ledgers_in P passphrase key k t ss es (d, ls)" "i < length ls" "fresh_projection P fresh accepts d (ls ! i) = (d', l', Inr p)"
  shows "p = map event_sorted es"
proof -
  obtain junk where i: "vault_ok P key k t ss es junk d" "handle_in P key k ss es (l_store (ls ! i))" using assms(1,2) by (rule ledgers_inE)
  show ?thesis using assms(3) snapshot_in [OF i, of fresh]
    by (auto simp: fresh_projection_def snapshot_projection_def make_projection_def res_iffs)
qed

lemma fresh_projection_total:
  assumes "ledgers_in P passphrase key k t ss es (d, ls)" "i < length ls" "\<forall>xs. accepts xs = Inr ()"
  shows "\<exists>d' l' p. fresh_projection P fresh accepts d (ls ! i) = (d', l', Inr p)"
proof -
  obtain junk where i: "vault_ok P key k t ss es junk d" "handle_in P key k ss es (l_store (ls ! i))" using assms(1,2) by (rule ledgers_inE)
  show ?thesis using assms(3) snapshot_in [OF i, of fresh]
    by (auto simp: fresh_projection_def snapshot_projection_def make_projection_def)
qed

lemma ledger_step_grows:
  assumes "ledger_step P passphrase accepts s s'" "ledgers_in P passphrase key k t ss es s"
  shows "\<exists>ts new. ledgers_in P passphrase key k t (ss @ ts) (es @ new) s'"
  using assms
proof (cases rule: ledger_step.cases)
  case (opened slt nonce d d' l ls)
  then obtain h where h: "open_store P slt nonce passphrase d = Inr (d', h)" "l = new_ledger h"
    by (auto simp: open_ledger_def res_iffs)
  have "system_in P passphrase key k t ss es (d, map l_store ls)" using assms(2) opened by (simp add: ledgers_in_def)
  from open_step [OF this h(1)] have "ledgers_in P passphrase key k t (ss @ []) (es @ []) s'"
    using assms(2) opened h(2) by (simp add: ledgers_in_def) (simp add: new_ledger_def)
  then show ?thesis by blast
next
  case (projected i ls fresh d d' l' r)
  then have "ledgers_in P passphrase key k t (ss @ []) (es @ []) s'"
    using projection_of_in [of P passphrase key k t ss es d ls i fresh accepts] assms(2) by auto
  then show ?thesis by blast
next
  case (resolved i ls fresh query d d' l' r)
  then have "ledgers_in P passphrase key k t (ss @ []) (es @ []) s'" using is_resolved_in assms(2) by simp
  then show ?thesis by blast
next
  case (touched i ls l' q d)
  have "cache_ok es (ls ! i)" using assms(2) touched(1,3) by (auto simp: ledgers_in_def list_all_length)
  then have "cache_ok es l'" by (auto simp: touched(4) cache_ok_def revoke_projection_def)
  then have "list_all (cache_ok es) (ls[i := l'])" using assms(2) touched(1) by (intro handles_update) (auto simp: ledgers_in_def)
  moreover have "map l_store (ls[i := l']) = map l_store ls" by (simp add: touched(4) map_update) (metis list_update_id map_update)
  ultimately have "ledgers_in P passphrase key k t (ss @ []) (es @ []) s'" using assms(2) touched(1,2) by (simp add: ledgers_in_def)
  then show ?thesis by blast
next
  case (appended i ls pick env fresh d d' l' r)
  have l: "ledgers_in P passphrase key k t ss es (d, ls)" using assms(2) appended(1) by simp
  then obtain junk where j: "aead_opens P" "vault_ok P key k t ss es junk d" "handle_in P key k ss es (l_store (ls ! i))"
    "cache_ok es (ls ! i)" "wf_events es" using appended(3) by (rule ledgers_inE)
  have w: "\<forall>p new. pick p = Inr new \<longrightarrow> list_all writable new" using appended(4) by blast
  from append_in [where pick = pick, OF j w appended(5)] obtain ts new where
    "vault_ok P key k t (ss @ ts) (es @ new) [] d'" "handle_in P key k (ss @ ts) (es @ new) (l_store l')"
    "cache_ok (es @ new) l'" "list_all writable new" by blast
  then show ?thesis using ledgers_update [OF l] appended(2) by blast
next
  case (died i ls new d env fresh)
  have l: "ledgers_in P passphrase key k t ss es (d, ls)" using assms(2) died(1) by simp
  then have s: "system_in P passphrase key k t ss es (d, map l_store ls)" using died(3) by (rule ledgers_inE)
  from die_step [OF s _ died(4), of i env fresh] died(3) obtain ts new' where
    "system_in P passphrase key k t (ss @ ts) (es @ new')
       (interrupted_append P env fresh new d (l_store (ls ! i)), map l_store (take i ls @ drop (Suc i) ls))"
    by (auto simp: take_map drop_map)
  moreover have "list_all (cache_ok (es @ new')) (take i ls @ drop (Suc i) ls)"
    using l cache_ok_extend by (auto simp: ledgers_in_def list_all_iff dest: in_set_takeD in_set_dropD)
  ultimately show ?thesis using l died(2) by (auto simp: ledgers_in_def)
qed

lemma ledger_steps_grow:
  assumes "(ledger_step P passphrase accepts)\<^sup>*\<^sup>* s s'" "ledgers_in P passphrase key k t ss es s"
  shows "\<exists>ts new. ledgers_in P passphrase key k t (ss @ ts) (es @ new) s'"
  using assms
proof (induction rule: rtranclp_induct)
  case base
  then show ?case by (metis append_Nil2)
next
  case (step y z)
  then obtain ts new where "ledgers_in P passphrase key k t (ss @ ts) (es @ new) y" by blast
  from ledger_step_grows [OF step(2) this] show ?case by (metis append_assoc)
qed

text \<open>
  C2: the cached projection is the log. In any run of ledgers that are opened, read, appended through,
  mutated in their published views and lost in crashes on one vault, every ledger that publishes a
  projection publishes the fold of exactly the committed events, in order, the same as a fresh replay
  of the whole log; and it fails only if folding the events does.
\<close>

theorem every_projection_is_the_log:
  assumes "ledgers_ok P passphrase es s" "(ledger_step P passphrase accepts)\<^sup>*\<^sup>* s (d, ls)"
  shows "\<exists>new. \<forall>i < length ls. \<forall>fresh.
    (\<forall>d' l' v. projection_of P fresh accepts d (ls ! i) = (d', l', Inr v) \<longrightarrow> same_events (v_projection v) (es @ new))
    \<and> (\<forall>d' l' p. fresh_projection P fresh accepts d (ls ! i) = (d', l', Inr p) \<longrightarrow> same_events p (es @ new))
    \<and> ((\<forall>xs. accepts xs = Inr ()) \<longrightarrow> (\<exists>d' l' v. projection_of P fresh accepts d (ls ! i) = (d', l', Inr v))
         \<and> (\<exists>d' l' p. fresh_projection P fresh accepts d (ls ! i) = (d', l', Inr p)))"
proof -
  obtain key k t ss where "ledgers_in P passphrase key k t ss es s" using assms(1) by (auto simp: ledgers_ok_def)
  from ledger_steps_grow [OF assms(2) this] obtain ts new where l: "ledgers_in P passphrase key k t (ss @ ts) (es @ new) (d, ls)" by blast
  have "(\<forall>d' l' v. projection_of P fresh accepts d (ls ! i) = (d', l', Inr v) \<longrightarrow> same_events (v_projection v) (es @ new))
      \<and> (\<forall>d' l' p. fresh_projection P fresh accepts d (ls ! i) = (d', l', Inr p) \<longrightarrow> same_events p (es @ new))
      \<and> ((\<forall>xs. accepts xs = Inr ()) \<longrightarrow> (\<exists>d' l' v. projection_of P fresh accepts d (ls ! i) = (d', l', Inr v))
         \<and> (\<exists>d' l' p. fresh_projection P fresh accepts d (ls ! i) = (d', l', Inr p)))"
    if i: "i < length ls" for i fresh
  proof -
    obtain l' r where p: "projection_of P fresh accepts d (ls ! i) = (cleaned P t (ss @ ts) d, l', r)"
        "\<forall>v. r = Inr v \<longrightarrow> same_events (v_projection v) (es @ new)" "(\<forall>xs. accepts xs = Inr ()) \<longrightarrow> \<not> isl r"
      using projection_of_in [OF l i, of fresh accepts] by blast
    have "wf_events (es @ new)" using l i by (rule ledgers_inE)
    then have "same_events q (es @ new)" if "fresh_projection P fresh accepts d (ls ! i) = (d', l', Inr q)" for d' l' q
      using fresh_projection_in [OF l i that] same_events_sorted by simp
    then show ?thesis using p fresh_projection_total [OF l i] by (auto simp: not_isl_iff)
  qed
  then show ?thesis by blast
qed

lemma demo_ledgers_ok: "\<exists>d h. demo_open = Inr (d, h) \<and> ledgers_ok toy_prims ''open sesame'' [] (d, [new_ledger h])"
proof -
  obtain d h where o: "demo_open = Inr (d, h)" "system_ok toy_prims ''open sesame'' [] (d, [h])" using demo_system_ok by blast
  then obtain key k t ss where "system_in toy_prims ''open sesame'' key k t ss [] (d, [h])" by (auto simp: system_ok_def)
  then have "ledgers_in toy_prims ''open sesame'' key k t ss [] (d, [new_ledger h])"
    by (simp add: ledgers_in_def) (simp add: new_ledger_def)
  then show ?thesis using o(1) unfolding ledgers_ok_def by blast
qed

theorem every_projection_is_the_log_witness:
  "\<exists>d h d1 l1 r d' l' v d2 l2 p. demo_open = Inr (d, h)
     \<and> append_many toy_prims (demo_env (Head_Failed True)) (\<lambda>_. ''x'') (\<lambda>_. Inr ()) [demo_event] d (new_ledger h) = (d1, l1, r)
     \<and> projection_of toy_prims (\<lambda>_. ''x'') (\<lambda>_. Inr ()) d1 l1 = (d', l', Inr v)
     \<and> fresh_projection toy_prims (\<lambda>_. ''x'') (\<lambda>_. Inr ()) d1 l1 = (d2, l2, Inr p) \<and> same_events (v_projection v) p"
proof -
  obtain d h where o: "demo_open = Inr (d, h)" "ledgers_ok toy_prims ''open sesame'' [] (d, [new_ledger h])"
    using demo_ledgers_ok by blast
  obtain d1 l1 r where a: "append_many toy_prims (demo_env (Head_Failed True)) (\<lambda>_. ''x'') (\<lambda>_. Inr ()) [demo_event] d (new_ledger h) = (d1, l1, r)"
    by (metis prod_cases3)
  have "ledger_step toy_prims ''open sesame'' (\<lambda>_. Inr ()) (d, [new_ledger h]) (d1, [l1])"
    using ledger_step.appended [of 0 "[new_ledger h]" "\<lambda>_. Inr [demo_event]" toy_prims "demo_env (Head_Failed True)" "\<lambda>_. ''x''"
        "\<lambda>_. Inr ()" d d1 l1 r "''open sesame''"] a writable_demo by (simp add: append_many_def)
  note run = r_into_rtranclp [of "ledger_step toy_prims ''open sesame'' (\<lambda>_. Inr ())", OF this]
  obtain d' l' v d2 l2 p where "projection_of toy_prims (\<lambda>_. ''x'') (\<lambda>_. Inr ()) d1 l1 = (d', l', Inr v)"
      "fresh_projection toy_prims (\<lambda>_. ''x'') (\<lambda>_. Inr ()) d1 l1 = (d2, l2, Inr p)" "same_events (v_projection v) p"
    using every_projection_is_the_log [OF o(2) run] by fastforce
  then show ?thesis using o(1) a by blast
qed

end
