(* ===== verification/Render.thy ===== *)
theory Render
  imports Normalize
begin

text \<open>
  \<^verbatim>\<open>product/viva/render.py\<close>, the figures: a value becomes words under the separators of a locale, and
  \<^verbatim>\<open>parse_amount\<close> reads the words of an amount back to the same value.
\<close>

text \<open>
  \<^verbatim>\<open>Decimal.quantize\<close> to an exponent, half-even. The context precision is raised beforehand so that the
  result always fits.
\<close>

definition quantize :: "int \<Rightarrow> decimal \<Rightarrow> decimal" where
  "quantize e d =
     (if e \<le> expo d then Dec (lift_to e d) e
      else Dec (sgn (coeff d) * int (round_half_even (nat \<bar>coeff d\<bar>) (nat (e - expo d)))) e)"

definition CENTS :: int where "CENTS = - 2"

function group_loop :: "string \<Rightarrow> string list \<Rightarrow> string list" where
  "group_loop digits groups =
     (if length digits > 3
      then group_loop (take (length digits - 3) digits) (groups @ [drop (length digits - 3) digits])
      else groups @ [digits])"
  by pat_completeness auto
termination
  by (relation "measure (\<lambda>(digits, groups). length digits)") auto

declare group_loop.simps [simp del]

definition grouped :: "string \<Rightarrow> string \<Rightarrow> string" where
  "grouped digits separator = join separator (rev (group_loop digits []))"

definition money :: "pynum \<Rightarrow> string \<Rightarrow> string \<Rightarrow> string res" where
  "money amount currency locale =
     bindR (py_Decimal amount) (\<lambda>raw.
     let v = quantize CENTS raw;
         (point, grp) = separators_for (Some locale);
         sign = (if coeff v < 0 then ''-'' else []);
         (whole, _, fraction) = partition_char (CHR ''.'') (dec_str (Dec \<bar>coeff v\<bar> (expo v)));
         whole' = (if grp \<noteq> [] then grouped whole grp else whole);
         written = whole' @ point @ fraction in
     Inr (if currency \<noteq> [] then sign @ currency @ '' '' @ written else sign @ written))"

definition period :: "string \<Rightarrow> string \<Rightarrow> string" where
  "period start fin = start @ '' to '' @ fin"

subsection \<open>Grouping\<close>

lemma concat_group_loop: "concat (rev (group_loop digits groups)) = digits @ concat (rev groups)"
proof (induction digits groups rule: group_loop.induct)
  case (1 digits groups)
  then show ?case by (subst group_loop.simps) (auto simp flip: append_assoc)
qed

lemma group_loop_not_Nil: "group_loop digits groups \<noteq> []"
proof (induction digits groups rule: group_loop.induct)
  case (1 digits groups)
  then show ?case by (subst group_loop.simps) auto
qed

lemma remove_char_join: "x \<notin> set (concat ss) \<Longrightarrow> remove_char x (join [x] ss) = concat ss"
  by (induction "[x]" ss rule: join.induct) (auto simp: remove_char_def filter_empty_conv intro!: filter_True)

lemma set_join: "set (join sep ss) \<subseteq> set (concat ss) \<union> set sep"
  by (induction sep ss rule: join.induct) auto

lemma remove_grouped: "x \<notin> set ds \<Longrightarrow> remove_char x (grouped ds [x]) = ds"
  unfolding grouped_def using remove_char_join [of x "rev (group_loop ds [])"] concat_group_loop [of ds "[]"] by simp

lemma set_grouped: "set (grouped ds [x]) \<subseteq> set ds \<union> {x}"
  unfolding grouped_def using set_join [of "[x]" "rev (group_loop ds [])"] concat_group_loop [of ds "[]"] by auto

lemma group_loop_parts: "p \<in> set (group_loop digits groups) \<Longrightarrow> digits \<noteq> [] \<Longrightarrow> p \<noteq> [] \<or> p \<in> set groups"
proof (induction digits groups rule: group_loop.induct)
  case (1 digits groups)
  then show ?case by (subst (asm) (2) group_loop.simps) (auto split: if_splits)
qed

lemma join_hd: "ss \<noteq> [] \<Longrightarrow> hd ss \<noteq> [] \<Longrightarrow> join sep ss \<noteq> [] \<and> hd (join sep ss) = hd (hd ss)"
  by (induction sep ss rule: join.induct) auto

lemma hd_grouped: "ds \<noteq> [] \<Longrightarrow> grouped ds sep \<noteq> [] \<and> hd (grouped ds sep) = hd ds"
proof -
  assume ds: "ds \<noteq> []"
  let ?g = "rev (group_loop ds [])"
  have "hd ?g \<in> set (group_loop ds [])" using group_loop_not_Nil by (metis hd_in_set rev_is_Nil_conv set_rev)
  then have g: "?g \<noteq> []" "hd ?g \<noteq> []" using group_loop_not_Nil group_loop_parts [OF _ ds, of "hd ?g" "[]"] by auto
  have "concat ?g = ds" using concat_group_loop [of ds "[]"] by simp
  then have "hd ds = hd (hd ?g)" using g by (cases ?g) auto
  then show ?thesis using join_hd [OF g, of sep] by (simp add: grouped_def)
qed

subsection \<open>The text of an amount\<close>

lemma cents_text:
  "\<exists>whole fraction. dec_str (Dec (int n) (- 2)) = whole @ CHR ''.'' # fraction \<and> list_all is_digit whole \<and> list_all is_digit fraction
     \<and> whole \<noteq> [] \<and> length fraction = 2"
proof -
  let ?ds = "show_nat n"
  have dig: "list_all is_digit ?ds" using show_nat_digits by (auto simp: list_all_iff)
  have z: "is_digit (CHR ''0'')" by (simp add: is_digit_def)
  show ?thesis
  proof (cases "length ?ds \<le> 2")
    case True
    then have "dec_str (Dec (int n) (- 2)) = ''0'' @ CHR ''.'' # replicate (2 - length ?ds) (CHR ''0'') @ ?ds"
      by (cases "length ?ds = 2") (auto simp: dec_str_def Let_def nat_diff_distrib)
    then show ?thesis using True dig z by (intro exI [of _ "''0''"] exI [of _ "replicate (2 - length ?ds) (CHR ''0'') @ ?ds"]) (auto simp: list_all_iff)
  next
    case False
    then obtain k where k: "length ?ds = k + 3" by (metis add.commute less_eqE not_less_eq_eq numeral_2_eq_2 numeral_3_eq_3)
    have "nat (int (k + 1)) = k + 1" by (rule nat_int)
    then have "dec_str (Dec (int n) (- 2)) = take (k + 1) ?ds @ CHR ''.'' # drop (k + 1) ?ds"
      unfolding dec_str_def Let_def using k by simp
    then have "dec_str (Dec (int n) (- 2)) = take (length ?ds - 2) ?ds @ CHR ''.'' # drop (length ?ds - 2) ?ds" using k by simp
    then show ?thesis using False dig
      by (intro exI [of _ "take (length ?ds - 2) ?ds"] exI [of _ "drop (length ?ds - 2) ?ds"]) (auto simp: list_all_iff dest: in_set_takeD in_set_dropD)
  qed
qed

subsection \<open>Reading an amount back\<close>

lemma replace_str_absent: "old \<noteq> [] \<Longrightarrow> hd old \<notin> set s \<Longrightarrow> replace_str old new s = s"
proof (induction s)
  case (Cons c s)
  then have "\<not> starts_with (c # s) old" by (cases old) auto
  with Cons show ?case by simp
qed simp

lemma replace_str_same: "replace_str [c] [c] s = s"
  by (induction s) auto

lemma unify_spaces_ascii: "list_all (\<lambda>c. (of_char c :: nat) < 128) s \<Longrightarrow> unify_spaces s = s"
proof -
  assume a: "list_all (\<lambda>c. (of_char c :: nat) < 128) s"
  have no: "c \<notin> set s" if "128 \<le> (of_char c :: nat)" for c using a that by (auto simp: list_all_iff)
  have "CHR 0xC2 \<notin> set s" "CHR 0xE2 \<notin> set s" by (rule no, simp)+
  then show ?thesis by (simp add: unify_spaces_def SPACES_def replace_str_absent replace_str_same)
qed

lemma strip_solid: "s \<noteq> [] \<Longrightarrow> \<not> is_space (hd s) \<Longrightarrow> \<not> is_space (last s) \<Longrightarrow> strip s = s"
proof -
  assume s: "s \<noteq> []" "\<not> is_space (hd s)" "\<not> is_space (last s)"
  then have "dropWhile is_space s = s" by (cases s) auto
  moreover have "dropWhile is_space (rev s) = rev s" using s by (cases s rule: rev_cases) auto
  ultimately show ?thesis by (simp add: strip_def strip_by_def lstrip_by_def rstrip_by_def)
qed

lemma starts_with_char: "starts_with s [c] \<longleftrightarrow> s \<noteq> [] \<and> hd s = c"
  by (cases s) auto

lemma ends_with_char: "ends_with s [c] \<longleftrightarrow> s \<noteq> [] \<and> last s = c"
  by (simp add: ends_with_def starts_with_char hd_rev)

lemma starts_with_hd: "p \<noteq> [] \<Longrightarrow> starts_with s p \<Longrightarrow> s \<noteq> [] \<and> hd s = hd p"
  by (cases s; cases p) auto

lemma ends_with_last: "p \<noteq> [] \<Longrightarrow> ends_with s p \<Longrightarrow> s \<noteq> [] \<and> last s = last p"
  using starts_with_hd [of "rev p" "rev s"] by (simp add: ends_with_def hd_rev)

lemma starts_with_take: "length p \<le> length a \<Longrightarrow> starts_with (a @ b) p = starts_with a p"
  by (induction a p rule: starts_with.induct) auto

lemma starts_with_iff: "starts_with s p \<longleftrightarrow> take (length p) s = p"
  by (induction s p rule: starts_with.induct) auto

text \<open>A text that begins with a letter or a digit and ends in a digit.\<close>

definition figure :: "string \<Rightarrow> bool" where
  "figure s = (s \<noteq> [] \<and> (is_alpha (hd s) \<or> is_digit (hd s)) \<and> is_digit (last s))"

lemma figure_plain:
  assumes "figure s"
  shows "strip s = s" "strip (CHR ''-'' # s) = CHR ''-'' # s"
    and "\<not> starts_with s ''-''" "\<not> starts_with s ''+''" "\<not> starts_with s ''(''" "\<not> starts_with s MINUS"
    and "\<not> ends_with s ''-''" "\<not> ends_with s ''.''" "\<not> ends_with s '')''"
proof -
  have h: "s \<noteq> []" "\<not> is_space (hd s)" "\<not> is_space (last s)" "\<not> is_space (CHR ''-'')"
    using assms by (auto simp: figure_def is_alpha_def is_upper_def is_lower_def is_space_def is_digit_def)
  show "strip s = s" "strip (CHR ''-'' # s) = CHR ''-'' # s" using h by (auto intro!: strip_solid)
  have hd: "hd s \<noteq> c" if "\<not> is_alpha c" "\<not> is_digit c" for c using assms that by (auto simp: figure_def)
  have "\<not> is_alpha (CHR 0xE2)" "\<not> is_digit (CHR 0xE2)" by (simp_all add: is_alpha_def is_upper_def is_lower_def is_digit_def)
  with starts_with_hd [of MINUS s] hd show "\<not> starts_with s MINUS" by (auto simp: MINUS_def)
  show "\<not> starts_with s ''-''" "\<not> starts_with s ''+''" "\<not> starts_with s ''(''"
    unfolding starts_with_char by (simp_all add: hd is_alpha_def is_upper_def is_lower_def is_digit_def)
  show "\<not> ends_with s ''-''" "\<not> ends_with s ''.''" "\<not> ends_with s '')''"
    unfolding ends_with_char using assms by (auto simp: figure_def is_digit_def)
qed

lemma figure_drcr: "figure s \<Longrightarrow> drcr_match s = None" "figure s \<Longrightarrow> drcr_match (CHR ''-'' # s) = None"
proof -
  have *: "drcr_match u = None" if "u \<noteq> []" "is_digit (last u)" for u
  proof -
    have "\<not> ends_with u ''.''" using that by (auto simp: ends_with_char is_digit_def)
    moreover have "upper (drop (length u - 2) u) \<noteq> ''DR'' \<and> upper (drop (length u - 2) u) \<noteq> ''CR''"
    proof -
      have ne: "drop (length u - 2) u \<noteq> []" using that(1) by (cases u) auto
      have "last (upper (drop (length u - 2) u)) = upper_char (last (drop (length u - 2) u))" unfolding upper_def by (rule last_map [OF ne])
      also have "last (drop (length u - 2) u) = last u" using ne by (intro last_drop) simp
      also have "upper_char (last u) = last u" using that(2) by (auto simp: upper_char_def is_lower_def is_digit_def)
      finally have eq: "last (upper (drop (length u - 2) u)) = last u" .
      have "\<not> is_digit (CHR ''R'')" by (simp add: is_digit_def)
      with that(2) have "last u \<noteq> CHR ''R''" by metis
      then show ?thesis using eq by (metis last.simps list.distinct(1))
    qed
    ultimately show ?thesis by (simp add: drcr_match_def Let_def)
  qed
  show "figure s \<Longrightarrow> drcr_match s = None" "figure s \<Longrightarrow> drcr_match (CHR ''-'' # s) = None"
    by (rule *; simp add: figure_def)+
qed

lemma lstrip_minus_solid: "s \<noteq> [] \<Longrightarrow> hd s \<noteq> CHR ''-'' \<Longrightarrow> hd s \<noteq> CHR 0xE2 \<Longrightarrow> lstrip_minus s = s"
  by (cases s rule: lstrip_minus.cases) (auto simp: MINUS_def)

lemma lstrip_minus_sign: "figure s \<Longrightarrow> lstrip_minus (CHR ''-'' # s) = s"
proof -
  assume f: "figure s"
  have "hd s \<noteq> CHR ''-''" "hd s \<noteq> CHR 0xE2" "s \<noteq> []"
    using f by (auto simp: figure_def is_alpha_def is_upper_def is_lower_def is_digit_def)
  then have "lstrip_minus s = s" by (intro lstrip_minus_solid)
  moreover have "lstrip_minus (CHR ''-'' # s) = lstrip_minus s" by (cases s rule: lstrip_minus.cases) auto
  ultimately show ?thesis by simp
qed

lemma sign_conventions_figure:
  assumes "figure s"
  shows "sign_conventions s = (False, s, [])" "sign_conventions (CHR ''-'' # s) = (True, s, [])"
proof -
  have l: "\<not> ends_with (CHR ''-'' # s) ''-''" "\<not> starts_with (CHR ''-'' # s) ''(''"
    using assms by (auto simp: ends_with_char figure_def is_digit_def)
  show "sign_conventions s = (False, s, [])" "sign_conventions (CHR ''-'' # s) = (True, s, [])"
    using figure_plain [OF assms] figure_drcr [OF assms] lstrip_minus_sign [OF assms] l
    by (simp_all add: sign_conventions_def paren_sign_def drcr_sign_def minus_sign_def)
qed


subsection \<open>The currency of a written amount\<close>

lemma detect_symbol_none:
  "list_all (\<lambda>(sym, _). \<not> starts_with s sym \<and> \<not> ends_with s sym) ss \<Longrightarrow> detect_symbol ss s = None"
  by (induction ss) auto

lemma symbols_not_digits:
  "list_all (\<lambda>(sym, _). sym \<noteq> [] \<and> \<not> is_digit (hd sym) \<and> \<not> is_digit (last sym) \<and> length sym \<le> 4) symbols_longest_first"
  by code_simp

lemma codes_not_digits: "list_all (\<lambda>c. length c = 3 \<and> \<not> is_digit (hd c) \<and> \<not> is_digit (last c)) CURRENCY_CODES"
  by code_simp

lemma no_suffix: "is_digit (last s) \<Longrightarrow> p \<noteq> [] \<Longrightarrow> \<not> is_digit (last p) \<Longrightarrow> \<not> ends_with s p"
  using ends_with_last by metis

lemma detect_code_none: "is_digit (hd s) \<Longrightarrow> is_digit (last s) \<Longrightarrow> list_all (\<lambda>c. length c = 3 \<and> \<not> is_digit (hd c) \<and> \<not> is_digit (last c)) cs
    \<Longrightarrow> detect_code cs s = None"
proof (induction cs)
  case (Cons c cs)
  then have "c \<noteq> []" by auto
  with Cons show ?case using starts_with_hd [of c s] no_suffix [of s c] by (auto simp: code_at_start_def code_at_end_def Let_def)
qed simp

lemma detect_currency_none: "is_digit (hd s) \<Longrightarrow> is_digit (last s) \<Longrightarrow> detect_currency s = (None, s)"
proof -
  assume s: "is_digit (hd s)" "is_digit (last s)"
  have "list_all (\<lambda>(sym, _). \<not> starts_with s sym \<and> \<not> ends_with s sym) symbols_longest_first"
    using symbols_not_digits s starts_with_hd no_suffix by (fastforce simp: list_all_iff)
  with detect_symbol_none [OF this] detect_code_none [OF s codes_not_digits] show ?thesis by (simp add: detect_currency_def)
qed

lemma detect_symbol_prefix:
  assumes "is_digit (last b)" "b \<noteq> []"
    "list_all (\<lambda>(sym, _). sym \<noteq> [] \<and> \<not> is_digit (hd sym) \<and> \<not> is_digit (last sym) \<and> length sym \<le> length a) ss"
  shows "detect_symbol ss (a @ b) = map_option (\<lambda>(sym, c). (c, strip (drop (length sym) (a @ b)))) (find (\<lambda>(sym, _). starts_with a sym) ss)"
  using assms(3)
proof (induction ss)
  case (Cons x ss)
  obtain sym c where x: "x = (sym, c)" by (cases x)
  have e: "\<not> ends_with u sym" if "is_digit (last u)" for u using Cons.prems x no_suffix that by auto
  have "is_digit (last (a @ b))" using assms(1,2) by simp
  moreover have "is_digit (last (drop (length sym) (a @ b)))" if "starts_with a sym"
    using Cons.prems x assms(1,2) by (auto simp: drop_append)
  moreover have "starts_with (a @ b) sym = starts_with a sym" using Cons.prems x by (intro starts_with_take) auto
  ultimately show ?case using Cons x e by (auto simp: remove_prefix_def remove_suffix_def)
qed simp

lemma codes_found: "list_all (\<lambda>code. find (\<lambda>(sym, _). starts_with (code @ '' '') sym) symbols_longest_first
    = (if code = ''CHF'' then Some (''CHF'', ''CHF'') else None)) CURRENCY_CODES"
  by code_simp

lemma detect_code_found:
  assumes "code \<in> set cs" "is_digit (last b)" "b \<noteq> []" "list_all (\<lambda>c. length c = 3 \<and> \<not> is_digit (last c)) cs"
  shows "detect_code cs (code @ CHR '' '' # b) = Some (code, strip (CHR '' '' # b))"
  using assms(1,4)
proof (induction cs)
  case (Cons c cs)
  let ?s = "code @ CHR '' '' # b"
  have len: "length code = 3" "length c = 3" using Cons.prems by (auto simp: list_all_iff)
  have l: "is_digit (last ?s)" using assms(2,3) by simp
  have e: "\<not> ends_with ?s d" if "d = c \<or> d = code" for d
  proof -
    have "d \<noteq> []" using len that by auto
    then show ?thesis using no_suffix [OF l] that Cons.prems by (auto simp: list_all_iff)
  qed
  have st: "code_at_start c ?s \<longleftrightarrow> c = code"
  proof -
    have "starts_with ?s c = starts_with code c" using len by (intro starts_with_take) simp
    moreover have "starts_with code c \<longleftrightarrow> c = code"
      using len by (auto simp: starts_with_iff)
    moreover have "\<not> word_char (CHR '' '')" by code_simp
    ultimately show ?thesis using len by (auto simp: code_at_start_def)
  qed
  show ?case
  proof (cases "c = code")
    case True
    then show ?thesis using st e len by (simp add: code_at_end_def strip_code_def Let_def)
  next
    case False
    then show ?thesis using st e Cons by (auto simp: code_at_end_def Let_def)
  qed
qed simp


lemma detect_currency_code:
  assumes "code \<in> set CURRENCY_CODES" "is_digit (hd b)" "is_digit (last b)" "b \<noteq> []"
  shows "detect_currency (code @ CHR '' '' # b) = (Some code, b)"
proof -
  have len: "length code = 3" using codes_not_digits assms(1) by (auto simp: list_all_iff)
  have st: "strip (CHR '' '' # b) = b"
  proof -
    have "strip (CHR '' '' # b) = strip b" by (simp add: strip_def strip_by_def lstrip_by_def is_space_def)
    then show ?thesis using assms(2-4) by (simp add: strip_solid)
  qed
  have "list_all (\<lambda>(sym, _). sym \<noteq> [] \<and> \<not> is_digit (hd sym) \<and> \<not> is_digit (last sym) \<and> length sym \<le> length (code @ '' '')) symbols_longest_first"
    using symbols_not_digits len by simp
  from detect_symbol_prefix [OF assms(3,4) this]
  have "detect_symbol symbols_longest_first (code @ CHR '' '' # b) = (if code = ''CHF'' then Some (''CHF'', b) else None)"
    using codes_found assms(1) st len by (auto simp: list_all_iff)
  moreover have "detect_code CURRENCY_CODES (code @ CHR '' '' # b) = Some (code, b)"
    using detect_code_found [OF assms(1,3,4)] codes_not_digits st by (auto simp: list_all_iff)
  ultimately show ?thesis by (simp add: detect_currency_def)
qed

subsection \<open>The separators of a written amount\<close>

lemma digits_no_sep: "list_all is_digit s \<Longrightarrow> CHR ''.'' \<notin> set s \<and> CHR '','' \<notin> set s \<and> CHR 0x27 \<notin> set s \<and> CHR '' '' \<notin> set s"
  by (auto simp: list_all_iff is_digit_def)

lemma validate_ok: "list_all is_digit w \<Longrightarrow> list_all is_digit f \<Longrightarrow> validate_single_decimal (w @ CHR ''.'' # f) = norm_ok (w @ CHR ''.'' # f) None []"
  using digits_no_sep [of w] digits_no_sep [of f]
  by (simp add: validate_single_decimal_def count_char_def filter_empty_conv)

lemma resolve_one:
  assumes "list_all is_digit w" "list_all is_digit f" "length f = 2" "p = CHR ''.'' \<or> p = CHR '',''"
  shows "fst (resolve_separators (w @ p # f) loc) = norm_ok (w @ CHR ''.'' # f) None []"
proof -
  have n: "p \<notin> set w" "p \<notin> set f" using digits_no_sep assms by auto
  have "split_char p (w @ p # f) = [w, f]" using split_char_append [OF n(1), of f] split_char_no_sep [OF n(2)] by simp
  then show ?thesis
    using assms(3,4) validate_ok [OF assms(1,2)] digits_no_sep [OF assms(1)] digits_no_sep [OF assms(2)]
    by (auto simp: resolve_separators_def single_separator_def Let_def)
qed

lemma rfind_last: "p \<notin> set f \<Longrightarrow> rfind_char p (u @ p # f) = int (length u)"
  by (simp add: rfind_char_def takeWhile_append)

lemma rfind_less: "g \<notin> set f \<Longrightarrow> g \<noteq> p \<Longrightarrow> rfind_char g (u @ p # f) < int (length u)"
  by (simp add: rfind_char_def takeWhile_append)

lemma remove_append: "remove_char x (a @ b) = remove_char x a @ remove_char x b"
  by (simp add: remove_char_def)

lemma subst_append: "subst_char x y (a @ b) = subst_char x y a @ subst_char x y b" "x \<notin> set a \<Longrightarrow> subst_char x y a = a"
  by (auto simp: subst_char_def intro: map_idI)

lemma resolve_both:
  assumes "list_all is_digit w" "list_all is_digit f" "length f = 2" "(p, g) = (CHR ''.'', CHR '','') \<or> (p, g) = (CHR '','', CHR ''.'')"
  shows "fst (resolve_separators (grouped w [g] @ p # f) loc) = norm_ok (w @ CHR ''.'' # f) None []"
proof -
  note nw = digits_no_sep [OF assms(1)] and nf = digits_no_sep [OF assms(2)]
  have gw: "remove_char g (grouped w [g]) = w" using nw assms(4) by (intro remove_grouped) auto
  show ?thesis
  proof (cases "g \<in> set (grouped w [g])")
    case False
    then have "grouped w [g] = w" using gw remove_char_id [OF False] by simp
    then show ?thesis using resolve_one [OF assms(1-3)] assms(4) by auto
  next
    case True
    have pg: "p \<noteq> g" "p \<notin> set f" "g \<notin> set f" "p \<notin> set w" using assms(4) nw nf by auto
    have rf: "rfind_char p (grouped w [g] @ p # f) > rfind_char g (grouped w [g] @ p # f)"
      using rfind_last [OF pg(2), of "grouped w [g]"] rfind_less [OF pg(3), of p "grouped w [g]"] pg(1) by simp
    have rm: "remove_char g (grouped w [g] @ p # f) = w @ p # f"
      using gw remove_char_id [OF pg(3)] pg(1) by (simp add: remove_append) (simp add: remove_char_def)
    have sb: "subst_char p (CHR ''.'') (w @ p # f) = w @ CHR ''.'' # f"
      using pg subst_append(2) [of p w] subst_append(2) [of p f] by (simp add: subst_append(1)) (simp add: subst_char_def)
    let ?t = "grouped w [g] @ p # f"
    have both: "CHR ''.'' \<in> set ?t" "CHR '','' \<in> set ?t" using True assms(4) by auto
    have dec: "(if rfind_char (CHR '','') ?t > rfind_char (CHR ''.'') ?t then CHR '','' else CHR ''.'') = p"
      "(if p = CHR '','' then CHR ''.'' else CHR '','') = g" using rf assms(4) by (elim disjE; simp)+
    show ?thesis unfolding resolve_separators_def Let_def dec using both rm sb validate_ok [OF assms(1,2)] by simp
  qed
qed

definition written :: "string \<Rightarrow> string \<Rightarrow> string \<Rightarrow> string" where
  "written loc whole fraction =
     (case separators_for (Some loc) of (point, grp) \<Rightarrow> (if grp \<noteq> [] then grouped whole grp else whole) @ point @ fraction)"

lemma separators_cases:
  obtains "separators_for loc = (''.'', [])" | "separators_for loc = (''.'', '','')" | "separators_for loc = ('','', ''.'')"
proof -
  have "decimal_separator_for loc = None \<or> decimal_separator_for loc = Some (CHR ''.'') \<or> decimal_separator_for loc = Some (CHR '','')"
    unfolding decimal_separator_for_def Let_def by (auto split: option.splits)
  then consider "decimal_separator_for loc = None" | "decimal_separator_for loc = Some (CHR ''.'')" | "decimal_separator_for loc = Some (CHR '','')"
    by argo
  then show ?thesis using that by cases (simp_all add: separators_for_def)
qed

lemma written_reads:
  assumes "list_all is_digit w" "w \<noteq> []" "list_all is_digit f" "length f = 2"
  shows "fst (resolve_separators (written loc w f) (Some loc)) = norm_ok (w @ CHR ''.'' # f) None []"
    and "list_all (\<lambda>c. is_digit c \<or> c = CHR ''.'' \<or> c = CHR '','') (written loc w f)"
    and "written loc w f \<noteq> []" "is_digit (hd (written loc w f))" "is_digit (last (written loc w f))"
proof -
  have g: "set (grouped w [x]) \<subseteq> set w \<union> {x}" for x by (rule set_grouped)
  have hd: "is_digit (hd w)" using assms(1,2) by (cases w) auto
  have "f \<noteq> []" using assms(4) by auto
  with last_in_set [OF this] have l: "f \<noteq> []" "is_digit (last f)" using assms(3) by (auto simp: list_all_iff)
  consider "separators_for (Some loc) = (''.'', [])" | "separators_for (Some loc) = (''.'', '','')" | "separators_for (Some loc) = ('','', ''.'')"
    by (rule separators_cases)
  then show "fst (resolve_separators (written loc w f) (Some loc)) = norm_ok (w @ CHR ''.'' # f) None []"
    "list_all (\<lambda>c. is_digit c \<or> c = CHR ''.'' \<or> c = CHR '','') (written loc w f)"
    "written loc w f \<noteq> []" "is_digit (hd (written loc w f))" "is_digit (last (written loc w f))"
    using resolve_one [OF assms(1,3,4)] resolve_both [OF assms(1,3,4)] hd_grouped [OF assms(2)] g hd l assms
    by (cases; simp add: written_def list_all_iff hd_append; blast)+
qed


lemma dec_neg_small: "\<bar>c\<bar> < 10 ^ prec \<Longrightarrow> dec_neg (Dec c e) = Dec (- c) e"
  by (simp add: dec_neg_def dec_fix_id)

definition labelled :: "string \<Rightarrow> string \<Rightarrow> string" where
  "labelled cur b = (if cur = [] then b else cur @ CHR '' '' # b)"

lemma codes_plain: "list_all (\<lambda>c. c \<noteq> [] \<and> is_alpha (hd c) \<and> upper c = c \<and> list_all (\<lambda>x. (of_char x :: nat) < 128) c) CURRENCY_CODES"
  by code_simp

lemma labelled_figure:
  assumes "cur = [] \<or> cur \<in> set CURRENCY_CODES" "b \<noteq> []" "is_digit (hd b)" "is_digit (last b)"
    "list_all (\<lambda>c. is_digit c \<or> c = CHR ''.'' \<or> c = CHR '','') b"
  shows "figure (labelled cur b)" "list_all (\<lambda>c. (of_char c :: nat) < 128) (labelled cur b)"
    "detect_currency (labelled cur b) = (if cur = [] then None else Some cur, b)" "upper cur = cur"
proof -
  have b: "list_all (\<lambda>c. (of_char c :: nat) < 128) b"
  proof -
    have "(of_char c :: nat) < 128" if "is_digit c \<or> c = CHR ''.'' \<or> c = CHR '',''" for c using that by (auto simp: is_digit_def)
    with assms(5) show ?thesis by (auto simp: list_all_iff)
  qed
  have c: "cur \<noteq> [] \<Longrightarrow> is_alpha (hd cur) \<and> upper cur = cur \<and> list_all (\<lambda>x. (of_char x :: nat) < 128) cur"
    using codes_plain assms(1) by (auto simp: list_all_iff)
  show "figure (labelled cur b)" using c assms(2-4) by (auto simp: figure_def labelled_def)
  show "list_all (\<lambda>c. (of_char c :: nat) < 128) (labelled cur b)" using c b by (auto simp: labelled_def)
  show "upper cur = cur" using c by (cases "cur = []") (auto simp: upper_def)
  show "detect_currency (labelled cur b) = (if cur = [] then None else Some cur, b)"
    using detect_currency_none [OF assms(3,4)] detect_currency_code [OF _ assms(3,4,2)] assms(1) by (auto simp: labelled_def)
qed

lemma read_written:
  assumes w: "list_all is_digit w" "w \<noteq> []" "list_all is_digit f" "length f = 2" "dec_parse (w @ CHR ''.'' # f) = Finite d"
    and cur: "cur = [] \<or> cur \<in> set CURRENCY_CODES"
  shows "\<exists>as. parse_amount (Some ((if neg then ''-'' else []) @ labelled cur (written loc w f))) (Some loc) (Some cur)
    = norm_ok (dec_str (if neg then dec_neg d else d)) (if cur = [] then None else Some cur) as"
proof -
  let ?b = "written loc w f" and ?t = "labelled cur (written loc w f)" and ?c = "if cur = [] then None else Some cur"
  note wr = written_reads [OF w(1-4), of loc]
  note lf = labelled_figure [OF cur wr(3-5,2)]
  note fp = figure_plain [OF lf(1)]
  have uni: "strip (unify_spaces ((if neg then ''-'' else []) @ ?t)) = (if neg then ''-'' else []) @ ?t"
    using unify_spaces_ascii [of "(if neg then ''-'' else []) @ ?t"] lf(2) fp(1,2) by simp
  have ne: "?t \<noteq> []" using lf(1) by (simp add: figure_def)
  have sg: "sign_conventions ((if neg then ''-'' else []) @ ?t) = (neg, ?t, [])" using sign_conventions_figure [OF lf(1)] by simp
  have plain: "remove_char (CHR '' '') ?b = ?b" "remove_char (CHR 0x27) ?b = ?b" "list_all amount_char ?b"
  proof -
    have "CHR '' '' \<notin> set ?b" "CHR 0x27 \<notin> set ?b" using wr(2) by (auto simp: list_all_iff is_digit_def)
    then show "remove_char (CHR '' '') ?b = ?b" "remove_char (CHR 0x27) ?b = ?b" by (simp_all add: remove_char_id)
    show "list_all amount_char ?b" using wr(2) by (auto simp: list_all_iff amount_char_def)
  qed
  have "amount_text (Some ((if neg then ''-'' else []) @ ?t)) (Some cur) = Inr (neg, ?b, [], ?c)"
    unfolding amount_text_def option.case uni sg prod.case lf(3) Let_def plain(1,2) using ne plain(3) wr(3) lf(4) by simp
  moreover obtain as where "resolve_separators ?b (Some loc) = (norm_ok (w @ CHR ''.'' # f) None [], as)" using wr(1) by (metis prod.collapse)
  ultimately show ?thesis using w(5) by (intro exI [of _ as]) (simp add: parse_amount_def read_number_def)
qed

text \<open>Rounding to the cent moves a value by at most half a cent, and one of at most two decimals not at all.\<close>

lemma nearer_multiple:
  fixes q t r n m :: int
  assumes "q * t + r = n" "0 \<le> r" "r < t" "m = q \<and> 2 * r \<le> t \<or> m = q + 1 \<and> t \<le> 2 * r"
  shows "2 * \<bar>m * t - n\<bar> \<le> t"
  using assms by (auto simp: distrib_right abs_if)

lemma round_half_even_near: "2 * \<bar>int (round_half_even n k) * 10 ^ k - int n\<bar> \<le> 10 ^ k"
proof -
  let ?t = "(10::int) ^ k" let ?q = "int n div ?t" and ?r = "int n mod ?t"
  have n: "?q * ?t + ?r = int n" "0 \<le> ?r" "?r < ?t" by (rule div_mult_mod_eq) simp_all
  have t: "int (n div 10 ^ k) = ?q" "int (n mod 10 ^ k) = ?r" by (simp_all add: zdiv_int zmod_int)
  have "int (round_half_even n k) = ?q \<and> 2 * ?r \<le> ?t \<or> int (round_half_even n k) = ?q + 1 \<and> ?t \<le> 2 * ?r"
  proof (cases "2 * (n mod 10 ^ k) > 10 ^ k \<or> (2 * (n mod 10 ^ k) = 10 ^ k \<and> odd (n div 10 ^ k))")
    case True
    then have "10 ^ k \<le> 2 * (n mod 10 ^ k)" by linarith
    then have "int (10 ^ k) \<le> int (2 * (n mod 10 ^ k))" by (simp only: of_nat_le_iff)
    then show ?thesis using True t by (simp add: round_half_even_def Let_def)
  next
    case False
    then have "2 * (n mod 10 ^ k) \<le> 10 ^ k" by linarith
    then have "int (2 * (n mod 10 ^ k)) \<le> int (10 ^ k)" by (simp only: of_nat_le_iff)
    then have "2 * ?r \<le> ?t" using t by simp
    moreover have "round_half_even n k = n div 10 ^ k" using False by (auto simp: round_half_even_def Let_def)
    ultimately show ?thesis using t by simp
  qed
  then show ?thesis by (rule nearer_multiple [OF n])
qed

lemma cents_near: "\<bar>dec_val (quantize CENTS d) - dec_val d\<bar> \<le> 1 / 200" "- 2 \<le> expo d \<Longrightarrow> dec_val (quantize CENTS d) = dec_val d"
proof -
  show exact: "dec_val (quantize CENTS d) = dec_val d" if two: "- 2 \<le> expo d"
  proof -
    obtain j where "expo d + 2 = int j" using two zero_le_imp_eq_int [of "expo d + 2"] by auto
    then have "expo d = int j - 2" by linarith
    then show ?thesis by (simp add: quantize_def CENTS_def lift_to_def dec_val_def power_int_diff)
  qed
  show "\<bar>dec_val (quantize CENTS d) - dec_val d\<bar> \<le> 1 / 200"
  proof (cases "- 2 \<le> expo d")
    case False
    define k where "k = nat (- 2 - expo d)"
    let ?n = "nat \<bar>coeff d\<bar>" let ?m = "round_half_even ?n k"
    have e: "expo d = - 2 - int k" using False by (simp add: k_def)
    have p: "(10::rat) powi (- 2 - int k) = 1 / (100 * 10 ^ k)" by (simp add: power_int_diff)
    have q: "quantize CENTS d = Dec (sgn (coeff d) * int ?m) (- 2)" using False by (simp add: quantize_def CENTS_def k_def)
    define x where "x = sgn (coeff d) * (int ?m * 10 ^ k - int ?n)"
    have "dec_val (quantize CENTS d) - dec_val d = of_int x / (100 * 10 ^ k)"
      unfolding q by (simp add: dec_val_def e p field_simps sgn_if x_def)
    moreover have "2 * \<bar>x\<bar> \<le> 10 ^ k"
      using round_half_even_near [of ?n k] by (auto simp: x_def abs_mult sgn_if)
    then have "of_int (2 * \<bar>x\<bar>) \<le> (of_int (10 ^ k) :: rat)" by (simp only: of_int_le_iff)
    then have "\<bar>of_int x :: rat\<bar> / (100 * 10 ^ k) \<le> 1 / 200" by (simp add: field_simps)
    ultimately show ?thesis by (simp only: abs_divide) simp
  qed (simp add: exact)
qed

text \<open>
  C30: an amount that is written is read back, to the cent. Whatever the locale, the words for an amount with no
  currency or one of the known codes parse under the same locale to the amount rounded to the cent and to the same
  currency: the value read differs from the one written by at most half a cent, and not at all when the amount has at
  most two decimals. A negative amount must have at most 28 digits, since the reader negates under the default decimal
  context.
\<close>

theorem money_reads_back:
  assumes "money amount currency loc = Inr w" "py_Decimal amount = Inr d" "currency = [] \<or> currency \<in> set CURRENCY_CODES"
    and "0 \<le> coeff d \<or> \<bar>coeff (quantize CENTS d)\<bar> < 10 ^ prec"
  shows "(\<exists>as. parse_amount (Some w) (Some loc) (Some currency) =
      norm_ok (dec_str (quantize CENTS d)) (if currency = [] then None else Some currency) as)
    \<and> \<bar>dec_val (quantize CENTS d) - dec_val d\<bar> \<le> 1 / 200 \<and> (- 2 \<le> expo d \<longrightarrow> dec_val (quantize CENTS d) = dec_val d)"
proof -
  let ?v = "quantize CENTS d"
  obtain c where v: "?v = Dec c (- 2)" by (metis quantize_def CENTS_def)
  obtain whole fraction where wf: "dec_str (Dec \<bar>c\<bar> (- 2)) = whole @ CHR ''.'' # fraction" "list_all is_digit whole"
    "list_all is_digit fraction" "whole \<noteq> []" "length fraction = 2" using cents_text [of "nat \<bar>c\<bar>"] by auto
  have part: "partition_char (CHR ''.'') (whole @ CHR ''.'' # fraction) = (whole, True, fraction)"
    using digits_no_sep [OF wf(2)] by (intro partition_char_append) auto
  have weq: "w = (if c < 0 then ''-'' else []) @ labelled currency (written loc whole fraction)"
    using assms(1,2) v wf(1) part unfolding money_def written_def labelled_def by (auto simp: Let_def split: prod.splits)
  have pr: "dec_parse (whole @ CHR ''.'' # fraction) = Finite (Dec \<bar>c\<bar> (- 2))" using wf(1) dec_parse_dec_str by metis
  have eq: "(if c < 0 then dec_neg (Dec \<bar>c\<bar> (- 2)) else Dec \<bar>c\<bar> (- 2)) = ?v"
  proof -
    have "0 \<le> coeff d \<Longrightarrow> 0 \<le> c" using v by (auto simp: quantize_def CENTS_def lift_to_def sgn_if split: if_splits)
    then show ?thesis using assms(4) v dec_neg_small [of "\<bar>c\<bar>" "- 2"] by auto
  qed
  show ?thesis using read_written [OF wf(2,4,3,5) pr assms(3), of "c < 0" loc] cents_near unfolding weq [symmetric] eq by blast
qed

theorem money_reads_back_witness:
  "\<exists>w as. money (PStr ''-1234567.895'') ''EUR'' ''de-DE'' = Inr w \<and> w = ''-EUR 1.234.567,90''
     \<and> parse_amount (Some w) (Some ''de-DE'') (Some ''EUR'') = norm_ok (dec_str (quantize CENTS (Dec (- 1234567895) (- 3)))) (Some ''EUR'') as"
proof -
  have m: "money (PStr ''-1234567.895'') ''EUR'' ''de-DE'' = Inr ''-EUR 1.234.567,90''" by code_simp
  moreover have "py_Decimal (PStr ''-1234567.895'') = Inr (Dec (- 1234567895) (- 3))" by code_simp
  moreover have "''EUR'' \<in> set CURRENCY_CODES" by code_simp
  moreover have "\<bar>coeff (quantize CENTS (Dec (- 1234567895) (- 3)))\<bar> < 10 ^ prec" by code_simp
  ultimately show ?thesis using money_reads_back [OF m] by auto
qed

end
