(* ===== verification/Match.thy ===== *)
theory Match
  imports Normalize
begin

text \<open>
  \<^verbatim>\<open>core/vivacore/verify/match.py\<close>: the two verdicts on an extracted value against the ground truth,
  strict (the printed characters) and normalized (what they mean).
\<close>

record match_result =
  m_strict :: bool
  m_normalized :: "bool option"
  m_detail :: string

definition correct :: "match_result \<Rightarrow> bool" where
  "correct r = (m_normalized r = Some True)"

definition strict_equal :: "string \<Rightarrow> string \<Rightarrow> bool" where
  "strict_equal a b = (strip a = strip b)"

definition reason_text :: "normalized \<Rightarrow> string" where
  "reason_text n = (case n_reason n of None \<Rightarrow> ''None'' | Some r \<Rightarrow> r)"

definition value_text :: "normalized \<Rightarrow> string" where
  "value_text n = (case n_value n of None \<Rightarrow> ''None'' | Some v \<Rightarrow> v)"

definition EM_DASH :: string where "EM_DASH = [CHR 0xE2, CHR 0x80, CHR 0x94]"

definition compared :: "bool \<Rightarrow> bool \<Rightarrow> string \<Rightarrow> string \<Rightarrow> match_result" where
  "compared strict same equal_text differs =
     \<lparr>m_strict = strict, m_normalized = Some same, m_detail = (if strict then ''exact'' else if same then equal_text else differs)\<rparr>"

definition match_amount :: "string \<Rightarrow> string \<Rightarrow> string option \<Rightarrow> string option \<Rightarrow> match_result res" where
  "match_amount extracted_raw truth_raw locale currency =
     (let strict = strict_equal extracted_raw truth_raw;
          ext = parse_amount (Some extracted_raw) locale currency;
          tru = parse_amount (Some truth_raw) locale currency in
      if \<not> is_ok tru then
        Inr \<lparr>m_strict = strict, m_normalized = None,
             m_detail = ''ground truth itself failed to parse ('' @ reason_text tru @ '') '' @ EM_DASH @ '' key needs review''\<rparr>
      else if \<not> is_ok ext then
        Inr \<lparr>m_strict = strict, m_normalized = Some False,
             m_detail = ''extracted value unparseable/ambiguous: '' @ reason_text ext\<rparr>
      else
        bindR (decimal_of ext) (\<lambda>x. bindR (decimal_of tru) (\<lambda>y.
          Inr (compared strict (dec_eq x y) ''equal after normalization''
                 (''differs: '' @ value_text ext @ '' vs '' @ value_text tru)))))"

definition match_date :: "string \<Rightarrow> string \<Rightarrow> string option \<Rightarrow> match_result" where
  "match_date extracted_raw truth_raw locale =
     (let strict = strict_equal extracted_raw truth_raw;
          ext = parse_date (Some extracted_raw) locale None;
          tru = parse_date (Some truth_raw) locale None in
      if \<not> is_ok tru then
        \<lparr>m_strict = strict, m_normalized = None,
         m_detail = ''ground truth date failed to parse ('' @ reason_text tru @ '') '' @ EM_DASH @ '' key needs review''\<rparr>
      else if \<not> is_ok ext then
        \<lparr>m_strict = strict, m_normalized = Some False, m_detail = ''extracted date unparseable/ambiguous: '' @ reason_text ext\<rparr>
      else compared strict (n_value ext = n_value tru) ''equal after normalization''
             (''differs: '' @ value_text ext @ '' vs '' @ value_text tru))"

text \<open>\<^verbatim>\<open>re.sub(r"\s+", " ", s)\<close>.\<close>

fun squeeze :: "string \<Rightarrow> string" where
  "squeeze [] = []"
| "squeeze (c # cs) = (if is_space c then (case cs of [] \<Rightarrow> '' '' | d # _ \<Rightarrow> if is_space d then squeeze cs else CHR '' '' # squeeze cs) else c # squeeze cs)"

definition match_text :: "string \<Rightarrow> string \<Rightarrow> match_result" where
  "match_text extracted_raw truth_raw =
     (let a = squeeze (lower (strip extracted_raw)); b = squeeze (lower (strip truth_raw)) in
      compared (strict_equal extracted_raw truth_raw) (a = b) ''equal ignoring case/whitespace'' ''differs'')"

subsection \<open>The verdicts\<close>

text \<open>
  Comparing an extracted amount with the truth never raises, and its verdict is about values: it is
  withheld exactly when the truth itself cannot be read, and is "correct" exactly when both texts are
  read and denote the same number, however differently they are printed.
\<close>

lemma match_amount_compares_values:
  "\<exists>r. match_amount extracted truth loc cur = Inr r
    \<and> (m_normalized r = None \<longleftrightarrow> \<not> is_ok (parse_amount (Some truth) loc cur))
    \<and> (correct r \<longleftrightarrow> (\<exists>x y. decimal_of (parse_amount (Some extracted) loc cur) = Inr x
                        \<and> decimal_of (parse_amount (Some truth) loc cur) = Inr y \<and> dec_val x = dec_val y))"
proof (cases "is_ok (parse_amount (Some extracted) loc cur) \<and> is_ok (parse_amount (Some truth) loc cur)")
  case True
  then obtain x y where "decimal_of (parse_amount (Some extracted) loc cur) = Inr x" "decimal_of (parse_amount (Some truth) loc cur) = Inr y"
    using parse_amount_value by blast
  with True show ?thesis by (simp add: match_amount_def Let_def compared_def correct_def dec_eq_iff)
next
  case False
  then show ?thesis using decimal_of_ok by (auto simp: match_amount_def Let_def correct_def)
qed

end
