(* ===== verification/Identity.thy ===== *)
theory Identity
  imports Match Json
begin

text \<open>
  \<^verbatim>\<open>product/viva/ledger/identity.py\<close>, \<^verbatim>\<open>transfer_admission.py\<close> and \<^verbatim>\<open>movement_identity.py\<close>: account
  keys, number signals, display masking, name and token overlap, and the identity of a movement. The
  regular expressions are spelled as scans over bytes; their character classes are the ASCII ones. A
  text that may be absent is the empty text, since the code reads both alike.
\<close>

subsection \<open>Number signals\<close>

definition normalize_number :: "string \<Rightarrow> string" where
  "normalize_number n = filter is_digit n"

definition full_number_char :: "char \<Rightarrow> bool" where
  "full_number_char c = (is_digit c \<or> is_space c \<or> c = CHR ''-'')"

definition usable_full_number :: "string \<Rightarrow> string" where
  "usable_full_number n =
     (let printed = strip n; digits = normalize_number printed in
      if length digits > 4 \<and> list_all full_number_char printed then digits else [])"

definition last_four :: "string \<Rightarrow> string" where
  "last_four digits = drop (length digits - 4) digits"

definition number_key :: "string \<Rightarrow> string" where
  "number_key n = (let digits = normalize_number n in if length digits \<ge> 4 then last_four digits else [])"

text \<open>
  \<^verbatim>\<open>_REFERENCE_LAST4\<close>: a lead-in, at most twelve characters that are not digits, then four digits that
  end a word. A lead-in is given as the text that follows its longest match: what a shorter match
  would leave is characters that are not digits.
\<close>

definition BULLET :: string where "BULLET = [CHR 0xE2, CHR 0x80, CHR 0xA2]"

definition after_word :: "string \<Rightarrow> string \<Rightarrow> string list" where
  "after_word w s = (if starts_with (lower s) w then [drop (length w) s] else [])"

definition then_in :: "string \<Rightarrow> string" where
  "then_in s =
     (if s \<noteq> [] \<and> is_space (hd s) then (case after_word ''in'' (dropWhile is_space s) of [r] \<Rightarrow> r | _ \<Rightarrow> s) else s)"

definition after_run :: "(char \<Rightarrow> bool) \<Rightarrow> string \<Rightarrow> string list" where
  "after_run p s = (if length (takeWhile p s) \<ge> 2 then [dropWhile p s] else [])"

fun drop_bullets :: "string \<Rightarrow> nat \<times> string" where
  "drop_bullets (a # b # c # s) =
     (if [a, b, c] = BULLET then (case drop_bullets s of (n, r) \<Rightarrow> (Suc n, r)) else (0, a # b # c # s))"
| "drop_bullets s = (0, s)"

definition lead_ins :: "string \<Rightarrow> string list" where
  "lead_ins s =
     map then_in (after_word ''ending'' s) @ map then_in (after_word ''ends'' s) @ map then_in (after_word ''end'' s)
     @ concat (map (\<lambda>r. after_word ''4'' (dropWhile is_space r)) (after_word ''last'' s))
     @ after_run (\<lambda>c. lower_char c = CHR ''x'') s @ after_run (\<lambda>c. c = CHR ''*'') s
     @ (case drop_bullets s of (n, r) \<Rightarrow> if n \<ge> 2 then [r] else []) @ after_run (\<lambda>c. c = CHR ''.'') s"

definition four_after :: "string \<Rightarrow> string option" where
  "four_after s =
     (let gap = takeWhile (\<lambda>c. \<not> is_digit c) s; rest = dropWhile (\<lambda>c. \<not> is_digit c) s; aft = drop 4 rest in
      if char_count gap \<le> 12 \<and> length rest \<ge> 4 \<and> list_all is_digit (take 4 rest) \<and> (aft = [] \<or> \<not> word_char (hd aft))
      then Some (take 4 rest) else None)"

fun reference_number_key :: "string \<Rightarrow> string" where
  "reference_number_key [] = []"
| "reference_number_key (c # s) =
     (case concat (map (\<lambda>r. case four_after r of None \<Rightarrow> [] | Some d \<Rightarrow> [d]) (lead_ins (c # s))) of
        d # _ \<Rightarrow> d
      | [] \<Rightarrow> reference_number_key s)"

definition identity_number_key :: "string \<Rightarrow> string \<Rightarrow> string" where
  "identity_number_key account_number account_ref =
     (if number_key account_number \<noteq> [] then number_key account_number else reference_number_key account_ref)"

definition conflicting_number_signals :: "string \<Rightarrow> string \<Rightarrow> bool" where
  "conflicting_number_signals account_number account_ref =
     (let direct = number_key account_number; printed = reference_number_key account_ref in
      direct \<noteq> [] \<and> printed \<noteq> [] \<and> direct \<noteq> printed)"

subsection \<open>Masking\<close>

definition MASK :: string where "MASK = BULLET @ BULLET @ BULLET @ BULLET"

definition masked :: "string \<Rightarrow> string" where
  "masked n = (if number_key n \<noteq> [] then MASK @ number_key n else [])"

definition label_char :: "char \<Rightarrow> bool" where
  "label_char c = (is_digit c \<or> is_space c \<or> c = CHR ''.'' \<or> c = CHR ''/'' \<or> c = CHR '':'' \<or> c = CHR ''-'')"

definition safe_run :: "string \<Rightarrow> string" where
  "safe_run run = (let digits = normalize_number run in if length digits \<le> 4 then run else MASK @ last_four digits)"

text \<open>A run starts at a digit, takes digits and separators, and ends at its last digit.\<close>

definition number_run :: "string \<Rightarrow> string" where
  "number_run s = rstrip_by (\<lambda>c. \<not> is_digit c) (takeWhile label_char s)"

lemma number_run_nonempty: "is_digit c \<Longrightarrow> number_run (c # s) \<noteq> []"
proof -
  assume c: "is_digit c"
  then have "takeWhile label_char (c # s) = c # takeWhile label_char s" by (simp add: label_char_def)
  then have "number_run (c # s) = rev (dropWhile (\<lambda>c. \<not> is_digit c) (rev (takeWhile label_char s) @ [c]))"
    by (simp add: number_run_def rstrip_by_def)
  then show ?thesis using c by (simp add: dropWhile_append)
qed

function masked_label :: "string \<Rightarrow> string" where
  "masked_label [] = []"
| "masked_label (c # s) =
     (if is_digit c then safe_run (number_run (c # s)) @ masked_label (drop (length (number_run (c # s))) (c # s))
      else c # masked_label s)"
  by pat_completeness auto
termination
proof (relation "measure length", goal_cases)
  case (2 c s)
  then show ?case using number_run_nonempty [of c s] by (cases "number_run (c # s)") (auto simp: le_imp_less_Suc)
qed auto

subsection \<open>Keys\<close>

definition alnum :: "char \<Rightarrow> bool" where
  "alnum c = (is_lower c \<or> is_digit c)"

text \<open>The maximal runs of letters and digits: what \<^verbatim>\<open>re.split("[^a-z0-9]+", s)\<close> leaves besides empty texts.\<close>

function words :: "string \<Rightarrow> string list" where
  "words s =
     (let t = dropWhile (\<lambda>c. \<not> alnum c) s in
      if t = [] then [] else takeWhile alnum t # words (dropWhile alnum t))"
  by pat_completeness auto
termination
proof (relation "measure length", goal_cases)
  case (2 s t)
  then obtain c r where t: "t = c # r" "alnum c" by (metis hd_dropWhile neq_Nil_conv list.sel(1))
  have "length (dropWhile alnum t) < length t" using t by (simp add: le_imp_less_Suc length_dropWhile_le)
  moreover have "length t \<le> length s" using 2 by (simp add: length_dropWhile_le)
  ultimately show ?case by simp
qed auto

declare words.simps [simp del]

definition slug :: "string \<Rightarrow> string" where
  "slug s = join ''-'' (words (lower (strip s)))"

definition canonical_institution :: "string \<Rightarrow> string" where
  "canonical_institution institution = slug institution"

definition INSTITUTION_LEGAL_WORDS :: "string list" where
  "INSTITUTION_LEGAL_WORDS =
     [''the'', ''bank'', ''national'', ''association'', ''na'', ''n'', ''a'', ''inc'', ''incorporated'', ''corp'',
      ''corporation'', ''company'', ''co'', ''llc'']"

definition institution_names_overlap :: "string \<Rightarrow> string \<Rightarrow> bool" where
  "institution_names_overlap a b =
     (let tokens = (\<lambda>v. set (filter (\<lambda>t. t \<notin> set INSTITUTION_LEGAL_WORDS) (words (lower v)))) in
      tokens a \<noteq> {} \<and> tokens b \<noteq> {} \<and> (tokens a \<subseteq> tokens b \<or> tokens b \<subseteq> tokens a))"

definition account_labels_overlap :: "string \<Rightarrow> string \<Rightarrow> bool" where
  "account_labels_overlap a b =
     (let tokens = (\<lambda>v. set (filter (\<lambda>t. t \<notin> {''account'', ''statement'', ''of'', ''the''}) (words (lower v)))) in
      tokens a \<inter> tokens b \<noteq> {})"

definition account_key :: "string \<Rightarrow> string \<Rightarrow> string \<Rightarrow> string" where
  "account_key institution account_number account_ref =
     (let key = identity_number_key account_number account_ref; inst = canonical_institution institution in
      if key \<noteq> [] then ''acct:'' @ (if inst \<noteq> [] then inst @ '':'' else []) @ key
      else ''acct:'' @ (if slug account_ref \<noteq> [] then slug account_ref else ''unknown''))"

definition preferred_account_key :: "string \<Rightarrow> string \<Rightarrow> string \<Rightarrow> string" where
  "preferred_account_key institution account_number account_ref = account_key institution account_number account_ref"

definition opaque_account_key :: "string \<Rightarrow> string \<Rightarrow> string" where
  "opaque_account_key token kind = ''acct:'' @ (if slug kind \<noteq> [] then slug kind else ''account'') @ '':'' @ token"

subsection \<open>Tokens and names\<close>

definition MIN_TOKEN :: nat where "MIN_TOKEN = 4"

definition account_tokens :: "string \<Rightarrow> string \<Rightarrow> string \<Rightarrow> string list" where
  "account_tokens institution number ref =
     (let key = identity_number_key number ref in
      remdups ((if char_count institution \<ge> 3 then [lower institution] else []) @ (if key \<noteq> [] then [key] else [])
               @ filter (\<lambda>w. length w \<ge> MIN_TOKEN) (words (lower ref))))"

definition token_count :: "(string \<times> string list) list \<Rightarrow> string \<Rightarrow> nat" where
  "token_count per_account tok = length (filter (\<lambda>(a, toks). tok \<in> set toks) per_account)"

definition keeps_token :: "(string \<times> string list) list \<Rightarrow> (string \<times> string) list \<Rightarrow> string \<Rightarrow> string \<Rightarrow> bool" where
  "keeps_token per_account institution_of acct tok =
     (token_count per_account tok = 1
      \<and> (list_ex is_digit tok \<or> map_option (\<lambda>i. lower (strip i)) (map_of institution_of acct) = Some tok))"

definition distinctive_tokens :: "(string \<times> string list) list \<Rightarrow> (string \<times> string) list \<Rightarrow> (string \<times> string list) list" where
  "distinctive_tokens per_account institution_of =
     map (\<lambda>(acct, toks). (acct, filter (keeps_token per_account institution_of acct) toks)) per_account"

text \<open>\<^verbatim>\<open>text_has_token\<close>, after both are lower-cased; the character before the rest of the text is carried.\<close>

fun has_token_from :: "char option \<Rightarrow> string \<Rightarrow> string \<Rightarrow> bool" where
  "has_token_from prior s tok =
     ((starts_with s tok \<and> (case prior of None \<Rightarrow> True | Some c \<Rightarrow> \<not> alnum c)
       \<and> (drop (length tok) s = [] \<or> \<not> alnum (hd (drop (length tok) s))))
      \<or> (case s of [] \<Rightarrow> False | c # r \<Rightarrow> has_token_from (Some c) r tok))"

definition text_has_token :: "string \<Rightarrow> string \<Rightarrow> bool" where
  "text_has_token s tok = has_token_from None (lower s) (lower tok)"

definition normalize_name :: "string \<Rightarrow> string" where
  "normalize_name name = squeeze (lower (strip name))"

definition names_overlap :: "string list \<Rightarrow> string list \<Rightarrow> bool" where
  "names_overlap a b =
     (set (map normalize_name (filter (\<lambda>x. strip x \<noteq> []) a)) \<inter> set (map normalize_name (filter (\<lambda>x. strip x \<noteq> []) b)) \<noteq> {})"

record source_account_identity =
  sai_reference :: string
  sai_doc_id :: string
  sai_page :: int
  sai_page_count :: int

definition eligible :: "source_account_identity \<Rightarrow> bool" where
  "eligible s =
     (strip (sai_reference s) \<noteq> [] \<and> lower (strip (sai_reference s)) \<noteq> ''unknown'' \<and> sai_doc_id s \<noteq> []
      \<and> 1 \<le> sai_page s \<and> sai_page s \<le> sai_page_count s \<and> sai_page_count s \<le> 200
      \<and> identity_number_key (sai_reference s) (sai_reference s) = [])"

subsection \<open>Transfers and movements\<close>

definition TRANSFER_CANDIDATE_LIMIT :: nat where "TRANSFER_CANDIDATE_LIMIT = 20"

definition TRANSFER_EVIDENCE_RULES :: "string list" where
  "TRANSFER_EVIDENCE_RULES = [''account_ref_slot'', ''account_ref_slot+printed_date'', ''named_account'', ''named_account+printed_date'']"

record transfer_link =
  tl_by :: string
  tl_grade :: string
  tl_decided_by :: string

definition recognized_link_origin :: "transfer_link \<Rightarrow> string" where
  "recognized_link_origin link =
     (let decided_by = strip (tl_decided_by link) in
      if tl_by link = ''human'' \<and> tl_grade link = ''verified'' \<and> decided_by = [] then ''human''
      else if tl_by link = ''auto'' \<and> tl_grade link = ''corroborated'' \<and> decided_by \<in> set TRANSFER_EVIDENCE_RULES then ''auto''
      else [])"

definition account_reference_available :: "string \<Rightarrow> string \<Rightarrow> string \<Rightarrow> bool" where
  "account_reference_available account name number =
     (strip name \<noteq> [] \<or> strip (last (split_char (CHR '':'') account)) \<noteq> [] \<or> strip number \<noteq> [])"

record movement_reference =
  mr_key :: string
  mr_date :: string
  mr_description :: string
  mr_account :: string
  mr_currency :: string

definition counterpart_reference_complete :: "movement_reference \<Rightarrow> bool \<Rightarrow> bool" where
  "counterpart_reference_complete counterpart account_available =
     (account_available \<and> list_all (\<lambda>v. strip v \<noteq> [])
        [mr_key counterpart, mr_date counterpart, mr_description counterpart, mr_account counterpart, mr_currency counterpart])"

definition relationship_complete :: "movement_reference \<Rightarrow> movement_reference \<Rightarrow> bool \<Rightarrow> bool \<Rightarrow> bool" where
  "relationship_complete source counterpart source_available counterpart_available =
     (source_available \<and> counterpart_available \<and> mr_date source \<noteq> [] \<and> mr_date counterpart \<noteq> []
      \<and> strip (mr_description source) \<noteq> [] \<and> strip (mr_description counterpart) \<noteq> [])"

definition movement_key :: "string \<Rightarrow> string \<Rightarrow> string \<Rightarrow> string \<Rightarrow> string \<Rightarrow> int \<Rightarrow> string" where
  "movement_key doc_id account date amount description occurrence =
     doc_id @ ''|'' @ account @ ''|'' @ date @ ''|'' @ amount @ ''|'' @ description @ ''|'' @ show_int occurrence"

subsection \<open>What masking and tokens promise\<close>

text \<open>Every stretch of digits and separators, from any point on, has at most four digits.\<close>

definition digit_count :: "string \<Rightarrow> nat" where
  "digit_count s = length (filter is_digit s)"

fun short_runs :: "string \<Rightarrow> bool" where
  "short_runs [] = True"
| "short_runs (c # s) = (digit_count (takeWhile label_char (c # s)) \<le> 4 \<and> short_runs s)"

lemma digit_count_simps [simp]:
  "digit_count [] = 0" "digit_count (c # s) = (if is_digit c then Suc (digit_count s) else digit_count s)"
  "digit_count (s @ t) = digit_count s + digit_count t"
  by (simp_all add: digit_count_def)

lemma digit_count_take: "digit_count (takeWhile p s) \<le> digit_count s"
  by (induction s) auto

lemma short_runs_append:
  "digit_count u \<le> 4 \<Longrightarrow> short_runs v \<Longrightarrow> v = [] \<or> \<not> label_char (hd v) \<Longrightarrow> short_runs (u @ v)"
proof (induction u)
  case (Cons c u)
  have "takeWhile label_char v = []" using Cons.prems(3) by (cases v) auto
  then have "digit_count (takeWhile label_char ((c # u) @ v)) \<le> digit_count (c # u)"
    using digit_count_take [of label_char "c # u"] by (simp add: takeWhile_append takeWhile_tail split: if_splits)
  then show ?case using Cons by (auto split: if_splits)
qed simp

lemma short_runs_suffix: "short_runs (u @ v) \<Longrightarrow> short_runs v"
  by (induction u) auto

lemma masked_label_plain: "list_all (\<lambda>c. \<not> is_digit c) u \<Longrightarrow> masked_label (u @ v) = u @ masked_label v"
  by (induction u) auto

lemma split_stretch:
  obtains seps t where "c # s = number_run (c # s) @ seps @ t" "list_all (\<lambda>c. \<not> is_digit c) seps" "t = [] \<or> \<not> label_char (hd t)"
proof -
  define w where "w = takeWhile label_char (c # s)"
  define seps where "seps = drop (length (number_run (c # s))) w"
  have r: "rev w = takeWhile (\<lambda>c. \<not> is_digit c) (rev w) @ rev (number_run (c # s))"
    by (simp add: number_run_def w_def rstrip_by_def)
  then have w: "w = number_run (c # s) @ rev (takeWhile (\<lambda>c. \<not> is_digit c) (rev w))" by (metis rev_append rev_rev_ident)
  have "c # s = number_run (c # s) @ rev (takeWhile (\<lambda>c. \<not> is_digit c) (rev w)) @ dropWhile label_char (c # s)"
    using w takeWhile_dropWhile_id [of label_char "c # s"] unfolding w_def [symmetric] by (metis append.assoc)
  moreover have "list_all (\<lambda>c. \<not> is_digit c) (rev (takeWhile (\<lambda>c. \<not> is_digit c) (rev w)))"
    by (auto simp: list_all_iff dest: set_takeWhileD)
  moreover have "dropWhile label_char (c # s) = [] \<or> \<not> label_char (hd (dropWhile label_char (c # s)))"
    using hd_dropWhile by blast
  ultimately show ?thesis using that by blast
qed

lemma safe_run_short: "digit_count (safe_run r) \<le> 4"
proof -
  have "digit_count MASK = 0" by code_simp
  moreover have "digit_count (last_four d) \<le> 4" for d
    using length_filter_le [of is_digit "last_four d"] by (simp add: digit_count_def last_four_def)
  ultimately show ?thesis by (simp add: safe_run_def Let_def) (simp add: digit_count_def normalize_number_def)
qed

lemma hd_masked_label: "t = [] \<or> \<not> label_char (hd t) \<Longrightarrow> masked_label t = [] \<or> \<not> label_char (hd (masked_label t))"
  by (cases t) (auto simp: label_char_def)

lemma digit_count_none: "list_all (\<lambda>c. \<not> is_digit c) u \<Longrightarrow> digit_count u = 0"
  by (induction u) auto

lemma masked_label_short: "short_runs (masked_label s)"
proof (induction s rule: masked_label.induct)
  case (2 c s)
  show ?case
  proof (cases "is_digit c")
    case True
    obtain seps t where st: "c # s = number_run (c # s) @ seps @ t" "list_all (\<lambda>c. \<not> is_digit c) seps"
        "t = [] \<or> \<not> label_char (hd t)" using split_stretch .
    then have rest: "drop (length (number_run (c # s))) (c # s) = seps @ t" by (metis append_eq_conv_conj)
    then have "short_runs (seps @ masked_label t)" using 2(1) [OF True] st(2) by (simp add: masked_label_plain)
    then have "short_runs (masked_label t)" by (rule short_runs_suffix)
    moreover have "digit_count (safe_run (number_run (c # s)) @ seps) \<le> 4"
      using safe_run_short [of "number_run (c # s)"] digit_count_none [OF st(2)] by simp
    ultimately have "short_runs ((safe_run (number_run (c # s)) @ seps) @ masked_label t)"
      using hd_masked_label [OF st(3)] by (intro short_runs_append) auto
    then show ?thesis using True rest st(2) by (simp add: masked_label_plain)
  next
    case False
    then have "digit_count (takeWhile label_char (masked_label s)) \<le> 4"
      using 2(2) by (cases "masked_label s") auto
    then show ?thesis using 2(2) False by (simp add: label_char_def)
  qed
qed simp

lemma short_runs_factor: "short_runs (a @ r @ b) \<Longrightarrow> list_all label_char r \<Longrightarrow> digit_count r \<le> 4"
proof -
  assume "short_runs (a @ r @ b)" and r: "list_all label_char r"
  then have "short_runs (r @ b)" using short_runs_suffix by blast
  moreover have "takeWhile label_char (r @ b) = r @ takeWhile label_char b"
    using r by (simp add: takeWhile_append2 list_all_iff)
  ultimately show ?thesis by (cases r) auto
qed

text \<open>
  C36: a displayed label never shows an account number. Whatever the issuer printed, a part of the masked
  label that consists of digits and the separators of numbers has at most four digits.
\<close>

theorem masked_label_hides_numbers:
  assumes "masked_label s = a @ r @ b" "list_all label_char r"
  shows "digit_count r \<le> 4"
  using short_runs_factor assms masked_label_short [of s] by metis

theorem masked_label_hides_numbers_witness:
  "masked_label ''No. 12-345 678'' = ''No. '' @ MASK @ ''5678'' \<and> digit_count ''5678'' \<le> 4"
proof -
  have m: "masked_label ''No. 12-345 678'' = (''No. '' @ MASK) @ ''5678'' @ []" by code_simp
  moreover have "list_all label_char ''5678''" by code_simp
  ultimately show ?thesis using masked_label_hides_numbers by fastforce
qed

text \<open>A token that two accounts carry identifies neither.\<close>

lemma distinctive_tokens_identify:
  assumes "distinct (map fst per)" "(a, ta) \<in> set (distinctive_tokens per inst)" "(b, tb) \<in> set (distinctive_tokens per inst)"
    and "tok \<in> set ta" "tok \<in> set tb"
  shows "a = b"
proof -
  obtain ua ub where u: "(a, ua) \<in> set per" "(b, ub) \<in> set per" "tok \<in> set ua" "tok \<in> set ub" and k: "token_count per tok = 1"
    using assms by (auto simp: distinctive_tokens_def keeps_token_def)
  from k obtain x where "filter (\<lambda>(a, toks). tok \<in> set toks) per = [x]"
    by (auto simp: token_count_def length_Suc_conv)
  then have "set (filter (\<lambda>(a, toks). tok \<in> set toks) per) = {x}" by simp
  then have "(a, ua) = x" "(b, ub) = x" using u by auto
  then show ?thesis by auto
qed

end
