(* ===== verification/Statement.thy ===== *)
theory Statement
  imports Event_Accounting
begin

text \<open>
  \<^verbatim>\<open>product/viva/ingest/statement.py\<close>, the structured read of one balance-family statement, and
  \<^verbatim>\<open>product/viva/acquisition.py\<close>, which its facts call. A model's reply becomes typed facts or a
  refusal. The pair of a value and an error that the code returns is a sum with the error on the left,
  inside the result type that carries exceptions; the values an error text interpolates are left out
  of it. Two conversions of the standard library are arguments: \<open>pr\<close>, the \<^verbatim>\<open>str\<close> of a float, list or
  dict, and \<open>fr\<close>, the text of the float that a numeral denotes. So is the JSON decoder \<open>ld\<close> of a reply. Reading stored
  facts back checks the type of every field, where the code would accept a value of another type: the two agree on all
  that the writer produces.
\<close>

subsection \<open>Acquisition\<close>

definition LOCAL_READ_FIELDS :: "string list" where
  "LOCAL_READ_FIELDS =
     [''doc_id'', ''doc_type'', ''response_text'', ''parse_ok'', ''parse_error'', ''phase'', ''acquisition'',
      ''normalization_locale'', ''source_currency'']"

definition MODEL_FIELDS :: "string list" where
  "MODEL_FIELDS =
     [''model'', ''model_role'', ''resolved_model'', ''prompt_version'', ''cost_usd'', ''input_tokens'',
      ''output_tokens'', ''usage_reported'']"

definition local_read :: "(string \<Rightarrow> string) \<Rightarrow> json \<Rightarrow> bool res" where
  "local_read sha b =
     (case jget b ''acquisition'' of
        None \<Rightarrow> Inr False
      | Some a \<Rightarrow>
          bindR (acq_validate a) (\<lambda>source.
          guardR (jget source ''document_sha256'' = jget b ''doc_id''
                  \<and> (case jget b ''response_text'' of
                       Some (JStr t) \<Rightarrow> jstr_of source ''reading_sha256'' = Some (sha t)
                     | _ \<Rightarrow> False))
            (ValueError ''local reading content does not match its provenance'')
          (guardR (keys_of b = set LOCAL_READ_FIELDS)
            (ValueError ''local acquisition read has unknown or missing fields'')
          (guardR (jstr_of b ''phase'' = Some ''extract'' \<and> jstr_of b ''normalization_locale'' = Some ''en-US''
                   \<and> jstr_of b ''source_currency'' = Some ''USD'')
            (ValueError ''unsupported local acquisition normalization context'')
          (guardR (keys_of b \<inter> set MODEL_FIELDS = {}) (ValueError ''local curation cannot claim model activity'')
          (Inr True))))))"

definition classification :: "string \<Rightarrow> string option \<Rightarrow> json option \<Rightarrow> unit res" where
  "classification doc_id confidence acquisition =
     (case acquisition of
        None \<Rightarrow> guardR (confidence \<noteq> None) (ValueError ''model classification confidence is required'') (Inr ())
      | Some a \<Rightarrow>
          bindR (acq_validate a) (\<lambda>source.
          guardR (jstr_of source ''document_sha256'' = Some doc_id \<and> confidence = None)
            (ValueError ''local classification provenance does not match'') (Inr ())))"

subsection \<open>Facts\<close>

record txn_fact =
  tf_date :: "string option"
  tf_description :: string
  tf_amount :: decimal
  tf_page :: json
  tf_running_balance :: "decimal option"
  tf_source_doc_id :: string
  tf_grade :: string
  tf_note :: string
  tf_source_reference :: string
  tf_counterparty_reference :: string

definition txn_provenance :: "txn_fact \<Rightarrow> string \<Rightarrow> provenance res" where
  "txn_provenance t doc_id =
     bindR (page_of (Some (tf_page t))) (\<lambda>page.
     Inr \<lparr>prov_doc_id = (if tf_source_doc_id t \<noteq> [] then tf_source_doc_id t else doc_id), prov_page = page,
          prov_region = [], prov_note = tf_note t\<rparr>)"

definition txn_to_dict :: "txn_fact \<Rightarrow> json" where
  "txn_to_dict t =
     JObj [(''date'', case tf_date t of None \<Rightarrow> JNull | Some d \<Rightarrow> JStr d), (''description'', JStr (tf_description t)),
           (''amount'', JStr (dec_str (tf_amount t))), (''page'', tf_page t),
           (''running_balance'', case tf_running_balance t of None \<Rightarrow> JNull | Some d \<Rightarrow> JStr (dec_str d)),
           (''source_doc_id'', JStr (tf_source_doc_id t)), (''grade'', JStr (tf_grade t)), (''note'', JStr (tf_note t)),
           (''source_reference'', JStr (tf_source_reference t)),
           (''counterparty_reference'', JStr (tf_counterparty_reference t))]"

fun opt_text :: "json \<Rightarrow> string option res" where
  "opt_text JNull = Inr None"
| "opt_text (JStr s) = Inr (Some s)"
| "opt_text _ = Inl (TypeError ''text expected'')"

definition json_Decimal :: "json \<Rightarrow> decimal res" where
  "json_Decimal j = bindR (num_of_json j) py_Decimal"

fun opt_Decimal :: "json option \<Rightarrow> decimal option res" where
  "opt_Decimal None = Inr None"
| "opt_Decimal (Some JNull) = Inr None"
| "opt_Decimal (Some j) = bindR (json_Decimal j) (\<lambda>d. Inr (Some d))"

definition get_or_null :: "json \<Rightarrow> string \<Rightarrow> json" where
  "get_or_null d k = (case jget d k of None \<Rightarrow> JNull | Some v \<Rightarrow> v)"

definition txn_from_dict :: "json \<Rightarrow> txn_fact res" where
  "txn_from_dict d =
     guardR (is_obj d) (AttributeError ''get'')
     (bindR (bindR (jitem d ''date'') opt_text) (\<lambda>date.
     bindR (str_or [] (jget d ''description'')) (\<lambda>description.
     bindR (bindR (jitem d ''amount'') json_Decimal) (\<lambda>amount.
     bindR (opt_Decimal (jget d ''running_balance'')) (\<lambda>rb.
     bindR (str_or [] (jget d ''source_doc_id'')) (\<lambda>source_doc_id.
     bindR (str_or [] (jget d ''grade'')) (\<lambda>grade.
     bindR (str_or [] (jget d ''note'')) (\<lambda>note.
     bindR (str_or [] (jget d ''source_reference'')) (\<lambda>source_reference.
     bindR (str_or [] (jget d ''counterparty_reference'')) (\<lambda>counterparty_reference.
     Inr \<lparr>tf_date = date, tf_description = description, tf_amount = amount, tf_page = get_or_null d ''page'',
          tf_running_balance = rb, tf_source_doc_id = source_doc_id, tf_grade = grade, tf_note = note,
          tf_source_reference = source_reference, tf_counterparty_reference = counterparty_reference\<rparr>))))))))))"

record statement_facts =
  sf_doc_id :: string
  sf_doc_type :: string
  sf_confidence :: "string option"
  sf_account_ref :: string
  sf_currency :: string
  sf_opening_amount :: decimal
  sf_opening_date :: string
  sf_closing_amount :: decimal
  sf_closing_date :: string
  sf_transactions :: "txn_fact list"
  sf_opening_page :: json
  sf_closing_page :: json
  sf_account_number :: string
  sf_institution :: string
  sf_account_names :: "string list"
  sf_source_account_ref :: string
  sf_source_account_ref_page :: "int option"
  sf_acquisition :: "json option"
  sf_page_count :: "int option"

text \<open>The dataclass constructor: the record, once \<^verbatim>\<open>__post_init__\<close> accepts it.\<close>

definition StatementFacts :: "statement_facts \<Rightarrow> statement_facts res" where
  "StatementFacts f = bindR (classification (sf_doc_id f) (sf_confidence f) (sf_acquisition f)) (\<lambda>_. Inr f)"

definition period_end :: "statement_facts \<Rightarrow> string" where
  "period_end f = sf_closing_date f"

definition opening_provenance :: "statement_facts \<Rightarrow> provenance res" where
  "opening_provenance f =
     bindR (page_of (Some (sf_opening_page f))) (\<lambda>page.
     Inr \<lparr>prov_doc_id = sf_doc_id f, prov_page = page, prov_region = [], prov_note = ''opening balance''\<rparr>)"

definition closing_provenance :: "statement_facts \<Rightarrow> provenance res" where
  "closing_provenance f =
     bindR (page_of (Some (sf_closing_page f))) (\<lambda>page.
     Inr \<lparr>prov_doc_id = sf_doc_id f, prov_page = page, prov_region = [], prov_note = ''closing balance''\<rparr>)"

definition JOptInt :: "int option \<Rightarrow> json" where
  "JOptInt i = (case i of None \<Rightarrow> JNull | Some n \<Rightarrow> JInt n)"

definition facts_to_dict :: "statement_facts \<Rightarrow> json" where
  "facts_to_dict f =
     JObj ([(''doc_id'', JStr (sf_doc_id f)), (''doc_type'', JStr (sf_doc_type f)),
            (''doc_type_confidence'', case sf_confidence f of None \<Rightarrow> JNull | Some t \<Rightarrow> JFloat t)]
           @ (case sf_acquisition f of None \<Rightarrow> [] | Some a \<Rightarrow> [(''acquisition'', a)])
           @ (case sf_page_count f of None \<Rightarrow> [] | Some n \<Rightarrow> [(''validated_source_page_count'', JInt n)])
           @ [(''account_ref'', JStr (sf_account_ref f)), (''currency'', JStr (sf_currency f)),
              (''opening_amount'', JStr (dec_str (sf_opening_amount f))), (''opening_date'', JStr (sf_opening_date f)),
              (''closing_amount'', JStr (dec_str (sf_closing_amount f))), (''closing_date'', JStr (sf_closing_date f)),
              (''opening_page'', sf_opening_page f), (''closing_page'', sf_closing_page f),
              (''transactions'', JArr (map txn_to_dict (sf_transactions f))),
              (''account_number'', JStr (sf_account_number f)), (''institution'', JStr (sf_institution f)),
              (''account_names'', JStrs (sf_account_names f)), (''source_account_ref'', JStr (sf_source_account_ref f)),
              (''source_account_ref_page'', JOptInt (sf_source_account_ref_page f))])"

fun opt_float :: "json option \<Rightarrow> string option res" where
  "opt_float None = Inr (Some ''0.0'')"
| "opt_float (Some JNull) = Inr None"
| "opt_float (Some (JFloat t)) = Inr (Some t)"
| "opt_float (Some _) = Inl (TypeError ''float expected'')"

fun arr_or_empty :: "json option \<Rightarrow> json list res" where
  "arr_or_empty None = Inr []"
| "arr_or_empty (Some (JArr xs)) = Inr xs"
| "arr_or_empty (Some _) = Inl (TypeError ''list expected'')"

definition req_text :: "json \<Rightarrow> string \<Rightarrow> string res" where
  "req_text d k = bindR (jitem d k) (\<lambda>v. str_or [] (Some v))"

definition opt_acquisition :: "json option \<Rightarrow> json option" where
  "opt_acquisition a = (if a = Some JNull then None else a)"

definition facts_from_dict :: "json \<Rightarrow> statement_facts res" where
  "facts_from_dict d =
     bindR (req_text d ''doc_id'') (\<lambda>doc_id.
     bindR (req_text d ''doc_type'') (\<lambda>doc_type.
     bindR (opt_float (jget d ''doc_type_confidence'')) (\<lambda>confidence.
     bindR (page_of (jget d ''validated_source_page_count'')) (\<lambda>page_count.
     bindR (str_or [] (jget d ''account_ref'')) (\<lambda>account_ref.
     bindR (req_text d ''currency'') (\<lambda>currency.
     bindR (bindR (jitem d ''opening_amount'') json_Decimal) (\<lambda>opening_amount.
     bindR (req_text d ''opening_date'') (\<lambda>opening_date.
     bindR (bindR (jitem d ''closing_amount'') json_Decimal) (\<lambda>closing_amount.
     bindR (req_text d ''closing_date'') (\<lambda>closing_date.
     bindR (bindR (arr_or_empty (jget d ''transactions'')) (mapR txn_from_dict)) (\<lambda>transactions.
     bindR (str_or [] (jget d ''account_number'')) (\<lambda>account_number.
     bindR (str_or [] (jget d ''institution'')) (\<lambda>institution.
     bindR (bindR (arr_or_empty (jget d ''account_names'')) (mapR (\<lambda>n. str_or [] (Some n)))) (\<lambda>account_names.
     bindR (str_or [] (jget d ''source_account_ref'')) (\<lambda>source_account_ref.
     bindR (page_of (jget d ''source_account_ref_page'')) (\<lambda>reference_page.
     StatementFacts
       \<lparr>sf_doc_id = doc_id, sf_doc_type = doc_type, sf_confidence = confidence, sf_account_ref = account_ref,
        sf_currency = currency, sf_opening_amount = opening_amount, sf_opening_date = opening_date,
        sf_closing_amount = closing_amount, sf_closing_date = closing_date, sf_transactions = transactions,
        sf_opening_page = get_or_null d ''opening_page'', sf_closing_page = get_or_null d ''closing_page'',
        sf_account_number = account_number, sf_institution = institution, sf_account_names = account_names,
        sf_source_account_ref = source_account_ref, sf_source_account_ref_page = reference_page,
        sf_acquisition = opt_acquisition (jget d ''acquisition''), sf_page_count = page_count\<rparr>))))))))))))))))"

subsection \<open>Reading a reply\<close>

text \<open>
  The longest text from an opening brace to a closing brace that a closing fence follows; and the
  first opening fence after which there is one.
\<close>

fun fence_body :: "string \<Rightarrow> string option" where
  "fence_body [] = None"
| "fence_body (c # s) =
     (case fence_body s of
        Some p \<Rightarrow> Some (c # p)
      | None \<Rightarrow> if c = CHR ''}'' \<and> starts_with (dropWhile is_space s) ''```'' then Some [c] else None)"

fun fenced :: "string \<Rightarrow> string option" where
  "fenced [] = None"
| "fenced (c # s) =
     (let t = dropWhile is_space (remove_prefix (drop 3 (c # s)) ''json'') in
      case (if starts_with (c # s) ''```'' \<and> starts_with t ''{'' then fence_body t else None) of
        Some p \<Rightarrow> Some p
      | None \<Rightarrow> fenced s)"

definition find_json :: "string \<Rightarrow> string option" where
  "find_json text =
     (if text = [] then None
      else case fenced text of
        Some blob \<Rightarrow> Some blob
      | None \<Rightarrow>
          (let s = dropWhile (\<lambda>c. c \<noteq> CHR ''{'') text; blob = rev (dropWhile (\<lambda>c. c \<noteq> CHR ''}'') (rev s)) in
           if blob = [] then None else Some blob))"

text \<open>An error that the code returns beside \<^verbatim>\<open>None\<close> stops the caller, prefixed with what was being read.\<close>

type_synonym 'a reading = "(string + 'a) res"

definition bindE :: "string \<Rightarrow> 'a reading \<Rightarrow> ('a \<Rightarrow> 'b reading) \<Rightarrow> 'b reading" where
  [bind_defs]: "bindE pre m f = bindR m (\<lambda>r. case r of Inl e \<Rightarrow> Inr (Inl (pre @ e)) | Inr x \<Rightarrow> f x)"

definition guardE :: "bool \<Rightarrow> string \<Rightarrow> 'a reading \<Rightarrow> 'a reading" where
  [bind_defs]: "guardE ok e k = (if ok then k else Inr (Inl e))"

fun text_of :: "(json \<Rightarrow> string) \<Rightarrow> json \<Rightarrow> string" where
  "text_of pr (JStr s) = s"
| "text_of pr JNull = ''None''"
| "text_of pr (JBool b) = (if b then ''True'' else ''False'')"
| "text_of pr (JInt i) = show_int i"
| "text_of pr j = pr j"

definition unread :: "string \<Rightarrow> normalized \<Rightarrow> string" where
  "unread what n = what @ '': '' @ n_status n @ '' ('' @ (case n_reason n of None \<Rightarrow> ''None'' | Some r \<Rightarrow> r) @ '')''"

definition amount_of_raw :: "(json \<Rightarrow> string) \<Rightarrow> json \<Rightarrow> string \<Rightarrow> string \<Rightarrow> decimal reading" where
  "amount_of_raw pr raw locale currency =
     (let n = parse_amount (Some (text_of pr raw)) (Some locale) (Some currency) in
      guardE (is_ok n) (unread ''amount'' n) (bindR (decimal_of n) (\<lambda>d. Inr (Inr d))))"

text \<open>The value of an accepted date; \<^verbatim>\<open>None\<close> where the code hands on a reading it did not check.\<close>

definition date_of_raw :: "(json \<Rightarrow> string) \<Rightarrow> json \<Rightarrow> string \<Rightarrow> string reading" where
  "date_of_raw pr raw locale =
     (let n = parse_date (Some (text_of pr raw)) (Some locale) None in
      case n_value n of
        None \<Rightarrow> Inr (Inl (unread ''date'' n))
      | Some v \<Rightarrow> guardE (is_ok n) (unread ''date'' n) (Inr (Inr v)))"

definition int_of_text :: "string \<Rightarrow> nat res" where
  "int_of_text s = (if s \<noteq> [] \<and> list_all is_digit s then Inr (digits_val s) else Inl (ValueError ''invalid literal for int()''))"

definition period_date :: "(json \<Rightarrow> string) \<Rightarrow> json \<Rightarrow> string \<Rightarrow> string \<Rightarrow> string option reading" where
  "period_date pr raw locale fin =
     (let parse = (\<lambda>year. parse_date (Some (text_of pr raw)) (Some locale) year); n0 = parse None in
      if is_ok n0 then Inr (Inr (n_value n0))
      else guardE (fin \<noteq> []) ''date: no year printed and no statement period to infer it from''
      (bindR (int_of_text (take 4 fin)) (\<lambda>year.
       let n = parse (Some year) in
       guardE (is_ok n) (unread ''date'' n)
       (if (case n_value n of None \<Rightarrow> False | Some v \<Rightarrow> v > fin)
        then (let m = parse (Some (year - 1)) in guardE (is_ok m) (unread ''date'' m) (Inr (Inr (n_value m))))
        else Inr (Inr (n_value n))))))"

definition signed_amount :: "(json \<Rightarrow> string) \<Rightarrow> json \<Rightarrow> decimal \<Rightarrow> decimal reading" where
  "signed_amount pr rt mag =
     (let word = (\<lambda>k. lower (strip (case jget rt k of None \<Rightarrow> [] | Some v \<Rightarrow> text_of pr v)));
          effect = word ''balance_effect''; direction = word ''direction'' in
      if effect = ''increase'' \<or> effect = ''decrease'' then
        Inr (Inr (if effect = ''increase'' then mag else dec_neg mag))
      else if direction = ''credit'' \<or> direction = ''debit'' then
        Inr (Inr (if direction = ''credit'' then mag else dec_neg mag))
      else Inr (Inl ''balance_effect must be increase or decrease''))"

definition txn_date :: "(json \<Rightarrow> string) \<Rightarrow> json \<Rightarrow> string \<Rightarrow> string \<Rightarrow> string \<Rightarrow> string option reading" where
  "txn_date pr raw locale open_iso close_iso =
     (let parse = (\<lambda>year. parse_date (Some (text_of pr raw)) (Some locale) year); n0 = parse None in
      if is_ok n0 then Inr (Inr (n_value n0))
      else
        bindR (int_of_text (take 4 open_iso)) (\<lambda>oy.
        bindR (int_of_text (take 2 (drop 5 open_iso))) (\<lambda>om.
        bindR (int_of_text (take 4 close_iso)) (\<lambda>cy.
        let n = parse (Some oy) in
        guardE (is_ok n) (unread ''date'' n)
        (if oy \<noteq> cy then
           bindR (int_of_text (take 2 (drop 5 (case n_value n of None \<Rightarrow> [] | Some v \<Rightarrow> v)))) (\<lambda>month.
           Inr (Inr (if month < om then n_value (parse (Some cy)) else n_value n)))
         else Inr (Inr (n_value n)))))))"

text \<open>
  The JSON decoder is an argument of the reader: \<^verbatim>\<open>json.loads\<close> is \<open>loads\<close> within its limits, and beyond them (an integer of
  more than 4300 digits, nesting beyond the recursion limit) it raises exceptions that the reader does not catch.
\<close>

definition model_object :: "(string \<Rightarrow> json res) \<Rightarrow> string \<Rightarrow> json reading" where
  "model_object ld text =
     (case find_json text of
        None \<Rightarrow> Inr (Inl ''no JSON object found in model output'')
      | Some blob \<Rightarrow>
          (case ld blob of
             Inl e \<Rightarrow> if e = JSONDecodeError then Inr (Inl ''JSON did not parse'') else Inl e
           | Inr data \<Rightarrow> guardE (is_obj data) ''top-level JSON is not an object'' (Inr (Inr data))))"

definition section_end :: "(json \<Rightarrow> string) \<Rightarrow> json \<Rightarrow> string \<Rightarrow> string \<Rightarrow> string \<Rightarrow> (decimal \<times> string) reading" where
  "section_end pr data section locale currency =
     (let box = get_or_null data section in
      bindE (section @ '' '') (amount_of_raw pr (get_or_null box ''amount_raw'') locale currency) (\<lambda>a.
      bindE (section @ '' '') (date_of_raw pr (get_or_null box ''date_raw'') locale) (\<lambda>d.
      Inr (Inr (a, d)))))"

text \<open>\<^verbatim>\<open>None\<close> for every refusal; an exception still passes.\<close>

definition period_from_model_json ::
    "(string \<Rightarrow> json res) \<Rightarrow> (json \<Rightarrow> string) \<Rightarrow> string \<Rightarrow> string \<Rightarrow> string \<Rightarrow> ((decimal \<times> string) \<times> (decimal \<times> string)) option res" where
  "period_from_model_json ld pr text locale currency =
     bindR
       (bindE [] (model_object ld text) (\<lambda>data.
        guardE (is_obj (get_or_null data ''opening'')) ''missing opening''
        (bindE [] (section_end pr data ''opening'' locale currency) (\<lambda>opening.
        guardE (is_obj (get_or_null data ''closing'')) ''missing closing''
        (bindE [] (section_end pr data ''closing'' locale currency) (\<lambda>closing.
        Inr (Inr (opening, closing))))))))
       (\<lambda>r. Inr (case r of Inl _ \<Rightarrow> None | Inr ends \<Rightarrow> Some ends))"

fun is_arr :: "json \<Rightarrow> bool" where
  "is_arr (JArr _) = True"
| "is_arr _ = False"

fun is_text :: "json option \<Rightarrow> bool" where
  "is_text (Some (JStr _)) = True"
| "is_text (Some _) = False"
| "is_text None = True"

definition text_or_empty :: "json \<Rightarrow> string \<Rightarrow> string" where
  "text_or_empty d k = (case jget d k of Some (JStr s) \<Rightarrow> s | _ \<Rightarrow> [])"

definition str_get :: "(json \<Rightarrow> string) \<Rightarrow> json \<Rightarrow> string \<Rightarrow> string \<Rightarrow> string" where
  "str_get pr d k dflt = (case jget d k of None \<Rightarrow> dflt | Some v \<Rightarrow> text_of pr v)"

definition running_balance :: "(json \<Rightarrow> string) \<Rightarrow> json \<Rightarrow> string \<Rightarrow> string \<Rightarrow> decimal option res" where
  "running_balance pr rt locale currency =
     (case jget rt ''running_balance_raw'' of
        None \<Rightarrow> Inr None
      | Some raw \<Rightarrow>
          if raw = JNull \<or> raw = JStr [] then Inr None
          else bindR (amount_of_raw pr raw locale currency) (\<lambda>r. Inr (case r of Inl _ \<Rightarrow> None | Inr d \<Rightarrow> Some d)))"

definition read_txn ::
    "(json \<Rightarrow> string) \<Rightarrow> string \<Rightarrow> string \<Rightarrow> string \<Rightarrow> string \<Rightarrow> nat \<Rightarrow> json \<Rightarrow> txn_fact reading" where
  "read_txn pr locale currency open_date close_date i rt =
     (let pre = ''transaction '' @ show_nat i in
      guardE (is_obj rt) (pre @ '' is not an object'')
      (bindE (pre @ '' '') (amount_of_raw pr (get_or_null rt ''amount_raw'') locale currency) (\<lambda>mag.
       bindE (pre @ '' '') (txn_date pr (get_or_null rt ''date_raw'') locale open_date close_date) (\<lambda>d.
       bindE (pre @ '': '') (signed_amount pr rt (dec_abs mag)) (\<lambda>signed.
       bindR (running_balance pr rt locale currency) (\<lambda>running.
       guardE (is_text (jget rt ''source_reference'')) (pre @ '' source_reference must be printed text'')
       (guardE (is_text (jget rt ''counterparty_reference'')) (pre @ '' counterparty_reference must be printed text'')
       (Inr (Inr
          \<lparr>tf_date = d, tf_description = str_get pr rt ''description'' [], tf_amount = signed,
           tf_page = get_or_null rt ''page'', tf_running_balance = running, tf_source_doc_id = [], tf_grade = [],
           tf_note = [], tf_source_reference = text_or_empty rt ''source_reference'',
           tf_counterparty_reference = text_or_empty rt ''counterparty_reference''\<rparr>)))))))))"

fun read_txns :: "(nat \<Rightarrow> json \<Rightarrow> txn_fact reading) \<Rightarrow> nat \<Rightarrow> json list \<Rightarrow> txn_fact list reading" where
  "read_txns read i [] = Inr (Inr [])"
| "read_txns read i (rt # rts) =
     bindE [] (read i rt) (\<lambda>t. bindE [] (read_txns read (Suc i) rts) (\<lambda>ts. Inr (Inr (t # ts))))"

definition account_names_of :: "(json \<Rightarrow> string) \<Rightarrow> json \<Rightarrow> string list" where
  "account_names_of pr raw =
     (case raw of
        JArr ns \<Rightarrow> filter (\<lambda>n. n \<noteq> []) (map (\<lambda>n. strip (text_of pr n)) ns)
      | _ \<Rightarrow> if jtruthy raw then [strip (text_of pr raw)] else [])"

text \<open>\<^verbatim>\<open>float(value or 0.0)\<close>: a text must be a numeral, and a list or dict has no float.\<close>

fun py_float :: "(string \<Rightarrow> string) \<Rightarrow> json \<Rightarrow> string res" where
  "py_float fr (JFloat t) = Inr t"
| "py_float fr (JInt i) = Inr (fr (show_int i))"
| "py_float fr (JBool b) = Inr (fr (if b then ''1'' else ''0''))"
| "py_float fr (JStr s) = (if dec_parse s = Malformed then Inl (ValueError ''could not convert string to float'') else Inr (fr s))"
| "py_float fr _ = Inl (TypeError ''float() argument must be a string or a real number'')"

definition confidence_of :: "(string \<Rightarrow> string) \<Rightarrow> json \<Rightarrow> string res" where
  "confidence_of fr raw = (if jtruthy raw then py_float fr raw else Inr ''0.0'')"

definition valid_reference_page :: "json \<Rightarrow> bool" where
  "valid_reference_page j = (case j of JNull \<Rightarrow> True | JInt n \<Rightarrow> 1 \<le> n | _ \<Rightarrow> False)"

definition arr_items :: "json \<Rightarrow> json list" where
  "arr_items j = (case j of JArr xs \<Rightarrow> xs | _ \<Rightarrow> [])"

definition from_model_json ::
    "(string \<Rightarrow> json res) \<Rightarrow> (json \<Rightarrow> string) \<Rightarrow> (string \<Rightarrow> string) \<Rightarrow> string \<Rightarrow> string \<Rightarrow> string \<Rightarrow> string \<Rightarrow> statement_facts reading" where
  "from_model_json ld pr fr text doc_id locale currency =
     bindE [] (model_object ld text) (\<lambda>data.
     guardE (is_obj (get_or_null data ''opening'')) ''missing opening object''
     (guardE (is_obj (get_or_null data ''closing'')) ''missing closing object''
     (guardE (is_arr (get_or_null data ''transactions'')) ''missing transactions array''
     (bindE [] (section_end pr data ''opening'' locale currency) (\<lambda>(open_amt, open_date).
      bindE [] (section_end pr data ''closing'' locale currency) (\<lambda>(close_amt, close_date).
      bindE [] (read_txns (read_txn pr locale currency open_date close_date) 0
                  (arr_items (get_or_null data ''transactions''))) (\<lambda>txns.
      guardE (is_text (jget data ''source_account_ref'')) ''source_account_ref must be printed text''
      (guardE (valid_reference_page (get_or_null data ''source_account_ref_page''))
         ''source_account_ref_page must be a positive page''
      (bindR (confidence_of fr (get_or_null data ''doc_type_confidence'')) (\<lambda>confidence.
       bindR (StatementFacts
         \<lparr>sf_doc_id = doc_id, sf_doc_type = lower (strip (str_get pr data ''doc_type'' ''unknown'')),
          sf_confidence = Some confidence, sf_account_ref = str_get pr data ''account_ref'' [],
          sf_currency = upper currency, sf_opening_amount = open_amt, sf_opening_date = open_date,
          sf_closing_amount = close_amt, sf_closing_date = close_date, sf_transactions = txns,
          sf_opening_page = get_or_null (get_or_null data ''opening'') ''page'',
          sf_closing_page = get_or_null (get_or_null data ''closing'') ''page'',
          sf_account_number = str_get pr data ''account_number'' [],
          sf_institution = str_get pr data ''institution'' [],
          sf_account_names = account_names_of pr (get_or_null data ''account_names''),
          sf_source_account_ref = text_or_empty data ''source_account_ref'',
          sf_source_account_ref_page =
            (case get_or_null data ''source_account_ref_page'' of JInt n \<Rightarrow> Some n | _ \<Rightarrow> None),
          sf_acquisition = None, sf_page_count = None\<rparr>)
       (\<lambda>facts. Inr (Inr facts))))))))))))"

subsection \<open>Storing facts\<close>

lemma txn_from_to: "txn_from_dict (txn_to_dict t) = Inr t"
  by (cases t) (simp add: txn_from_dict_def txn_to_dict_def is_obj_def get_or_null_def json_Decimal_def dec_parse_dec_str
      split: option.splits)

lemma facts_lookup [simp]:
  "jget (facts_to_dict f) ''doc_type_confidence'' = Some (case sf_confidence f of None \<Rightarrow> JNull | Some t \<Rightarrow> JFloat t)"
  "jget (facts_to_dict f) ''validated_source_page_count'' = map_option JInt (sf_page_count f)"
  "jget (facts_to_dict f) ''acquisition'' = sf_acquisition f"
  "jget (facts_to_dict f) ''account_ref'' = Some (JStr (sf_account_ref f))"
  "jget (facts_to_dict f) ''transactions'' = Some (JArr (map txn_to_dict (sf_transactions f)))"
  "jget (facts_to_dict f) ''account_number'' = Some (JStr (sf_account_number f))"
  "jget (facts_to_dict f) ''institution'' = Some (JStr (sf_institution f))"
  "jget (facts_to_dict f) ''account_names'' = Some (JStrs (sf_account_names f))"
  "jget (facts_to_dict f) ''source_account_ref'' = Some (JStr (sf_source_account_ref f))"
  "jget (facts_to_dict f) ''source_account_ref_page'' = Some (JOptInt (sf_source_account_ref_page f))"
  "jget (facts_to_dict f) ''opening_page'' = Some (sf_opening_page f)"
  "jget (facts_to_dict f) ''closing_page'' = Some (sf_closing_page f)"
  by (simp_all add: facts_to_dict_def split: option.splits)

lemma facts_items [simp]:
  "jitem (facts_to_dict f) ''doc_id'' = Inr (JStr (sf_doc_id f))"
  "jitem (facts_to_dict f) ''doc_type'' = Inr (JStr (sf_doc_type f))"
  "jitem (facts_to_dict f) ''currency'' = Inr (JStr (sf_currency f))"
  "jitem (facts_to_dict f) ''opening_amount'' = Inr (JStr (dec_str (sf_opening_amount f)))"
  "jitem (facts_to_dict f) ''opening_date'' = Inr (JStr (sf_opening_date f))"
  "jitem (facts_to_dict f) ''closing_amount'' = Inr (JStr (dec_str (sf_closing_amount f)))"
  "jitem (facts_to_dict f) ''closing_date'' = Inr (JStr (sf_closing_date f))"
  by (simp_all add: facts_to_dict_def split: option.splits)

lemma optional_fields [simp]:
  "opt_float (Some (case c of None \<Rightarrow> JNull | Some t \<Rightarrow> JFloat t)) = Inr c"
  "page_of (map_option JInt n) = Inr n"
  "page_of (Some (JOptInt n)) = Inr n"
  "json_Decimal (JStr (dec_str d)) = Inr d"
  by (simp_all add: JOptInt_def json_Decimal_def dec_parse_dec_str split: option.splits) (cases n; simp)

lemma facts_from_to:
  assumes "StatementFacts f = Inr f"
  shows "facts_from_dict (facts_to_dict f) = Inr f"
proof -
  have acq: "opt_acquisition (sf_acquisition f) = sf_acquisition f"
    using assms by (auto simp: StatementFacts_def classification_def acq_validate_def is_obj_def opt_acquisition_def)
  have txns: "mapR txn_from_dict (map txn_to_dict ts) = Inr ts" for ts by (intro mapR_map_Inr) (simp add: txn_from_to)
  have names: "mapR (\<lambda>n. str_or [] (Some n)) (map JStr ns) = Inr ns" for ns by (intro mapR_map_Inr) simp
  show ?thesis
    using assms by (simp add: facts_from_dict_def get_or_null_def req_text_def JStrs_def acq txns names) (cases f; simp)
qed

text \<open>
  C35: the facts read from a statement survive storage. Written as JSON and read back, accepted facts
  are the same facts: every amount digit for digit, every date, page, reference and account name, and
  the provenance of the reading.
\<close>

theorem statement_facts_survive_storage:
  assumes "StatementFacts f = Inr f" "wf_json (facts_to_dict f)"
  shows "bindR (loads (dumps (facts_to_dict f))) facts_from_dict = Inr f"
  using assms by (simp add: loads_dumps facts_from_to)

definition demo_facts :: statement_facts where
  "demo_facts =
     \<lparr>sf_doc_id = ''d1'', sf_doc_type = ''bank_statement'', sf_confidence = Some ''0.9'', sf_account_ref = ''Checking'',
      sf_currency = ''USD'', sf_opening_amount = Dec 10000 (-2), sf_opening_date = ''2024-01-01'',
      sf_closing_amount = Dec 8750 (-2), sf_closing_date = ''2024-01-31'',
      sf_transactions =
        [\<lparr>tf_date = Some ''2024-01-05'', tf_description = ''lunch'', tf_amount = Dec (-1250) (-2), tf_page = JInt 2,
          tf_running_balance = Some (Dec 8750 (-2)), tf_source_doc_id = [], tf_grade = [], tf_note = [],
          tf_source_reference = [], tf_counterparty_reference = []\<rparr>],
      sf_opening_page = JInt 1, sf_closing_page = JNull, sf_account_number = ''1234'', sf_institution = ''First'',
      sf_account_names = [''A. Person''], sf_source_account_ref = [], sf_source_account_ref_page = None,
      sf_acquisition = None, sf_page_count = Some 3\<rparr>"

theorem statement_facts_survive_storage_witness:
  "bindR (loads (dumps (facts_to_dict demo_facts))) facts_from_dict = Inr demo_facts"
proof (rule statement_facts_survive_storage)
  show "StatementFacts demo_facts = Inr demo_facts"
    by (simp add: StatementFacts_def classification_def demo_facts_def)
  show "wf_json (facts_to_dict demo_facts)"
    by code_simp
qed

subsection \<open>Dates without a year\<close>

lemma digit_not: assumes "is_digit c" shows "\<not> is_space c" "\<not> date_sep c"
  using assms by (auto simp: is_digit_def is_space_def date_sep_def)

lemma date_text_yearless:
  assumes "is_digit a" "is_digit b" "is_digit c" "is_digit d"
  shows "date_text (Some [a, b, CHR ''/'', c, d]) None = Inl (norm_fail ''invalid'' ''unrecognized date format'' None [])"
    and "date_text (Some [a, b, CHR ''/'', c, d]) (Some y) =
      Inr (digits_val [a, b], digits_val [c, d], y, [''no year printed; used statement-period year '' @ show_nat y], True)"
proof -
  let ?s = "[a, b, CHR ''/'', c, d]"
  have "strip ?s = ?s" using digit_not(1) assms by (intro strip_id) (auto simp: is_space_def)
  moreover have "date_sep (CHR ''/'')" by (simp add: date_sep_def)
  then have "split_fields ?s = [[a, b], [c, d]]" using digit_not assms by simp
  moreover have "\<not> is_digit (CHR ''/'')" "\<not> is_space (CHR ''/'')" by code_simp+
  then have "month_name_form ?s = None" using assms by (simp add: month_name_form_def leading_day_def Let_def)
  ultimately show "date_text (Some ?s) None = Inl (norm_fail ''invalid'' ''unrecognized date format'' None [])"
    and "date_text (Some ?s) (Some y) =
      Inr (digits_val [a, b], digits_val [c, d], y, [''no year printed; used statement-period year '' @ show_nat y], True)"
    using assms by (simp_all add: date_text_def iso_fields_def numeric_fields_def yearless_fields_def digits_between_def)
qed

definition month_first :: "string \<Rightarrow> bool" where
  "month_first loc = (normalize_locale (Some loc) \<in> set MONTH_FIRST_LOCALES)"

text \<open>The day of a date as a locale prints it without its year.\<close>

definition printed :: "string \<Rightarrow> date \<Rightarrow> string" where
  "printed loc d =
     (if month_first loc then pad2 (d_month d) @ ''/'' @ pad2 (d_day d) else pad2 (d_day d) @ ''/'' @ pad2 (d_month d))"

lemma numeric_date_printed:
  assumes "1 \<le> m" "m \<le> 12" "loc \<noteq> []"
  shows "\<exists>as'. numeric_date (if month_first loc then m else d) (if month_first loc then d else m) y as yl (Some loc) =
    make_date y m d as'"
proof -
  define D where "D \<longleftrightarrow> 1 \<le> d \<and> d \<le> 12"
  define M where "M \<longleftrightarrow> month_first loc"
  show ?thesis
    using assms unfolding numeric_date_def Let_def month_first_def [symmetric] D_def [symmetric] M_def [symmetric]
    by (cases M; cases D; cases "d = m") (auto simp: D_def)
qed

lemma parse_printed:
  assumes "valid_date day" "loc \<noteq> []"
  shows "\<not> is_ok (parse_date (Some (printed loc day)) (Some loc) None)"
    and "\<exists>as. parse_date (Some (printed loc day)) (Some loc) (Some y) = make_date y (d_month day) (d_day day) as"
proof -
  note v = valid_dateD [OF assms(1)]
  note p = pad2_val [OF v(2)] pad2_val [OF v(3)]
  show "\<not> is_ok (parse_date (Some (printed loc day)) (Some loc) None)"
    using p date_text_yearless(1) unfolding printed_def pad2_def
    by (auto simp: parse_date_def is_ok_def)
  show "\<exists>as. parse_date (Some (printed loc day)) (Some loc) (Some y) = make_date y (d_month day) (d_day day) as"
    using p date_text_yearless(2) numeric_date_printed [of "d_month day" loc "d_day day"] v assms(2) unfolding printed_def pad2_def
    by (auto simp: parse_date_def)
qed

lemma make_date_valid:
  assumes "valid_date (Date y m d)"
  shows "make_date y m d as = norm_ok (isoformat (Date y m d)) None as"
  using assms by (subst make_date_eq) (auto simp: valid_date_def calendar_day_def iso_day_def show_year_def isoformat_def)

lemma iso_numbers:
  assumes "valid_date d"
  shows "int_of_text (take 4 (isoformat d)) = Inr (d_year d)" "int_of_text (take 2 (drop 5 (isoformat d))) = Inr (d_month d)"
proof -
  have "take 4 (isoformat d) = pad4 (d_year d)" "take 2 (drop 5 (isoformat d)) = pad2 (d_month d)"
    by (simp_all add: isoformat_def pad4_def pad2_def)
  then show "int_of_text (take 4 (isoformat d)) = Inr (d_year d)" "int_of_text (take 2 (drop 5 (isoformat d))) = Inr (d_month d)"
    using pad4_val [OF valid_dateD(1) [OF assms]] pad2_val [OF valid_dateD(2) [OF assms]]
    by (simp_all add: int_of_text_def) (simp_all add: pad4_def pad2_def)
qed

text \<open>A day of the period, re-dated to the opening year, is a day; the closing year is needed exactly for the months before the opening one.\<close>

lemma day_in_period:
  assumes "valid_date opn" "valid_date day" "valid_date cls" "toordinal opn \<le> toordinal day" "toordinal day \<le> toordinal cls"
    and "d_year cls = d_year opn \<or> (d_year cls = Suc (d_year opn) \<and> d_month cls < d_month opn)"
  shows "d_year day = (if d_year opn \<noteq> d_year cls \<and> d_month day < d_month opn then d_year cls else d_year opn)"
proof -
  have "\<not> date_less day opn" "\<not> date_less cls day"
    using assms by (simp_all flip: toordinal_less_iff)
  then show ?thesis using assms(6) by (auto simp: date_less_def)
qed

text \<open>
  A transaction date printed without its year is read as the day of the statement period that it
  is. For a period within one year, or crossing one new year and closing in a month before the one it
  opens in, every day of the period that is printed in the order of the locale comes back as that day;
  the 29th of February is the one exception, when the opening year does not have it.
\<close>

lemma yearless_dates_fall_in_the_period:
  assumes "valid_date opn" "valid_date day" "valid_date cls" "toordinal opn \<le> toordinal day" "toordinal day \<le> toordinal cls"
    and "d_year cls = d_year opn \<or> (d_year cls = Suc (d_year opn) \<and> d_month cls < d_month opn)"
    and "d_month day = 2 \<and> d_day day = 29 \<longrightarrow> is_leap (d_year opn)" and "loc \<noteq> []"
  shows "txn_date pr (JStr (printed loc day)) loc (isoformat opn) (isoformat cls) = Inr (Inr (Some (isoformat day)))"
proof -
  let ?parse = "\<lambda>y. parse_date (Some (printed loc day)) (Some loc) (Some y)"
  have read: "\<exists>as. ?parse y = norm_ok (isoformat (Date y (d_month day) (d_day day))) None as"
    if "valid_date (Date y (d_month day) (d_day day))" for y
    using parse_printed(2) [OF assms(2,8), of y] make_date_valid [OF that] by metis
  have own: "valid_date (Date (d_year opn) (d_month day) (d_day day))"
    using assms(1,2,7) by (auto simp: valid_date_def days_in_month_def split: if_splits)
  have dayeq: "Date (d_year day) (d_month day) (d_day day) = day" by (cases day) simp
  obtain as1 where 1: "?parse (d_year opn) = norm_ok (isoformat (Date (d_year opn) (d_month day) (d_day day))) None as1"
    using read [OF own] by blast
  obtain as2 where 2: "?parse (d_year day) = norm_ok (isoformat day) None as2"
    using read [of "d_year day"] assms(2) dayeq by auto
  show ?thesis
    using parse_printed(1) [OF assms(2,8)] 1 2 day_in_period [OF assms(1-6)] dayeq
      iso_numbers [OF assms(1)] iso_numbers [OF assms(3)] iso_numbers [OF own]
    by (auto simp: txn_date_def is_ok_def guardE_def Let_def)
qed

text \<open>
  The exception is real. In a period that opens in 2023 and closes in 2024 the leap day is
  refused, although it lies in the period; and in one that opens in 2024 and closes in 2025 a line
  printed for that day is accepted without any date.
\<close>

lemma leap_day_is_lost_across_a_new_year:
  "(\<exists>err. txn_date pr (JStr ''02/29'') ''en-US'' ''2023-12-16'' ''2024-03-15'' = Inr (Inl err))
   \<and> txn_date pr (JStr ''02/29'') ''en-US'' ''2024-12-16'' ''2025-01-15'' = Inr (Inr None)"
proof -
  let ?p = "\<lambda>y. parse_date (Some ''02/29'') (Some ''en-US'') y"
  have "\<not> is_ok (?p None)" "\<not> is_ok (?p (Some 2023))" "is_ok (?p (Some 2024))" "n_value (?p (Some 2024)) = Some ''2024-02-29''"
    "n_value (?p (Some 2025)) = None" by code_simp+
  moreover have "int_of_text ''2023'' = Inr 2023" "int_of_text ''2024'' = Inr 2024" "int_of_text ''2025'' = Inr 2025"
    "int_of_text ''12'' = Inr 12" "int_of_text ''02'' = Inr 2" by code_simp+
  ultimately show ?thesis by (simp add: txn_date_def Let_def guardE_def)
qed

subsection \<open>What a reading raises and returns\<close>

lemma bindE_cases:
  "bindE pre m f = Inl e \<longleftrightarrow> m = Inl e \<or> (\<exists>x. m = Inr (Inr x) \<and> f x = Inl e)"
  "bindE pre m f = Inr (Inr y) \<longleftrightarrow> (\<exists>x. m = Inr (Inr x) \<and> f x = Inr (Inr y))"
  by (auto simp: bindE_def bindR_def split: sum.splits)

lemma guardE_cases:
  "guardE b w k = Inl e \<longleftrightarrow> b \<and> k = Inl e"
  "guardE b w k = Inr (Inr y) \<longleftrightarrow> b \<and> k = Inr (Inr y)"
  by (auto simp: guardE_def)

lemmas reading_iffs = bindE_cases guardE_cases

lemma amount_of_raw_never_raises: "amount_of_raw pr raw loc cur \<noteq> Inl e"
  using parse_amount_value [of "Some (text_of pr raw)" "Some loc" "Some cur"]
  by (auto simp: amount_of_raw_def Let_def reading_iffs)

lemma date_of_raw_never_raises: "date_of_raw pr raw loc \<noteq> Inl e"
  by (auto simp: date_of_raw_def Let_def reading_iffs split: option.splits)

lemma running_balance_never_raises: "running_balance pr rt loc cur \<noteq> Inl e"
  using amount_of_raw_never_raises by (auto simp: running_balance_def bindR_def split: option.splits sum.splits)

lemma signed_amount_never_raises: "signed_amount pr rt mag \<noteq> Inl e"
  by (simp add: signed_amount_def Let_def)

text \<open>The ISO text of a day, of a year that four digits can write.\<close>

definition iso_text :: "string \<Rightarrow> bool" where
  "iso_text v = (\<exists>y m d. v = iso_day y m d \<and> calendar_day y m d \<and> y < 10000)"

definition iso_if_ok :: "normalized \<Rightarrow> bool" where
  "iso_if_ok n = (is_ok n \<longrightarrow> (\<exists>v. n_value n = Some v \<and> iso_text v))"

lemma iso_if_ok_fail [simp]: "iso_if_ok (norm_fail ''invalid'' w c as)" "iso_if_ok (norm_fail ''ambiguous'' w c as)"
  by (simp_all add: iso_if_ok_def is_ok_def)

lemma iso_if_ok_make: "y < 10000 \<Longrightarrow> iso_if_ok (make_date y m d as)"
  by (subst make_date_eq) (auto simp: iso_if_ok_def is_ok_def iso_text_def)

lemma four_digits: "digits_between lo 4 s \<Longrightarrow> digits_val s < 10000"
  using digits_val_less [of s] power_increasing [of "length s" 4 "10 :: nat"] by (auto simp: digits_between_def)

lemma day_and_year_digits: "day_and_year s = Some (q, year) \<Longrightarrow> digits_between 4 4 year"
proof -
  define ds where "ds = takeWhile is_digit s"
  have ds: "list_all is_digit (drop n ds)" for n by (auto simp: ds_def list_all_iff dest: in_set_dropD set_takeWhileD)
  assume "day_and_year s = Some (q, year)"
  then consider "year = ds" "length ds = 4" | "year = drop 1 ds" "length ds = 5" | "year = drop 2 ds" "length ds = 6"
    | "digits_between 4 4 year"
    unfolding day_and_year_def Let_def ds_def [symmetric] by (auto split: if_splits)
  then show ?thesis using ds [of 0] ds [of 1] ds [of 2] by cases (simp_all add: digits_between_def)
qed

lemma month_name_year: "month_name_form tx = Some (p, nme, q, year) \<Longrightarrow> digits_val year < 10000"
proof -
  assume "month_name_form tx = Some (p, nme, q, year)"
  then obtain s where "day_and_year s = Some (q, year)"
    by (auto simp: month_name_form_def Let_def split: option.splits if_splits prod.splits)
  then show ?thesis using day_and_year_digits four_digits by blast
qed

lemma parse_date_iso:
  assumes "case dy of None \<Rightarrow> True | Some y \<Rightarrow> y < 10000"
  shows "iso_if_ok (parse_date raw loc dy)"
proof (cases "date_text raw dy")
  case (Inl n)
  then have "iso_if_ok n"
    using four_digits month_name_year
    by (auto simp: date_text_def named_date_def iso_fields_def intro!: iso_if_ok_make
        split: option.splits if_splits prod.splits list.splits)
  with Inl show ?thesis by (simp add: parse_date_def)
next
  case (Inr r)
  obtain a b y as yl where r: "r = (a, b, y, as, yl)" by (cases r)
  have "y < 10000"
    using Inr r assms four_digits
    by (auto simp: date_text_def numeric_fields_def split: option.splits if_splits prod.splits list.splits)
  then have "iso_if_ok (numeric_date a b y as yl loc)"
    unfolding numeric_date_def Let_def by (simp add: iso_if_ok_make)
  with Inr r show ?thesis by (simp add: parse_date_def)
qed

lemma iso_text_numbers:
  assumes "iso_text v"
  shows "\<exists>y. int_of_text (take 4 v) = Inr y \<and> y < 10000" "\<exists>m. int_of_text (take 2 (drop 5 v)) = Inr m"
proof -
  obtain y m d where v: "v = pad4 y @ ''-'' @ pad2 m @ ''-'' @ pad2 d" "y < 10000" "m < 100"
    using assms by (auto simp: iso_text_def iso_day_def show_year_def calendar_day_def)
  then have "take 4 v = pad4 y" "take 2 (drop 5 v) = pad2 m" by (simp_all add: pad4_def pad2_def)
  then show "\<exists>y. int_of_text (take 4 v) = Inr y \<and> y < 10000" "\<exists>m. int_of_text (take 2 (drop 5 v)) = Inr m"
    using pad4_val [OF v(2)] pad2_val [OF v(3)] v(2) by (auto simp: int_of_text_def) (auto simp: pad4_def pad2_def)
qed

lemma date_of_raw_iso: "date_of_raw pr raw loc = Inr (Inr v) \<Longrightarrow> iso_text v"
  using parse_date_iso [of None "Some (text_of pr raw)" "Some loc"]
  by (auto simp: date_of_raw_def Let_def reading_iffs iso_if_ok_def split: option.splits)

lemma txn_date_never_raises:
  assumes "iso_text op" "iso_text cl"
  shows "txn_date pr raw loc op cl \<noteq> Inl e"
proof -
  obtain oy om cy where n: "int_of_text (take 4 op) = Inr oy" "int_of_text (take 2 (drop 5 op)) = Inr om"
      "int_of_text (take 4 cl) = Inr cy" "oy < 10000"
    using iso_text_numbers [OF assms(1)] iso_text_numbers [OF assms(2)] by blast
  let ?n = "parse_date (Some (text_of pr raw)) (Some loc) (Some oy)"
  show ?thesis
  proof (cases "is_ok ?n")
    case True
    have "iso_if_ok ?n" using n(4) by (intro parse_date_iso) simp
    with True obtain v m where "n_value ?n = Some v" "int_of_text (take 2 (drop 5 v)) = Inr m"
      using iso_text_numbers(2) unfolding iso_if_ok_def by blast
    with n show ?thesis by (auto simp: txn_date_def Let_def reading_iffs)
  next
    case False
    with n show ?thesis by (auto simp: txn_date_def Let_def reading_iffs)
  qed
qed

lemma read_txn_never_raises: "iso_text op \<Longrightarrow> iso_text cl \<Longrightarrow> read_txn pr loc cur op cl i rt \<noteq> Inl e"
  using amount_of_raw_never_raises txn_date_never_raises signed_amount_never_raises running_balance_never_raises
  by (fastforce simp: read_txn_def Let_def reading_iffs res_iffs)

lemma read_txns_raises: "read_txns rd i rts = Inl e \<Longrightarrow> \<exists>j rt. rd j rt = Inl e"
  by (induction rd i rts rule: read_txns.induct) (auto simp: reading_iffs)

lemma section_end_never_raises: "section_end pr data sec loc cur \<noteq> Inl e"
  using amount_of_raw_never_raises date_of_raw_never_raises by (auto simp: section_end_def Let_def reading_iffs)

lemma section_end_iso: "section_end pr data sec loc cur = Inr (Inr (a, d)) \<Longrightarrow> iso_text d"
  using date_of_raw_iso by (auto simp: section_end_def Let_def reading_iffs)

text \<open>What the decoder raises on the object found in a reply, other than its own decoding error.\<close>

definition decoder_raises :: "(string \<Rightarrow> json res) \<Rightarrow> string \<Rightarrow> exc \<Rightarrow> bool" where
  "decoder_raises ld tx e = (e \<noteq> JSONDecodeError \<and> (\<exists>blob. find_json tx = Some blob \<and> ld blob = Inl e))"

lemma model_object_raises: "model_object ld tx = Inl e \<longleftrightarrow> decoder_raises ld tx e"
  by (auto simp: model_object_def decoder_raises_def reading_iffs split: option.splits sum.splits)

lemma loads_never_raises: "\<not> decoder_raises loads tx e"
  by (auto simp: decoder_raises_def loads_def split: option.splits prod.splits if_splits)

text \<open>
  C34: the reader reports, it does not raise. Whatever the JSON decoder does, reading the period alone raises exactly
  what the decoder raises on the object found in the reply other than a decoding error; reading a reply raises that, and
  otherwise only what converting the confidence to a float raises. Every other failure is returned as an error.
\<close>

theorem reader_raises_only_from_decoder_or_confidence:
  "(period_from_model_json ld pr tx loc cur = Inl e \<longleftrightarrow> decoder_raises ld tx e)
   \<and> (decoder_raises ld tx e \<longrightarrow> from_model_json ld pr fr tx doc loc cur = Inl e)
   \<and> (from_model_json ld pr fr tx doc loc cur = Inl e \<longrightarrow>
       decoder_raises ld tx e
       \<or> (\<exists>data. model_object ld tx = Inr (Inr data) \<and> confidence_of fr (get_or_null data ''doc_type_confidence'') = Inl e))"
proof (intro conjI)
  show "period_from_model_json ld pr tx loc cur = Inl e \<longleftrightarrow> decoder_raises ld tx e"
    using section_end_never_raises unfolding model_object_raises [symmetric]
    by (auto simp: period_from_model_json_def reading_iffs bindR_eq_Inl)
  show "decoder_raises ld tx e \<longrightarrow> from_model_json ld pr fr tx doc loc cur = Inl e"
    unfolding model_object_raises [symmetric] by (auto simp: from_model_json_def reading_iffs)
  show "from_model_json ld pr fr tx doc loc cur = Inl e \<longrightarrow>
      decoder_raises ld tx e
      \<or> (\<exists>data. model_object ld tx = Inr (Inr data) \<and> confidence_of fr (get_or_null data ''doc_type_confidence'') = Inl e)"
    using section_end_never_raises section_end_iso read_txns_raises read_txn_never_raises unfolding model_object_raises [symmetric]
    by (fastforce simp: from_model_json_def reading_iffs bindR_eq_Inl StatementFacts_def classification_def)
qed


definition demo_line :: json where
  "demo_line = JObj [(''date_raw'', JStr ''01/05''), (''amount_raw'', JStr ''12.50''), (''balance_effect'', JStr ''decrease'')]"

definition demo_reply :: "json \<Rightarrow> json" where
  "demo_reply confidence =
     JObj [(''doc_type_confidence'', confidence),
           (''opening'', JObj [(''amount_raw'', JStr ''100.00''), (''date_raw'', JStr ''2024-01-01'')]),
           (''closing'', JObj [(''amount_raw'', JStr ''87.50''), (''date_raw'', JStr ''2024-01-31'')]),
           (''transactions'', JArr [demo_line])]"

text \<open>A reply that is one JSON object without a fence is found and read as that object.\<close>

lemma fenced_plain: "CHR 0x60 \<notin> set s \<Longrightarrow> fenced s = None"
  by (induction s) (auto simp: Let_def)

lemma model_object_dumps:
  assumes "wf_json (JObj fs)" "CHR 0x60 \<notin> set (dumps (JObj fs))"
  shows "model_object loads (dumps (JObj fs)) = Inr (Inr (JObj fs))"
proof -
  have "find_json (dumps (JObj fs)) = Some (dumps (JObj fs))"
    using fenced_plain [OF assms(2)] by (simp add: find_json_def)
  then show ?thesis using loads_dumps [OF assms(1)] by (simp add: model_object_def guardE_def is_obj_def)
qed

lemma demo_object:
  assumes "c = JStr ''high'' \<or> c = JFloat ''0.9''"
  shows "model_object loads (dumps (demo_reply c)) = Inr (Inr (demo_reply c))"
proof -
  have "wf_json (demo_reply c)" "CHR 0x60 \<notin> set (dumps (demo_reply c))" using assms by (elim disjE; simp, code_simp)+
  then show ?thesis unfolding demo_reply_def by (rule model_object_dumps)
qed

lemma demo_lookup:
  "get_or_null (demo_reply c) ''opening'' = JObj [(''amount_raw'', JStr ''100.00''), (''date_raw'', JStr ''2024-01-01'')]"
  "get_or_null (demo_reply c) ''closing'' = JObj [(''amount_raw'', JStr ''87.50''), (''date_raw'', JStr ''2024-01-31'')]"
  "get_or_null (demo_reply c) ''transactions'' = JArr [demo_line]" "get_or_null (demo_reply c) ''doc_type_confidence'' = c"
  "get_or_null (demo_reply c) ''source_account_ref_page'' = JNull" "jget (demo_reply c) ''source_account_ref'' = None"
  by (simp_all add: get_or_null_def demo_reply_def)

lemma demo_parts:
  "section_end (\<lambda>_. []) (demo_reply c) ''opening'' ''en-US'' ''USD'' = Inr (Inr (Dec 10000 (- 2), ''2024-01-01''))"
  "section_end (\<lambda>_. []) (demo_reply c) ''closing'' ''en-US'' ''USD'' = Inr (Inr (Dec 8750 (- 2), ''2024-01-31''))"
  unfolding section_end_def demo_lookup by code_simp+

lemma demo_line_read:
  "\<exists>t. read_txn (\<lambda>_. []) ''en-US'' ''USD'' ''2024-01-01'' ''2024-01-31'' 0 demo_line = Inr (Inr t)"
proof -
  let ?r = "read_txn (\<lambda>_. []) ''en-US'' ''USD'' ''2024-01-01'' ''2024-01-31'' 0 demo_line"
  have "\<not> isl ?r \<and> \<not> isl (projr ?r)" by code_simp
  then show ?thesis by (metis not_isl_iff sum.sel(2))
qed

lemma demo_read:
  assumes "c = JStr ''high'' \<or> c = JFloat ''0.9''"
  shows "from_model_json loads (\<lambda>_. []) fr (dumps (demo_reply c)) ''d1'' ''en-US'' ''USD'' = Inl e \<longleftrightarrow> confidence_of fr c = Inl e"
    and "confidence_of fr c = Inr t \<Longrightarrow> \<exists>f. from_model_json loads (\<lambda>_. []) fr (dumps (demo_reply c)) ''d1'' ''en-US'' ''USD'' = Inr (Inr f)"
  using demo_line_read demo_object [OF assms]
  by (auto simp: from_model_json_def demo_lookup demo_parts bindE_def guardE_def is_obj_def arr_items_def
      valid_reference_page_def StatementFacts_def classification_def bindR_eq_Inl)

theorem reader_raises_only_from_decoder_or_confidence_witness:
  "(\<exists>data. model_object loads (dumps (demo_reply (JStr ''high''))) = Inr (Inr data)
      \<and> confidence_of (\<lambda>_. []) (get_or_null data ''doc_type_confidence'') = Inl (ValueError ''could not convert string to float''))
   \<and> from_model_json (\<lambda>_. Inl (ValueError ''Exceeds the limit (4300 digits) for integer string conversion'')) (\<lambda>_. []) (\<lambda>_. [])
        ''{}'' ''d1'' ''en-US'' ''USD'' = Inl (ValueError ''Exceeds the limit (4300 digits) for integer string conversion'')"
proof
  have "confidence_of (\<lambda>_. []) (JStr ''high'') = Inl (ValueError ''could not convert string to float'')" by code_simp
  then have "from_model_json loads (\<lambda>_. []) (\<lambda>_. []) (dumps (demo_reply (JStr ''high''))) ''d1'' ''en-US'' ''USD'' =
      Inl (ValueError ''could not convert string to float'')" by (simp add: demo_read)
  then show "\<exists>data. model_object loads (dumps (demo_reply (JStr ''high''))) = Inr (Inr data)
      \<and> confidence_of (\<lambda>_. []) (get_or_null data ''doc_type_confidence'') = Inl (ValueError ''could not convert string to float'')"
    using reader_raises_only_from_decoder_or_confidence loads_never_raises by blast
next
  have "find_json ''{}'' = Some ''{}''" by code_simp
  then have "decoder_raises (\<lambda>_. Inl (ValueError ''Exceeds the limit (4300 digits) for integer string conversion'')) ''{}''
      (ValueError ''Exceeds the limit (4300 digits) for integer string conversion'')" by (simp add: decoder_raises_def)
  then show "from_model_json (\<lambda>_. Inl (ValueError ''Exceeds the limit (4300 digits) for integer string conversion'')) (\<lambda>_. []) (\<lambda>_. [])
        ''{}'' ''d1'' ''en-US'' ''USD'' = Inl (ValueError ''Exceeds the limit (4300 digits) for integer string conversion'')"
    using reader_raises_only_from_decoder_or_confidence by blast
qed

lemma read_txns_all2: "read_txns rd i rts = Inr (Inr ts) \<Longrightarrow> list_all2 (\<lambda>rt t. \<exists>j. rd j rt = Inr (Inr t)) rts ts"
  by (induction rd i rts arbitrary: ts rule: read_txns.induct) (auto simp: reading_iffs)

abbreviation effect_word :: "(json \<Rightarrow> string) \<Rightarrow> json \<Rightarrow> string" where
  "effect_word pr row \<equiv> lower (strip (str_get pr row ''balance_effect'' []))"

abbreviation direction_word :: "(json \<Rightarrow> string) \<Rightarrow> json \<Rightarrow> string" where
  "direction_word pr row \<equiv> lower (strip (str_get pr row ''direction'' []))"

text \<open>
  The sign of a line: that of its effect on the balance, and for a line whose effect is neither of the two words, that of
  the older direction field. A line with neither has no sign.
\<close>

definition sign_of_line :: "(json \<Rightarrow> string) \<Rightarrow> json \<Rightarrow> int option" where
  "sign_of_line pr row =
     (case map_of [(''increase'', 1), (''decrease'', - 1)] (effect_word pr row) of
        Some s \<Rightarrow> Some s
      | None \<Rightarrow> map_of [(''credit'', 1), (''debit'', - 1)] (direction_word pr row))"

text \<open>A line of the reply and its fact: the printed magnitude, digit for digit, under the sign of the line.\<close>

definition signed_by_line :: "(json \<Rightarrow> string) \<Rightarrow> json \<Rightarrow> decimal \<Rightarrow> decimal \<Rightarrow> bool" where
  "signed_by_line pr row mag a = (\<exists>s. sign_of_line pr row = Some s \<and> a = Dec (s * \<bar>coeff mag\<bar>) (expo mag))"

lemma signed_amount_line:
  assumes "signed_amount pr row (dec_abs mag) = Inr (Inr a)" "\<bar>coeff mag\<bar> < 10 ^ prec"
  shows "signed_by_line pr row mag a"
proof -
  have "dec_abs mag = Dec \<bar>coeff mag\<bar> (expo mag)" "dec_neg (dec_abs mag) = Dec (- \<bar>coeff mag\<bar>) (expo mag)"
    using assms(2) by (simp_all add: dec_abs_def dec_neg_def dec_fix_id)
  with assms(1) show ?thesis
    by (auto simp: signed_by_line_def sign_of_line_def signed_amount_def str_get_def Let_def split: if_splits)
qed

lemma signed_amount_signed: "signed_amount pr row mag = Inr (Inr a) \<Longrightarrow> sign_of_line pr row \<noteq> None"
  by (auto simp: sign_of_line_def signed_amount_def str_get_def Let_def split: if_splits)

lemma read_txn_line:
  "read_txn pr loc cur op cl i row = Inr (Inr t) \<Longrightarrow>
   \<exists>mag. amount_of_raw pr (get_or_null row ''amount_raw'') loc cur = Inr (Inr mag) \<and> sign_of_line pr row \<noteq> None
     \<and> (\<bar>coeff mag\<bar> < 10 ^ prec \<longrightarrow> signed_by_line pr row mag (tf_amount t))"
  using signed_amount_line signed_amount_signed by (fastforce simp: read_txn_def Let_def reading_iffs res_iffs)

text \<open>
  C33: a reply is read whole or not at all. Accepted facts have an ISO day at each end of the period and
  exactly one fact for each line of the reply, in order; the amount of a line keeps its printed digits
  (within the 28 digits of the decimal context) and takes the sign of its effect on the balance, or of the
  older direction field (credit or debit) where no effect is given, whatever sign was printed. A line with
  neither is not among accepted facts.
\<close>

theorem statement_is_read_whole:
  assumes "from_model_json ld pr fr tx doc loc cur = Inr (Inr f)"
  shows "iso_text (sf_opening_date f) \<and> iso_text (sf_closing_date f)
    \<and> (\<exists>data rows. model_object ld tx = Inr (Inr data) \<and> get_or_null data ''transactions'' = JArr rows
        \<and> list_all2 (\<lambda>row t. \<exists>mag. amount_of_raw pr (get_or_null row ''amount_raw'') loc cur = Inr (Inr mag) \<and> sign_of_line pr row \<noteq> None
             \<and> (\<bar>coeff mag\<bar> < 10 ^ prec \<longrightarrow> signed_by_line pr row mag (tf_amount t))) rows (sf_transactions f))"
proof -
  obtain data op od cl cd txns where
    d: "model_object ld tx = Inr (Inr data)" "is_arr (get_or_null data ''transactions'')"
    and s: "section_end pr data ''opening'' loc cur = Inr (Inr (op, od))" "section_end pr data ''closing'' loc cur = Inr (Inr (cl, cd))"
    and r: "read_txns (read_txn pr loc cur od cd) 0 (arr_items (get_or_null data ''transactions'')) = Inr (Inr txns)"
    and f: "sf_opening_date f = od" "sf_closing_date f = cd" "sf_transactions f = txns"
    using assms by (auto simp: from_model_json_def reading_iffs res_iffs StatementFacts_def)
  obtain rows where rows: "get_or_null data ''transactions'' = JArr rows"
    using d(2) by (cases "get_or_null data ''transactions''") auto
  have "list_all2 (\<lambda>row t. \<exists>mag. amount_of_raw pr (get_or_null row ''amount_raw'') loc cur = Inr (Inr mag) \<and> sign_of_line pr row \<noteq> None
      \<and> (\<bar>coeff mag\<bar> < 10 ^ prec \<longrightarrow> signed_by_line pr row mag (tf_amount t))) rows txns"
    by (rule list_all2_mono [OF read_txns_all2]) (use r rows read_txn_line in \<open>auto simp: arr_items_def\<close>)
  then show ?thesis using section_end_iso [OF s(1)] section_end_iso [OF s(2)] f d rows by blast
qed

theorem statement_is_read_whole_witness:
  "\<exists>f. from_model_json loads (\<lambda>_. []) (\<lambda>_. []) (dumps (demo_reply (JFloat ''0.9''))) ''d1'' ''en-US'' ''USD'' = Inr (Inr f)
     \<and> iso_text (sf_opening_date f) \<and> iso_text (sf_closing_date f)"
proof -
  have "confidence_of (\<lambda>_. []) (JFloat ''0.9'') = Inr ''0.9''" by code_simp
  then obtain f where
    "from_model_json loads (\<lambda>_. []) (\<lambda>_. []) (dumps (demo_reply (JFloat ''0.9''))) ''d1'' ''en-US'' ''USD'' = Inr (Inr f)"
    using demo_read(2) by blast
  then show ?thesis using statement_is_read_whole by blast
qed

end
