(* ===== verification/Doc_Registry.thy ===== *)
theory Doc_Registry
  imports Statement
begin

text \<open>
  \<^verbatim>\<open>product/viva/ingest/registry.py\<close>: the document types as data rows, and the index that resolves a
  type or one of its aliases to its row. The prompt text a row composes is not modelled.
\<close>

definition BALANCE_IDENTITY :: string where "BALANCE_IDENTITY = ''balance''"
definition PAYSTUB_IDENTITY :: string where "PAYSTUB_IDENTITY = ''paystub''"
definition BROKERAGE_IDENTITY :: string where "BROKERAGE_IDENTITY = ''brokerage''"
definition INSTRUMENT_IDENTITY :: string where "INSTRUMENT_IDENTITY = ''instrument''"

definition PROJECTABLE_IDENTITIES :: "string list" where
  "PROJECTABLE_IDENTITIES = [BALANCE_IDENTITY, PAYSTUB_IDENTITY, BROKERAGE_IDENTITY, INSTRUMENT_IDENTITY]"

definition DEPOSITORY :: string where "DEPOSITORY = ''depository''"
definition LIABILITY :: string where "LIABILITY = ''liability''"
definition INVESTMENT :: string where "INVESTMENT = ''investment''"

record doc_profile =
  dp_doc_type :: string
  dp_account_kind :: string
  dp_identity :: string
  dp_profile_version :: string
  dp_aliases :: "string list"
  dp_extract_base :: string
  dp_type_fragment :: string
  dp_source_contract :: "string option"

text \<open>A row with the defaults of the dataclass.\<close>

definition DocProfile :: "string \<Rightarrow> string \<Rightarrow> doc_profile" where
  "DocProfile doc_type account_kind =
     \<lparr>dp_doc_type = doc_type, dp_account_kind = account_kind, dp_identity = BALANCE_IDENTITY,
      dp_profile_version = ''bal-v1'', dp_aliases = [], dp_extract_base = ''base-v2'',
      dp_type_fragment = ''balance-generic-v1'', dp_source_contract = None\<rparr>"

definition is_liability :: "doc_profile \<Rightarrow> bool" where
  "is_liability p = (dp_account_kind p = LIABILITY)"

definition instrument_profile :: "string \<Rightarrow> string \<Rightarrow> string \<Rightarrow> string \<Rightarrow> string \<Rightarrow> doc_profile" where
  "instrument_profile doc_type kind version base fragment =
     DocProfile doc_type kind\<lparr>dp_identity := INSTRUMENT_IDENTITY, dp_profile_version := version,
       dp_extract_base := base, dp_type_fragment := fragment\<rparr>"

definition SEED :: "doc_profile list" where
  "SEED =
     [DocProfile ''checking_statement'' DEPOSITORY\<lparr>dp_type_fragment := ''checking-v1'',
        dp_aliases := [''checking'', ''bank_statement'', ''combined_bank_statement'', ''checking_account_statement'',
                       ''bank_account_statement'']\<rparr>,
      DocProfile ''savings_statement'' DEPOSITORY\<lparr>dp_type_fragment := ''savings-v1'',
        dp_aliases := [''savings'', ''savings_account_statement'', ''money_market_statement'']\<rparr>,
      DocProfile ''credit_card_statement'' LIABILITY\<lparr>dp_type_fragment := ''card-v2'',
        dp_aliases := [''credit_card'', ''card_statement'', ''creditcard_statement'', ''credit_card_account_statement'']\<rparr>,
      instrument_profile ''term_deposit_statement'' DEPOSITORY ''term-deposit-v2'' ''term-deposit-base-v1'' ''term-deposit-v2'',
      instrument_profile ''mortgage_statement'' LIABILITY ''mortgage-principal-source-v2'' ''mortgage-base-v2'' ''mortgage-v3''
        \<lparr>dp_source_contract := Some ''mortgage-principal-source-v2''\<rparr>,
      instrument_profile ''refinance_settlement'' LIABILITY ''instrument-v1'' ''refinance-base-v1'' ''refinance-v1'',
      instrument_profile ''property_tax_receipt'' [] ''instrument-v1'' ''property-tax-base-v1'' ''property-tax-v1'',
      DocProfile ''pay_stub'' []\<lparr>dp_identity := PAYSTUB_IDENTITY, dp_profile_version := ''payroll-source-v2'',
        dp_extract_base := ''paystub-base-v2'', dp_type_fragment := ''paystub-v2'',
        dp_aliases := [''paystub'', ''pay_slip'', ''payslip'', ''salary_slip'', ''earnings_statement'', ''wage_statement'',
                       ''payroll_statement'']\<rparr>,
      DocProfile ''brokerage_statement'' INVESTMENT\<lparr>dp_identity := BROKERAGE_IDENTITY, dp_profile_version := ''brk-v7'',
        dp_extract_base := ''brokerage-base-v7'', dp_type_fragment := ''brokerage-v2'',
        dp_aliases := [''brokerage'', ''brokerage_account_statement'', ''investment_statement'',
                       ''investment_account_statement'', ''retirement_statement'', ''retirement_account_statement'',
                       ''ira_statement'', ''401k_statement'']\<rparr>]"

definition register_profile :: "doc_profile \<Rightarrow> (string \<times> doc_profile) list \<Rightarrow> (string \<times> doc_profile) list" where
  "register_profile p index = foldl (\<lambda>d k. dict_set k p d) index (dp_doc_type p # dp_aliases p)"

definition INDEX :: "(string \<times> doc_profile) list" where
  "INDEX = foldl (\<lambda>d p. register_profile p d) [] SEED"

definition profile_for :: "string \<Rightarrow> doc_profile option" where
  "profile_for doc_type = map_of INDEX (lower (strip doc_type))"

definition account_kind_for :: "string \<Rightarrow> string" where
  "account_kind_for doc_type = (case profile_for doc_type of Some p \<Rightarrow> dp_account_kind p | None \<Rightarrow> DEPOSITORY)"

definition can_project :: "string \<Rightarrow> bool" where
  "can_project doc_type =
     (case profile_for doc_type of Some p \<Rightarrow> dp_identity p \<in> set PROJECTABLE_IDENTITIES | None \<Rightarrow> False)"

definition identity_of_facts :: "json option \<Rightarrow> string res" where
  "identity_of_facts facts =
     bindR (case facts of None \<Rightarrow> Inr [] | Some d \<Rightarrow> str_or [] (jget d ''doc_type'')) (\<lambda>t.
     Inr (case profile_for t of Some p \<Rightarrow> dp_identity p | None \<Rightarrow> []))"

text \<open>
  \<^verbatim>\<open>frag.rsplit("-v", 1)\<close>: the stem before the last \<^verbatim>\<open>-v\<close> when digits follow it, and the fragment itself
  otherwise.
\<close>

definition fragment_family :: "string \<Rightarrow> string" where
  "fragment_family frag =
     (let digits = rev (takeWhile is_digit (rev frag)); stem = take (length frag - length digits) frag in
      if digits \<noteq> [] \<and> ends_with stem ''-v'' then take (length stem - 2) stem else frag)"

definition doc_type_for_prompt_version :: "string \<Rightarrow> string" where
  "doc_type_for_prompt_version version =
     (if version = [] \<or> \<not> starts_with version ''extract:'' then []
      else (let parts = split_char (CHR ''+'') (drop 8 version);
                fragments = (if length parts > 1 then tl parts else parts);
                wanted = map fragment_family fragments;
                matches = remdups (map dp_doc_type (filter (\<lambda>p. fragment_family (dp_type_fragment p) \<in> set wanted)
                                                     (map snd INDEX))) in
            case matches of [t] \<Rightarrow> t | _ \<Rightarrow> []))"

definition extract_version :: "doc_profile \<Rightarrow> string" where
  "extract_version p = ''extract:'' @ dp_extract_base p @ ''+'' @ dp_type_fragment p"

subsection \<open>The index\<close>

abbreviation names_of :: "doc_profile \<Rightarrow> string list" where
  "names_of p \<equiv> dp_doc_type p # dp_aliases p"

abbreviation family_of :: "doc_profile \<Rightarrow> string" where
  "family_of p \<equiv> fragment_family (dp_type_fragment p)"

definition entries :: "(string \<times> doc_profile) list" where
  "entries = concat (map (\<lambda>p. map (\<lambda>k. (k, p)) (names_of p)) SEED)"

lemma register_profile_foldl:
  "register_profile p d = foldl (\<lambda>d (k, v). dict_set k v d) d (map (\<lambda>k. (k, p)) (names_of p))"
  by (simp add: register_profile_def foldl_map)

lemma index_is_dict: "INDEX = dict_of entries"
proof -
  have "foldl (\<lambda>d p. register_profile p d) ds ps =
      foldl (\<lambda>d (k, v). dict_set k v d) ds (concat (map (\<lambda>p. map (\<lambda>k. (k, p)) (names_of p)) ps))" for ds ps
    by (induction ps arbitrary: ds) (simp_all only: register_profile_foldl foldl.simps list.map concat.simps foldl_append)
  then show ?thesis by (simp only: INDEX_def dict_of_def entries_def)
qed

lemma names_distinct: "distinct (map fst entries)"
  by code_simp

lemma names_plain: "list_all (\<lambda>k. lower (strip k) = k) (map fst entries)"
  by code_simp

lemma index_entries: "INDEX = entries"
  using names_distinct by (simp add: index_is_dict dict_of_distinct)

lemma profile_for_name: "p \<in> set SEED \<Longrightarrow> k \<in> set (names_of p) \<Longrightarrow> profile_for k = Some p"
proof -
  assume "p \<in> set SEED" "k \<in> set (names_of p)"
  then have k: "(k, p) \<in> set entries" unfolding entries_def by auto
  then have "lower (strip k) = k" using names_plain unfolding list_all_iff by force
  with k show ?thesis using names_distinct by (simp add: profile_for_def index_entries)
qed

lemma families_distinct: "distinct (map family_of SEED)"
  by code_simp

lemma version_parts: "list_all (\<lambda>p. split_char (CHR ''+'') (dp_extract_base p @ ''+'' @ dp_type_fragment p) = [dp_extract_base p, dp_type_fragment p]) SEED"
  by code_simp

lemma remdups_const: "xs \<noteq> [] \<Longrightarrow> \<forall>x \<in> set xs. x = c \<Longrightarrow> remdups xs = [c]"
proof -
  assume "xs \<noteq> []" "\<forall>x \<in> set xs. x = c"
  then have xs: "xs = replicate (Suc (length xs - 1)) c" by (simp add: replicate_length_same)
  have "remdups (replicate (Suc n) c) = [c]" for n by (induction n) auto
  then show ?thesis by (subst xs)
qed

lemma version_leads_back:
  assumes "p \<in> set SEED"
  shows "doc_type_for_prompt_version (extract_version p) = dp_doc_type p"
proof -
  have inj: "inj_on family_of (set SEED)" using families_distinct by (simp add: distinct_map)
  have sub: "snd ` set entries \<subseteq> set SEED" "p \<in> snd ` set entries"
    using assms unfolding entries_def by (auto simp: image_iff)
  have "remdups (map dp_doc_type (filter (\<lambda>q. family_of q \<in> {family_of p}) (map snd entries))) = [dp_doc_type p]"
  proof (rule remdups_const)
    have "p \<in> set (filter (\<lambda>q. family_of q \<in> {family_of p}) (map snd entries))" using sub(2) by simp
    then show "map dp_doc_type (filter (\<lambda>q. family_of q \<in> {family_of p}) (map snd entries)) \<noteq> []"
      by (metis Nil_is_map_conv empty_iff list.set(1))
    have "q = p" if "q \<in> snd ` set entries" "family_of q = family_of p" for q
      using that sub(1) assms inj_onD [OF inj] by blast
    then show "\<forall>x \<in> set (map dp_doc_type (filter (\<lambda>q. family_of q \<in> {family_of p}) (map snd entries))). x = dp_doc_type p"
      by fastforce
  qed
  moreover have "split_char (CHR ''+'') (dp_extract_base p @ ''+'' @ dp_type_fragment p) = [dp_extract_base p, dp_type_fragment p]"
    using version_parts assms by (simp add: list_all_iff)
  ultimately show ?thesis
    by (simp add: doc_type_for_prompt_version_def extract_version_def index_entries)
qed

text \<open>
  The registry is unambiguous. Every row is reached by its type and by each of its aliases and by
  no name of another row, every registered type has a projector, and the version under which a row's
  prompt is recorded leads back to its type.
\<close>

lemma registry_is_unambiguous:
  "list_all (\<lambda>p. list_all (\<lambda>k. profile_for k = Some p) (dp_doc_type p # dp_aliases p)
     \<and> can_project (dp_doc_type p) \<and> doc_type_for_prompt_version (extract_version p) = dp_doc_type p) SEED"
proof -
  have "list_all (\<lambda>p. dp_identity p \<in> set PROJECTABLE_IDENTITIES) SEED" by code_simp
  then show ?thesis
    using profile_for_name version_leads_back by (auto simp: list_all_iff can_project_def)
qed

end
