(* ===== verification/Statement_Register.thy ===== *)
theory Statement_Register
  imports Doc_Registry "HOL-Library.Product_Lexorder"
begin

text \<open>
  \<^verbatim>\<open>product/viva/ledger/statements.py\<close>: what each account's statements say about themselves, and where
  they join into unbroken periods. The register reads a few fields of the projection, given here as
  a record; the locale is the caller's or the configured one. A day is attested exactly when a held
  statement covers it.
\<close>

record statement_record =
  sr_doc_id :: string
  sr_account :: string
  sr_opening_date :: string
  sr_opening_amount :: decimal
  sr_closing_date :: string
  sr_closing_amount :: decimal

record account_statements =
  as_account :: string
  as_records :: "statement_record list"
  as_runs :: "(string \<times> string) list"

definition as_count :: "account_statements \<Rightarrow> nat" where
  "as_count s = length (as_records s)"

definition within_run :: "string \<Rightarrow> string \<times> string \<Rightarrow> bool" where
  "within_run day run = (fst run \<le> day \<and> day \<le> snd run)"

definition covering :: "account_statements \<Rightarrow> string \<Rightarrow> (string \<times> string) option" where
  "covering s day = find (within_run day) (as_runs s)"

definition statements_to_dict :: "account_statements \<Rightarrow> json" where
  "statements_to_dict s =
     JObj [(''account'', JStr (as_account s)), (''count'', JInt (int (as_count s))),
           (''runs'', JArr (map (\<lambda>(a, b). JObj [(''from'', JStr a), (''to'', JStr b)]) (as_runs s))),
           (''statements'', JArr (map (\<lambda>r.
              JObj [(''doc_id'', JStr (sr_doc_id r)), (''from'', JStr (sr_opening_date r)), (''to'', JStr (sr_closing_date r)),
                    (''opening'', JStr (dec_str (sr_opening_amount r))), (''closing'', JStr (dec_str (sr_closing_amount r)))])
              (as_records s)))]"

text \<open>The part of the projection that the register reads: accounts in the order they were opened.\<close>

record account_state =
  st_doc_ids :: "string list"
  st_currency :: string

record statement_core =
  c_acct :: "(string \<times> account_state) list"
  c_replies :: "(string \<times> string) list"
  c_captured :: "(string \<times> string) list"
  c_doc_closing :: "(string \<times> (pynum \<times> string)) list"
  c_as_of :: "string option"
  c_statements :: "(string \<times> account_statements) list option"

definition within_as_of :: "statement_record \<Rightarrow> string option \<Rightarrow> bool" where
  "within_as_of r as_of =
     (case as_of of None \<Rightarrow> True | Some d \<Rightarrow> d = [] \<or> sr_closing_date r \<le> take 10 d)"

definition is_date :: "string \<Rightarrow> bool" where
  "is_date v = (case fromisoformat v of None \<Rightarrow> False | Some d \<Rightarrow> isoformat d = v)"

definition make_record ::
    "string \<Rightarrow> string \<Rightarrow> (decimal \<times> string) \<times> (decimal \<times> string) \<Rightarrow> (pynum \<times> string) option \<Rightarrow> statement_record option" where
  "make_record doc_id account period accepted =
     (case period of ((opening_amount, opening_raw), (closing_amount, closing_raw)) \<Rightarrow>
      let opening = take 10 opening_raw;
          closing_amount' = (case accepted of None \<Rightarrow> PDec closing_amount | Some (a, _) \<Rightarrow> a);
          closing = (case accepted of
                       None \<Rightarrow> take 10 closing_raw
                     | Some (_, d) \<Rightarrow> if is_date (take 10 d) then take 10 d else take 10 closing_raw) in
      if \<not> (is_date opening \<and> is_date closing) \<or> opening > closing then None
      else (case py_Decimal closing_amount' of
              Inl _ \<Rightarrow> None
            | Inr c \<Rightarrow> Some \<lparr>sr_doc_id = doc_id, sr_account = account, sr_opening_date = opening,
                sr_opening_amount = opening_amount, sr_closing_date = closing, sr_closing_amount = c\<rparr>))"

text \<open>\<^verbatim>\<open>date.fromisoformat\<close> as the difference of two days uses it.\<close>

definition ordinal_of :: "string \<Rightarrow> int res" where
  "ordinal_of s =
     (case fromisoformat s of None \<Rightarrow> Inl (ValueError ''Invalid isoformat string'') | Some d \<Rightarrow> Inr (int (toordinal d)))"

definition joins :: "statement_record \<Rightarrow> statement_record \<Rightarrow> bool res" where
  "joins earlier later =
     (if \<not> dec_eq (sr_opening_amount later) (sr_closing_amount earlier) then Inr False
      else bindR (ordinal_of (sr_opening_date later)) (\<lambda>o1.
           bindR (ordinal_of (sr_closing_date earlier)) (\<lambda>c1.
           Inr (0 \<le> o1 - c1 \<and> o1 - c1 \<le> 1))))"

text \<open>The loop of \<^verbatim>\<open>_runs\<close>: the runs so far, the current start and end, and the previous record.\<close>

fun runs_loop ::
    "(string \<times> string) list \<Rightarrow> string \<Rightarrow> string \<Rightarrow> statement_record option \<Rightarrow> statement_record list
     \<Rightarrow> (string \<times> string) list res" where
  "runs_loop runs start fin previous [] = Inr (if start \<noteq> [] then runs @ [(start, fin)] else runs)"
| "runs_loop runs start fin previous (r # rs) =
     bindR (case previous of None \<Rightarrow> Inr False | Some p \<Rightarrow> joins p r) (\<lambda>j.
     if j then runs_loop runs start (max fin (sr_closing_date r)) (Some r) rs
     else runs_loop (if start \<noteq> [] then runs @ [(start, fin)] else runs) (sr_opening_date r) (sr_closing_date r) (Some r) rs)"

definition statement_runs :: "statement_record list \<Rightarrow> (string \<times> string) list res" where
  "statement_runs records = runs_loop [] [] [] None records"

definition read_record ::
    "(string \<Rightarrow> json res) \<Rightarrow> (json \<Rightarrow> string) \<Rightarrow> statement_core \<Rightarrow> string \<Rightarrow> string \<Rightarrow> account_state \<Rightarrow> string \<Rightarrow> statement_record option res" where
  "read_record ld pr core locale account state doc_id =
     (case map_of (c_replies core) doc_id of
        None \<Rightarrow> Inr None
      | Some reply \<Rightarrow>
          if reply = [] then Inr None
          else (case profile_for (case map_of (c_captured core) doc_id of None \<Rightarrow> [] | Some t \<Rightarrow> t) of
                  None \<Rightarrow> Inr None
                | Some profile \<Rightarrow>
                    if dp_identity profile \<noteq> BALANCE_IDENTITY then Inr None
                    else
                      bindR (period_from_model_json ld pr reply locale
                              (if st_currency state \<noteq> [] then st_currency state else ''USD'')) (\<lambda>p.
                      Inr (case p of None \<Rightarrow> None
                           | Some period \<Rightarrow> make_record doc_id account period (map_of (c_doc_closing core) doc_id)))))"

fun keep_some :: "'a option list \<Rightarrow> 'a list" where
  "keep_some [] = []"
| "keep_some (None # xs) = keep_some xs"
| "keep_some (Some x # xs) = x # keep_some xs"

definition account_records ::
    "(string \<Rightarrow> json res) \<Rightarrow> (json \<Rightarrow> string) \<Rightarrow> statement_core \<Rightarrow> string \<Rightarrow> string \<Rightarrow> account_state \<Rightarrow> statement_record list res" where
  "account_records ld pr core locale account state =
     bindR (mapR (read_record ld pr core locale account state) (sort (remdups (st_doc_ids state)))) (\<lambda>rs.
     Inr (sort_key (\<lambda>r. (sr_opening_date r, sr_closing_date r))
            (filter (\<lambda>r. within_as_of r (c_as_of core)) (keep_some rs))))"

definition build_account ::
    "(string \<Rightarrow> json res) \<Rightarrow> (json \<Rightarrow> string) \<Rightarrow> statement_core \<Rightarrow> string \<Rightarrow> string \<times> account_state \<Rightarrow> (string \<times> account_statements) option res" where
  "build_account ld pr core locale acct =
     (case acct of (account, state) \<Rightarrow>
      bindR (account_records ld pr core locale account state) (\<lambda>records.
      if records = [] then Inr None
      else bindR (statement_runs records) (\<lambda>rns.
           Inr (Some (account, \<lparr>as_account = account, as_records = records, as_runs = rns\<rparr>)))))"

definition build :: "(string \<Rightarrow> json res) \<Rightarrow> (json \<Rightarrow> string) \<Rightarrow> statement_core \<Rightarrow> string \<Rightarrow> (string \<times> account_statements) list res" where
  "build ld pr core locale = bindR (mapR (build_account ld pr core locale) (c_acct core)) (\<lambda>es. Inr (keep_some es))"

text \<open>The configured locale, which the environment may make unusable.\<close>

definition default_locale :: "string res \<Rightarrow> string" where
  "default_locale env = (case env of Inl _ \<Rightarrow> ''en-US'' | Inr l \<Rightarrow> l)"

definition register ::
    "(string \<Rightarrow> json res) \<Rightarrow> (json \<Rightarrow> string) \<Rightarrow> string res \<Rightarrow> statement_core \<Rightarrow> string \<Rightarrow> (statement_core \<times> (string \<times> account_statements) list) res" where
  "register ld pr env core locale =
     (case c_statements core of
        Some s \<Rightarrow> Inr (core, s)
      | None \<Rightarrow>
          bindR (build ld pr core (if locale \<noteq> [] then locale else default_locale env)) (\<lambda>s.
          Inr (core\<lparr>c_statements := Some s\<rparr>, s)))"


subsection \<open>Dates that the register keeps\<close>

lemma month_of_yday_bound: "d_month (month_of_yday k y m n) \<le> m + k"
  by (induction k y m n rule: month_of_yday.induct) auto

lemma week_date_month: "week_date y w d = Some x \<Longrightarrow> d_month x \<le> 13"
  using month_of_yday_bound [of 12 _ 1] by (auto simp: week_date_def date_of_year_day_def Let_def split: if_splits)

lemma is_date_valid: "is_date s \<Longrightarrow> \<exists>d. valid_date d \<and> s = isoformat d"
proof -
  assume "is_date s"
  then obtain d where d: "fromisoformat s = Some d" "s = isoformat d" by (auto simp: is_date_def split: option.splits)
  define r where "r = drop 4 s"
  have r: "length s = 10" "r = ''-'' @ pad2 (d_month d) @ ''-'' @ pad2 (d_day d)"
    by (simp_all add: d(2) r_def isoformat_def pad4_def pad2_def)
  then have r': "r ! 0 = CHR ''-''" "r ! 3 = CHR ''-''" by (simp_all add: pad2_def)
  show ?thesis
  proof (cases "r ! 1 = CHR ''W''")
    case False
    then have "\<exists>y m. mk_date y m (digits_val (drop 4 r)) = Some d"
      using d(1) r(1) r' by (auto simp: fromisoformat_def Let_def r_def [symmetric] split: option.splits if_splits)
    then show ?thesis using d(2) by (auto simp: mk_date_def split: if_splits)
  next
    case True
    then have "\<exists>y w x. week_date y w x = Some d"
      using d(1) r(1) r' by (auto simp: fromisoformat_def Let_def r_def [symmetric] split: option.splits if_splits)
    then have "d_month d div 10 < 10" using week_date_month by fastforce
    then have "is_digit (r ! 1)" using r(2) by (simp add: pad2_def)
    with True show ?thesis by (simp add: is_digit_def)
  qed
qed

definition record_ok :: "statement_record \<Rightarrow> bool" where
  "record_ok r = (is_date (sr_opening_date r) \<and> is_date (sr_closing_date r) \<and> sr_opening_date r \<le> sr_closing_date r)"

lemma make_record_ok: "make_record doc acc p accepted = Some r \<Longrightarrow> record_ok r"
  by (auto simp: make_record_def record_ok_def Let_def split: prod.splits if_splits sum.splits)

lemma is_date_isoformat: "valid_date d \<Longrightarrow> is_date (isoformat d)"
  by (simp add: is_date_def fromisoformat_isoformat)

lemma ordinal_of_isoformat: "valid_date d \<Longrightarrow> ordinal_of (isoformat d) = Inr (int (toordinal d))"
  by (simp add: ordinal_of_def fromisoformat_isoformat)

lemma isoformat_le_iff: "valid_date a \<Longrightarrow> valid_date b \<Longrightarrow> isoformat a \<le> isoformat b \<longleftrightarrow> toordinal a \<le> toordinal b"
  using isoformat_less_iff [of b a] by (simp add: linorder_not_less [symmetric])


subsection \<open>Runs and the days they attest\<close>

definition covers :: "statement_record set \<Rightarrow> string \<Rightarrow> bool" where
  "covers R x = (\<exists>r \<in> R. sr_opening_date r \<le> x \<and> x \<le> sr_closing_date r)"

lemma covers_Un: "covers (R \<union> S) x \<longleftrightarrow> covers R x \<or> covers S x"
  by (auto simp: covers_def)

lemma covers_insert: "covers (insert r R) x \<longleftrightarrow> (sr_opening_date r \<le> x \<and> x \<le> sr_closing_date r) \<or> covers R x"
  by (auto simp: covers_def)

lemma joins_ok:
  assumes "record_ok p" "record_ok r"
  shows "\<exists>j. joins p r = Inr j \<and> (j \<longrightarrow> (\<forall>x. is_date x \<and> sr_closing_date p < x \<longrightarrow> sr_opening_date r \<le> x))"
proof -
  obtain c op where c: "valid_date c" "sr_closing_date p = isoformat c" and op: "valid_date op" "sr_opening_date r = isoformat op"
    using assms is_date_valid unfolding record_ok_def by meson
  have "toordinal op \<le> Suc (toordinal c) \<Longrightarrow> is_date x \<Longrightarrow> sr_closing_date p < x \<Longrightarrow> sr_opening_date r \<le> x" for x
    using is_date_valid [of x] c op by (auto simp: isoformat_less_iff isoformat_le_iff)
  then show ?thesis using c op by (auto simp: joins_def ordinal_of_isoformat)
qed

lemma is_date_nonempty: "is_date s \<Longrightarrow> s \<noteq> []"
  using is_date_valid by (fastforce simp: isoformat_def pad4_def)

text \<open>What the loop maintains: the run under construction, with those finished, attests exactly the days seen.\<close>

definition attests :: "(string \<times> string) list \<Rightarrow> statement_record set \<Rightarrow> bool" where
  "attests rns R = (\<forall>x. is_date x \<longrightarrow> ((\<exists>run \<in> set rns. within_run x run) \<longleftrightarrow> covers R x))"

definition current_run :: "string \<Rightarrow> string \<Rightarrow> statement_record \<Rightarrow> bool" where
  "current_run start fin p =
     (record_ok p \<and> start \<noteq> [] \<and> start \<le> sr_opening_date p \<and> sr_closing_date p \<le> fin)"

lemma attests_join:
  assumes "attests (rns @ [(start, fin)]) R" "current_run start fin p" "record_ok r" "sr_opening_date p \<le> sr_opening_date r"
    and "\<forall>x. is_date x \<and> sr_closing_date p < x \<longrightarrow> sr_opening_date r \<le> x"
  shows "attests (rns @ [(start, max fin (sr_closing_date r))]) (insert r R)"
    and "current_run start (max fin (sr_closing_date r)) r"
proof -
  have "start \<le> sr_opening_date r" using assms(2,4) unfolding current_run_def by (blast intro: order.trans)
  then show "current_run start (max fin (sr_closing_date r)) r"
    using assms(2,3) by (simp add: current_run_def)
  have "within_run x (start, max fin (sr_closing_date r)) \<longleftrightarrow>
      within_run x (start, fin) \<or> (sr_opening_date r \<le> x \<and> x \<le> sr_closing_date r)" if x: "is_date x" for x
  proof
    assume w: "within_run x (start, max fin (sr_closing_date r))"
    show "within_run x (start, fin) \<or> (sr_opening_date r \<le> x \<and> x \<le> sr_closing_date r)"
    proof (cases "x \<le> fin")
      case True
      then show ?thesis using w by (simp add: within_run_def)
    next
      case False
      then have "sr_closing_date p < x" using assms(2) unfolding current_run_def by (meson linorder_not_le order.strict_trans1)
      then show ?thesis using assms(5) x w False by (simp add: within_run_def le_max_iff_disj)
    qed
  next
    assume "within_run x (start, fin) \<or> (sr_opening_date r \<le> x \<and> x \<le> sr_closing_date r)"
    then show "within_run x (start, max fin (sr_closing_date r))"
      using \<open>start \<le> sr_opening_date r\<close> by (auto simp: within_run_def le_max_iff_disj intro: order.trans)
  qed
  then show "attests (rns @ [(start, max fin (sr_closing_date r))]) (insert r R)"
    using assms(1) unfolding attests_def covers_insert by auto
qed

lemma attests_new:
  "attests rns R \<Longrightarrow> attests (rns @ [(sr_opening_date r, sr_closing_date r)]) (insert r R)"
  by (auto simp: attests_def covers_insert within_run_def)

lemma runs_loop_attests:
  assumes "current_run start fin p" "attests (rns @ [(start, fin)]) R"
    and "list_all record_ok rs" "sorted (map sr_opening_date (p # rs))"
  shows "\<exists>out. runs_loop rns start fin (Some p) rs = Inr out \<and> attests out (R \<union> set rs)"
  using assms
proof (induction rs arbitrary: rns start fin p R)
  case Nil
  then show ?case by (simp add: current_run_def)
next
  case (Cons r rs)
  then have r: "record_ok r" "record_ok p" "sr_opening_date p \<le> sr_opening_date r" "sorted (map sr_opening_date (r # rs))"
    by (auto simp: current_run_def)
  obtain j where j: "joins p r = Inr j"
      "j \<longrightarrow> (\<forall>x. is_date x \<and> sr_closing_date p < x \<longrightarrow> sr_opening_date r \<le> x)" using joins_ok [OF r(2,1)] by blast
  have un: "insert r R \<union> set rs = R \<union> set (r # rs)" by simp
  show ?case
  proof (cases j)
    case True
    note step = attests_join [OF Cons.prems(2,1) r(1,3)]
    show ?thesis
      using Cons.IH [OF step(2,1) _ r(4)] j True Cons.prems(3) un by simp
  next
    case False
    have "current_run (sr_opening_date r) (sr_closing_date r) r"
      using r(1) is_date_nonempty by (simp add: current_run_def record_ok_def)
    then show ?thesis
      using Cons.IH [OF _ attests_new [OF Cons.prems(2)] _ r(4)] j False Cons.prems(1,3) un
      by (simp add: current_run_def)
  qed
qed

lemma statement_runs_attest:
  assumes "list_all record_ok rs" "sorted (map sr_opening_date rs)"
  shows "\<exists>out. statement_runs rs = Inr out \<and> attests out (set rs)"
proof (cases rs)
  case Nil
  then show ?thesis by (simp add: statement_runs_def attests_def covers_def)
next
  case (Cons r rs')
  have "current_run (sr_opening_date r) (sr_closing_date r) r"
    using assms Cons is_date_nonempty by (simp add: current_run_def record_ok_def)
  moreover have "attests ([] @ [(sr_opening_date r, sr_closing_date r)]) {r}"
    by (rule attests_new) (simp add: attests_def covers_def)
  ultimately show ?thesis
    using runs_loop_attests [of _ _ r "[]" "{r}" rs'] assms Cons by (simp add: statement_runs_def)
qed


lemma keep_some_in: "x \<in> set (keep_some xs) \<longleftrightarrow> Some x \<in> set xs"
  by (induction xs rule: keep_some.induct) auto

text \<open>What the decoder raises on a reply the log holds: nothing, for replies within its limits.\<close>

definition reply_raises :: "(string \<Rightarrow> json res) \<Rightarrow> statement_core \<Rightarrow> exc \<Rightarrow> bool" where
  "reply_raises ld core e = (\<exists>doc reply. map_of (c_replies core) doc = Some reply \<and> decoder_raises ld reply e)"

lemma period_raises: "period_from_model_json ld pr tx loc cur = Inl e \<Longrightarrow> decoder_raises ld tx e"
  using section_end_never_raises unfolding model_object_raises [symmetric]
  by (auto simp: period_from_model_json_def reading_iffs bindR_eq_Inl)

lemma read_record_ok:
  "read_record ld pr core loc acc st doc = Inr (Some r) \<Longrightarrow> record_ok r"
  "read_record ld pr core loc acc st doc = Inl e \<Longrightarrow> reply_raises ld core e"
proof -
  show "read_record ld pr core loc acc st doc = Inr (Some r) \<Longrightarrow> record_ok r"
    using make_record_ok by (auto simp: read_record_def res_iffs split: option.splits if_splits)
  show "read_record ld pr core loc acc st doc = Inl e \<Longrightarrow> reply_raises ld core e"
    unfolding reply_raises_def
    by (auto simp: read_record_def bindR_eq_Inl split: option.splits if_splits dest!: period_raises)
qed

lemma mapR_raises: "mapR f xs = Inl e \<Longrightarrow> \<exists>x \<in> set xs. f x = Inl e"
  by (induction xs) (auto simp: bindR_eq_Inl)

lemma account_records_ok:
  "account_records ld pr core loc acc st = Inr rs \<Longrightarrow> list_all record_ok rs \<and> sorted (map sr_opening_date rs)"
  "account_records ld pr core loc acc st = Inl e \<Longrightarrow> reply_raises ld core e"
proof -
  let ?key = "\<lambda>r. (sr_opening_date r, sr_closing_date r)"
  have sorted: "sorted (map sr_opening_date (sort_key ?key ys))" for ys
  proof -
    have "sorted (map ?key (sort_key ?key ys))" by simp
    then show ?thesis unfolding sorted_map by (rule sorted_wrt_mono_rel [rotated]) (auto simp: less_eq_prod_def)
  qed
  show "list_all record_ok rs \<and> sorted (map sr_opening_date rs)" if r: "account_records ld pr core loc acc st = Inr rs"
  proof -
    obtain xs where xs: "mapR (read_record ld pr core loc acc st) (sort (remdups (st_doc_ids st))) = Inr xs"
      "rs = sort_key ?key (filter (\<lambda>r. within_as_of r (c_as_of core)) (keep_some xs))"
      using r by (auto simp: account_records_def res_iffs)
    have "record_ok r" if "Some r \<in> set xs" for r
      using mapR_in_right [OF xs(1) that] read_record_ok(1) by metis
    then show ?thesis using sorted xs(2) by (auto simp: list_all_iff keep_some_in)
  qed
  show "account_records ld pr core loc acc st = Inl e \<Longrightarrow> reply_raises ld core e"
    using mapR_raises read_record_ok(2) by (auto simp: account_records_def bindR_eq_Inl dest!: mapR_raises)
qed

lemma build_account_ok:
  "build_account ld pr core loc a = Inr (Some (acc, s)) \<Longrightarrow> attests (as_runs s) (set (as_records s))"
  "build_account ld pr core loc a = Inl e \<Longrightarrow> reply_raises ld core e"
proof -
  obtain acc' st where a: "a = (acc', st)" by (cases a)
  have runs: "\<exists>out. statement_runs rs = Inr out \<and> attests out (set rs)" if "account_records ld pr core loc acc' st = Inr rs" for rs
    using statement_runs_attest account_records_ok(1) [OF that] by blast
  show "build_account ld pr core loc a = Inr (Some (acc, s)) \<Longrightarrow> attests (as_runs s) (set (as_records s))"
    using runs by (fastforce simp: build_account_def a res_iffs split: if_splits)
  show "build_account ld pr core loc a = Inl e \<Longrightarrow> reply_raises ld core e"
    using runs account_records_ok(2) by (fastforce simp: build_account_def a bindR_eq_Inl split: if_splits)
qed

lemma covering_Some: "covering s x = Some run \<Longrightarrow> run \<in> set (as_runs s) \<and> within_run x run"
  by (auto simp: covering_def find_Some_iff)

lemma covering_iff: "covering s x \<noteq> None \<longleftrightarrow> (\<exists>run \<in> set (as_runs s). within_run x run)"
  by (auto simp: covering_def find_None_iff)

text \<open>
  C32: a day is attested exactly when a held statement covers it. Building the register of every account raises nothing
  but what the JSON decoder raises on a stored reply, other than a decoding error; otherwise a day has a run containing it
  if and only if it lies in the declared period of one of the statements held, and so does every day of that run: no run
  bridges a missing statement. With \<open>loads\<close> for the decoder it never raises (\<open>loads_never_raises\<close>).
\<close>

theorem attested_days_have_statements:
  "case build ld pr core loc of
     Inl e \<Rightarrow> \<exists>doc reply. map_of (c_replies core) doc = Some reply \<and> decoder_raises ld reply e
   | Inr regs \<Rightarrow>
       \<forall>acc s d. (acc, s) \<in> set regs \<longrightarrow> valid_date d \<longrightarrow>
        (covering s (isoformat d) \<noteq> None \<longleftrightarrow> covers (set (as_records s)) (isoformat d))
        \<and> (\<forall>run x. covering s (isoformat d) = Some run \<longrightarrow> valid_date x \<longrightarrow> within_run (isoformat x) run \<longrightarrow>
              covers (set (as_records s)) (isoformat x))"
proof (cases "mapR (build_account ld pr core loc) (c_acct core)")
  case (Inl e)
  then show ?thesis using mapR_raises [OF Inl] build_account_ok(2) by (auto simp: build_def reply_raises_def)
next
  case (Inr es)
  have att: "attests (as_runs s) (set (as_records s))" if "Some (acc, s) \<in> set es" for acc s
    using mapR_in_right [OF Inr that] build_account_ok(1) by metis
  have "(covering s (isoformat d) \<noteq> None \<longleftrightarrow> covers (set (as_records s)) (isoformat d))
      \<and> (\<forall>run x. covering s (isoformat d) = Some run \<longrightarrow> valid_date x \<longrightarrow> within_run (isoformat x) run \<longrightarrow>
            covers (set (as_records s)) (isoformat x))" if "Some (acc, s) \<in> set es" "valid_date d" for acc s d
    using att [OF that(1)] that(2) is_date_isoformat covering_Some unfolding attests_def covering_iff by blast
  then show ?thesis using Inr by (auto simp: build_def keep_some_in)
qed


definition demo_core :: statement_core where
  "demo_core =
     \<lparr>c_acct = [(''acct:first:1234'', \<lparr>st_doc_ids = [''d1''], st_currency = ''USD''\<rparr>)],
      c_replies = [(''d1'', dumps (demo_reply (JFloat ''0.9'')))], c_captured = [(''d1'', ''checking_statement'')],
      c_doc_closing = [], c_as_of = None, c_statements = None\<rparr>"

definition demo_record :: statement_record where
  "demo_record = \<lparr>sr_doc_id = ''d1'', sr_account = ''acct:first:1234'', sr_opening_date = ''2024-01-01'',
     sr_opening_amount = Dec 10000 (- 2), sr_closing_date = ''2024-01-31'', sr_closing_amount = Dec 8750 (- 2)\<rparr>"

lemma demo_build:
  "build loads (\<lambda>_. []) demo_core ''en-US'' = Inr [(''acct:first:1234'',
     \<lparr>as_account = ''acct:first:1234'', as_records = [demo_record], as_runs = [(''2024-01-01'', ''2024-01-31'')]\<rparr>)]"
proof -
  have period: "period_from_model_json loads (\<lambda>_. []) (dumps (demo_reply (JFloat ''0.9''))) ''en-US'' ''USD'' =
      Inr (Some ((Dec 10000 (- 2), ''2024-01-01''), (Dec 8750 (- 2), ''2024-01-31'')))"
    by (simp add: period_from_model_json_def demo_object demo_lookup demo_parts bindE_def guardE_def is_obj_def)
  have made: "make_record ''d1'' ''acct:first:1234'' ((Dec 10000 (- 2), ''2024-01-01''), (Dec 8750 (- 2), ''2024-01-31'')) None
      = Some demo_record" by code_simp
  have prof: "\<exists>p. profile_for ''checking_statement'' = Some p \<and> dp_identity p = BALANCE_IDENTITY"
    by (intro exI [of _ "SEED ! 0"] conjI profile_for_name) (simp_all add: SEED_def DocProfile_def)
  have runs: "statement_runs [demo_record] = Inr [(''2024-01-01'', ''2024-01-31'')]" by code_simp
  have "dumps (demo_reply (JFloat ''0.9'')) \<noteq> []" by (simp add: demo_reply_def)
  then have "read_record loads (\<lambda>_. []) demo_core ''en-US'' ''acct:first:1234'' \<lparr>st_doc_ids = [''d1''], st_currency = ''USD''\<rparr> ''d1'' =
      Inr (Some demo_record)"
    using prof by (auto simp: read_record_def demo_core_def period made)
  then show ?thesis
    using runs by (simp add: build_def build_account_def account_records_def within_as_of_def demo_core_def)
qed

theorem attested_days_have_statements_witness:
  "\<exists>s. build loads (\<lambda>_. []) demo_core ''en-US'' = Inr [(''acct:first:1234'', s)]
     \<and> covering s (isoformat (Date 2024 1 15)) \<noteq> None \<and> covering s (isoformat (Date 2024 2 1)) = None"
proof -
  let ?s = "\<lparr>as_account = ''acct:first:1234'', as_records = [demo_record], as_runs = [(''2024-01-01'', ''2024-01-31'')]\<rparr>"
  have days: "valid_date (Date 2024 1 15)" "valid_date (Date 2024 2 1)" by code_simp+
  have key: "covering ?s (isoformat d) \<noteq> None \<longleftrightarrow> covers (set (as_records ?s)) (isoformat d)" if "valid_date d" for d
    using attested_days_have_statements [where ld = loads and pr = "\<lambda>_. []" and core = demo_core and loc = "''en-US''"] that unfolding demo_build by auto
  have "covers (set (as_records ?s)) (isoformat (Date 2024 1 15))" "\<not> covers (set (as_records ?s)) (isoformat (Date 2024 2 1))"
    by code_simp+
  then have "covering ?s (isoformat (Date 2024 1 15)) \<noteq> None" "covering ?s (isoformat (Date 2024 2 1)) = None"
    using key [OF days(1)] key [OF days(2)] by blast+
  then show ?thesis using demo_build by blast
qed

end
