(* ===== verification/Projection_Core.thy ===== *)
theory Projection_Core
  imports Statement Identity Postings
begin

text \<open>
  \<^verbatim>\<open>product/viva/ledger/projection/core.py\<close>: the fold of the event log into per-account state, the
  ingest read-model and the overlays. The state has the fields that the modelled readers use; the
  memoized caches, the conversation, accounting and agent journals, the classification claims and the
  instrument registers are not represented, except the account references, the effect identities and
  the guards an ordinary event is held to. A log with one of the five events that belong to the
  instrument registers is outside the model, and the fold refuses it. A dict is an association list in
  insertion order; a stored body is a JSON value, of which a handler reads the fields the typed
  constructors write, at their types. \<open>retained\<close> is \<^verbatim>\<open>decode_retained_input\<close>, which recovers the text of a
  curated reading.
\<close>

subsection \<open>State\<close>

record txn_line =
  ln_date :: string
  ln_description :: string
  ln_amount :: decimal
  ln_grade :: string
  ln_provenance :: provenance
  ln_currency :: string
  ln_transaction_id :: string
  ln_matched_movement_key :: string
  ln_matched_currency :: string

definition line_to_dict :: "txn_line \<Rightarrow> json" where
  "line_to_dict l =
     JObj [(''date'', JStr (ln_date l)), (''description'', JStr (ln_description l)),
           (''amount'', JStr (dec_str (ln_amount l))), (''grade'', JStr (ln_grade l)),
           (''currency'', JStr (ln_currency l)), (''provenance'', prov_to_dict (ln_provenance l))]"

definition grade_rank :: "string \<Rightarrow> nat" where
  "grade_rank g = (if g = VERIFIED then 3 else if g = CORROBORATED then 2 else if g = UNVERIFIED then 1 else 0)"

record position_record =
  pr_units :: decimal
  pr_market_value :: decimal
  pr_currency :: string
  pr_as_of :: string
  pr_cost_basis :: "decimal option"
  pr_valuation_class :: string
  pr_grade :: string
  pr_provenance :: provenance
  pr_is_cash :: bool

record account_state =
  as_balance :: decimal
  as_opening :: "decimal option"
  as_opening_date :: string
  as_opening_prov :: provenance
  as_closing :: "decimal option"
  as_closing_date :: string
  as_closing_prov :: provenance
  as_period_deltas :: "decimal list"
  as_seen :: bool
  as_kind :: string
  as_currency :: string
  as_name :: string
  as_institution :: string
  as_number :: string
  as_names :: "string list"
  as_origin :: string
  as_jurisdiction :: string
  as_opened_at :: string
  as_doc_ids :: "string set"
  as_closing_confirmed :: bool
  as_closings :: "(string \<times> decimal \<times> string \<times> string) list"
  as_lines :: "txn_line list"
  as_positions :: "(string \<times> position_record) list"
  as_position_history :: "(string \<times> position_record list) list"
  as_position_cash :: "(string \<times> position_record) list"

definition AccountState :: account_state where
  "AccountState =
     \<lparr>as_balance = dec0, as_opening = None, as_opening_date = [], as_opening_prov = prov_empty, as_closing = None,
      as_closing_date = [], as_closing_prov = prov_empty, as_period_deltas = [], as_seen = False, as_kind = [],
      as_currency = [], as_name = [], as_institution = [], as_number = [], as_names = [], as_origin = ISSUED,
      as_jurisdiction = [], as_opened_at = [], as_doc_ids = {}, as_closing_confirmed = False, as_closings = [],
      as_lines = [], as_positions = [], as_position_history = [], as_position_cash = []\<rparr>"

record link_info =
  li_status :: string
  li_grade :: string
  li_by :: string
  li_decided_by :: string

record goal_state =
  gl_body :: json
  gl_reservations :: "(string \<times> decimal) list"
  gl_history :: "json list"
  gl_issues :: "string list"
  gl_event_ids :: "string list"

record account_ref =
  ar_reference :: string
  ar_scope :: string
  ar_doc_id :: string
  ar_page :: "int option"
  ar_page_count :: "int option"

record core =
  pc_as_of :: "string option"
  pc_acct :: "(string \<times> account_state) list"
  pc_open_counts :: "(string \<times> nat) list"
  pc_effect_keys :: "string set"
  pc_account_refs :: "(string \<times> account_ref list) list"
  pc_captured :: "(string \<times> string) list"
  pc_captured_names :: "(string \<times> string) list"
  pc_acquisitions :: "(string \<times> json) list"
  pc_replies :: "(string \<times> string) list"
  pc_read_attempted :: "string set"
  pc_read_parsed :: "string set"
  pc_doc_closing :: "(string \<times> string \<times> string) list"
  pc_posted :: "string set"
  pc_periods :: "((string \<times> string) \<times> string \<times> string) list"
  pc_decomposed :: "(string \<times> string \<times> string) set"
  pc_held :: "(string \<times> json) list"
  pc_activity_held :: "(string \<times> json) list"
  pc_aliases :: "(string \<times> string) list"
  pc_alias_evidence :: "(string \<times> string list \<times> string \<times> string) list"
  pc_document_aliases :: "(string \<times> string) list"
  pc_links :: "((string \<times> string) \<times> link_info) list"
  pc_suggestions :: "(string \<times> json) list"
  pc_categories :: "(string \<times> json) list"
  pc_movement_tags :: "(string \<times> json) list"
  pc_merchant_tags :: "(string \<times> json) list"
  pc_merchant_categories :: "(string \<times> json) list"
  pc_rulings :: "((string \<times> string) \<times> json) list"
  pc_declined :: "(string \<times> json) list"
  pc_goals :: "(string \<times> goal_state) list"

definition empty_core :: "string option \<Rightarrow> core" where
  "empty_core as_of =
     \<lparr>pc_as_of = as_of, pc_acct = [], pc_open_counts = [], pc_effect_keys = {}, pc_account_refs = [], pc_captured = [],
      pc_captured_names = [], pc_acquisitions = [], pc_replies = [], pc_read_attempted = {}, pc_read_parsed = {},
      pc_doc_closing = [], pc_posted = {}, pc_periods = [], pc_decomposed = {}, pc_held = [], pc_activity_held = [],
      pc_aliases = [], pc_alias_evidence = [], pc_document_aliases = [], pc_links = [], pc_suggestions = [],
      pc_categories = [], pc_movement_tags = [], pc_merchant_tags = [], pc_merchant_categories = [], pc_rulings = [],
      pc_declined = [], pc_goals = []\<rparr>"

definition dict_del :: "'k \<Rightarrow> ('k \<times> 'v) list \<Rightarrow> ('k \<times> 'v) list" where
  "dict_del k d = filter (\<lambda>p. fst p \<noteq> k) d"

text \<open>\<^verbatim>\<open>_state\<close>, and an update of one account's state.\<close>

definition state_of :: "core \<Rightarrow> string \<Rightarrow> account_state" where
  "state_of c a = (case map_of (pc_acct c) a of None \<Rightarrow> AccountState | Some s \<Rightarrow> s)"

definition upd_state :: "string \<Rightarrow> (account_state \<Rightarrow> account_state) \<Rightarrow> core \<Rightarrow> core" where
  "upd_state a f c = c\<lparr>pc_acct := dict_set a (f (state_of c a)) (pc_acct c)\<rparr>"

subsection \<open>Accounts\<close>

definition add_doc :: "string \<Rightarrow> account_state \<Rightarrow> account_state" where
  "add_doc did s = (if did = [] then s else s\<lparr>as_doc_ids := insert did (as_doc_ids s)\<rparr>)"

definition add_posted :: "string \<Rightarrow> core \<Rightarrow> core" where
  "add_posted did c = (if did = [] then c else c\<lparr>pc_posted := insert did (pc_posted c)\<rparr>)"

definition texts_or_empty :: "json option \<Rightarrow> string list res" where
  "texts_or_empty j = bindR (arr_or_empty j) (mapR (\<lambda>n. str_or [] (Some n)))"

definition fold_account_opened :: "event \<Rightarrow> core \<Rightarrow> core res" where
  "fold_account_opened e c =
     bindR (req_text (body e) ''account_id'') (\<lambda>account.
     bindR (str_or [] (jget (body e) ''kind'')) (\<lambda>kind.
     bindR (str_or [] (jget (body e) ''currency'')) (\<lambda>currency.
     bindR (str_or [] (jget (body e) ''name'')) (\<lambda>name.
     bindR (str_or [] (jget (body e) ''institution'')) (\<lambda>institution.
     bindR (str_or [] (jget (body e) ''account_number'')) (\<lambda>number.
     bindR (texts_or_empty (jget (body e) ''account_names'')) (\<lambda>names.
     bindR (str_or ISSUED (jget (body e) ''origin'')) (\<lambda>origin.
     bindR (str_or [] (jget (body e) ''jurisdiction'')) (\<lambda>jurisdiction.
     let opened = (case map_of (pc_open_counts c) account of None \<Rightarrow> 0 | Some n \<Rightarrow> n) in
     Inr (upd_state account
           (\<lambda>s. add_doc (prov_doc_id (ev_provenance e))
                  (s\<lparr>as_seen := True, as_kind := kind, as_currency := currency, as_name := name,
                     as_institution := institution, as_number := number, as_names := names, as_origin := origin,
                     as_jurisdiction := jurisdiction,
                     as_opened_at := (if as_opened_at s \<noteq> [] then as_opened_at s else occurred_at e)\<rparr>))
           (c\<lparr>pc_open_counts := dict_set account (opened + 1) (pc_open_counts c)\<rparr>)))))))))))"

definition add_names :: "string list \<Rightarrow> string list \<Rightarrow> string list" where
  "add_names have new = foldl (\<lambda>ns n. if n \<noteq> [] \<and> n \<notin> set ns then ns @ [n] else ns) have new"

definition fold_account_identity :: "event \<Rightarrow> core \<Rightarrow> core res" where
  "fold_account_identity e c =
     bindR (req_text (body e) ''account_id'') (\<lambda>account.
     bindR (str_or [] (jget (body e) ''account_number'')) (\<lambda>observed.
     bindR (str_or [] (jget (body e) ''institution'')) (\<lambda>institution.
     bindR (texts_or_empty (jget (body e) ''account_names'')) (\<lambda>names.
     Inr (upd_state account
           (\<lambda>s. add_doc (prov_doc_id (ev_provenance e))
                  (s\<lparr>as_number := (if usable_full_number observed \<noteq> [] \<and> usable_full_number (as_number s) = []
                                   then observed else as_number s),
                     as_institution := (if as_institution s \<noteq> [] then as_institution s else institution),
                     as_names := add_names (as_names s) names\<rparr>)) c)))))"

definition fold_opening :: "event \<Rightarrow> core \<Rightarrow> core res" where
  "fold_opening e c =
     bindR (req_text (body e) ''account_id'') (\<lambda>account.
     bindR (bindR (jitem (body e) ''amount'') json_Decimal) (\<lambda>amount.
     let did = prov_doc_id (ev_provenance e) in
     Inr (add_posted did
       (upd_state account
          (\<lambda>s. let t = add_doc did (s\<lparr>as_seen := True\<rparr>) in
               if as_opening t = None \<or> occurred_at e < as_opening_date t
               then t\<lparr>as_opening := Some amount, as_opening_date := occurred_at e, as_opening_prov := ev_provenance e\<rparr>
               else t) c))))"

definition fold_closing :: "event \<Rightarrow> core \<Rightarrow> core res" where
  "fold_closing e c =
     bindR (req_text (body e) ''account_id'') (\<lambda>account.
     bindR (req_text (body e) ''amount'') (\<lambda>printed.
     bindR (py_Decimal (PStr printed)) (\<lambda>amount.
     let did = prov_doc_id (ev_provenance e); human = (jget (body e) ''confirmed_by'' = Some (JStr ''human''));
         key = (account, occurred_at e);
         filed = (if did = [] then c
                  else c\<lparr>pc_posted := insert did (pc_posted c),
                         pc_doc_closing := dict_set did (printed, occurred_at e) (pc_doc_closing c),
                         pc_periods := (if map_of (pc_periods c) key = None
                                        then dict_set key (did, printed) (pc_periods c) else pc_periods c)\<rparr>) in
     Inr (upd_state account
           (\<lambda>s. let t = add_doc did (s\<lparr>as_seen := True\<rparr>);
                    u = (if as_closing t = None \<or> occurred_at e \<ge> as_closing_date t
                         then t\<lparr>as_closing := Some amount, as_closing_date := occurred_at e,
                                as_closing_prov := ev_provenance e, as_closing_confirmed := human\<rparr>
                         else t) in
                u\<lparr>as_closings := as_closings u @
                     [(occurred_at e, amount, if human then VERIFIED else CORROBORATED, did)]\<rparr>) filed))))"

subsection \<open>Documents, readings and holds\<close>

definition fold_captured :: "event \<Rightarrow> core \<Rightarrow> core res" where
  "fold_captured e c =
     bindR (req_text (body e) ''doc_id'') (\<lambda>doc.
     bindR (str_or [] (jget (body e) ''doc_type'')) (\<lambda>doc_type.
     bindR (str_or [] (jget (body e) ''filename'')) (\<lambda>filename.
     Inr (c\<lparr>pc_captured := dict_set doc doc_type (pc_captured c),
            pc_captured_names := dict_set doc filename (pc_captured_names c)\<rparr>))))"

definition truthy_at :: "json \<Rightarrow> string \<Rightarrow> bool" where
  "truthy_at b k = (case jget b k of None \<Rightarrow> False | Some v \<Rightarrow> jtruthy v)"

definition fold_read :: "(string \<Rightarrow> string) \<Rightarrow> (json \<Rightarrow> string res) \<Rightarrow> event \<Rightarrow> core \<Rightarrow> core res" where
  "fold_read sha retained e c =
     (let b = body e in
      bindR (local_read sha b) (\<lambda>local.
      bindR (if local then
               bindR (req_text b ''doc_id'') (\<lambda>doc.
               bindR (jitem b ''acquisition'') (\<lambda>a.
               Inr (c\<lparr>pc_acquisitions := dict_set doc a (pc_acquisitions c)\<rparr>)))
             else Inr c) (\<lambda>c1.
      bindR (str_or [] (jget b ''doc_id'')) (\<lambda>doc.
      bindR (str_or ''extract'' (jget b ''phase'')) (\<lambda>phase.
      if doc = [] then Inr c1
      else
        (let c2 = c1\<lparr>pc_read_attempted := insert doc (pc_read_attempted c1)\<rparr> in
         if phase = ''extract'' \<and> truthy_at b ''parse_ok'' then
           bindR (if jget b ''acquisition'' \<noteq> None then retained b
                  else str_or [] (jget b ''response_text'')) (\<lambda>reply.
           Inr (c2\<lparr>pc_read_parsed := insert doc (pc_read_parsed c2), pc_replies := dict_set doc reply (pc_replies c2)\<rparr>))
         else Inr c2))))))"

definition fold_held :: "event \<Rightarrow> core \<Rightarrow> core res" where
  "fold_held e c =
     bindR (req_text (body e) ''doc_id'') (\<lambda>doc.
     Inr (if jget (body e) ''reason'' = Some (JStr ''activity'')
          then c\<lparr>pc_activity_held := dict_set doc (body e) (pc_activity_held c)\<rparr>
          else c\<lparr>pc_held := dict_set doc (body e) (pc_held c)\<rparr>))"

definition fold_activity_held :: "event \<Rightarrow> core \<Rightarrow> core res" where
  "fold_activity_held e c =
     bindR (req_text (body e) ''doc_id'') (\<lambda>doc.
     Inr (c\<lparr>pc_activity_held := dict_set doc (body e) (pc_activity_held c)\<rparr>))"

definition fold_activity_resolved :: "event \<Rightarrow> core \<Rightarrow> core res" where
  "fold_activity_resolved e c =
     bindR (req_text (body e) ''doc_id'') (\<lambda>doc.
     Inr (c\<lparr>pc_activity_held := dict_del doc (pc_activity_held c)\<rparr>))"

text \<open>A list that may be absent or null, of texts.\<close>

definition texts_or_null :: "json option \<Rightarrow> string list res" where
  "texts_or_null j = texts_or_empty (if j = Some JNull then None else j)"

definition fold_alias :: "event \<Rightarrow> core \<Rightarrow> core res" where
  "fold_alias e c =
     (let b = body e in
      bindR (if (case jget b ''learn_signal'' of None \<Rightarrow> True | Some v \<Rightarrow> jtruthy v) then
               bindR (req_text b ''alias_key'') (\<lambda>alias.
               bindR (req_text b ''account_id'') (\<lambda>account.
               bindR (texts_or_null (jget b ''match_names'')) (\<lambda>names.
               bindR (str_or [] (jget b ''match_label'')) (\<lambda>label.
               bindR (str_or [] (jget b ''kind'')) (\<lambda>kind.
               Inr (c\<lparr>pc_aliases := dict_set alias account (pc_aliases c),
                      pc_alias_evidence :=
                        (if jget b ''match_names'' \<noteq> None \<or> jget b ''match_label'' \<noteq> None \<or> jget b ''kind'' \<noteq> None
                         then dict_set alias (names, label, kind) (pc_alias_evidence c)
                         else dict_del alias (pc_alias_evidence c))\<rparr>))))))
             else Inr c) (\<lambda>c1.
      bindR (str_or [] (jget b ''doc_id'')) (\<lambda>doc.
      if doc = [] then Inr c1
      else bindR (req_text b ''account_id'') (\<lambda>account.
           Inr (c1\<lparr>pc_document_aliases := dict_set doc account (pc_document_aliases c1)\<rparr>)))))"

subsection \<open>Transfers, categories, tags and rulings\<close>

text \<open>The unordered pair of two movement keys.\<close>

definition pair_key :: "string \<Rightarrow> string \<Rightarrow> string \<times> string" where
  "pair_key a b = (min a b, max a b)"

definition fold_linked :: "event \<Rightarrow> core \<Rightarrow> core res" where
  "fold_linked e c =
     bindR (req_text (body e) ''a'') (\<lambda>a.
     bindR (req_text (body e) ''b'') (\<lambda>b.
     bindR (str_or [] (jget (body e) ''grade'')) (\<lambda>grade.
     bindR (str_or [] (jget (body e) ''by'')) (\<lambda>by_whom.
     bindR (case jget (body e) ''evidence'' of None \<Rightarrow> Inr [] | Some ev \<Rightarrow> str_or [] (jget ev ''decided_by'')) (\<lambda>decided.
     Inr (c\<lparr>pc_links := dict_set (pair_key a b)
                          \<lparr>li_status = ''linked'', li_grade = grade, li_by = by_whom, li_decided_by = decided\<rparr> (pc_links c),
            pc_suggestions := dict_del b (dict_del a (pc_suggestions c))\<rparr>))))))"

definition fold_unlinked :: "event \<Rightarrow> core \<Rightarrow> core res" where
  "fold_unlinked e c =
     bindR (req_text (body e) ''a'') (\<lambda>a.
     bindR (req_text (body e) ''b'') (\<lambda>b.
     Inr (c\<lparr>pc_links := dict_set (pair_key a b)
                          \<lparr>li_status = ''unlinked'', li_grade = [], li_by = [], li_decided_by = []\<rparr> (pc_links c),
            pc_suggestions := dict_del b (dict_del a (pc_suggestions c))\<rparr>)))"

definition fold_suggested :: "event \<Rightarrow> core \<Rightarrow> core res" where
  "fold_suggested e c =
     bindR (req_text (body e) ''a'') (\<lambda>a. Inr (c\<lparr>pc_suggestions := dict_set a (body e) (pc_suggestions c)\<rparr>))"

text \<open>\<^verbatim>\<open>d.get(k, d.get("grade", ""))\<close>, with the text \<open>alt\<close> for \<^verbatim>\<open>"grade"\<close>.\<close>

definition get_or_alt :: "json \<Rightarrow> string \<Rightarrow> string \<Rightarrow> json" where
  "get_or_alt d k alt =
     (case jget d k of Some v \<Rightarrow> v | None \<Rightarrow> (case jget d alt of Some v \<Rightarrow> v | None \<Rightarrow> JStr []))"

fun rank_of :: "json \<Rightarrow> nat" where
  "rank_of (JStr g) = grade_rank g"
| "rank_of _ = 0"

definition merge_category :: "json \<Rightarrow> json \<Rightarrow> json" where
  "merge_category earlier incoming =
     (let graded_sub = (\<lambda>d. if truthy_at d ''subcategory'' then get_or_alt d ''subcategory_grade'' ''grade'' else JStr []);
          cat = (if rank_of (get_or_alt incoming ''category_grade'' ''grade'') \<ge> rank_of (get_or_alt earlier ''category_grade'' ''grade'')
                 then incoming else earlier);
          sub = (if rank_of (graded_sub incoming) \<ge> rank_of (graded_sub earlier) then incoming else earlier);
          cg = get_or_alt cat ''category_grade'' ''grade''; sg = get_or_alt sub ''subcategory_grade'' ''grade'';
          cb = get_or_alt cat ''category_by'' ''by''; sb = get_or_alt sub ''subcategory_by'' ''by'' in
      jset ''by'' (if cb = sb then cb else JStr ''mixed'')
        (jset ''grade'' (if rank_of sg < rank_of cg then sg else cg)
        (jset ''category_by'' cb (jset ''category_grade'' cg (jset ''subcategory_by'' sb (jset ''subcategory_grade'' sg
        (jset ''subcategory'' (case jget sub ''subcategory'' of None \<Rightarrow> JStr [] | Some v \<Rightarrow> v) cat)))))))"

definition fold_category :: "event \<Rightarrow> core \<Rightarrow> core res" where
  "fold_category e c =
     bindR (req_text (body e) ''movement_key'') (\<lambda>key.
     Inr (c\<lparr>pc_categories := dict_set key
              (case map_of (pc_categories c) key of None \<Rightarrow> body e | Some earlier \<Rightarrow> merge_category earlier (body e))
              (pc_categories c)\<rparr>))"

definition fold_merchant :: "event \<Rightarrow> core \<Rightarrow> core res" where
  "fold_merchant e c =
     bindR (req_text (body e) ''merchant'') (\<lambda>merchant.
     bindR (texts_or_null (jget (body e) ''aliases'')) (\<lambda>new.
     let put = (\<lambda>v. c\<lparr>pc_merchant_categories := dict_set merchant v (pc_merchant_categories c)\<rparr>);
         with_aliases = (\<lambda>names b. if names = [] then b else jset ''aliases'' (JStrs (sort (remdups names))) b) in
     case map_of (pc_merchant_categories c) merchant of
       None \<Rightarrow> Inr (put (with_aliases new (body e)))
     | Some earlier \<Rightarrow>
         bindR (texts_or_null (jget earlier ''aliases'')) (\<lambda>old.
         if rank_of (get_or_null (body e) ''grade'') \<ge> rank_of (get_or_null earlier ''grade'')
         then Inr (put (with_aliases (new @ old) (body e)))
         else if new \<noteq> [] \<and> \<not> set new \<subseteq> set old
         then Inr (put (jset ''aliases'' (JStrs (sort (remdups (old @ new)))) earlier))
         else Inr c)))"

definition fold_tagged :: "event \<Rightarrow> core \<Rightarrow> core res" where
  "fold_tagged e c =
     bindR (str_or [] (jget (body e) ''subject'')) (\<lambda>subject.
     bindR (texts_or_null (jget (body e) ''tags'')) (\<lambda>tags.
     Inr (if jget (body e) ''scope'' = Some (JStr SCOPE_MERCHANT)
          then c\<lparr>pc_merchant_tags := dict_set subject (JStrs tags) (pc_merchant_tags c)\<rparr>
          else c\<lparr>pc_movement_tags := dict_set subject (JStrs tags) (pc_movement_tags c)\<rparr>)))"

definition fold_ruling :: "event \<Rightarrow> core \<Rightarrow> core res" where
  "fold_ruling e c =
     bindR (req_text (body e) ''scope'') (\<lambda>scope.
     bindR (req_text (body e) ''subject'') (\<lambda>subject.
     let ruling = (if jget (body e) ''occurred_at'' = None then jset ''occurred_at'' (JStr (occurred_at e)) (body e) else body e);
         verified = (\<lambda>r. jget r ''grade'' = Some (JStr VERIFIED)) in
     Inr (case map_of (pc_rulings c) (scope, subject) of
            Some earlier \<Rightarrow>
              if verified ruling \<or> \<not> verified earlier
              then c\<lparr>pc_rulings := dict_set (scope, subject) ruling (pc_rulings c)\<rparr> else c
          | None \<Rightarrow> c\<lparr>pc_rulings := dict_set (scope, subject) ruling (pc_rulings c)\<rparr>)))"

definition fold_treatment_restored :: "event \<Rightarrow> core \<Rightarrow> core res" where
  "fold_treatment_restored e c =
     bindR (req_text (body e) ''movement'') (\<lambda>movement.
     bindR (jitem (body e) ''previous'') (\<lambda>previous.
     let key = (SCOPE_MOVEMENT, movement) in
     Inr (c\<lparr>pc_rulings := (if jtruthy previous then dict_set key previous (pc_rulings c) else dict_del key (pc_rulings c)),
            pc_categories := (if truthy_at (body e) ''previous_category''
                              then dict_set movement (get_or_null (body e) ''previous_category'') (pc_categories c)
                              else dict_del movement (pc_categories c))\<rparr>)))"

definition fold_declined :: "event \<Rightarrow> core \<Rightarrow> core res" where
  "fold_declined e c =
     bindR (req_text (body e) ''question_id'') (\<lambda>q.
     Inr (c\<lparr>pc_declined := dict_set q (jset ''event_id'' (JStr (event_id e)) (body e)) (pc_declined c)\<rparr>))"

subsection \<open>Holdings\<close>

definition CASH_INSTRUMENTS :: "string list" where
  "CASH_INSTRUMENTS =
     [''cash'', ''cash balance'', ''cash & cash investments'', ''cash and equivalents'', ''cash equivalents'', ''sweep'',
      ''cash sweep'', ''core position'', ''money market'']"

definition CASH_MARKERS :: "string list" where
  "CASH_MARKERS = [''money market'', ''cash sweep'', ''core position'', ''sweep account'']"

fun contains :: "string \<Rightarrow> string \<Rightarrow> bool" where
  "contains [] p = (p = [])"
| "contains (ch # s) p = (starts_with (ch # s) p \<or> contains s p)"

definition is_cash_row :: "string \<Rightarrow> bool" where
  "is_cash_row instrument =
     (let label = lower (strip instrument) in
      label \<in> set CASH_INSTRUMENTS \<or> list_ex (contains label) CASH_MARKERS)"

definition fold_position :: "event \<Rightarrow> core \<Rightarrow> core res" where
  "fold_position e c =
     (let b = body e; did = prov_doc_id (ev_provenance e) in
      bindR (req_text b ''account_id'') (\<lambda>account.
      bindR (req_text b ''instrument'') (\<lambda>instrument.
      bindR (bindR (jitem b ''units'') json_Decimal) (\<lambda>units.
      bindR (bindR (jitem b ''market_value'') json_Decimal) (\<lambda>market_value.
      bindR (str_or [] (jget b ''currency'')) (\<lambda>currency.
      bindR (if jget b ''cost_basis'' = Some (JStr []) then Inr None else opt_Decimal (jget b ''cost_basis'')) (\<lambda>cost.
      bindR (str_or ''measured'' (jget b ''valuation_class'')) (\<lambda>valuation.
      bindR (str_or [] (jget b ''grade'')) (\<lambda>grade.
      let record = \<lparr>pr_units = units, pr_market_value = market_value, pr_currency = currency, pr_as_of = occurred_at e,
                    pr_cost_basis = cost, pr_valuation_class = valuation, pr_grade = grade,
                    pr_provenance = ev_provenance e, pr_is_cash = is_cash_row instrument\<rparr>;
          latest = (\<lambda>bucket. case map_of bucket instrument of
                       None \<Rightarrow> dict_set instrument record bucket
                     | Some earlier \<Rightarrow> if occurred_at e \<ge> pr_as_of earlier then dict_set instrument record bucket else bucket) in
      Inr (upd_state account
            (\<lambda>s. let t = s\<lparr>as_seen := True,
                     as_position_history := dict_set instrument
                       ((case map_of (as_position_history s) instrument of None \<Rightarrow> [] | Some h \<Rightarrow> h) @ [record])
                       (as_position_history s)\<rparr> in
                 if is_cash_row instrument then t\<lparr>as_position_cash := latest (as_position_cash t)\<rparr>
                 else t\<lparr>as_positions := latest (as_positions t)\<rparr>)
            (add_posted did c)))))))))))"

subsection \<open>Transactions\<close>

text \<open>The one currency of the real accounts among the legs, or none.\<close>

definition transaction_currency :: "core \<Rightarrow> posting list \<Rightarrow> string" where
  "transaction_currency c ps =
     (case remdups (filter (\<lambda>x. x \<noteq> []) (map (\<lambda>p. as_currency (state_of c (p_account p))) ps)) of
        [x] \<Rightarrow> x | _ \<Rightarrow> [])"

record txn_texts =
  tt_description :: string
  tt_matched_movement_key :: string
  tt_matched_currency :: string

definition post_leg :: "event \<Rightarrow> txn_texts \<Rightarrow> string \<Rightarrow> posting \<Rightarrow> core \<Rightarrow> core" where
  "post_leg e tt currency p c =
     upd_state (p_account p)
       (\<lambda>s. s\<lparr>as_seen := True, as_balance := dec_add (as_balance s) (p_amount p),
               as_lines := as_lines s @
                 [\<lparr>ln_date = occurred_at e, ln_description = tt_description tt, ln_amount = p_amount p,
                   ln_grade = p_grade p, ln_provenance = ev_provenance e,
                   ln_currency = (if as_currency s \<noteq> [] then as_currency s else currency),
                   ln_transaction_id = event_id e, ln_matched_movement_key = tt_matched_movement_key tt,
                   ln_matched_currency = tt_matched_currency tt\<rparr>],
               as_period_deltas := (if p_account p \<noteq> EQUITY_OPENING then as_period_deltas s @ [p_amount p]
                                    else as_period_deltas s)\<rparr>) c"

definition INSTRUMENT_ROLES :: "string list" where
  "INSTRUMENT_ROLES =
     [''principal'', ''escrow_deposit'', ''escrow_tax'', ''escrow_insurance'', ''escrow_adjustment'',
      ''term_funding'', ''term_interest'', ''term_redemption'', ''term_fee'', ''refinance_fee'']"

definition text_reference :: "json option \<Rightarrow> bool" where
  "text_reference j = (case j of None \<Rightarrow> True | Some (JStr s) \<Rightarrow> True | Some _ \<Rightarrow> False)"

definition fold_transaction :: "event \<Rightarrow> core \<Rightarrow> core res" where
  "fold_transaction e c =
     (let b = body e in
      guardR (text_reference (jget b ''source_reference'') \<and> text_reference (jget b ''counterparty_reference''))
        (ValueError ''financial references must be text'')
      (guardR (case jget b ''instrument_role'' of None \<Rightarrow> True | Some JNull \<Rightarrow> True
               | Some (JStr r) \<Rightarrow> r \<in> set INSTRUMENT_ROLES | Some _ \<Rightarrow> False)
        (ValueError ''unknown instrument cash role'')
      (bindR (postings_of e) (\<lambda>ps.
      bindR (str_or [] (jget b ''description'')) (\<lambda>description.
      bindR (str_or [] (jget b ''matched_movement_key'')) (\<lambda>matched.
      bindR (str_or [] (jget b ''matched_currency'')) (\<lambda>matched_currency.
      let tt = \<lparr>tt_description = description, tt_matched_movement_key = matched, tt_matched_currency = matched_currency\<rparr>;
          pay = map (\<lambda>p. (description, occurred_at e, dec_str (dec_neg (p_amount p))))
                  (filter (\<lambda>p. p_account p = INCOME_SALARY) ps);
          c1 = add_posted (prov_doc_id (ev_provenance e)) c;
          c2 = c1\<lparr>pc_decomposed := pc_decomposed c1 \<union> set pay\<rparr> in
      Inr (fold (post_leg e tt (transaction_currency c ps)) ps c2))))))))"

subsection \<open>Goals\<close>

definition dec_max :: "decimal \<Rightarrow> decimal \<Rightarrow> decimal" where
  "dec_max a b = (if dec_lt a b then b else a)"

definition fold_goal_created :: "event \<Rightarrow> core \<Rightarrow> core res" where
  "fold_goal_created e c =
     bindR (str_or [] (jget (body e) ''goal_id'')) (\<lambda>goal.
     Inr (if goal = [] \<or> map_of (pc_goals c) goal \<noteq> None then c
          else c\<lparr>pc_goals := dict_set goal
                 \<lparr>gl_body = jset ''updated_at'' (JStr (occurred_at e)) (jset ''created_at'' (JStr (occurred_at e))
                              (jset ''state'' (JStr ''active'') (body e))),
                  gl_reservations = [], gl_history = [], gl_issues = [], gl_event_ids = [event_id e]\<rparr> (pc_goals c)\<rparr>))"

definition touch_goal :: "event \<Rightarrow> goal_state \<Rightarrow> goal_state" where
  "touch_goal e g =
     g\<lparr>gl_body := jset ''updated_at'' (JStr (occurred_at e)) (gl_body g), gl_event_ids := gl_event_ids g @ [event_id e]\<rparr>"

definition TERM_KEYS :: "string list" where
  "TERM_KEYS =
     [''kind'', ''title'', ''currency'', ''target_amount'', ''target_date'', ''monthly_contribution'', ''contribution_day'',
      ''proposal_id'']"

definition fold_goal_terms :: "event \<Rightarrow> core \<Rightarrow> core res" where
  "fold_goal_terms e c =
     bindR (str_or [] (jget (body e) ''goal_id'')) (\<lambda>goal.
     Inr (case map_of (pc_goals c) goal of
            None \<Rightarrow> c
          | Some g \<Rightarrow>
              c\<lparr>pc_goals := dict_set goal
                 (touch_goal e (g\<lparr>gl_body :=
                    fold (\<lambda>k b. jset k (case jget (body e) k of None \<Rightarrow> JStr [] | Some v \<Rightarrow> v) b) TERM_KEYS (gl_body g)\<rparr>))
                 (pc_goals c)\<rparr>))"

definition reserved_at :: "goal_state \<Rightarrow> string \<Rightarrow> decimal" where
  "reserved_at g account = (case map_of (gl_reservations g) account of None \<Rightarrow> dec0 | Some d \<Rightarrow> d)"

text \<open>A reservation adds the amount; a release takes at most what is reserved, and says so.\<close>

definition move_funds :: "bool \<Rightarrow> event \<Rightarrow> string \<Rightarrow> decimal \<Rightarrow> goal_state \<Rightarrow> goal_state" where
  "move_funds reserve e account amount g =
     (let earlier = reserved_at g account; short = (\<not> reserve \<and> dec_lt earlier amount);
          applied = (if short then dec_max earlier dec0 else amount);
          issues = (if short then [''release_exceeds_reserved:'' @ account @ '':'' @ event_id e] else []);
          moved = dec_max (dec_add earlier (dec_mul (Dec (if reserve then 1 else - 1) 0) applied)) dec0 in
      touch_goal e
        (g\<lparr>gl_issues := gl_issues g @ issues, gl_reservations := dict_set account moved (gl_reservations g),
           gl_history := gl_history g @
             [jset ''event_id'' (JStr (event_id e)) (jset ''occurred_at'' (JStr (occurred_at e))
               (jset ''valid'' (JBool (dec_eq applied amount)) (jset ''applied_amount'' (JStr (dec_str applied))
               (jset ''kind'' (JStr (if reserve then ''reserved'' else ''released'')) (body e)))))]\<rparr>))"

definition fold_goal_funds :: "bool \<Rightarrow> event \<Rightarrow> core \<Rightarrow> core res" where
  "fold_goal_funds reserve e c =
     bindR (str_or [] (jget (body e) ''goal_id'')) (\<lambda>goal.
     case map_of (pc_goals c) goal of
       None \<Rightarrow> Inr c
     | Some g \<Rightarrow>
         bindR (str_or [] (jget (body e) ''account_id'')) (\<lambda>account.
         bindR (case jget (body e) ''amount'' of None \<Rightarrow> Inr dec0 | Some j \<Rightarrow> json_Decimal j) (\<lambda>amount.
         Inr (c\<lparr>pc_goals := dict_set goal (move_funds reserve e account amount g) (pc_goals c)\<rparr>))))"

definition fold_goal_state :: "event \<Rightarrow> core \<Rightarrow> core res" where
  "fold_goal_state e c =
     bindR (str_or [] (jget (body e) ''goal_id'')) (\<lambda>goal.
     Inr (case map_of (pc_goals c) goal of
            None \<Rightarrow> c
          | Some g \<Rightarrow>
              c\<lparr>pc_goals := dict_set goal
                 (touch_goal e (g\<lparr>gl_body :=
                    jset ''proposal_id'' (case jget (body e) ''proposal_id'' of None \<Rightarrow> JStr [] | Some v \<Rightarrow> v)
                      (case jget (body e) ''state'' of None \<Rightarrow> gl_body g | Some v \<Rightarrow> jset ''state'' v (gl_body g))\<rparr>))
                 (pc_goals c)\<rparr>))"

subsection \<open>Account references\<close>

text \<open>The constructor of a source reference: a document and a page of it.\<close>

definition source_ok :: "string \<Rightarrow> int option \<Rightarrow> bool" where
  "source_ok doc page = (strip doc \<noteq> [] \<and> (case page of None \<Rightarrow> False | Some n \<Rightarrow> n \<ge> 1))"

definition sourced_date_ok :: "string \<Rightarrow> bool" where
  "sourced_date_ok dated = (case fromisoformat dated of None \<Rightarrow> False | Some d \<Rightarrow> isoformat d = dated)"

definition source_claim_ok :: "string \<Rightarrow> string \<Rightarrow> int option \<Rightarrow> int option \<Rightarrow> bool" where
  "source_claim_ok reference doc page page_count =
     (case (page, page_count) of
        (Some p, Some n) \<Rightarrow>
          eligible \<lparr>sai_reference = reference, sai_doc_id = doc, sai_page = p, sai_page_count = n\<rparr>
      | _ \<Rightarrow> False)"

definition reference_event ::
    "string \<Rightarrow> string \<Rightarrow> string \<Rightarrow> string \<Rightarrow> string \<Rightarrow> int option \<Rightarrow> string \<Rightarrow> int option \<Rightarrow> event res" where
  "reference_event eid account reference dated doc page scope page_count =
     guardR (source_ok doc page) (ValueError ''source document and page are required'')
     (guardR (strip account \<noteq> [] \<and> strip reference \<noteq> [] \<and> scope \<in> {''account'', ''continuous_escrow''})
        (ValueError ''explicit source account reference required'')
     (guardR (sourced_date_ok dated) (ValueError ''date must be an ISO calendar date'')
     (guardR (page_count = None \<or> source_claim_ok reference doc page page_count)
        (ValueError ''eligible source account identity required'')
     (Inr (Event eid ''FinancialAccountReferenceObserved'' dated
        (JObj ([(''account_id'', JStr account), (''reference'', JStr reference), (''scope'', JStr scope)]
               @ (case page_count of None \<Rightarrow> [] | Some n \<Rightarrow> [(''identity_page_count'', JInt n)])))
        \<lparr>prov_doc_id = doc, prov_page = page, prov_region = [], prov_note = []\<rparr>)))))"

definition REFERENCE_FIELDS :: "string list" where
  "REFERENCE_FIELDS = [''account_id'', ''reference'', ''scope'', ''instrument_declaration_key'', ''identity_page_count'']"

definition fold_reference :: "event \<Rightarrow> core \<Rightarrow> core res" where
  "fold_reference e c =
     (let b = body e; did = prov_doc_id (ev_provenance e); page = prov_page (ev_provenance e) in
      bindR (req_text b ''account_id'') (\<lambda>account.
      bindR (req_text b ''reference'') (\<lambda>reference.
      bindR (req_text b ''scope'') (\<lambda>scope.
      bindR (page_of (jget b ''identity_page_count'')) (\<lambda>count.
      bindR (reference_event [] account reference (occurred_at e) did page scope count) (\<lambda>_.
      guardR (keys_of b \<subseteq> set REFERENCE_FIELDS) (ValueError ''unknown source-reference fields'')
      (Inr (c\<lparr>pc_account_refs := dict_set account
               ((case map_of (pc_account_refs c) account of None \<Rightarrow> [] | Some rs \<Rightarrow> rs)
                @ [\<lparr>ar_reference = reference, ar_scope = scope, ar_doc_id = did, ar_page = page, ar_page_count = count\<rparr>])
               (pc_account_refs c)\<rparr>))))))))"

subsection \<open>The fold\<close>

definition INSTRUMENT_EVENTS :: "string list" where
  "INSTRUMENT_EVENTS =
     [''InstrumentFamilyDeclared'', ''InstrumentObservationRecorded'', ''InstrumentPaymentAllocated'',
      ''InstrumentKnownPaymentAllocated'', ''InstrumentComponentStateRecorded'']"

text \<open>The effect identity of an event: unique across the log where one is given.\<close>

definition effect_key :: "json \<Rightarrow> json option" where
  "effect_key b = (case jget b ''instrument_effect_key'' of
     Some v \<Rightarrow> if v = JNull then None else Some v
   | None \<Rightarrow> (case jget b ''instrument_declaration_key'' of Some v \<Rightarrow> if v = JNull then None else Some v | None \<Rightarrow> None))"

definition claim_effect :: "event \<Rightarrow> core \<Rightarrow> core res" where
  "claim_effect e c =
     (case effect_key (body e) of
        None \<Rightarrow> Inr c
      | Some (JStr k) \<Rightarrow>
          guardR (k \<noteq> []) (ValueError ''instrument effect key must be nonempty text'')
          (guardR (k \<notin> pc_effect_keys c) (ValueError ''duplicate instrument effect identity'')
          (Inr (c\<lparr>pc_effect_keys := insert k (pc_effect_keys c)\<rparr>)))
      | Some _ \<Rightarrow> Inl (ValueError ''instrument effect key must be nonempty text''))"

definition handlers :: "(string \<Rightarrow> string) \<Rightarrow> (json \<Rightarrow> string res) \<Rightarrow> (string \<times> (event \<Rightarrow> core \<Rightarrow> core res)) list" where
  "handlers sha retained =
     [(''FinancialAccountReferenceObserved'', fold_reference), (''AccountOpened'', fold_account_opened),
      (''AccountIdentityObserved'', fold_account_identity), (''OpeningBalanceObserved'', fold_opening),
      (''DocumentCaptured'', fold_captured), (''ReadRecorded'', fold_read sha retained),
      (''StatementHeld'', fold_held), (''BrokerageActivityHeld'', fold_activity_held),
      (''BrokerageActivityResolved'', fold_activity_resolved), (''AccountAliasConfirmed'', fold_alias),
      (''TransferLinked'', fold_linked), (''TransferUnlinked'', fold_unlinked), (''TransferSuggested'', fold_suggested),
      (''CategoryAssigned'', fold_category), (''AccountingTreatmentRestored'', fold_treatment_restored),
      (''RulingRecorded'', fold_ruling), (''QuestionDeclined'', fold_declined), (''GoalCreated'', fold_goal_created),
      (''GoalTermsChanged'', fold_goal_terms), (''GoalFundsReserved'', fold_goal_funds True),
      (''GoalFundsReleased'', fold_goal_funds False), (''GoalStateChanged'', fold_goal_state),
      (''MerchantCategorized'', fold_merchant), (''MerchantEnriched'', fold_merchant),
      (''ClosingBalanceObserved'', fold_closing), (''MovementTagged'', fold_tagged),
      (''PositionObserved'', fold_position), (''TransactionRecorded'', fold_transaction)]"

definition apply_core :: "(string \<Rightarrow> string) \<Rightarrow> (json \<Rightarrow> string res) \<Rightarrow> event \<Rightarrow> core \<Rightarrow> core res" where
  "apply_core sha retained e c =
     bindR (claim_effect e c) (\<lambda>c1.
     if event_type e \<in> set INSTRUMENT_EVENTS then Inl (RuntimeError ''instrument registers are outside the model'')
     else case map_of (handlers sha retained) (event_type e) of
            None \<Rightarrow> Inr c1
          | Some h \<Rightarrow> h e c1)"

definition apply_event :: "(string \<Rightarrow> string) \<Rightarrow> (json \<Rightarrow> string res) \<Rightarrow> event \<Rightarrow> core \<Rightarrow> core res" where
  "apply_event sha retained e c =
     (case pc_as_of c of
        None \<Rightarrow> apply_core sha retained e c
      | Some horizon \<Rightarrow> if occurred_at e > horizon then Inr c else apply_core sha retained e c)"

fun foldR :: "('a \<Rightarrow> 'b \<Rightarrow> 'e + 'b) \<Rightarrow> 'a list \<Rightarrow> 'b \<Rightarrow> 'e + 'b" where
  "foldR f [] s = Inr s"
| "foldR f (x # xs) s = bindR (f x s) (foldR f xs)"

definition project :: "(string \<Rightarrow> string) \<Rightarrow> (json \<Rightarrow> string res) \<Rightarrow> event list \<Rightarrow> string option \<Rightarrow> core res" where
  "project sha retained events as_of = foldR (apply_event sha retained) events (empty_core as_of)"

lemma foldR_append: "foldR f (xs @ ys) s = bindR (foldR f xs s) (foldR f ys)"
  by (induction xs arbitrary: s) (auto simp: bindR_def split: sum.splits)

lemma project_snoc:
  "project sha retained (es @ [e]) as_of = bindR (project sha retained es as_of) (apply_event sha retained e)"
  by (simp add: project_def foldR_append bindR_def split: sum.splits)

end
