(* ===== verification/Money_Sums.thy ===== *)
theory Money_Sums
  imports Arithmetic
begin

text \<open>
  \<open>in_units k d\<close>: a sum of \<open>k\<close> amounts of the money range at most. Up to ten million of them the decimal
  operations do not round.
\<close>

definition in_units :: "nat \<Rightarrow> decimal \<Rightarrow> bool" where
  "in_units k d = scaled 8 (int k * 10 ^ 20) d"

definition max_terms :: nat where
  "max_terms = 10 ^ 7"

lemma units_prec: "k \<le> max_terms \<Longrightarrow> int k * 10 ^ 20 < 10 ^ prec"
  by (simp add: max_terms_def prec_def)

lemma units_money: "money_range d \<Longrightarrow> in_units 1 d"
  by (simp add: in_units_def money_range_def)

lemma units_mono: "in_units j d \<Longrightarrow> j \<le> k \<Longrightarrow> in_units k d"
  by (auto simp: in_units_def scaled_def)

lemma units_dec0 [simp]: "in_units k dec0"
  by (simp add: in_units_def scaled_def dec0_def lift_to_def)

lemma units_ops:
  assumes "in_units j x" "in_units k y" "j + k \<le> max_terms"
  shows "in_units (j + k) (dec_add x y)" "dec_val (dec_add x y) = dec_val x + dec_val y"
    "in_units (j + k) (dec_sub x y)" "dec_val (dec_sub x y) = dec_val x - dec_val y"
proof -
  have b: "int j * 10 ^ 20 + int k * 10 ^ 20 < 10 ^ prec"
    using units_prec [OF assms(3)] by (simp add: algebra_simps)
  note xy = assms(1,2) [unfolded in_units_def]
  show "in_units (j + k) (dec_add x y)" "dec_val (dec_add x y) = dec_val x + dec_val y"
    "in_units (j + k) (dec_sub x y)" "dec_val (dec_sub x y) = dec_val x - dec_val y"
    using dec_add_scaled [OF xy b] dec_sub_scaled [OF xy b] by (simp_all add: in_units_def algebra_simps)
qed

lemma units_abs: "in_units k d \<Longrightarrow> k \<le> max_terms \<Longrightarrow> in_units k (dec_abs d) \<and> dec_val (dec_abs d) = \<bar>dec_val d\<bar>"
  using dec_abs_scaled [of 8 "int k * 10 ^ 20" d] units_prec [of k] by (simp add: in_units_def)

lemma units_neg: "in_units k d \<Longrightarrow> k \<le> max_terms \<Longrightarrow> in_units k (dec_neg d) \<and> dec_val (dec_neg d) = - dec_val d"
  using dec_neg_scaled [of 8 "int k * 10 ^ 20" d] units_prec [of k] by (simp add: in_units_def)

lemma units_sum:
  assumes "list_all (in_units k) xs" "length xs * k \<le> max_terms"
  shows "in_units (length xs * k) (dec_sum xs)" "dec_val (dec_sum xs) = sum_list (map dec_val xs)"
proof -
  have "int (length xs) * (int k * 10 ^ 20) < 10 ^ prec"
    using units_prec [OF assms(2)] by (simp add: algebra_simps)
  with assms(1) have s: "scaled 8 (int (length xs) * (int k * 10 ^ 20)) (dec_sum xs)"
      "dec_val (dec_sum xs) = sum_list (map dec_val xs)"
    using dec_sum_scaled [of xs 8 "int k * 10 ^ 20"] by (auto simp: list_all_iff in_units_def)
  from s show "in_units (length xs * k) (dec_sum xs)" "dec_val (dec_sum xs) = sum_list (map dec_val xs)"
    by (simp_all add: in_units_def mult.assoc)
qed

lemma balance_check_units:
  assumes "in_units j ob" "in_units k cb" "list_all (in_units m) ts" "j + length ts * m + k \<le> max_terms"
  shows "\<exists>r. check_balance_identity (PDec ob) (map PDec ts) (PDec cb) (PInt 0) = Inr r
    \<and> (passed r \<longleftrightarrow> dec_val cb = dec_val ob + sum_list (map dec_val ts))"
proof -
  have ts: "mapR as_decimal (map PDec ts) = Inr ts" by (rule mapR_map_Inr) simp
  note sum = units_sum [OF assms(3)]
  have l: "length ts * m \<le> max_terms" "j + length ts * m \<le> max_terms" using assms(4) by auto
  note add = units_ops(1,2) [OF assms(1) sum(1) [OF l(1)] l(2)]
  note sub = units_ops(3,4) [OF assms(2) add(1)]
  have "k + (j + length ts * m) \<le> max_terms" using assms(4) by simp
  note sub = sub [OF this]
  note abs = units_abs [OF sub(1)]
  then show ?thesis using assms(4) sub(2) add(2) sum(2) [OF l(1)]
    by (simp add: check_balance_identity_def ts mk_result_def Let_def dec_le_iff dec_val_def [of "Dec 0 0"])
qed

end
