(* ===== verification/Diagnose.thy ===== *)
theory Diagnose
  imports Statement Match Money_Sums
begin

text \<open>
  \<^verbatim>\<open>product/viva/ingest/diagnose.py\<close>: why a statement does not reconcile, by arithmetic alone, and
  \<^verbatim>\<open>_reconciles\<close>, \<^verbatim>\<open>_gap_delta\<close> and \<^verbatim>\<open>_apply_forced\<close> of \<^verbatim>\<open>ingest/statement_projector.py\<close>, which act on
  the finding. A finding's confidence is the spelling of the float the code writes.
\<close>

subsection \<open>Findings\<close>

definition DIAGNOSIS_VERSION :: string where "DIAGNOSIS_VERSION = ''diag-v1''"

definition FORCED :: string where "FORCED = ''forced''"
definition SUGGESTED :: string where "SUGGESTED = ''suggested''"
definition UNLOCALIZED :: string where "UNLOCALIZED = ''unlocalized''"
definition NONE :: string where "NONE = ''none''"

record reconciliation_finding =
  rf_reconciles :: bool
  rf_kind :: string
  rf_status :: string
  rf_delta :: string
  rf_message :: string
  rf_target :: string
  rf_target_index :: "nat option"
  rf_observed :: "string option"
  rf_implied :: "string option"
  rf_confidence :: string
  rf_version :: string

definition finding :: "bool \<Rightarrow> string \<Rightarrow> string \<Rightarrow> string \<Rightarrow> string \<Rightarrow> string \<Rightarrow> reconciliation_finding" where
  "finding reconciles kind status gap message confidence =
     \<lparr>rf_reconciles = reconciles, rf_kind = kind, rf_status = status, rf_delta = gap, rf_message = message,
      rf_target = [], rf_target_index = None, rf_observed = None, rf_implied = None,
      rf_confidence = confidence, rf_version = DIAGNOSIS_VERSION\<rparr>"

definition finding_to_dict :: "reconciliation_finding \<Rightarrow> json" where
  "finding_to_dict f =
     JObj [(''reconciles'', JBool (rf_reconciles f)), (''kind'', JStr (rf_kind f)), (''status'', JStr (rf_status f)),
           (''delta'', JStr (rf_delta f)), (''message'', JStr (rf_message f)), (''target'', JStr (rf_target f)),
           (''target_index'', case rf_target_index f of None \<Rightarrow> JNull | Some i \<Rightarrow> JInt (int i)),
           (''observed'', JOptStr (rf_observed f)), (''implied'', JOptStr (rf_implied f)),
           (''confidence'', JFloat (rf_confidence f)), (''version'', JStr (rf_version f))]"

subsection \<open>Localizing the gap\<close>

text \<open>\<^verbatim>\<open>d.to_integral_value()\<close>: half-even, whatever the context precision.\<close>

definition to_integral :: "decimal \<Rightarrow> int" where
  "to_integral d =
     (if expo d \<ge> 0 then coeff d * 10 ^ nat (expo d)
      else sgn (coeff d) * int (round_half_even (nat \<bar>coeff d\<bar>) (nat (- expo d))))"

definition cents :: "decimal \<Rightarrow> int" where
  "cents d = to_integral (dec_mul d (Dec 100 0))"

text \<open>The printed running balance of a line; the chain is walked only when every line has one.\<close>

definition printed :: "txn_fact \<Rightarrow> decimal" where
  "printed t = (case tf_running_balance t of Some b \<Rightarrow> b | None \<Rightarrow> dec0)"

fun chain_breaks :: "decimal \<Rightarrow> nat \<Rightarrow> txn_fact list \<Rightarrow> nat list" where
  "chain_breaks prev i [] = []"
| "chain_breaks prev i (t # ts) =
     (if dec_eq (printed t) (dec_add prev (tf_amount t)) then [] else [i]) @ chain_breaks (printed t) (Suc i) ts"

definition last_printed :: "decimal \<Rightarrow> txn_fact list \<Rightarrow> decimal" where
  "last_printed opening txns = (if txns = [] then opening else printed (last txns))"

definition via_running_balance ::
    "decimal \<Rightarrow> decimal \<Rightarrow> decimal \<Rightarrow> txn_fact list \<Rightarrow> decimal \<Rightarrow> reconciliation_finding option" where
  "via_running_balance opening closing tot txns gap =
     (case chain_breaks opening 0 txns of
        [] \<Rightarrow>
          (let end_at = dec_str (last_printed opening txns) in
           Some ((finding False ''balance_misread'' FORCED (dec_str gap)
                   (''The transactions and their running balances are internally consistent and end at '' @ end_at
                    @ '', but the closing balance reads '' @ dec_str closing @ ''. Closing looks misread; using ''
                    @ end_at @ ''.'') ''0.95'')
                 \<lparr>rf_target := ''closing balance'', rf_observed := Some (dec_str closing), rf_implied := Some end_at\<rparr>))
      | [i] \<Rightarrow>
          (let t = txns ! i; prev_before = (if i = 0 then opening else printed (txns ! (i - 1)));
               implied = dec_sub (printed t) prev_before in
           if dec_eq (dec_add opening (dec_add (dec_sub tot (tf_amount t)) implied)) closing
           then Some ((finding False ''amount_misread'' FORCED (dec_str gap)
                        (''Line '' @ show_nat i @ '' ('' @ tf_description t @ ''): I read '' @ dec_str (tf_amount t)
                         @ '', but the running balance implies '' @ dec_str implied
                         @ '', which makes the statement reconcile. Using the implied value.'') ''0.95'')
                      \<lparr>rf_target := ''transaction '' @ show_nat i @ '' ('' @ tf_description t @ '')'',
                       rf_target_index := Some i, rf_observed := Some (dec_str (tf_amount t)),
                       rf_implied := Some (dec_str implied)\<rparr>)
           else None)
      | _ \<Rightarrow> None)"

text \<open>The first line whose amount is the gap.\<close>

fun gap_line :: "decimal \<Rightarrow> nat \<Rightarrow> txn_fact list \<Rightarrow> (nat \<times> txn_fact) option" where
  "gap_line gap i [] = None"
| "gap_line gap i (t # ts) =
     (if dec_eq (dec_abs (tf_amount t)) (dec_abs gap) then Some (i, t) else gap_line gap (Suc i) ts)"

definition gap_delta :: "statement_facts \<Rightarrow> decimal" where
  "gap_delta facts =
     dec_sub (sf_closing_amount facts)
       (dec_add (sf_opening_amount facts) (dec_sum (map tf_amount (sf_transactions facts))))"

definition suggest :: "decimal \<Rightarrow> txn_fact list \<Rightarrow> reconciliation_finding" where
  "suggest gap txns =
     (case gap_line gap 0 txns of
        Some (i, t) \<Rightarrow>
          (finding False ''missing_or_extra'' SUGGESTED (dec_str gap)
             (''The gap of '' @ dec_str gap @ '' equals this line'' @ [CHR 0x27] @ ''s amount '' @ EM_DASH
              @ '' it may be duplicated in my read, or one like it is missing. Please check against the statement.'')
             ''0.5'')
          \<lparr>rf_target := ''transaction '' @ show_nat i @ '' ('' @ tf_description t @ '')'',
           rf_target_index := Some i, rf_observed := Some (dec_str (tf_amount t))\<rparr>
      | None \<Rightarrow>
          if cents (dec_abs gap) mod 9 = 0 then
            finding False ''transposition'' SUGGESTED (dec_str gap)
              (''The gap of '' @ dec_str gap @ '' is a multiple of 9 '' @ EM_DASH
               @ '' the signature of two swapped digits somewhere. I couldn'' @ [CHR 0x27]
               @ ''t pin the line; please check the figures against the statement.'') ''0.4''
          else
            finding False ''unknown'' UNLOCALIZED (dec_str gap)
              (''Off by '' @ dec_str gap @ '', with no clean explanation. This may not be a checking statement, ''
               @ ''or several figures are wrong. Held for review.'') ''0.1'')"

definition diagnose :: "statement_facts \<Rightarrow> reconciliation_finding" where
  "diagnose facts =
     (let opening = sf_opening_amount facts; closing = sf_closing_amount facts; txns = sf_transactions facts;
          tot = dec_sum (map tf_amount txns); gap = dec_sub closing (dec_add opening tot) in
      if dec_eq gap dec0 then finding True ''ok'' NONE ''0'' ''Statement reconciles.'' ''1.0''
      else
        case (if txns \<noteq> [] \<and> list_all (\<lambda>t. tf_running_balance t \<noteq> None) txns
              then via_running_balance opening closing tot txns gap else None) of
          Some forced \<Rightarrow> forced
        | None \<Rightarrow> suggest gap txns)"

subsection \<open>Acting on a finding\<close>

definition reconciles :: "statement_facts \<Rightarrow> check_result res" where
  "reconciles facts =
     check_balance_identity (PDec (sf_opening_amount facts)) (map (PDec \<circ> tf_amount) (sf_transactions facts))
       (PDec (sf_closing_amount facts)) (PInt 0)"

definition apply_forced :: "statement_facts \<Rightarrow> reconciliation_finding \<Rightarrow> statement_facts res" where
  "apply_forced facts f =
     (case (rf_kind f = ''amount_misread'', rf_target_index f) of
        (True, Some i) \<Rightarrow>
          (case rf_implied f of
             None \<Rightarrow> Inl (TypeError ''conversion from NoneType to Decimal is not supported'')
           | Some v \<Rightarrow>
               bindR (py_Decimal (PStr v)) (\<lambda>d.
               guardR (i < length (sf_transactions facts)) (IndexError ''list index out of range'')
               (Inr (facts\<lparr>sf_transactions := (sf_transactions facts)[i := (sf_transactions facts ! i)\<lparr>tf_amount := d\<rparr>]\<rparr>))))
      | _ \<Rightarrow>
          if rf_kind f = ''balance_misread'' then
            (case rf_implied f of
               None \<Rightarrow> Inl (TypeError ''conversion from NoneType to Decimal is not supported'')
             | Some v \<Rightarrow> bindR (py_Decimal (PStr v)) (\<lambda>d. Inr (facts\<lparr>sf_closing_amount := d\<rparr>)))
          else Inr facts)"


subsection \<open>The chain of printed balances\<close>

text \<open>The balance a line starts from, as printed, and what a line is off by.\<close>

definition prior :: "decimal \<Rightarrow> txn_fact list \<Rightarrow> nat \<Rightarrow> decimal" where
  "prior ob ts i = (if i = 0 then ob else printed (ts ! (i - 1)))"

definition off_by :: "decimal \<Rightarrow> txn_fact list \<Rightarrow> nat \<Rightarrow> rat" where
  "off_by ob ts i = dec_val (prior ob ts i) + dec_val (tf_amount (ts ! i)) - dec_val (printed (ts ! i))"

definition line_range :: "txn_fact \<Rightarrow> bool" where
  "line_range t = (money_range (tf_amount t) \<and> (case tf_running_balance t of None \<Rightarrow> True | Some b \<Rightarrow> money_range b))"

definition statement_range :: "statement_facts \<Rightarrow> bool" where
  "statement_range f =
     (money_range (sf_opening_amount f) \<and> money_range (sf_closing_amount f)
      \<and> list_all line_range (sf_transactions f) \<and> length (sf_transactions f) \<le> max_items)"

lemma money_range_dec0 [simp]: "money_range dec0"
  by (simp add: money_range_def scaled_def dec0_def lift_to_def)

lemma line_rangeD: "line_range t \<Longrightarrow> in_units 1 (tf_amount t) \<and> in_units 1 (printed t)"
  by (auto simp: line_range_def printed_def units_money [simplified] split: option.splits)

definition line_units :: "txn_fact \<Rightarrow> bool" where
  "line_units t = (in_units 2 (tf_amount t) \<and> in_units 2 (printed t))"

lemma line_range_units: "line_range t \<Longrightarrow> line_units t"
  using line_rangeD [of t] units_mono [of 1 _ 2] by (simp add: line_units_def)

lemma prior_Suc: "prior ob (t # ts) (Suc i) = prior (printed t) ts i"
  by (cases i) (simp_all add: prior_def)

lemma prior_0 [simp]: "prior ob ts 0 = ob"
  by (simp add: prior_def)

lemma off_by_Cons:
  "off_by ob (t # ts) 0 = dec_val ob + dec_val (tf_amount t) - dec_val (printed t)"
  "off_by ob (t # ts) (Suc i) = off_by (printed t) ts i"
  by (simp_all add: off_by_def prior_Suc)

text \<open>The lines the walk reports are those that are off, in order; the amounts telescope.\<close>

lemma chain_breaks_off:
  assumes "list_all line_units ts" "in_units 2 ob"
  shows "chain_breaks ob k ts = map ((+) k) (filter (\<lambda>i. off_by ob ts i \<noteq> 0) [0..<length ts])"
  using assms
proof (induction ts arbitrary: ob k)
  case Nil
  then show ?case by simp
next
  case (Cons t ts)
  have r: "in_units 2 (tf_amount t)" "in_units 2 (printed t)" using Cons.prems by (auto simp: line_units_def)
  have "dec_eq (printed t) (dec_add ob (tf_amount t)) \<longleftrightarrow> off_by ob (t # ts) 0 = 0"
    using units_ops(2) [OF Cons.prems(2) r(1)] by (auto simp: dec_eq_iff off_by_Cons max_terms_def)
  moreover have "[0..<length (t # ts)] = 0 # map Suc [0..<length ts]"
    by (simp only: upt_conv_Cons map_Suc_upt length_Cons zero_less_Suc One_nat_def)
  moreover have "chain_breaks (printed t) (Suc k) ts
      = map ((+) (Suc k)) (filter (\<lambda>i. off_by (printed t) ts i \<noteq> 0) [0..<length ts])"
    using Cons r(2) by simp
  ultimately show ?case by (simp add: filter_map comp_def off_by_Cons)
qed

lemma chain_telescopes:
  "dec_val ob + sum_list (map (dec_val \<circ> tf_amount) ts)
     = dec_val (last_printed ob ts) + (\<Sum>i < length ts. off_by ob ts i)"
proof (induction ts arbitrary: ob)
  case Nil
  then show ?case by (simp add: last_printed_def)
next
  case (Cons t ts)
  have "last_printed ob (t # ts) = last_printed (printed t) ts" by (simp add: last_printed_def)
  moreover have "(\<Sum>i < length (t # ts). off_by ob (t # ts) i)
      = off_by ob (t # ts) 0 + (\<Sum>i < length ts. off_by (printed t) ts i)"
    by (simp add: sum.lessThan_Suc_shift off_by_Cons del: sum.lessThan_Suc)
  ultimately show ?case using Cons [of "printed t"] by (simp add: off_by_Cons)
qed

lemma sound_chain_iff:
  assumes "list_all line_units ts" "in_units 2 ob"
  shows "chain_breaks ob 0 ts = [] \<longleftrightarrow> (\<forall>i < length ts. off_by ob ts i = 0)"
  using assms by (auto simp: chain_breaks_off filter_empty_conv)

lemma distinct_singleton_set: "distinct xs \<Longrightarrow> set xs = {x} \<longleftrightarrow> xs = [x]"
  by (cases xs) (auto simp: subset_singleton_iff)

lemma one_break_iff:
  assumes "list_all line_units ts" "in_units 2 ob"
  shows "chain_breaks ob 0 ts = [i]
    \<longleftrightarrow> i < length ts \<and> off_by ob ts i \<noteq> 0 \<and> (\<forall>j < length ts. j \<noteq> i \<longrightarrow> off_by ob ts j = 0)"
proof -
  have "filter (\<lambda>i. off_by ob ts i \<noteq> 0) [0..<length ts] = [i]
      \<longleftrightarrow> set (filter (\<lambda>i. off_by ob ts i \<noteq> 0) [0..<length ts]) = {i}"
    using distinct_filter [OF distinct_upt, of "\<lambda>i. off_by ob ts i \<noteq> 0" 0 "length ts"]
    by (metis distinct_singleton_set list.set(1) list.set(2))
  then show ?thesis using assms by (auto simp: chain_breaks_off)
qed

lemma one_break_sum:
  assumes "(i::nat) < n" "\<forall>j < n. j \<noteq> i \<longrightarrow> f j = (0::rat)"
  shows "(\<Sum>j < n. f j) = f i"
  using assms by (subst sum.remove [of _ i]) auto


subsection \<open>What a forced finding says\<close>

lemma range_units:
  assumes "statement_range f"
  shows "in_units 1 (sf_opening_amount f)" "in_units 1 (sf_closing_amount f)"
    "list_all (in_units 1) (map tf_amount (sf_transactions f))" "list_all line_range (sf_transactions f)"
    "length (sf_transactions f) \<le> max_items"
    "list_all line_units (sf_transactions f)" "in_units 2 (sf_opening_amount f)"
  using assms line_rangeD units_money line_range_units units_mono [of 1 "sf_opening_amount f" 2]
  by (auto simp: statement_range_def list_all_iff)

lemma total_exact:
  assumes "statement_range f"
  shows "in_units (length (sf_transactions f)) (dec_sum (map tf_amount (sf_transactions f)))"
    "dec_val (dec_sum (map tf_amount (sf_transactions f))) = sum_list (map (dec_val \<circ> tf_amount) (sf_transactions f))"
  using units_sum [OF range_units(3) [OF assms]] range_units(5) [OF assms]
  by (simp_all add: max_items_def max_terms_def comp_def)

lemma gap_val:
  assumes "statement_range f"
  shows "dec_val (gap_delta f) = dec_val (sf_closing_amount f)
    - (dec_val (sf_opening_amount f) + sum_list (map (dec_val \<circ> tf_amount) (sf_transactions f)))"
proof -
  let ?n = "length (sf_transactions f)"
  have n: "1 + ?n \<le> max_terms" "1 + (1 + ?n) \<le> max_terms"
    using range_units(5) [OF assms] by (auto simp: max_items_def max_terms_def)
  note add = units_ops(1,2) [OF range_units(1) [OF assms] total_exact(1) [OF assms] n(1)]
  show ?thesis using units_ops(4) [OF range_units(2) [OF assms] add(1) n(2)] add(2) total_exact(2) [OF assms]
    by (simp add: gap_delta_def)
qed

definition all_printed :: "statement_facts \<Rightarrow> bool" where
  "all_printed f = (sf_transactions f \<noteq> [] \<and> list_all (\<lambda>t. tf_running_balance t \<noteq> None) (sf_transactions f))"

abbreviation breaks_of :: "statement_facts \<Rightarrow> nat list" where
  "breaks_of f \<equiv> chain_breaks (sf_opening_amount f) 0 (sf_transactions f)"

abbreviation end_of :: "statement_facts \<Rightarrow> decimal" where
  "end_of f \<equiv> last_printed (sf_opening_amount f) (sf_transactions f)"

definition implied_at :: "statement_facts \<Rightarrow> nat \<Rightarrow> decimal" where
  "implied_at f i = dec_sub (printed (sf_transactions f ! i)) (prior (sf_opening_amount f) (sf_transactions f) i)"

lemma implied_val:
  assumes "statement_range f" "i < length (sf_transactions f)"
  shows "in_units 2 (implied_at f i)"
    "dec_val (implied_at f i) = dec_val (tf_amount (sf_transactions f ! i))
       - off_by (sf_opening_amount f) (sf_transactions f) i"
proof -
  let ?ts = "sf_transactions f"
  have p: "in_units 1 (printed (?ts ! j))" if "j < length ?ts" for j
    using range_units(4) [OF assms(1)] line_rangeD that by (auto simp: list_all_length)
  have "in_units 1 (prior (sf_opening_amount f) ?ts i)"
    using p [of "i - 1"] range_units(1) [OF assms(1)] assms(2) by (auto simp: prior_def)
  note sub = units_ops(3,4) [OF p [OF assms(2)] this]
  show "in_units 2 (implied_at f i)"
    "dec_val (implied_at f i) = dec_val (tf_amount (?ts ! i)) - off_by (sf_opening_amount f) ?ts i"
    using sub by (simp_all add: implied_at_def off_by_def max_terms_def numeral_2_eq_2)
qed

text \<open>With one broken line the repaired total ends where the last printed balance does.\<close>

lemma repaired_total:
  assumes "statement_range f" "breaks_of f = [i]"
  shows "dec_val (dec_add (sf_opening_amount f) (dec_add (dec_sub (dec_sum (map tf_amount (sf_transactions f)))
      (tf_amount (sf_transactions f ! i))) (implied_at f i))) = dec_val (end_of f)"
proof -
  let ?ts = "sf_transactions f" and ?ob = "sf_opening_amount f"
  have one: "i < length ?ts" "\<forall>j < length ?ts. j \<noteq> i \<longrightarrow> off_by ?ob ?ts j = 0"
    using one_break_iff [OF range_units(6,7) [OF assms(1)], of i] assms(2) by auto
  have amt: "in_units 1 (tf_amount (?ts ! i))"
    using range_units(3) [OF assms(1)] one(1) by (simp add: list_all_length)
  have n: "length ?ts + 1 \<le> max_terms" "length ?ts + 1 + 2 \<le> max_terms" "1 + (length ?ts + 1 + 2) \<le> max_terms"
    using range_units(5) [OF assms(1)] by (auto simp: max_items_def max_terms_def)
  note s = units_ops(3,4) [OF total_exact(1) [OF assms(1)] amt n(1)]
  note a = units_ops(1,2) [OF s(1) implied_val(1) [OF assms(1) one(1)] n(2)]
  note o = units_ops(2) [OF range_units(1) [OF assms(1)] a(1) n(3)]
  have "(\<Sum>j < length ?ts. off_by ?ob ?ts j) = off_by ?ob ?ts i" by (rule one_break_sum [OF one])
  then show ?thesis
    using o a(2) s(2) implied_val(2) [OF assms(1) one(1)] total_exact(2) [OF assms(1)] chain_telescopes [of ?ob ?ts]
    by simp
qed

lemma diagnose_alt:
  "diagnose f =
     (if dec_eq (gap_delta f) dec0 then finding True ''ok'' NONE ''0'' ''Statement reconciles.'' ''1.0''
      else case (if all_printed f
                 then via_running_balance (sf_opening_amount f) (sf_closing_amount f)
                        (dec_sum (map tf_amount (sf_transactions f))) (sf_transactions f) (gap_delta f)
                 else None) of
             Some forced \<Rightarrow> forced | None \<Rightarrow> suggest (gap_delta f) (sf_transactions f))"
  unfolding diagnose_def gap_delta_def all_printed_def Let_def by (rule refl)

lemma suggest_not_forced: "rf_status (suggest g ts) \<noteq> FORCED"
  by (simp add: suggest_def finding_def SUGGESTED_def UNLOCALIZED_def FORCED_def split: option.splits)

lemma diagnose_sound_chain:
  assumes "statement_range f" "all_printed f" "breaks_of f = []" "dec_val (gap_delta f) \<noteq> 0"
  shows "rf_kind (diagnose f) = ''balance_misread'' \<and> rf_status (diagnose f) = FORCED
    \<and> rf_implied (diagnose f) = Some (dec_str (end_of f))"
  using assms by (simp add: diagnose_alt dec_eq_iff via_running_balance_def Let_def finding_def)

lemma diagnose_one_break:
  assumes "statement_range f" "all_printed f" "breaks_of f = [i]" "dec_val (gap_delta f) \<noteq> 0"
    "dec_val (end_of f) = dec_val (sf_closing_amount f)"
  shows "rf_kind (diagnose f) = ''amount_misread'' \<and> rf_status (diagnose f) = FORCED
    \<and> rf_target_index (diagnose f) = Some i \<and> rf_implied (diagnose f) = Some (dec_str (implied_at f i))"
proof -
  have "i < length (sf_transactions f)"
    using one_break_iff [OF range_units(6,7) [OF assms(1)], of i] assms(3) by auto
  then show ?thesis using assms repaired_total [OF assms(1,3)]
    by (simp add: diagnose_alt dec_eq_iff via_running_balance_def Let_def finding_def implied_at_def prior_def)
qed

lemma forced_cases:
  assumes "statement_range f" "rf_status (diagnose f) = FORCED"
  obtains (closing) "all_printed f" "breaks_of f = []" "dec_val (gap_delta f) \<noteq> 0"
  | (amount) i where "all_printed f" "breaks_of f = [i]" "dec_val (gap_delta f) \<noteq> 0"
      "dec_val (end_of f) = dec_val (sf_closing_amount f)"
proof -
  have g: "dec_val (gap_delta f) \<noteq> 0"
    using assms(2) by (auto simp: diagnose_alt dec_eq_iff finding_def NONE_def FORCED_def split: if_splits)
  have p: "all_printed f"
    using assms(2) g suggest_not_forced by (auto simp: diagnose_alt dec_eq_iff split: if_splits)
  show thesis
  proof (cases "breaks_of f")
    case Nil
    then show ?thesis using closing p g by blast
  next
    case (Cons i rest)
    show ?thesis
    proof (cases rest)
      case Nil
      with Cons have b: "breaks_of f = [i]" by simp
      then have "dec_val (end_of f) = dec_val (sf_closing_amount f)"
        using assms(2) p g suggest_not_forced repaired_total [OF assms(1) b]
        by (auto simp: diagnose_alt dec_eq_iff via_running_balance_def Let_def implied_at_def prior_def split: if_splits)
      then show ?thesis using amount p b g by blast
    next
      case (Cons j js)
      with \<open>breaks_of f = i # rest\<close> show ?thesis
        using assms(2) p g suggest_not_forced by (auto simp: diagnose_alt dec_eq_iff via_running_balance_def)
    qed
  qed
qed


subsection \<open>Repairing the statement\<close>

definition with_amount :: "statement_facts \<Rightarrow> nat \<Rightarrow> decimal \<Rightarrow> statement_facts" where
  "with_amount f i v = f\<lparr>sf_transactions := (sf_transactions f)[i := (sf_transactions f ! i)\<lparr>tf_amount := v\<rparr>]\<rparr>"

lemma with_amount_simps [simp]:
  "sf_opening_amount (with_amount f i v) = sf_opening_amount f"
  "sf_closing_amount (with_amount f i v) = sf_closing_amount f"
  "length (sf_transactions (with_amount f i v)) = length (sf_transactions f)"
  by (simp_all add: with_amount_def)

lemma printed_amount [simp]: "printed (t\<lparr>tf_amount := v\<rparr>) = printed t"
  by (simp add: printed_def)

lemma with_amount_nth:
  assumes "i < length (sf_transactions f)"
  shows "printed (sf_transactions (with_amount f i v) ! j) = printed (sf_transactions f ! j)"
    "tf_running_balance (sf_transactions (with_amount f i v) ! j) = tf_running_balance (sf_transactions f ! j)"
    "tf_amount (sf_transactions (with_amount f i v) ! j) = (if j = i then v else tf_amount (sf_transactions f ! j))"
  using assms by (cases "j = i"; simp add: with_amount_def)+

lemma with_amount_end:
  "i < length (sf_transactions f)
   \<Longrightarrow> last_printed (sf_opening_amount f) (sf_transactions (with_amount f i v)) = end_of f"
proof -
  assume i: "i < length (sf_transactions f)"
  then have "sf_transactions f \<noteq> []" "sf_transactions (with_amount f i v) \<noteq> []" by (auto simp: with_amount_def)
  then show ?thesis using with_amount_nth(1) [OF i, of v "length (sf_transactions f) - 1"]
    by (simp add: last_printed_def last_conv_nth)
qed

lemma with_amount_off:
  assumes "i < length (sf_transactions f)"
  shows "off_by (sf_opening_amount f) (sf_transactions (with_amount f i v)) j
    = off_by (sf_opening_amount f) (sf_transactions f) j
      + (if j = i then dec_val v - dec_val (tf_amount (sf_transactions f ! i)) else 0)"
  using assms by (auto simp: off_by_def prior_def with_amount_nth)

lemma with_amount_all:
  assumes "list_all P (sf_transactions f)" "i < length (sf_transactions f)" "P ((sf_transactions f ! i)\<lparr>tf_amount := v\<rparr>)"
  shows "list_all P (sf_transactions (with_amount f i v))"
  using assms by (auto simp: with_amount_def list_all_length nth_list_update)

lemma with_amount_printed:
  "i < length (sf_transactions f) \<Longrightarrow> all_printed (with_amount f i v) \<longleftrightarrow> all_printed f"
  by (auto simp: all_printed_def list_all_length with_amount_nth)
    (auto simp: with_amount_def)

lemma apply_forced_amount:
  assumes "rf_kind r = ''amount_misread''" "rf_target_index r = Some i" "rf_implied r = Some (dec_str v)"
    "i < length (sf_transactions f)"
  shows "apply_forced f r = Inr (with_amount f i v)"
  using assms by (simp add: apply_forced_def with_amount_def dec_parse_dec_str)

lemma apply_forced_closing:
  assumes "rf_kind r = ''balance_misread''" "rf_implied r = Some (dec_str v)"
  shows "apply_forced f r = Inr (f\<lparr>sf_closing_amount := v\<rparr>)"
  using assms by (simp add: apply_forced_def dec_parse_dec_str)

lemma reconciles_units:
  assumes "in_units 1 (sf_opening_amount f)" "in_units 1 (sf_closing_amount f)"
    "list_all line_units (sf_transactions f)" "length (sf_transactions f) \<le> max_items"
  shows "\<exists>r. reconciles f = Inr r \<and> (passed r \<longleftrightarrow> dec_val (sf_closing_amount f)
    = dec_val (end_of f) + (\<Sum>i < length (sf_transactions f). off_by (sf_opening_amount f) (sf_transactions f) i))"
proof -
  have "list_all (in_units 2) (map tf_amount (sf_transactions f))"
    using assms(3) by (auto simp: list_all_iff line_units_def)
  moreover have "1 + length (map tf_amount (sf_transactions f)) * 2 + 1 \<le> max_terms"
    using assms(4) by (simp add: max_items_def max_terms_def)
  ultimately obtain r where "reconciles f = Inr r" "passed r \<longleftrightarrow> dec_val (sf_closing_amount f)
      = dec_val (sf_opening_amount f) + sum_list (map (dec_val \<circ> tf_amount) (sf_transactions f))"
    using balance_check_units [OF assms(1,2), of 2 "map tf_amount (sf_transactions f)"]
    unfolding reconciles_def map_map by metis
  then show ?thesis using chain_telescopes [of "sf_opening_amount f" "sf_transactions f"] by simp
qed

lemma end_units:
  assumes "statement_range f"
  shows "in_units 1 (end_of f)"
  using range_units [OF assms] line_rangeD
  by (auto simp: last_printed_def list_all_iff)

text \<open>
  C14: a forced correction is right by both identities. For a statement in the money range, the finding
  \<open>FORCED\<close> is applied without an exception, changes exactly one figure (the amount of one line or the
  closing balance), and leaves a statement whose opening balance and transactions reconcile exactly to
  the closing balance and whose printed running balances follow from line to line and end at it.
\<close>
theorem forced_repair_closes_both_identities:
  assumes "statement_range f" "rf_status (diagnose f) = FORCED"
  shows "\<exists>g r. apply_forced f (diagnose f) = Inr g \<and> reconciles g = Inr r \<and> passed r
    \<and> chain_breaks (sf_opening_amount g) 0 (sf_transactions g) = []
    \<and> dec_eq (last_printed (sf_opening_amount g) (sf_transactions g)) (sf_closing_amount g)
    \<and> ((\<exists>d. g = f\<lparr>sf_closing_amount := d\<rparr>)
       \<or> (\<exists>i d. i < length (sf_transactions f)
            \<and> g = f\<lparr>sf_transactions := (sf_transactions f)[i := (sf_transactions f ! i)\<lparr>tf_amount := d\<rparr>]\<rparr>))"
  using assms
proof (cases rule: forced_cases)
  case closing
  let ?g = "f\<lparr>sf_closing_amount := end_of f\<rparr>"
  have "apply_forced f (diagnose f) = Inr ?g"
    using diagnose_sound_chain [OF assms(1) closing] by (intro apply_forced_closing) auto
  moreover have "\<forall>i < length (sf_transactions f). off_by (sf_opening_amount f) (sf_transactions f) i = 0"
    using closing(2) sound_chain_iff [OF range_units(6,7) [OF assms(1)]] by simp
  then obtain r where "reconciles ?g = Inr r" "passed r"
    using reconciles_units [of ?g] range_units [OF assms(1)] end_units [OF assms(1)] by auto
  ultimately show ?thesis using closing(2)
    by (intro exI [of _ ?g] exI [of _ r] conjI disjI1) (auto simp: dec_eq_iff)
next
  case (amount i)
  let ?ts = "sf_transactions f" and ?ob = "sf_opening_amount f"
  let ?g = "with_amount f i (implied_at f i)"
  have one: "i < length ?ts" "\<forall>j < length ?ts. j \<noteq> i \<longrightarrow> off_by ?ob ?ts j = 0"
    using one_break_iff [OF range_units(6,7) [OF assms(1)], of i] amount(2) by auto
  have ap: "apply_forced f (diagnose f) = Inr ?g"
    using diagnose_one_break [OF assms(1) amount] one(1) by (intro apply_forced_amount) auto
  have off: "off_by ?ob (sf_transactions ?g) j = 0" if "j < length ?ts" for j
    using that one implied_val(2) [OF assms(1) one(1)] by (simp add: with_amount_off)
  have "line_units ((?ts ! i)\<lparr>tf_amount := implied_at f i\<rparr>)"
    using range_units(6) [OF assms(1)] one(1) implied_val(1) [OF assms(1) one(1)]
    by (simp add: list_all_length line_units_def)
  then have u: "list_all line_units (sf_transactions ?g)"
    using range_units(6) [OF assms(1)] one(1) by (intro with_amount_all)
  have "\<exists>r. reconciles ?g = Inr r \<and> passed r"
    using reconciles_units [of ?g] range_units [OF assms(1)] u off amount(4) with_amount_end [OF one(1)] by auto
  moreover have "breaks_of ?g = []"
    using sound_chain_iff [OF u, of ?ob] range_units(7) [OF assms(1)] off by simp
  moreover have "dec_eq (end_of ?g) (sf_closing_amount ?g)"
    using amount(4) with_amount_end [OF one(1)] by (simp add: dec_eq_iff)
  ultimately show ?thesis using ap one(1) unfolding with_amount_def by blast
qed

lemma one_misread_figure:
  assumes "statement_range f" "sf_transactions f \<noteq> []"
    "list_all (\<lambda>t. tf_running_balance t \<noteq> None) (sf_transactions f)"
    "chain_breaks (sf_opening_amount f) 0 (sf_transactions f) = []"
    "dec_eq (last_printed (sf_opening_amount f) (sf_transactions f)) (sf_closing_amount f)"
  shows "i < length (sf_transactions f) \<Longrightarrow> money_range w \<Longrightarrow> \<not> dec_eq w (tf_amount (sf_transactions f ! i)) \<Longrightarrow>
      (let f' = f\<lparr>sf_transactions := (sf_transactions f)[i := (sf_transactions f ! i)\<lparr>tf_amount := w\<rparr>]\<rparr> in
       rf_status (diagnose f') = FORCED \<and> rf_target_index (diagnose f') = Some i
       \<and> (\<exists>g. apply_forced f' (diagnose f') = Inr g
              \<and> dec_eq (tf_amount (sf_transactions g ! i)) (tf_amount (sf_transactions f ! i))))"
    and "money_range w \<Longrightarrow> \<not> dec_eq w (sf_closing_amount f) \<Longrightarrow>
      (let f' = f\<lparr>sf_closing_amount := w\<rparr> in
       rf_status (diagnose f') = FORCED \<and> rf_kind (diagnose f') = ''balance_misread''
       \<and> (\<exists>g. apply_forced f' (diagnose f') = Inr g \<and> dec_eq (sf_closing_amount g) (sf_closing_amount f)))"
proof -
  let ?ts = "sf_transactions f" and ?ob = "sf_opening_amount f"
  have p: "all_printed f" using assms(2,3) by (simp add: all_printed_def)
  have sound: "\<forall>j < length ?ts. off_by ?ob ?ts j = 0"
    using assms(4) sound_chain_iff [OF range_units(6,7) [OF assms(1)]] by simp
  have e: "dec_val (end_of f) = dec_val (sf_closing_amount f)" using assms(5) by (simp add: dec_eq_iff)
  have tot: "dec_val ?ob + sum_list (map (dec_val \<circ> tf_amount) ?ts) = dec_val (end_of f)"
    using chain_telescopes [of ?ob ?ts] sound by simp
  {
    assume i: "i < length ?ts" and w: "money_range w" "\<not> dec_eq w (tf_amount (?ts ! i))"
    define f' where "f' = with_amount f i w"
    have "line_range ((?ts ! i)\<lparr>tf_amount := w\<rparr>)"
      using assms(1) i w(1) by (auto simp: statement_range_def list_all_length line_range_def)
    then have r: "statement_range f'"
      using assms(1) i with_amount_all [of line_range f i w] by (simp add: statement_range_def f'_def)
    have off: "off_by ?ob (sf_transactions f') j = (if j = i then dec_val w - dec_val (tf_amount (?ts ! i)) else 0)"
      if "j < length ?ts" for j
      using that i sound by (simp add: f'_def with_amount_off)
    have b: "breaks_of f' = [i]"
      using one_break_iff [OF range_units(6,7) [OF r], of i] i w(2) off by (auto simp: f'_def dec_eq_iff)
    have e': "dec_val (end_of f') = dec_val (sf_closing_amount f')" using e i by (simp add: f'_def with_amount_end)
    have "(\<Sum>j < length (sf_transactions f'). off_by ?ob (sf_transactions f') j)
        = off_by ?ob (sf_transactions f') i"
      using one_break_sum [of i "length ?ts"] i off by (simp add: f'_def)
    then have g: "dec_val (gap_delta f') \<noteq> 0"
      using gap_val [OF r] chain_telescopes [of ?ob "sf_transactions f'"] e' i off w(2)
      by (simp add: f'_def dec_eq_iff)
    have p': "all_printed f'" using p i by (simp add: f'_def with_amount_printed)
    note d = diagnose_one_break [OF r p' b g e']
    have i': "i < length (sf_transactions f')" using i by (simp add: f'_def)
    have ap: "apply_forced f' (diagnose f') = Inr (with_amount f' i (implied_at f' i))"
      using d i' by (intro apply_forced_amount) auto
    have "dec_val (implied_at f' i) = dec_val (tf_amount (?ts ! i))"
      using implied_val(2) [OF r i'] off [OF i] i by (simp add: f'_def with_amount_nth)
    then show "let f' = f\<lparr>sf_transactions := ?ts[i := (?ts ! i)\<lparr>tf_amount := w\<rparr>]\<rparr> in
       rf_status (diagnose f') = FORCED \<and> rf_target_index (diagnose f') = Some i
       \<and> (\<exists>g. apply_forced f' (diagnose f') = Inr g \<and> dec_eq (tf_amount (sf_transactions g ! i)) (tf_amount (?ts ! i)))"
      using d ap i' unfolding with_amount_def [of f i w, symmetric] f'_def [symmetric] Let_def
      by (simp add: with_amount_nth dec_eq_iff)
  }
  {
    assume w: "money_range w" "\<not> dec_eq w (sf_closing_amount f)"
    define f' where "f' = f\<lparr>sf_closing_amount := w\<rparr>"
    have r: "statement_range f'" using assms(1) w(1) by (simp add: statement_range_def f'_def)
    have g: "dec_val (gap_delta f') \<noteq> 0" using gap_val [OF r] tot e w(2) by (simp add: f'_def dec_eq_iff)
    have "all_printed f'" "breaks_of f' = []" using p assms(4) by (simp_all add: f'_def all_printed_def)
    note d = diagnose_sound_chain [OF r this g]
    have "apply_forced f' (diagnose f') = Inr (f'\<lparr>sf_closing_amount := end_of f'\<rparr>)"
      using d by (intro apply_forced_closing) auto
    then show "let f' = f\<lparr>sf_closing_amount := w\<rparr> in
       rf_status (diagnose f') = FORCED \<and> rf_kind (diagnose f') = ''balance_misread''
       \<and> (\<exists>g. apply_forced f' (diagnose f') = Inr g \<and> dec_eq (sf_closing_amount g) (sf_closing_amount f))"
      using d e unfolding f'_def [symmetric] Let_def by (simp add: dec_eq_iff) (simp add: f'_def)
  }
qed

text \<open>
  C15: one misread figure is found and restored. Take a statement in the money range that prints a
  running balance on every line, whose chain is right and ends at its closing balance. If the amount of
  one line is misread as any other amount, the diagnosis forces a correction of exactly that line, and
  applying it gives back an amount of the true value; if instead the closing balance is misread, it
  forces a correction of the closing balance, and applying it gives back the true one.
\<close>
theorem one_misread_figure_is_restored:
  assumes "statement_range f" "sf_transactions f \<noteq> []"
    "list_all (\<lambda>t. tf_running_balance t \<noteq> None) (sf_transactions f)"
    "chain_breaks (sf_opening_amount f) 0 (sf_transactions f) = []"
    "dec_eq (last_printed (sf_opening_amount f) (sf_transactions f)) (sf_closing_amount f)"
    "i < length (sf_transactions f)" "money_range w"
  shows "(\<not> dec_eq w (tf_amount (sf_transactions f ! i)) \<longrightarrow>
      (let f' = f\<lparr>sf_transactions := (sf_transactions f)[i := (sf_transactions f ! i)\<lparr>tf_amount := w\<rparr>]\<rparr> in
       rf_status (diagnose f') = FORCED \<and> rf_target_index (diagnose f') = Some i
       \<and> (\<exists>g. apply_forced f' (diagnose f') = Inr g
              \<and> dec_eq (tf_amount (sf_transactions g ! i)) (tf_amount (sf_transactions f ! i)))))
    \<and> (\<not> dec_eq w (sf_closing_amount f) \<longrightarrow>
      (let f' = f\<lparr>sf_closing_amount := w\<rparr> in
       rf_status (diagnose f') = FORCED \<and> rf_kind (diagnose f') = ''balance_misread''
       \<and> (\<exists>g. apply_forced f' (diagnose f') = Inr g \<and> dec_eq (sf_closing_amount g) (sf_closing_amount f))))"
  using one_misread_figure [OF assms(1-5)] assms(6,7) by blast

definition demo_chain :: statement_facts where
  "demo_chain =
     (let line = (\<lambda>c b. \<lparr>tf_date = Some ''2026-01-05'', tf_description = ''Shop'', tf_amount = Dec c (- 2), tf_page = JNull,
         tf_running_balance = Some (Dec b (- 2)), tf_source_doc_id = [], tf_grade = [], tf_note = [],
         tf_source_reference = [], tf_counterparty_reference = []\<rparr>) in
      \<lparr>sf_doc_id = ''d1'', sf_doc_type = ''bank_statement'', sf_confidence = Some ''0.9'', sf_account_ref = ''Checking'',
       sf_currency = ''USD'', sf_opening_amount = Dec 10000 (- 2), sf_opening_date = ''2026-01-01'',
       sf_closing_amount = Dec 8500 (- 2), sf_closing_date = ''2026-01-31'',
       sf_transactions = [line (- 2500) 7500, line 1000 8500], sf_opening_page = JNull, sf_closing_page = JNull,
       sf_account_number = [], sf_institution = [], sf_account_names = [], sf_source_account_ref = [],
       sf_source_account_ref_page = None, sf_acquisition = None, sf_page_count = None\<rparr>)"

theorem forced_repair_closes_both_identities_witness:
  "statement_range (with_amount demo_chain 0 (Dec (- 5200) (- 2)))
   \<and> rf_status (diagnose (with_amount demo_chain 0 (Dec (- 5200) (- 2)))) = FORCED
   \<and> (\<exists>g r. apply_forced (with_amount demo_chain 0 (Dec (- 5200) (- 2)))
         (diagnose (with_amount demo_chain 0 (Dec (- 5200) (- 2)))) = Inr g \<and> reconciles g = Inr r \<and> passed r)"
proof -
  let ?f = "with_amount demo_chain 0 (Dec (- 5200) (- 2))"
  have "statement_range ?f" "rf_status (diagnose ?f) = FORCED" by code_simp+
  then show ?thesis using forced_repair_closes_both_identities [of ?f] by blast
qed

theorem one_misread_figure_is_restored_witness:
  "statement_range demo_chain \<and> \<not> dec_eq (Dec (- 5200) (- 2)) (tf_amount (sf_transactions demo_chain ! 0))
   \<and> rf_target_index (diagnose (with_amount demo_chain 0 (Dec (- 5200) (- 2)))) = Some 0
   \<and> rf_status (diagnose (demo_chain\<lparr>sf_closing_amount := Dec (- 5200) (- 2)\<rparr>)) = FORCED"
proof -
  have h: "statement_range demo_chain" "sf_transactions demo_chain \<noteq> []"
    "list_all (\<lambda>t. tf_running_balance t \<noteq> None) (sf_transactions demo_chain)"
    "chain_breaks (sf_opening_amount demo_chain) 0 (sf_transactions demo_chain) = []"
    "dec_eq (last_printed (sf_opening_amount demo_chain) (sf_transactions demo_chain)) (sf_closing_amount demo_chain)"
    "0 < length (sf_transactions demo_chain)" "money_range (Dec (- 5200) (- 2))"
    by code_simp+
  moreover have "\<not> dec_eq (Dec (- 5200) (- 2)) (tf_amount (sf_transactions demo_chain ! 0))"
    "\<not> dec_eq (Dec (- 5200) (- 2)) (sf_closing_amount demo_chain)" by code_simp+
  ultimately show ?thesis using one_misread_figure_is_restored [OF h] by (simp add: with_amount_def Let_def)
qed

end
