(* ===== verification/Projection_Reads.thy ===== *)
theory Projection_Reads
  imports Projection_Core Diagnose
begin

text \<open>
  Readers over the folded state: \<^verbatim>\<open>projection/balances.py\<close> (a balance with its grade), \<^verbatim>\<open>projection/accounts.py\<close>
  (which account a statement's identity signals belong to) and the ingest read-model of
  \<^verbatim>\<open>projection/coverage.py\<close>.
\<close>

subsection \<open>Balances\<close>

record balance_answer =
  ba_account :: string
  ba_amount :: decimal
  ba_grade :: string
  ba_as_of :: "string option"
  ba_provenance :: provenance
  ba_reconciliation :: "check_result option"
  ba_explanation :: string
  ba_currency :: string
  ba_dated :: string

definition balance_to_dict :: "balance_answer \<Rightarrow> json" where
  "balance_to_dict a =
     JObj [(''account'', JStr (ba_account a)), (''amount'', JStr (dec_str (ba_amount a))), (''currency'', JStr (ba_currency a)),
           (''grade'', JStr (ba_grade a)), (''as_of'', JOptStr (ba_as_of a)), (''dated'', JStr (ba_dated a)),
           (''provenance'', prov_to_dict (ba_provenance a)),
           (''reconciliation'', case ba_reconciliation a of None \<Rightarrow> JNull | Some r \<Rightarrow> JStr (explain r)),
           (''explanation'', JStr (ba_explanation a))]"

text \<open>\<^verbatim>\<open>st.opening or Decimal("0")\<close>: a zero opening is replaced by the literal zero.\<close>

definition effective :: "account_state \<Rightarrow> decimal" where
  "effective st =
     dec_add (case as_opening st of None \<Rightarrow> dec0 | Some d \<Rightarrow> if coeff d = 0 then dec0 else d) (as_balance st)"

definition running_balance :: "core \<Rightarrow> string \<Rightarrow> decimal option" where
  "running_balance c account =
     (case map_of (pc_acct c) account of
        None \<Rightarrow> None | Some st \<Rightarrow> if as_seen st then Some (effective st) else None)"

definition earliest_opening :: "core \<Rightarrow> string \<Rightarrow> decimal option" where
  "earliest_opening c account =
     (case map_of (pc_acct c) account of None \<Rightarrow> None | Some st \<Rightarrow> as_opening st)"

definition is_seeded :: "core \<Rightarrow> string \<Rightarrow> bool" where
  "is_seeded c account =
     (case map_of (pc_acct c) account of None \<Rightarrow> False | Some st \<Rightarrow> as_opening st \<noteq> None)"

definition answer_of ::
    "core \<Rightarrow> string \<Rightarrow> account_state \<Rightarrow> decimal \<Rightarrow> string \<Rightarrow> provenance \<Rightarrow> check_result option \<Rightarrow> string \<Rightarrow> balance_answer" where
  "answer_of c account st amount grade prov recon explanation =
     \<lparr>ba_account = account, ba_amount = amount, ba_grade = grade, ba_as_of = pc_as_of c, ba_provenance = prov,
      ba_reconciliation = recon, ba_explanation = explanation, ba_currency = as_currency st,
      ba_dated = (if as_closing_date st \<noteq> [] then as_closing_date st else as_opening_date st)\<rparr>"

definition balance :: "core \<Rightarrow> string \<Rightarrow> balance_answer res" where
  "balance c account =
     (case map_of (pc_acct c) account of
        None \<Rightarrow> Inl (KeyError account)
      | Some st \<Rightarrow>
          guardR (as_seen st) (KeyError account)
          (case as_closing st of
             None \<Rightarrow>
               Inr (answer_of c account st (effective st) UNVERIFIED (as_opening_prov st) None
                 ''Computed by replaying opening balance and transactions; no closing figure was attested to check it against.'')
           | Some cl \<Rightarrow>
               (case as_opening st of
                  None \<Rightarrow>
                    Inr (answer_of c account st cl VERIFIED (as_closing_prov st) None
                      ''Attested closing balance; no opening figure or transactions to corroborate it against.'')
                | Some op \<Rightarrow>
                    bindR (check_balance_identity (PDec op) (map PDec (as_period_deltas st)) (PDec cl) (PInt 0)) (\<lambda>recon.
                    if passed recon then
                      Inr (answer_of c account st cl (if as_closing_confirmed st then VERIFIED else CORROBORATED)
                        (as_closing_prov st) (Some recon)
                        (''Attested closing balance, ''
                         @ (if as_closing_confirmed st then ''confirmed by you and reconciled''
                            else ''opening plus the period'' @ [CHR 0x27] @ ''s transactions reconcile to it to the cent'')
                         @ ''.''))
                    else
                      Inr (answer_of c account st cl CONFLICTED (as_closing_prov st) (Some recon)
                        (''The attested closing balance and the transactions disagree: '' @ explain recon
                         @ ''. Surfaced, not averaged.''))))))"

definition income_by_currency :: "core \<Rightarrow> (string \<times> decimal) list" where
  "income_by_currency c =
     (let held = remdups (filter (\<lambda>x. x \<noteq> []) (map (\<lambda>(a, s). as_currency s)
                   (filter (\<lambda>(a, s). as_seen s \<and> as_kind s \<in> {''depository'', ''liability'', ''investment''}) (pc_acct c))));
          dflt = (case held of [x] \<Rightarrow> x | _ \<Rightarrow> ''?'') in
      foldl (\<lambda>out (account, st).
        if \<not> as_seen st \<or> \<not> starts_with account ''Income:'' \<or> account = INCOME_UNCATEGORIZED then out
        else
          (let amt = dec_neg (effective st); cur = (if as_currency st \<noteq> [] then as_currency st else dflt) in
           if dec_eq amt dec0 then out
           else dict_set cur (dec_add (case map_of out cur of None \<Rightarrow> dec0 | Some d \<Rightarrow> d) amt) out))
        [] (pc_acct c))"

subsection \<open>Documents\<close>

definition is_posted :: "core \<Rightarrow> string \<Rightarrow> bool" where
  "is_posted c doc = (doc \<in> pc_posted c)"

definition posted_period :: "core \<Rightarrow> string \<Rightarrow> string \<Rightarrow> (string \<times> string) option" where
  "posted_period c account fin = map_of (pc_periods c) (account, fin)"

definition is_pay_decomposed :: "core \<Rightarrow> string \<Rightarrow> string \<Rightarrow> string \<Rightarrow> bool" where
  "is_pay_decomposed c description pay_date gross = ((description, pay_date, gross) \<in> pc_decomposed c)"

definition open_holds :: "core \<Rightarrow> json list" where
  "open_holds c = map snd (filter (\<lambda>(did, b). did \<notin> pc_posted c) (pc_held c))"

definition gap_holds :: "core \<Rightarrow> json list" where
  "gap_holds c = filter (\<lambda>b. jget b ''reason'' = Some (JStr ''gap'')) (open_holds c)"

definition document_contributions :: "core \<Rightarrow> (string \<times> json) list" where
  "document_contributions c =
     map (\<lambda>(doc, amount, as_of).
       (case filter (\<lambda>(a, s). doc \<in> as_doc_ids s) (pc_acct c) of
          [] \<Rightarrow> (doc, JObj [(''account'', JStr []), (''currency'', JStr []), (''amount'', JStr amount), (''as_of'', JStr as_of)])
        | (a, s) # _ \<Rightarrow>
            (doc, JObj [(''account'', JStr a), (''currency'', JStr (as_currency s)), (''amount'', JStr amount),
                        (''as_of'', JStr as_of)])))
       (pc_doc_closing c)"

subsection \<open>Whose account a statement is\<close>

definition seen_account :: "core \<Rightarrow> string \<Rightarrow> bool" where
  "seen_account c account = (case map_of (pc_acct c) account of None \<Rightarrow> False | Some st \<Rightarrow> as_seen st)"

definition accounts :: "core \<Rightarrow> string list" where
  "accounts c = sort (map fst (filter (\<lambda>(a, s). as_seen s) (pc_acct c)))"

definition account_info :: "core \<Rightarrow> string \<Rightarrow> account_state res" where
  "account_info c account =
     (case map_of (pc_acct c) account of
        None \<Rightarrow> Inl (KeyError account) | Some st \<Rightarrow> guardR (as_seen st) (KeyError account) (Inr st))"

record resolution =
  rs_account_id :: string
  rs_key :: string
  rs_verdict :: string
  rs_candidate :: string
  rs_candidate_name :: string
  rs_candidates :: "string list"
  rs_reason :: string

definition Resolution :: "string \<Rightarrow> string \<Rightarrow> string \<Rightarrow> resolution" where
  "Resolution account key verdict =
     \<lparr>rs_account_id = account, rs_key = key, rs_verdict = verdict, rs_candidate = [], rs_candidate_name = [],
      rs_candidates = [], rs_reason = []\<rparr>"

definition learned_alias_matches :: "core \<Rightarrow> string \<Rightarrow> string list \<Rightarrow> string \<Rightarrow> string \<Rightarrow> bool" where
  "learned_alias_matches c key names account_ref kind =
     (case map_of (pc_alias_evidence c) key of
        None \<Rightarrow> False
      | Some (learned_names, learned_label, learned_kind) \<Rightarrow>
          if learned_kind \<noteq> [] \<and> learned_kind \<noteq> kind then False
          else
            ((names = [] \<and> learned_names = []) \<or> names_overlap names learned_names)
            \<and> ((slug account_ref \<noteq> [] \<and> slug account_ref = slug learned_label)
               \<or> account_labels_overlap account_ref learned_label))"

text \<open>The identity signals of a statement, as \<^verbatim>\<open>resolve\<close> takes them.\<close>

record identity_signals =
  sg_institution :: string
  sg_number :: string
  sg_ref :: string
  sg_names :: "string list"
  sg_kind :: string
  sg_doc_id :: string
  sg_currency :: string
  sg_source :: "source_account_identity option"

definition holders_agree :: "string list \<Rightarrow> string list \<Rightarrow> bool" where
  "holders_agree names theirs = ((names = [] \<and> theirs = []) \<or> names_overlap names theirs)"

definition full_numbers_differ :: "string \<Rightarrow> account_state \<Rightarrow> bool" where
  "full_numbers_differ mine_full st =
     (mine_full \<noteq> [] \<and> usable_full_number (as_number st) \<noteq> [] \<and> mine_full \<noteq> usable_full_number (as_number st))"

definition number_candidate :: "identity_signals \<Rightarrow> string \<Rightarrow> string \<Rightarrow> string \<Rightarrow> account_state \<Rightarrow> bool" where
  "number_candidate sg key mine_number mine_full st =
     (let theirs = identity_number_key (as_number st) (as_name st) in
      theirs \<noteq> [] \<and> mine_number = theirs
      \<and> (account_key (as_institution st) (as_number st) (as_name st) = key
         \<or> institution_names_overlap (sg_institution sg) (as_institution st))
      \<and> \<not> full_numbers_differ mine_full st)"

definition alias_scope :: "core \<Rightarrow> identity_signals \<Rightarrow> string \<Rightarrow> bool" where
  "alias_scope c sg key =
     (map_of (pc_alias_evidence c) key = None \<or> learned_alias_matches c key (sg_names sg) (sg_ref sg) (sg_kind sg))"

definition resolve_one ::
    "core \<Rightarrow> identity_signals \<Rightarrow> string \<Rightarrow> string \<Rightarrow> string \<Rightarrow> string \<times> account_state \<Rightarrow> resolution" where
  "resolve_one c sg key preferred mine_full cand =
     (case cand of (aid, st) \<Rightarrow>
        if map_of (pc_aliases c) key = Some aid \<and> alias_scope c sg key
           \<and> \<not> (mine_full \<noteq> [] \<and> usable_full_number (as_number st) = [])
        then Resolution aid key ''same''
        else if holders_agree (sg_names sg) (as_names st) \<and> account_labels_overlap (sg_ref sg) (as_name st)
        then Resolution aid key ''same''
        else
          (let who = masked_label (if as_name st \<noteq> [] then as_name st else aid) in
           (Resolution preferred key ''ambiguous'')
           \<lparr>rs_candidate := aid, rs_candidate_name := who, rs_candidates := [aid],
            rs_reason := ''the trailing digits and institution match '' @ who
              @ '', but the holder or product evidence is not strong enough to merge them safely''\<rparr>))"

definition resolve_many ::
    "identity_signals \<Rightarrow> string \<Rightarrow> string \<Rightarrow> (string \<times> account_state) list \<Rightarrow> resolution" where
  "resolve_many sg key preferred cands =
     (case filter (\<lambda>(aid, st). holders_agree (sg_names sg) (as_names st) \<and> account_labels_overlap (sg_ref sg) (as_name st)) cands of
        [(aid, st)] \<Rightarrow> Resolution aid key ''same''
      | _ \<Rightarrow>
          (Resolution preferred key ''ambiguous'')
          \<lparr>rs_candidates := map fst cands,
           rs_reason := ''the available trailing digits identify more than one account, and this statement does not ''
             @ ''contain enough information to choose safely''\<rparr>)"

text \<open>
  The references an account holds: those a validated page bounds, and those with any page of a
  captured document behind them.
\<close>

definition references_of :: "core \<Rightarrow> string \<Rightarrow> string list" where
  "references_of c aid =
     map ar_reference (filter (\<lambda>r. ar_scope r = ''account'' \<and> map_of (pc_captured c) (ar_doc_id r) \<noteq> None
         \<and> source_claim_ok (ar_reference r) (ar_doc_id r) (ar_page r) (ar_page_count r))
       (case map_of (pc_account_refs c) aid of None \<Rightarrow> [] | Some rs \<Rightarrow> rs))"

definition reference_history :: "core \<Rightarrow> string \<Rightarrow> string list" where
  "reference_history c aid =
     map ar_reference (filter (\<lambda>r. ar_scope r = ''account'' \<and> map_of (pc_captured c) (ar_doc_id r) \<noteq> None
         \<and> source_claim_ok (ar_reference r) (ar_doc_id r) (ar_page r) (Some 200))
       (case map_of (pc_account_refs c) aid of None \<Rightarrow> [] | Some rs \<Rightarrow> rs))"

definition source_compatible :: "identity_signals \<Rightarrow> account_state \<Rightarrow> bool" where
  "source_compatible sg st =
     (sg_institution sg \<noteq> [] \<and> as_institution st \<noteq> [] \<and> institution_names_overlap (sg_institution sg) (as_institution st)
      \<and> sg_currency sg \<noteq> [] \<and> as_currency st = sg_currency sg
      \<and> (sg_names sg = [] \<or> as_names st = [] \<or> names_overlap (sg_names sg) (as_names st)))"

definition unnumbered :: "account_state \<Rightarrow> bool" where
  "unnumbered st = (identity_number_key (as_number st) (as_name st) = [])"

text \<open>The last rungs: an account under the preferred key, then a shared holder name, then a new account.\<close>

definition name_conflict :: "identity_signals \<Rightarrow> string \<Rightarrow> string \<Rightarrow> account_state \<Rightarrow> bool" where
  "name_conflict sg mine_number mine_full st =
     (let theirs = identity_number_key (as_number st) (as_name st) in
      \<not> full_numbers_differ mine_full st
      \<and> as_names st \<noteq> [] \<and> names_overlap (sg_names sg) (as_names st)
      \<and> \<not> (mine_number \<noteq> [] \<and> theirs \<noteq> [] \<and> mine_number \<noteq> theirs)
      \<and> \<not> (mine_number = [] \<and> theirs = [] \<and> slug (sg_ref sg) \<noteq> [] \<and> slug (as_name st) \<noteq> []
           \<and> slug (sg_ref sg) \<noteq> slug (as_name st)))"

definition resolve_rest ::
    "core \<Rightarrow> identity_signals \<Rightarrow> string \<Rightarrow> string \<Rightarrow> string \<Rightarrow> string \<Rightarrow> string list \<Rightarrow> (string \<times> account_state) list \<Rightarrow> resolution" where
  "resolve_rest c sg key preferred mine_number mine_full excluded known =
     (if mine_number = [] \<and> preferred \<notin> set excluded
         \<and> (case map_of (pc_acct c) preferred of None \<Rightarrow> False | Some st \<Rightarrow> as_seen st \<and> as_kind st = sg_kind sg)
      then Resolution preferred key ''same''
      else case filter (\<lambda>(aid, st). name_conflict sg mine_number mine_full st) known of
             (aid, st) # _ \<Rightarrow>
               (let who = masked_label (if as_name st \<noteq> [] then as_name st else aid) in
                (Resolution preferred key ''ambiguous'')
                \<lparr>rs_candidate := aid, rs_candidate_name := who, rs_candidates := [aid],
                 rs_reason := ''a holder name matches '' @ who @ '', and nothing stronger tells them apart''\<rparr>)
           | [] \<Rightarrow> Resolution preferred key ''new'')"

definition resolve_source ::
    "core \<Rightarrow> identity_signals \<Rightarrow> source_account_identity \<Rightarrow> string \<Rightarrow> string \<Rightarrow> string \<Rightarrow> (string \<times> account_state) list \<Rightarrow> resolution" where
  "resolve_source c sg src key preferred mine_full known =
     (let named = filter (\<lambda>(aid, st). source_compatible sg st \<and> unnumbered st \<and> sai_reference src \<in> set (references_of c aid)) known;
          matches = map fst named;
          conflicting = filter (\<lambda>aid. length (remdups (reference_history c aid)) > 1) matches;
          excluded = map fst (filter (\<lambda>(aid, st). \<not> source_compatible sg st
              \<or> (unnumbered st \<and> sai_reference src \<notin> set (references_of c aid) \<and> references_of c aid \<noteq> [])) known) in
      if length matches > 1 \<or> conflicting \<noteq> [] then
        (let candidate = (case matches of [m] \<Rightarrow> m | _ \<Rightarrow> []) in
         (Resolution preferred key ''ambiguous'')
         \<lparr>rs_candidate := candidate,
          rs_candidate_name := (if candidate = [] then [] else masked_label (as_name (state_of c candidate))),
          rs_candidates := matches,
          rs_reason := ''the printed account reference identifies conflicting or multiple accounts''\<rparr>)
      else case matches of
             [m] \<Rightarrow> Resolution m key ''same''
           | _ \<Rightarrow> resolve_rest c sg key preferred [] mine_full excluded
                    (filter (\<lambda>(aid, st). aid \<notin> set excluded) known))"

definition resolve :: "core \<Rightarrow> identity_signals \<Rightarrow> resolution" where
  "resolve c sg =
     (let key = account_key (sg_institution sg) (sg_number sg) (sg_ref sg);
          preferred = preferred_account_key (sg_institution sg) (sg_number sg) (sg_ref sg);
          decided = (if sg_doc_id sg = [] then [] else case map_of (pc_document_aliases c) (sg_doc_id sg) of None \<Rightarrow> [] | Some a \<Rightarrow> a);
          decided_ok = (decided \<noteq> [] \<and>
            (case map_of (pc_acct c) decided of
               None \<Rightarrow> starts_with decided (''acct:'' @ slug (sg_kind sg) @ '':'')
             | Some st \<Rightarrow> as_seen st \<and> as_kind st = sg_kind sg)) in
      if decided_ok then Resolution decided key ''same''
      else if conflicting_number_signals (sg_number sg) (sg_ref sg) then
        (Resolution preferred key ''ambiguous'')
        \<lparr>rs_reason := ''the extracted account number and the printed last four disagree, so neither can safely identify the account''\<rparr>
      else
        (let mine_number = identity_number_key (sg_number sg) (sg_ref sg); mine_full = usable_full_number (sg_number sg);
             known = filter (\<lambda>(aid, st). as_seen st \<and> as_kind st = sg_kind sg) (pc_acct c);
             full = (if length mine_full > 4 then filter (\<lambda>(aid, st). usable_full_number (as_number st) = mine_full) known else []);
             cands = (if mine_number = [] then []
                      else filter (\<lambda>(aid, st). number_candidate sg key mine_number mine_full st) known) in
         case full of
           (aid, st) # _ \<Rightarrow> Resolution aid key ''same''
         | [] \<Rightarrow>
             (case cands of
                [cand] \<Rightarrow> resolve_one c sg key preferred mine_full cand
              | _ # _ # _ \<Rightarrow> resolve_many sg key preferred cands
              | [] \<Rightarrow>
                  (let target = (case map_of (pc_aliases c) key of None \<Rightarrow> [] | Some a \<Rightarrow> a);
                       target_state = (if target = [] then None else map_of (pc_acct c) target) in
                   if map_of (pc_aliases c) key = Some preferred \<and> target_state = None then Resolution target key ''same''
                   else if alias_scope c sg key
                        \<and> (case target_state of None \<Rightarrow> False
                           | Some st \<Rightarrow> as_seen st \<and> as_kind st = sg_kind sg \<and> \<not> full_numbers_differ mine_full st)
                   then Resolution target key ''same''
                   else case sg_source sg of
                          Some src \<Rightarrow>
                            if eligible src \<and> sai_doc_id src = sg_doc_id sg \<and> map_of (pc_captured c) (sg_doc_id sg) \<noteq> None
                               \<and> mine_number = []
                            then resolve_source c sg src key preferred mine_full known
                            else resolve_rest c sg key preferred mine_number mine_full [] known
                        | None \<Rightarrow> resolve_rest c sg key preferred mine_number mine_full [] known))))"

end
