(* ===== verification/Transfers.thy ===== *)
theory Transfers
  imports Projection_Reads "HOL-Library.Product_Lexorder"
begin

text \<open>
  \<^verbatim>\<open>product/viva/ingest/transfers.py\<close>, the recognition of two movements as one internal transfer, over the
  enumeration of movements of \<^verbatim>\<open>projection/movements.py\<close>. What a movement is economically is not part of
  the enumeration here. The parts a description names, a printed date and an account reference, are an
  argument \<open>parts\<close>: the descriptor grammars belong to another package.
\<close>

subsection \<open>The enumeration of movements\<close>

record movement =
  mv_key :: string
  mv_account :: string
  mv_kind :: string
  mv_date :: string
  mv_amount :: decimal
  mv_description :: string
  mv_currency :: string
  mv_provenance :: provenance
  mv_linked :: bool

definition linked_keys :: "core \<Rightarrow> string set" where
  "linked_keys c = (\<Union>((a, b), i) \<in> set (pc_links c). if li_status i = ''linked'' then {a, b} else {})"

definition sorted_lines :: "account_state \<Rightarrow> txn_line list" where
  "sorted_lines st = sort_key (\<lambda>l. (ln_date l, ln_description l, dec_str (ln_amount l))) (as_lines st)"

definition line_rows :: "core \<Rightarrow> (string \<times> txn_line) list" where
  "line_rows c =
     concat (map (\<lambda>a. map (\<lambda>l. (a, l)) (sorted_lines (state_of c a)))
       (filter (\<lambda>a. as_kind (state_of c a) \<in> {''depository'', ''liability'', ''investment''}) (accounts c)))"

definition signature :: "string \<times> txn_line \<Rightarrow> string \<times> string \<times> string \<times> string \<times> string" where
  "signature r = (case r of (a, l) \<Rightarrow>
     (prov_doc_id (ln_provenance l), a, ln_date l, dec_str (ln_amount l), ln_description l))"

text \<open>Identical siblings are told apart by how many came before.\<close>

fun number_rows :: "(string \<times> txn_line) list \<Rightarrow> (string \<times> txn_line) list \<Rightarrow> (string \<times> string \<times> txn_line) list" where
  "number_rows done [] = []"
| "number_rows done (r # rs) =
     (case r of (a, l) \<Rightarrow>
        (movement_key (prov_doc_id (ln_provenance l)) a (ln_date l) (dec_str (ln_amount l)) (ln_description l)
           (int (length (filter (\<lambda>q. signature q = signature r) done))), a, l))
     # number_rows (r # done) rs"

definition enumerated :: "core \<Rightarrow> (string \<times> string \<times> txn_line) list" where
  "enumerated c = number_rows [] (line_rows c)"

definition movements :: "core \<Rightarrow> movement list" where
  "movements c =
     map (\<lambda>(key, a, l).
       \<lparr>mv_key = key, mv_account = a, mv_kind = as_kind (state_of c a), mv_date = ln_date l, mv_amount = ln_amount l,
        mv_description = ln_description l, mv_currency = as_currency (state_of c a), mv_provenance = ln_provenance l,
        mv_linked = (key \<in> linked_keys c)\<rparr>)
     (enumerated c)"

definition transfer_suggestions :: "core \<Rightarrow> json list" where
  "transfer_suggestions c =
     map snd (filter (\<lambda>(k, s).
       (case jstr_of s ''a'' of None \<Rightarrow> True | Some a \<Rightarrow> a \<notin> linked_keys c)
       \<and> \<not> (case jget s ''candidates'' of
               Some (JArr cands) \<Rightarrow>
                 cands \<noteq> [] \<and> list_all (\<lambda>j. case j of JStr k \<Rightarrow> k \<in> linked_keys c | _ \<Rightarrow> False) cands
             | _ \<Rightarrow> False)) (pc_suggestions c))"

subsection \<open>The candidate gate\<close>

definition DATE_WINDOW_DAYS :: int where "DATE_WINDOW_DAYS = 5"

definition dec_neg_amount :: "decimal \<Rightarrow> bool" where
  "dec_neg_amount d = dec_lt d dec0"

definition flow :: "movement \<Rightarrow> string" where
  "flow m =
     (if mv_kind m = ''depository'' \<or> mv_kind m = ''investment'' then
        (if dec_neg_amount (mv_amount m) then ''source'' else ''destination'')
      else if mv_kind m = ''liability'' then (if dec_neg_amount (mv_amount m) then ''destination'' else ''neither'')
      else ''neither'')"

definition days_apart :: "string \<Rightarrow> string \<Rightarrow> int" where
  "days_apart a b =
     (case (fromisoformat (take 10 a), fromisoformat (take 10 b)) of
        (Some x, Some y) \<Rightarrow> \<bar>int (toordinal x) - int (toordinal y)\<bar>
      | _ \<Rightarrow> 10000)"

definition is_transfer_candidate :: "movement \<Rightarrow> movement \<Rightarrow> bool" where
  "is_transfer_candidate s d =
     (flow s = ''source'' \<and> flow d = ''destination'' \<and> mv_account d \<noteq> mv_account s \<and> mv_currency d = mv_currency s
      \<and> dec_eq (dec_abs (mv_amount d)) (dec_abs (mv_amount s)) \<and> days_apart (mv_date s) (mv_date d) \<le> DATE_WINDOW_DAYS)"

text \<open>
  For each source the destinations it could pair with, sources without any left out; and the sources by
  key. Both are dicts: a later movement of the same key replaces an earlier one.
\<close>

type_synonym graph = "(string \<times> movement list) list"

definition unlinked_flow :: "core \<Rightarrow> string \<Rightarrow> movement list" where
  "unlinked_flow c f = filter (\<lambda>m. flow m = f) (filter (\<lambda>m. \<not> mv_linked m) (movements c))"

definition candidates :: "core \<Rightarrow> graph \<times> (string \<times> movement) list" where
  "candidates c =
     (let sources = unlinked_flow c ''source''; dests = unlinked_flow c ''destination'' in
      (dict_of (concat (map (\<lambda>s. case filter (is_transfer_candidate s) dests of [] \<Rightarrow> [] | ds \<Rightarrow> [(mv_key s, ds)]) sources)),
       dict_of (map (\<lambda>s. (mv_key s, s)) sources)))"

subsection \<open>Evidence\<close>

definition names_account :: "string \<Rightarrow> string list \<Rightarrow> bool" where
  "names_account t tokens = list_ex (text_has_token t) tokens"

definition distinctive :: "core \<Rightarrow> (string \<times> string list) list" where
  "distinctive c =
     distinctive_tokens
       (map (\<lambda>a. (a, account_tokens (as_institution (state_of c a)) (as_number (state_of c a)) (as_name (state_of c a)))) (accounts c))
       (map (\<lambda>a. (a, as_institution (state_of c a))) (accounts c))"

definition tokens_at :: "(string \<times> string list) list \<Rightarrow> string \<Rightarrow> string list" where
  "tokens_at dtoks a = (case map_of dtoks a of None \<Rightarrow> [] | Some ts \<Rightarrow> ts)"

definition strong_hint :: "(string \<times> string list) list \<Rightarrow> movement \<Rightarrow> movement \<Rightarrow> bool" where
  "strong_hint dtoks s d =
     (let t = lower (mv_description s @ '' '' @ mv_description d) in
      names_account t (tokens_at dtoks (mv_account s)) \<or> names_account t (tokens_at dtoks (mv_account d)))"

record descriptor_parts =
  dp_date :: string
  dp_account_ref :: string

definition int_at :: "string \<Rightarrow> int option" where
  "int_at s =
     (case take_sign (strip s) of (neg, ds) \<Rightarrow>
        if ds \<noteq> [] \<and> list_all is_digit ds then Some (if neg then - int (digits_val ds) else int (digits_val ds)) else None)"

text \<open>\<^verbatim>\<open>\\s*(\\d{1,2})[/-](\\d{1,2})\<close> at the start of the text.\<close>

definition printed_pair :: "string \<Rightarrow> (int \<times> int) option" where
  "printed_pair shown =
     (let t = dropWhile is_space shown; a = takeWhile is_digit t; rest = dropWhile is_digit t;
          b = takeWhile is_digit (drop 1 rest) in
      if a \<noteq> [] \<and> length a \<le> 2 \<and> rest \<noteq> [] \<and> hd rest \<in> {CHR ''/'', CHR ''-''} \<and> b \<noteq> []
      then Some (int (digits_val a), int (digits_val (take 2 b))) else None)"

definition prints_date :: "string \<Rightarrow> string \<Rightarrow> bool" where
  "prints_date shown day_iso =
     (case printed_pair shown of
        None \<Rightarrow> False
      | Some (a, b) \<Rightarrow>
          length day_iso \<ge> 10 \<and>
          (case (int_at (take 2 (drop 5 day_iso)), int_at (take 2 (drop 8 day_iso))) of
             (Some month, Some day) \<Rightarrow> (a, b) = (month, day) \<or> (b, a) = (month, day)
           | _ \<Rightarrow> False))"

definition account_evidence ::
    "(string \<times> string list) list \<Rightarrow> movement \<Rightarrow> movement \<Rightarrow> descriptor_parts \<Rightarrow> string" where
  "account_evidence dtoks s d p =
     (let ref = lower (strip (dp_account_ref p)) in
      if ref \<noteq> [] \<and> ref \<in> set (tokens_at dtoks (mv_account d)) then ''account_ref_slot''
      else if strong_hint dtoks s d then ''named_account'' else [])"

definition EV_ACCOUNT :: nat where "EV_ACCOUNT = 2"
definition EV_DATE :: nat where "EV_DATE = 1"
definition EV_FLOOR :: nat where "EV_FLOOR = EV_ACCOUNT"

text \<open>The score of a pair and the names of the rules behind it.\<close>

definition dated_by :: "descriptor_parts \<Rightarrow> movement \<Rightarrow> bool" where
  "dated_by p d = (dp_date p \<noteq> [] \<and> prints_date (dp_date p) (mv_date d))"

definition strength_of :: "(movement \<Rightarrow> descriptor_parts) \<Rightarrow> (string \<times> string list) list \<Rightarrow> movement \<Rightarrow> movement \<Rightarrow> nat" where
  "strength_of parts dtoks s d =
     (if account_evidence dtoks s d (parts s) \<noteq> [] then EV_ACCOUNT else 0)
     + (if dated_by (parts s) d then EV_DATE else 0)"

definition why_of :: "(movement \<Rightarrow> descriptor_parts) \<Rightarrow> (string \<times> string list) list \<Rightarrow> movement \<Rightarrow> movement \<Rightarrow> string" where
  "why_of parts dtoks s d =
     join ''+'' (filter (\<lambda>x. x \<noteq> [])
       [account_evidence dtoks s d (parts s), if dated_by (parts s) d then ''printed_date'' else []])"

type_synonym scores = "((string \<times> string) \<times> nat \<times> string) list"

definition weigh ::
    "(movement \<Rightarrow> descriptor_parts) \<Rightarrow> (string \<times> string list) list \<Rightarrow> graph \<Rightarrow> (string \<times> movement) list \<Rightarrow> scores" where
  "weigh parts dtoks graph sources =
     dict_of (concat (map (\<lambda>(k, ds).
       case map_of sources k of
         None \<Rightarrow> []
       | Some s \<Rightarrow> map (\<lambda>d. ((k, mv_key d), strength_of parts dtoks s d, why_of parts dtoks s d)) ds) graph))"

subsection \<open>The decision\<close>

text \<open>The only item with the highest score, if that reaches the floor.\<close>

definition sole_max :: "'a list \<Rightarrow> ('a \<Rightarrow> nat) \<Rightarrow> 'a option" where
  "sole_max items score =
     (let best = Max (insert 0 (score ` set items)) in
      if best < EV_FLOOR then None
      else case filter (\<lambda>i. score i = best) items of [i] \<Rightarrow> Some i | _ \<Rightarrow> None)"

definition score_at :: "scores \<Rightarrow> string \<Rightarrow> string \<Rightarrow> nat" where
  "score_at sc s d = (case map_of sc (s, d) of None \<Rightarrow> 0 | Some (n, w) \<Rightarrow> n)"

definition claimants :: "scores \<Rightarrow> string \<Rightarrow> string list" where
  "claimants sc d = map (\<lambda>((s, d'), x). s) (filter (\<lambda>((s, d'), x). d' = d) sc)"

definition decide_one :: "scores \<Rightarrow> string set \<Rightarrow> string \<Rightarrow> string list \<Rightarrow> string option" where
  "decide_one sc consumed s ds =
     (case sole_max (filter (\<lambda>k. k \<notin> consumed) ds) (score_at sc s) of
        None \<Rightarrow> None
      | Some d \<Rightarrow>
          if sole_max (filter (\<lambda>r. r \<notin> consumed) (claimants sc d)) (\<lambda>r. score_at sc r d) = Some s then Some d else None)"

definition decide :: "(string \<times> string list) list \<Rightarrow> scores \<Rightarrow> string set \<Rightarrow> (string \<times> string) list" where
  "decide graph sc consumed =
     concat (map (\<lambda>(s, ds). if s \<in> consumed then []
                            else case decide_one sc consumed s ds of None \<Rightarrow> [] | Some d \<Rightarrow> [(s, d)]) (sort_key fst graph))"

subsection \<open>Corroborating legs\<close>

fun combos :: "nat \<Rightarrow> 'a list \<Rightarrow> 'a list list" where
  "combos k [] = (if k = 0 then [[]] else [])"
| "combos k (x # xs) = (if k = 0 then [[]] else map ((#) x) (combos (k - 1) xs) @ combos k xs)"

definition subsets_summing_to :: "movement list \<Rightarrow> decimal \<Rightarrow> nat \<Rightarrow> movement list list" where
  "subsets_summing_to items target max_size =
     (let n = min (length items) 12 in
      filter (\<lambda>combo. dec_eq (dec_sum (map (dec_abs \<circ> mv_amount) combo)) target)
        (concat (map (\<lambda>size. combos size (take n items)) [1..<min max_size n + 1])))"

definition corroborating_candidate ::
    "string \<Rightarrow> string \<Rightarrow> decimal \<Rightarrow> string \<Rightarrow> string \<Rightarrow> string \<Rightarrow> string list \<Rightarrow> movement \<Rightarrow> bool" where
  "corroborating_candidate account want gap currency o_date c_date tokens m =
     (\<not> (mv_linked m \<or> mv_account m = account \<or> mv_currency m \<noteq> currency)
      \<and> \<not> (flow m \<noteq> want \<or> dec_lt (dec_abs gap) (dec_abs (mv_amount m)))
      \<and> \<not> (days_apart (mv_date m) o_date > 45 \<and> days_apart (mv_date m) c_date > 45)
      \<and> names_account (mv_description m) tokens)"

definition find_corroborating_legs ::
    "core \<Rightarrow> string \<Rightarrow> string \<Rightarrow> decimal \<Rightarrow> string \<Rightarrow> string \<Rightarrow> string \<Rightarrow> string list option \<Rightarrow> movement list" where
  "find_corroborating_legs c account kind gap currency o_date c_date own_tokens =
     (let missing_is_source = (kind = ''depository'' \<and> dec_lt gap dec0);
          missing_is_destination = ((kind = ''depository'' \<and> dec_lt dec0 gap) \<or> (kind = ''liability'' \<and> dec_lt gap dec0));
          want = (if missing_is_destination then ''source'' else ''destination'');
          st = state_of c account;
          tokens = (case own_tokens of
                      Some ts \<Rightarrow> ts
                    | None \<Rightarrow> if seen_account c account then account_tokens (as_institution st) (as_number st) (as_name st) else []) in
      if dec_eq gap dec0 \<or> \<not> (missing_is_source \<or> missing_is_destination) \<or> tokens = [] then []
      else case subsets_summing_to
                  (filter (corroborating_candidate account want gap currency o_date c_date tokens) (movements c))
                  (dec_abs gap) 6 of
             [legs] \<Rightarrow> legs | _ \<Rightarrow> [])"

end
