(* ===== verification/Ledger_Work.thy ===== *)
theory Ledger_Work
  imports Transfers
begin

text \<open>
  Work on a ledger, as the projectors see it: \<^verbatim>\<open>ledger.projection()\<close> is the fold of the events and
  \<^verbatim>\<open>ledger.append(event)\<close> adds one event and folds it, which is what the facade provides (theory Ledger).
  Work takes the events so far and returns the events afterwards with a value or an exception: what was
  appended before an exception stays appended. This is the ledger that is not staged: \<^verbatim>\<open>review.py\<close> and the sweep of
  \<^verbatim>\<open>pipeline.py\<close> call the projectors on it, while the pipeline's ingest of a document runs them on staged work, which a
  raising projector discards as a whole (theory Ledger). What comes from outside is a record: the primitives the fold
  needs, the identities \<^verbatim>\<open>uuid4\<close> and \<^verbatim>\<open>token_hex\<close> draw (by position in the log), today's date, and the parts
  that the descriptor grammars name.
\<close>

record outside =
  ou_sha :: "string \<Rightarrow> string"
  ou_retained :: "json \<Rightarrow> string res"
  ou_fresh :: "nat \<Rightarrow> string"
  ou_token :: "nat \<Rightarrow> string"
  ou_today :: string
  ou_parts :: "movement \<Rightarrow> descriptor_parts"

type_synonym 'a work = "event list \<Rightarrow> event list \<times> 'a res"

definition retW :: "'a \<Rightarrow> 'a work" where
  "retW x es = (es, Inr x)"

definition liftW :: "'a res \<Rightarrow> 'a work" where
  "liftW r es = (es, r)"

definition bindW :: "'a work \<Rightarrow> ('a \<Rightarrow> 'b work) \<Rightarrow> 'b work" where
  "bindW m f es = (case m es of (es', Inl e) \<Rightarrow> (es', Inl e) | (es', Inr x) \<Rightarrow> f x es')"

definition projection :: "outside \<Rightarrow> core work" where
  "projection ou es = (es, project (ou_sha ou) (ou_retained ou) es None)"

text \<open>\<^verbatim>\<open>ledger.append(constructor(...))\<close>: the constructor takes the identity its event gets.\<close>

definition append_event :: "outside \<Rightarrow> (string \<Rightarrow> event res) \<Rightarrow> unit work" where
  "append_event ou mk es =
     (case mk (ou_fresh ou (length es)) of
        Inl x \<Rightarrow> (es, Inl x)
      | Inr e \<Rightarrow> (es @ [e], bindR (project (ou_sha ou) (ou_retained ou) (es @ [e]) None) (\<lambda>_. Inr ())))"

fun append_all :: "outside \<Rightarrow> (string \<Rightarrow> event res) list \<Rightarrow> unit work" where
  "append_all ou [] = retW ()"
| "append_all ou (mk # mks) = bindW (append_event ou mk) (\<lambda>_. append_all ou mks)"

text \<open>Work only ever appends.\<close>

definition extends :: "'a work \<Rightarrow> bool" where
  "extends m = (\<forall>es. \<exists>new. fst (m es) = es @ new)"

named_theorems extends_rules \<open>work that only appends\<close>

lemma extendsD: "extends m \<Longrightarrow> m es = (es', r) \<Longrightarrow> \<exists>new. es' = es @ new"
  by (metis extends_def fst_conv)

lemma extends_basic [extends_rules]:
  "extends (retW x)" "extends (liftW r)" "extends (projection ou)" "extends (append_event ou mk)"
  by (auto simp: extends_def retW_def liftW_def projection_def append_event_def split: sum.splits)

lemma extends_bindW [extends_rules]: "extends m \<Longrightarrow> (\<And>x. extends (f x)) \<Longrightarrow> extends (bindW m f)"
proof -
  assume m: "extends m" and f: "\<And>x. extends (f x)"
  have "\<exists>new. fst (bindW m f es) = es @ new" for es
  proof -
    obtain es' r where r: "m es = (es', r)" by fastforce
    obtain new where new: "es' = es @ new" using extendsD [OF m r] by blast
    show ?thesis
    proof (cases r)
      case (Inl e)
      then show ?thesis using r new by (simp add: bindW_def)
    next
      case (Inr x)
      obtain new' where "fst (f x es') = es' @ new'" using f by (auto simp: extends_def)
      then show ?thesis using r new Inr by (simp add: bindW_def)
    qed
  qed
  then show ?thesis by (simp add: extends_def)
qed

lemma extends_append_all [extends_rules]: "extends (append_all ou mks)"
  by (induction mks) (auto intro!: extends_rules)

text \<open>An event whose fold succeeds is appended and folded.\<close>

lemma append_event_ok:
  assumes "project (ou_sha ou) (ou_retained ou) es None = Inr c" "mk (ou_fresh ou (length es)) = Inr e"
    "apply_event (ou_sha ou) (ou_retained ou) e c = Inr c'"
  shows "append_event ou mk es = (es @ [e], Inr ())"
    "project (ou_sha ou) (ou_retained ou) (es @ [e]) None = Inr c'"
  using assms by (simp_all add: append_event_def project_snoc)

end
