(* ===== verification/Projection_Frame.thy ===== *)
theory Projection_Frame
  imports Projection_Reads
begin

text \<open>
  Which fields of the projection an event leaves alone: rules over the result monad that follow the
  structure of the handlers, so that what an event does not touch is proved once for all handlers.
\<close>

lemma core_frame [simp]:
  "pc_as_of (upd_state a f c) = pc_as_of c" "pc_links (upd_state a f c) = pc_links c"
  "pc_as_of (add_posted d c) = pc_as_of c" "pc_links (add_posted d c) = pc_links c"
  by (simp_all add: upd_state_def add_posted_def)

lemma fold_frame: "(\<And>x s. g (f x s) = g s) \<Longrightarrow> g (fold f xs s) = g s"
  by (induction xs arbitrary: s) auto

lemma legs_frame [simp]:
  "pc_as_of (fold (post_leg e tt cur) ps c) = pc_as_of c" "pc_links (fold (post_leg e tt cur) ps c) = pc_links c"
  by (rule fold_frame, simp add: post_leg_def)+

text \<open>
  A result that leaves the field \<open>g\<close> alone, with rules that follow the structure of a handler.
\<close>

definition keepsR :: "(core \<Rightarrow> 'a) \<Rightarrow> 'a \<Rightarrow> core res \<Rightarrow> bool" where
  "keepsR g v r = (\<forall>c'. r = Inr c' \<longrightarrow> g c' = v)"

definition keeps :: "(core \<Rightarrow> 'a) \<Rightarrow> (event \<Rightarrow> core \<Rightarrow> core res) \<Rightarrow> bool" where
  "keeps g h = (\<forall>e c. keepsR g (g c) (h e c))"

named_theorems keeps_rules \<open>fields a handler leaves alone\<close>

lemma keepsR_Inr: "g c = v \<Longrightarrow> keepsR g v (Inr c)"
  by (simp add: keepsR_def)

lemma keepsR_bind: "(\<And>x. keepsR g v (f x)) \<Longrightarrow> keepsR g v (bindR m f)"
  by (auto simp: keepsR_def bindR_eq_Inr)

lemma keepsR_bind_core: "keepsR g v m \<Longrightarrow> (\<And>c. g c = v \<Longrightarrow> keepsR g v (f c)) \<Longrightarrow> keepsR g v (bindR m f)"
  by (auto simp: keepsR_def bindR_eq_Inr)

lemma keepsR_guard: "keepsR g v r \<Longrightarrow> keepsR g v (guardR b e r)"
  by (auto simp: keepsR_def guardR_eq_Inr)

lemma keepsR_if: "keepsR g v r \<Longrightarrow> keepsR g v s \<Longrightarrow> keepsR g v (if b then r else s)"
  by simp

lemma keepsR_option: "keepsR g v r \<Longrightarrow> (\<And>x. keepsR g v (s x)) \<Longrightarrow> keepsR g v (case m of None \<Rightarrow> r | Some x \<Rightarrow> s x)"
  by (simp split: option.split)

lemma keepsR_Inl: "keepsR g v (Inl e)"
  by (simp add: keepsR_def)

lemmas keepsR_rules = keepsR_Inl keepsR_bind keepsR_guard keepsR_if keepsR_option keepsR_Inr

lemmas handler_defs =
  fold_reference_def fold_account_opened_def fold_account_identity_def fold_opening_def fold_closing_def
  fold_captured_def fold_held_def fold_activity_held_def fold_activity_resolved_def
  fold_linked_def fold_unlinked_def fold_suggested_def fold_category_def fold_treatment_restored_def fold_ruling_def
  fold_declined_def fold_merchant_def fold_tagged_def fold_goal_created_def fold_goal_terms_def fold_goal_funds_def
  fold_goal_state_def fold_position_def fold_transaction_def

lemma keeps_as_of [keeps_rules]:
  "keeps pc_as_of fold_reference" "keeps pc_as_of fold_account_opened" "keeps pc_as_of fold_account_identity"
  "keeps pc_as_of fold_opening" "keeps pc_as_of fold_closing" "keeps pc_as_of fold_captured"
  "keeps pc_as_of fold_held" "keeps pc_as_of fold_activity_held" "keeps pc_as_of fold_activity_resolved"
  "keeps pc_as_of fold_suggested" "keeps pc_as_of fold_category" "keeps pc_as_of fold_treatment_restored"
  "keeps pc_as_of fold_ruling" "keeps pc_as_of fold_declined" "keeps pc_as_of fold_merchant"
  "keeps pc_as_of fold_tagged" "keeps pc_as_of fold_goal_created" "keeps pc_as_of fold_goal_terms"
  "keeps pc_as_of (fold_goal_funds b)" "keeps pc_as_of fold_goal_state" "keeps pc_as_of fold_position"
  "keeps pc_as_of fold_transaction" "keeps pc_as_of fold_linked" "keeps pc_as_of fold_unlinked"
  by (auto simp: keeps_def handler_defs Let_def intro!: keepsR_rules split: option.split)

lemma keeps_links [keeps_rules]:
  "keeps pc_links fold_reference" "keeps pc_links fold_account_opened" "keeps pc_links fold_account_identity"
  "keeps pc_links fold_opening" "keeps pc_links fold_closing" "keeps pc_links fold_captured"
  "keeps pc_links fold_held" "keeps pc_links fold_activity_held" "keeps pc_links fold_activity_resolved"
  "keeps pc_links fold_suggested" "keeps pc_links fold_category" "keeps pc_links fold_treatment_restored"
  "keeps pc_links fold_ruling" "keeps pc_links fold_declined" "keeps pc_links fold_merchant"
  "keeps pc_links fold_tagged" "keeps pc_links fold_goal_created" "keeps pc_links fold_goal_terms"
  "keeps pc_links (fold_goal_funds b)" "keeps pc_links fold_goal_state" "keeps pc_links fold_position"
  "keeps pc_links fold_transaction"
  by (auto simp: keeps_def handler_defs Let_def intro!: keepsR_rules split: option.split)

lemma keeps_read [keeps_rules]: "keeps pc_as_of (fold_read sha ret)" "keeps pc_links (fold_read sha ret)"
  unfolding keeps_def fold_read_def Let_def
  by (intro allI keepsR_bind [of _ _ _ "local_read _ _"] keepsR_bind_core keepsR_rules; simp)+

lemma keeps_alias [keeps_rules]: "keeps pc_as_of fold_alias" "keeps pc_links fold_alias"
  unfolding keeps_def fold_alias_def Let_def
  by (intro allI keepsR_bind_core keepsR_rules; simp)+

lemma handlers_keep:
  assumes "(ty, h) \<in> set (handlers sha ret)"
  shows "keeps pc_as_of h" "ty \<noteq> ''TransferLinked'' \<Longrightarrow> ty \<noteq> ''TransferUnlinked'' \<Longrightarrow> keeps pc_links h"
proof -
  have "list_all (\<lambda>(ty, h). keeps pc_as_of h) (handlers sha ret)"
    by (simp add: handlers_def keeps_rules)
  then show "keeps pc_as_of h" using assms by (auto simp: list_all_iff)
  have "list_all (\<lambda>(ty, h). ty \<noteq> ''TransferLinked'' \<longrightarrow> ty \<noteq> ''TransferUnlinked'' \<longrightarrow> keeps pc_links h) (handlers sha ret)"
    by (simp add: handlers_def keeps_rules)
  then show "ty \<noteq> ''TransferLinked'' \<Longrightarrow> ty \<noteq> ''TransferUnlinked'' \<Longrightarrow> keeps pc_links h"
    using assms by (auto simp: list_all_iff)
qed

lemma keepsD: "keeps g h \<Longrightarrow> h e c = Inr c' \<Longrightarrow> g c' = g c"
  by (simp add: keeps_def keepsR_def)

lemma claim_effect_keeps: "claim_effect e c = Inr c' \<Longrightarrow> pc_as_of c' = pc_as_of c \<and> pc_links c' = pc_links c"
proof -
  have "keepsR (\<lambda>c. (pc_as_of c, pc_links c)) (pc_as_of c, pc_links c) (claim_effect e c)"
    unfolding claim_effect_def by (auto intro!: keepsR_rules split: option.split json.split)
  then show "claim_effect e c = Inr c' \<Longrightarrow> ?thesis" by (auto simp: keepsR_def)
qed

lemma apply_event_cases:
  assumes "apply_event sha ret e c = Inr c'" "pc_as_of c = None"
  obtains (kept) "claim_effect e c = Inr c'" "map_of (handlers sha ret) (event_type e) = None"
  | (handled) c1 h where "claim_effect e c = Inr c1" "map_of (handlers sha ret) (event_type e) = Some h" "h e c1 = Inr c'"
proof -
  obtain c1 where c1: "claim_effect e c = Inr c1"
    and rest: "(case map_of (handlers sha ret) (event_type e) of None \<Rightarrow> Inr c1 | Some h \<Rightarrow> h e c1) = Inr c'"
    using assms unfolding apply_event_def apply_core_def by (fastforce simp: bindR_eq_Inr split: if_splits)
  show thesis
  proof (cases "map_of (handlers sha ret) (event_type e)")
    case None
    then show ?thesis using kept c1 rest by simp
  next
    case (Some h)
    then show ?thesis using handled [OF c1] rest by simp
  qed
qed

text \<open>
  A field of the projection that only some event types touch: what its readers rely on. The laws are
  about the handlers, one by one; the conclusion is about any event.
\<close>

locale frame_field =
  fixes g :: "core \<Rightarrow> 'a" and touched :: "string set"
  assumes claim: "claim_effect e c = Inr c' \<Longrightarrow> g c' = g c"
    and handler: "(ty, h) \<in> set (handlers sha ret) \<Longrightarrow> ty \<notin> touched \<Longrightarrow> keeps g h"
begin

lemma kept:
  assumes "apply_event sha ret e c = Inr c'" "pc_as_of c = None" "event_type e \<notin> touched"
  shows "g c' = g c"
  using assms(1,2)
proof (cases rule: apply_event_cases)
  case kept
  then show ?thesis using claim by blast
next
  case (handled c1 h)
  then show ?thesis using claim [OF handled(1)] keepsD [OF handler [OF map_of_SomeD assms(3)]] by metis
qed

end

interpretation horizon: frame_field pc_as_of "{}"
  using claim_effect_keeps handlers_keep(1) by unfold_locales blast+

interpretation links: frame_field pc_links "{''TransferLinked'', ''TransferUnlinked''}"
  using claim_effect_keeps handlers_keep(2) by unfold_locales blast+

lemma apply_event_as_of: "apply_event sha ret e c = Inr c' \<Longrightarrow> pc_as_of c = None \<Longrightarrow> pc_as_of c' = None"
  using horizon.kept by fastforce

lemma apply_event_links:
  assumes "apply_event sha ret e c = Inr c'" "pc_as_of c = None"
    "event_type e \<noteq> ''TransferLinked''" "event_type e \<noteq> ''TransferUnlinked''"
  shows "pc_links c' = pc_links c"
  using links.kept [OF assms(1,2)] assms(3,4) by blast

lemma project_as_of: "project sha ret es None = Inr c \<Longrightarrow> pc_as_of c = None"
proof (induction es arbitrary: c rule: rev_induct)
  case Nil
  then have "c = empty_core None" by (simp add: project_def)
  then show ?case by (simp add: empty_core_def)
next
  case (snoc e es)
  then obtain c0 where "project sha ret es None = Inr c0" "apply_event sha ret e c0 = Inr c"
    unfolding project_snoc by (auto simp: bindR_eq_Inr)
  with snoc.IH show ?case using apply_event_as_of by blast
qed

end
