(* ===== verification/Transfer_Links.thy ===== *)
theory Transfer_Links
  imports Ledger_Work Projection_Frame
begin

text \<open>
  The operations of \<^verbatim>\<open>product/viva/ingest/transfers.py\<close> that write: the scan \<^verbatim>\<open>link_transfers\<close>, a person's
  \<^verbatim>\<open>confirm_transfer\<close> and \<^verbatim>\<open>reject_transfer\<close>. Over any run of them a movement belongs to at most one live
  transfer, and what the scan links on its own is decided by account evidence that no rival matches.
\<close>

definition later :: "string \<Rightarrow> string \<Rightarrow> string" where
  "later a b = max a b"

definition evidence :: "movement \<Rightarrow> movement \<Rightarrow> string \<Rightarrow> string \<Rightarrow> json" where
  "evidence s d verdict decided_by =
     JObj [(''verdict'', JStr verdict), (''amount'', JStr (dec_str (dec_abs (mv_amount s)))),
           (''currency'', JStr (mv_currency s)), (''days_apart'', JInt (days_apart (mv_date s) (mv_date d))),
           (''source'', JStr (mv_account s)), (''destination'', JStr (mv_account d)), (''decided_by'', JStr decided_by),
           (''source_desc'', JStr (mv_description s)), (''destination_desc'', JStr (mv_description d))]"

definition why_at :: "scores \<Rightarrow> string \<Rightarrow> string \<Rightarrow> string" where
  "why_at sc s d = (case map_of sc (s, d) of None \<Rightarrow> [] | Some (n, w) \<Rightarrow> w)"

definition linked_event :: "scores \<Rightarrow> movement \<Rightarrow> movement \<Rightarrow> string \<Rightarrow> event res" where
  "linked_event sc src dst eid =
     Inr (transfer_linked eid (mv_key src) (mv_key dst) ''corroborated''
            (evidence src dst ''decisive'' (why_at sc (mv_key src) (mv_key dst)))
            (later (mv_date src) (mv_date dst)) ''auto'' None)"

definition suggested_event :: "movement \<Rightarrow> movement list \<Rightarrow> string \<Rightarrow> event res" where
  "suggested_event src cands eid =
     Inr (transfer_suggested eid (mv_key src) (map mv_key cands) (evidence src (hd cands) ''suggested'' [])
            (later (mv_date src) (mv_date (hd cands))) None)"

text \<open>What one source of the scan calls for, given the movements the scan already linked.\<close>

datatype step = Skip | Link movement movement | Suggest movement "movement list"

definition scan_step ::
    "graph \<Rightarrow> (string \<times> movement) list \<Rightarrow> (string \<times> string) list \<Rightarrow> string set \<Rightarrow> string set \<Rightarrow> string \<Rightarrow> step" where
  "scan_step graph sources verdicts open_sugg consumed k =
     (let cands = filter (\<lambda>m. mv_key m \<notin> consumed) (case map_of graph k of None \<Rightarrow> [] | Some ds \<Rightarrow> ds) in
      case map_of sources k of
        None \<Rightarrow> Skip
      | Some src \<Rightarrow>
          if k \<in> consumed \<or> cands = [] then Skip
          else case filter (\<lambda>m. Some (mv_key m) = map_of verdicts k) cands of
                 dst # _ \<Rightarrow> Link src dst
               | [] \<Rightarrow> if k \<in> open_sugg then Skip else Suggest src cands)"

fun scan ::
    "outside \<Rightarrow> graph \<Rightarrow> (string \<times> movement) list \<Rightarrow> scores \<Rightarrow> (string \<times> string) list \<Rightarrow> string set
     \<Rightarrow> string list \<Rightarrow> string set \<Rightarrow> nat \<Rightarrow> nat \<Rightarrow> (nat \<times> nat \<times> nat) work" where
  "scan ou graph sources sc verdicts open_sugg [] consumed auto sugg = retW (auto, auto, sugg)"
| "scan ou graph sources sc verdicts open_sugg (k # ks) consumed auto sugg =
     (case scan_step graph sources verdicts open_sugg consumed k of
        Skip \<Rightarrow> scan ou graph sources sc verdicts open_sugg ks consumed auto sugg
      | Link src dst \<Rightarrow>
          bindW (append_event ou (linked_event sc src dst)) (\<lambda>_.
          scan ou graph sources sc verdicts open_sugg ks (consumed \<union> {mv_key src, mv_key dst}) (auto + 1) sugg)
      | Suggest src cands \<Rightarrow>
          bindW (append_event ou (suggested_event src cands)) (\<lambda>_.
          scan ou graph sources sc verdicts open_sugg ks consumed auto (sugg + 1)))"

definition link_transfers :: "outside \<Rightarrow> (nat \<times> nat \<times> nat) work" where
  "link_transfers ou =
     bindW (projection ou) (\<lambda>c.
     case candidates c of (graph, sources) \<Rightarrow>
       (let sc = weigh (ou_parts ou) (distinctive c) graph sources;
            open_sugg = set (concat (map (\<lambda>s. case jstr_of s ''a'' of None \<Rightarrow> [] | Some a \<Rightarrow> [a]) (transfer_suggestions c)));
            verdicts = decide (map (\<lambda>(k, ds). (k, map mv_key ds)) graph) sc {} in
        scan ou graph sources sc verdicts open_sugg (sort (map fst graph)) {} 0 0))"

definition confirm_transfer :: "outside \<Rightarrow> string \<Rightarrow> string \<Rightarrow> bool work" where
  "confirm_transfer ou a b =
     bindW (projection ou) (\<lambda>c.
     if a \<in> linked_keys c \<or> b \<in> linked_keys c then retW False
     else bindW (append_event ou (\<lambda>eid. Inr (transfer_linked eid a b ''verified''
                   (JObj [(''kind'', JStr ''confirmed'')]) (ou_today ou) ''human'' None))) (\<lambda>_. retW True))"

definition reject_transfer :: "outside \<Rightarrow> string \<Rightarrow> string \<Rightarrow> unit work" where
  "reject_transfer ou a b =
     append_event ou (\<lambda>eid. Inr (transfer_unlinked eid a b (ou_today ou) ''human'' None))"

subsection \<open>A movement belongs to at most one live transfer\<close>

definition live :: "core \<Rightarrow> (string \<times> string) set" where
  "live c = {p. \<exists>i. map_of (pc_links c) p = Some i \<and> li_status i = ''linked''}"

definition ends :: "string \<times> string \<Rightarrow> string set" where
  "ends p = {fst p, snd p}"

definition one_transfer_each :: "core \<Rightarrow> bool" where
  "one_transfer_each c = (distinct (map fst (pc_links c)) \<and> (\<forall>p \<in> live c. \<forall>q \<in> live c. p \<noteq> q \<longrightarrow> ends p \<inter> ends q = {}))"

lemma ends_pair_key [simp]: "ends (pair_key a b) = {a, b}"
  by (auto simp: ends_def pair_key_def min_def max_def)

lemma linked_keys_live: "distinct (map fst (pc_links c)) \<Longrightarrow> linked_keys c = \<Union> (ends ` live c)"
  by (force simp: linked_keys_def live_def ends_def split: if_splits)

lemma map_of_transfer_handlers:
  "map_of (handlers sha ret) ''TransferLinked'' = Some fold_linked"
  "map_of (handlers sha ret) ''TransferUnlinked'' = Some fold_unlinked"
  by (simp_all add: handlers_def)

lemma apply_handled:
  assumes "apply_event sha ret e c = Inr c'" "pc_as_of c = None" "map_of (handlers sha ret) (event_type e) = Some h"
  obtains c1 where "claim_effect e c = Inr c1" "h e c1 = Inr c'"
  using assms by (cases rule: apply_event_cases) auto

lemma apply_transfer_linked:
  assumes "apply_event sha ret (transfer_linked eid a b g ev occ w p) c = Inr c'" "pc_as_of c = None"
  obtains i where "li_status i = ''linked''" "pc_links c' = dict_set (pair_key a b) i (pc_links c)"
proof -
  let ?e = "transfer_linked eid a b g ev occ w p"
  have "map_of (handlers sha ret) (event_type ?e) = Some fold_linked"
    using map_of_transfer_handlers(1) by (simp add: transfer_linked_def Event_def)
  with assms obtain c1 where c1: "claim_effect ?e c = Inr c1" "fold_linked ?e c1 = Inr c'"
    by (rule apply_handled)
  obtain grade by_whom decided where c': "c' = c1\<lparr>pc_links := dict_set (pair_key a b)
      \<lparr>li_status = ''linked'', li_grade = grade, li_by = by_whom, li_decided_by = decided\<rparr> (pc_links c1),
      pc_suggestions := dict_del b (dict_del a (pc_suggestions c1))\<rparr>"
    using c1(2) unfolding fold_linked_def by (auto simp: bindR_eq_Inr transfer_linked_def Event_def req_text_def)
  show thesis
  proof (rule that)
    show "pc_links c' = dict_set (pair_key a b)
      \<lparr>li_status = ''linked'', li_grade = grade, li_by = by_whom, li_decided_by = decided\<rparr> (pc_links c)"
      using claim_effect_keeps [OF c1(1)] by (simp add: c')
  qed simp
qed

lemma apply_unlinked:
  assumes "apply_event sha ret e c = Inr c'" "pc_as_of c = None" "event_type e = ''TransferUnlinked''"
  obtains q i where "li_status i \<noteq> ''linked''" "pc_links c' = dict_set q i (pc_links c)"
proof -
  have "map_of (handlers sha ret) (event_type e) = Some fold_unlinked"
    by (simp only: assms(3) map_of_transfer_handlers(2))
  with assms(1,2) obtain c1 where c1: "claim_effect e c = Inr c1" "fold_unlinked e c1 = Inr c'" by (rule apply_handled)
  obtain a b where c': "c' = c1\<lparr>pc_links := dict_set (pair_key a b)
      \<lparr>li_status = ''unlinked'', li_grade = [], li_by = [], li_decided_by = []\<rparr> (pc_links c1),
      pc_suggestions := dict_del b (dict_del a (pc_suggestions c1))\<rparr>"
    using c1(2) unfolding fold_unlinked_def by (auto simp: bindR_eq_Inr)
  show thesis
  proof (rule that)
    show "pc_links c' = dict_set (pair_key a b)
      \<lparr>li_status = ''unlinked'', li_grade = [], li_by = [], li_decided_by = []\<rparr> (pc_links c)"
      using claim_effect_keeps [OF c1(1)] by (simp add: c')
  qed simp
qed

lemma live_set:
  assumes "pc_links c' = dict_set q i (pc_links c)"
  shows "live c' = (if li_status i = ''linked'' then insert q (live c) else live c - {q})"
  using assms by (auto simp: live_def map_of_dict_set)

lemma one_transfer_set:
  assumes "one_transfer_each c" "pc_links c' = dict_set q i (pc_links c)"
    "li_status i = ''linked'' \<Longrightarrow> ends q \<inter> linked_keys c = {}"
  shows "one_transfer_each c' \<and> linked_keys c' \<subseteq> linked_keys c \<union> (if li_status i = ''linked'' then ends q else {})"
proof -
  have d: "distinct (map fst (pc_links c'))" "distinct (map fst (pc_links c))"
    using assms(1,2) distinct_dict_set by (auto simp: one_transfer_each_def)
  have l: "linked_keys c = \<Union> (ends ` live c)" "linked_keys c' = \<Union> (ends ` live c')"
    using d by (simp_all add: linked_keys_live)
  show ?thesis
  proof (cases "li_status i = ''linked''")
    case True
    then have "ends q \<inter> \<Union> (ends ` live c) = {}" using assms(3) l by simp
    then show ?thesis using assms(1) d True live_set [OF assms(2)]
      by (auto simp: one_transfer_each_def l)
  next
    case False
    then show ?thesis using assms(1) d live_set [OF assms(2)] by (auto simp: one_transfer_each_def l)
  qed
qed

lemma one_transfer_same:
  assumes "pc_links c' = pc_links c"
  shows "one_transfer_each c' = one_transfer_each c" "linked_keys c' = linked_keys c"
  using assms by (simp_all add: one_transfer_each_def live_def linked_keys_def)

text \<open>Any event but a link keeps the property and links nothing.\<close>

lemma other_event_keeps:
  assumes "one_transfer_each c" "apply_event sha ret e c = Inr c'" "pc_as_of c = None"
    "event_type e \<noteq> ''TransferLinked''"
  shows "one_transfer_each c' \<and> linked_keys c' \<subseteq> linked_keys c"
proof (cases "event_type e = ''TransferUnlinked''")
  case True
  obtain q i where "li_status i \<noteq> ''linked''" "pc_links c' = dict_set q i (pc_links c)"
    using apply_unlinked [OF assms(2,3) True] by blast
  then show ?thesis using one_transfer_set [OF assms(1), of c' q i] by simp
next
  case False
  then show ?thesis
    using apply_event_links [OF assms(2,3,4)] one_transfer_same [of c' c] assms(1) by simp
qed

lemma link_event_keeps:
  assumes "one_transfer_each c" "apply_event sha ret (transfer_linked eid a b g ev occ w p) c = Inr c'" "pc_as_of c = None"
    "a \<notin> linked_keys c" "b \<notin> linked_keys c"
  shows "one_transfer_each c' \<and> linked_keys c' \<subseteq> linked_keys c \<union> {a, b}"
proof -
  obtain i where "li_status i = ''linked''" "pc_links c' = dict_set (pair_key a b) i (pc_links c)"
    using apply_transfer_linked [OF assms(2,3)] by blast
  then show ?thesis using one_transfer_set [OF assms(1), of c' "pair_key a b" i] assms(4,5) by simp
qed

text \<open>The property of a log: wherever it can be folded, the fold has it.\<close>

definition matched :: "outside \<Rightarrow> event list \<Rightarrow> bool" where
  "matched ou es = (\<forall>c. project (ou_sha ou) (ou_retained ou) es None = Inr c \<longrightarrow> one_transfer_each c)"

lemma matched_Nil: "matched ou []"
  by (auto simp: matched_def project_def empty_core_def one_transfer_each_def live_def)

lemma matched_snoc:
  assumes "matched ou es"
    "\<And>c c'. project (ou_sha ou) (ou_retained ou) es None = Inr c \<Longrightarrow> one_transfer_each c \<Longrightarrow> pc_as_of c = None
       \<Longrightarrow> apply_event (ou_sha ou) (ou_retained ou) e c = Inr c' \<Longrightarrow> one_transfer_each c'"
  shows "matched ou (es @ [e])"
  using assms project_as_of unfolding matched_def project_snoc bindR_eq_Inr by metis

lemma matched_other: "matched ou es \<Longrightarrow> event_type e \<noteq> ''TransferLinked'' \<Longrightarrow> matched ou (es @ [e])"
  by (rule matched_snoc) (use other_event_keeps in blast)+

lemma confirm_matched:
  assumes "matched ou es" "confirm_transfer ou a b es = (es', r)"
  shows "matched ou es'"
proof -
  have "matched ou (es @ [transfer_linked eid a b g ev occ w p])"
    if "project (ou_sha ou) (ou_retained ou) es None = Inr c" "a \<notin> linked_keys c" "b \<notin> linked_keys c" for c eid g ev occ w p
    using assms(1) by (rule matched_snoc) (use that link_event_keeps in fastforce)
  then show ?thesis using assms
    by (auto simp: confirm_transfer_def bindW_def projection_def retW_def append_event_def split: sum.splits if_splits)
qed

lemma reject_matched:
  assumes "matched ou es" "reject_transfer ou a b es = (es', r)"
  shows "matched ou es'"
  using assms by (auto simp: reject_transfer_def append_event_def transfer_unlinked_def Event_def intro!: matched_other)

lemma set_dict_of: "set (dict_of ps) \<subseteq> set ps"
proof (induction ps rule: rev_induct)
  case (snoc p ps)
  have "set (dict_set k v d) \<subseteq> insert (k, v) (set d)" for k and v :: 'b and d
    by (induction k v d rule: dict_set.induct) auto
  with snoc show ?case by (cases p) (fastforce simp: dict_of_def)
qed (simp add: dict_of_def)

text \<open>What the scan works on: unlinked movements, filed under their own keys.\<close>

lemma candidates_movements:
  assumes "candidates c = (graph, sources)"
  shows "map_of sources k = Some s \<Longrightarrow> mv_key s = k \<and> s \<in> set (unlinked_flow c ''source'')"
    "(k, ds) \<in> set graph \<Longrightarrow> \<exists>s \<in> set (unlinked_flow c ''source''). mv_key s = k
       \<and> ds = filter (is_transfer_candidate s) (unlinked_flow c ''destination'') \<and> ds \<noteq> []"
proof -
  have g: "graph = dict_of (concat (map (\<lambda>s. case filter (is_transfer_candidate s) (unlinked_flow c ''destination'') of
        [] \<Rightarrow> [] | ds \<Rightarrow> [(mv_key s, ds)]) (unlinked_flow c ''source'')))"
    and s: "sources = dict_of (map (\<lambda>s. (mv_key s, s)) (unlinked_flow c ''source''))"
    using assms by (simp_all add: candidates_def Let_def)
  show "mv_key s = k \<and> s \<in> set (unlinked_flow c ''source'')" if "map_of sources k = Some s"
    using map_of_SomeD [OF that] set_dict_of by (fastforce simp: s)
  show "\<exists>s \<in> set (unlinked_flow c ''source''). mv_key s = k
       \<and> ds = filter (is_transfer_candidate s) (unlinked_flow c ''destination'') \<and> ds \<noteq> []" if "(k, ds) \<in> set graph"
  proof -
    have "(k, ds) \<in> set (concat (map (\<lambda>s. case filter (is_transfer_candidate s) (unlinked_flow c ''destination'') of
        [] \<Rightarrow> [] | ds \<Rightarrow> [(mv_key s, ds)]) (unlinked_flow c ''source'')))"
      using that set_dict_of by (fastforce simp: g)
    then show ?thesis by (force split: list.splits)
  qed
qed

lemma unlinked_flowD: "m \<in> set (unlinked_flow c f) \<Longrightarrow> m \<in> set (movements c) \<and> mv_key m \<notin> linked_keys c \<and> flow m = f \<and> \<not> mv_linked m"
  by (auto simp: unlinked_flow_def movements_def)

lemma scan_step_Link:
  assumes "scan_step graph sources verdicts open_sugg consumed k = Link src dst"
  shows "map_of sources k = Some src" "k \<notin> consumed" "mv_key dst \<notin> consumed" "map_of verdicts k = Some (mv_key dst)"
    "\<exists>ds. map_of graph k = Some ds \<and> dst \<in> set ds"
proof -
  from assms have s: "map_of sources k = Some src" "k \<notin> consumed"
    and f: "\<exists>rest. filter (\<lambda>m. Some (mv_key m) = map_of verdicts k)
       (filter (\<lambda>m. mv_key m \<notin> consumed) (case map_of graph k of None \<Rightarrow> [] | Some ds \<Rightarrow> ds)) = dst # rest"
    by (auto simp: scan_step_def Let_def split: option.splits if_splits list.splits)
  then have *: "dst \<in> set (filter (\<lambda>m. Some (mv_key m) = map_of verdicts k)
       (filter (\<lambda>m. mv_key m \<notin> consumed) (case map_of graph k of None \<Rightarrow> [] | Some ds \<Rightarrow> ds)))" by force
  then show "map_of sources k = Some src" "k \<notin> consumed" "mv_key dst \<notin> consumed" "map_of verdicts k = Some (mv_key dst)"
    using s by auto
  from * show "\<exists>ds. map_of graph k = Some ds \<and> dst \<in> set ds" by (cases "map_of graph k") auto
qed

lemma append_event_cases:
  assumes "bindW (append_event ou (\<lambda>eid. Inr (mk eid))) f es = (es', r)"
  obtains (stuck) x where "project (ou_sha ou) (ou_retained ou) (es @ [mk (ou_fresh ou (length es))]) None = Inl x"
      "es' = es @ [mk (ou_fresh ou (length es))]" "r = Inl x"
  | (added) c where "project (ou_sha ou) (ou_retained ou) (es @ [mk (ou_fresh ou (length es))]) None = Inr c"
      "f () (es @ [mk (ou_fresh ou (length es))]) = (es', r)"
  using assms
  by (cases "project (ou_sha ou) (ou_retained ou) (es @ [mk (ou_fresh ou (length es))]) None")
    (auto simp: bindW_def append_event_def)

lemma scan_matched:
  assumes "\<And>k s. map_of sources k = Some s \<Longrightarrow> mv_key s = k \<and> k \<notin> L"
    "\<And>k ds d. map_of graph k = Some ds \<Longrightarrow> d \<in> set ds \<Longrightarrow> mv_key d \<notin> L"
    "project (ou_sha ou) (ou_retained ou) es None = Inr c" "one_transfer_each c" "linked_keys c \<subseteq> L \<union> consumed"
    "scan ou graph sources sc verdicts open_sugg ks consumed a s es = (es', r)"
  shows "matched ou es'"
  using assms(3-)
proof (induction ks arbitrary: consumed a s es c)
  case Nil
  then show ?case by (auto simp: retW_def matched_def)
next
  case (Cons k ks)
  have m: "matched ou es" using Cons.prems(1,2) by (simp add: matched_def)
  have ao: "pc_as_of c = None" using project_as_of Cons.prems(1) by blast
  show ?case
  proof (cases "scan_step graph sources verdicts open_sugg consumed k")
    case Skip
    then show ?thesis using Cons.IH [OF Cons.prems(1-3)] Cons.prems(4) by simp
  next
    case (Link src dst)
    note l = scan_step_Link [OF Link]
    have key: "mv_key src = k" "k \<notin> L" "mv_key dst \<notin> L" using assms(1) [OF l(1)] assms(2) l(5) by auto
    then have free: "mv_key src \<notin> linked_keys c" "mv_key dst \<notin> linked_keys c" using l(2,3) Cons.prems(3) by auto
    define mk where "mk eid = transfer_linked eid (mv_key src) (mv_key dst) ''corroborated''
            (evidence src dst ''decisive'' (why_at sc (mv_key src) (mv_key dst)))
            (later (mv_date src) (mv_date dst)) ''auto'' None" for eid
    have mk: "linked_event sc src dst = (\<lambda>eid. Inr (mk eid))" by (rule ext) (simp add: linked_event_def mk_def)
    from Cons.prems(4) have "bindW (append_event ou (\<lambda>eid. Inr (mk eid))) (\<lambda>_. scan ou graph sources sc verdicts
        open_sugg ks (consumed \<union> {mv_key src, mv_key dst}) (a + 1) s) es = (es', r)"
      by (simp add: Link mk)
    then show ?thesis
    proof (cases rule: append_event_cases)
      case stuck
      then show ?thesis by (simp add: matched_def)
    next
      case (added c')
      have "apply_event (ou_sha ou) (ou_retained ou) (mk (ou_fresh ou (length es))) c = Inr c'"
        using added(1) Cons.prems(1) by (simp add: project_snoc)
      then have "one_transfer_each c' \<and> linked_keys c' \<subseteq> linked_keys c \<union> {mv_key src, mv_key dst}"
        using link_event_keeps [OF Cons.prems(2) _ ao free] by (simp add: mk_def)
      then show ?thesis using Cons.IH [OF added(1), of "consumed \<union> {mv_key src, mv_key dst}"] Cons.prems(3) added(2) by blast
    qed
  next
    case (Suggest src cands)
    define mk where "mk eid = transfer_suggested eid (mv_key src) (map mv_key cands) (evidence src (hd cands) ''suggested'' [])
            (later (mv_date src) (mv_date (hd cands))) None" for eid
    have mk: "suggested_event src cands = (\<lambda>eid. Inr (mk eid))" by (rule ext) (simp add: suggested_event_def mk_def)
    from Cons.prems(4) have "bindW (append_event ou (\<lambda>eid. Inr (mk eid))) (\<lambda>_. scan ou graph sources sc verdicts
        open_sugg ks consumed a (s + 1)) es = (es', r)"
      by (simp add: Suggest mk)
    then show ?thesis
    proof (cases rule: append_event_cases)
      case stuck
      then show ?thesis by (simp add: matched_def)
    next
      case (added c')
      have "apply_event (ou_sha ou) (ou_retained ou) (mk (ou_fresh ou (length es))) c = Inr c'"
        using added(1) Cons.prems(1) by (simp add: project_snoc)
      then have "one_transfer_each c' \<and> linked_keys c' \<subseteq> linked_keys c"
        using other_event_keeps [OF Cons.prems(2) _ ao] by (simp add: mk_def transfer_suggested_def Event_def)
      then show ?thesis using Cons.IH [OF added(1), of consumed] Cons.prems(3) added(2) by blast
    qed
  qed
qed

lemma link_transfers_matched:
  assumes "matched ou es" "link_transfers ou es = (es', r)"
  shows "matched ou es'"
proof (cases "project (ou_sha ou) (ou_retained ou) es None")
  case (Inl x)
  then show ?thesis using assms by (simp add: link_transfers_def bindW_def projection_def)
next
  case (Inr c)
  obtain graph sources where gs: "candidates c = (graph, sources)" by fastforce
  note cm = candidates_movements [OF gs]
  have src: "mv_key s = k \<and> k \<notin> linked_keys c" if "map_of sources k = Some s" for k s
    using cm(1) [OF that] unlinked_flowD by metis
  have dst: "mv_key d \<notin> linked_keys c" if "map_of graph k = Some ds" "d \<in> set ds" for k ds d
    using cm(2) [OF map_of_SomeD [OF that(1)]] that(2) unlinked_flowD by fastforce
  have "one_transfer_each c" using assms(1) Inr by (simp add: matched_def)
  then show ?thesis
    using scan_matched [OF src dst Inr] assms(2) by (auto simp: link_transfers_def bindW_def projection_def Inr gs Let_def)
qed

text \<open>
  A run: scans, confirmations and rejections in any order, and between them any event but a link
  (statements posted, categories assigned, links revoked by hand).
\<close>

inductive transfer_run :: "outside \<Rightarrow> event list \<Rightarrow> bool" for ou where
  start: "transfer_run ou []"
| scanned: "transfer_run ou es \<Longrightarrow> link_transfers ou es = (es', r) \<Longrightarrow> transfer_run ou es'"
| confirmed: "transfer_run ou es \<Longrightarrow> confirm_transfer ou a b es = (es', q) \<Longrightarrow> transfer_run ou es'"
| rejected: "transfer_run ou es \<Longrightarrow> reject_transfer ou a b es = (es', u) \<Longrightarrow> transfer_run ou es'"
| other: "transfer_run ou es \<Longrightarrow> event_type e \<noteq> ''TransferLinked'' \<Longrightarrow> transfer_run ou (es @ [e])"

lemma transfer_run_matched: "transfer_run ou es \<Longrightarrow> matched ou es"
  by (induction rule: transfer_run.induct)
    (blast intro: matched_Nil link_transfers_matched confirm_matched reject_matched matched_other)+

text \<open>
  C12: a movement belongs to at most one live transfer. Take any run of transfer scans, confirmations and
  rejections, with any other events in between (postings, rulings, links revoked), from an empty ledger.
  Wherever the log can be folded, no two different live links share a movement.
\<close>
theorem one_live_transfer_per_movement:
  assumes "transfer_run ou es" "project (ou_sha ou) (ou_retained ou) es None = Inr c"
    "(p, i) \<in> set (pc_links c)" "li_status i = ''linked''" "(q, j) \<in> set (pc_links c)" "li_status j = ''linked''"
  shows "p = q \<or> {fst p, snd p} \<inter> {fst q, snd q} = {}"
proof -
  have o: "one_transfer_each c" using transfer_run_matched [OF assms(1)] assms(2) by (simp add: matched_def)
  then have "p \<in> live c" "q \<in> live c" using assms(3-6) by (auto simp: live_def one_transfer_each_def)
  with o show ?thesis by (auto simp: one_transfer_each_def ends_def)
qed

subsection \<open>What the scan links on its own\<close>

lemma only_one: "(case xs of [x] \<Rightarrow> Some x | _ \<Rightarrow> None) = Some i \<Longrightarrow> xs = [i]"
  by (simp split: list.splits)

lemma sole_max_Some:
  assumes "sole_max items score = Some i"
  shows "i \<in> set items" "EV_FLOOR \<le> score i" "j \<in> set items \<Longrightarrow> j \<noteq> i \<Longrightarrow> score j < score i"
proof -
  define best where "best = Max (insert 0 (score ` set items))"
  have "(if best < EV_FLOOR then None
      else case filter (\<lambda>i. score i = best) items of [i] \<Rightarrow> Some i | _ \<Rightarrow> None) = Some i"
    using assms unfolding sole_max_def Let_def best_def .
  note picked = this
  have b: "EV_FLOOR \<le> best"
  proof (rule ccontr)
    assume "\<not> EV_FLOOR \<le> best"
    with picked show False by simp
  qed
  have f: "filter (\<lambda>i. score i = best) items = [i]"
  proof -
    have "\<not> best < EV_FLOOR" using b by simp
    from picked [unfolded if_not_P [OF this]] show ?thesis by (rule only_one)
  qed
  have mem: "j \<in> set items \<and> score j = best \<longleftrightarrow> j = i" for j
  proof -
    have "j \<in> set (filter (\<lambda>i. score i = best) items) \<longleftrightarrow> j = i" unfolding f by simp
    then show ?thesis unfolding set_filter mem_Collect_eq .
  qed
  have i: "i \<in> set items" "score i = best" using mem [of i] by blast+
  show "i \<in> set items" "EV_FLOOR \<le> score i" using i b by metis+
  show "score j < score i" if "j \<in> set items" "j \<noteq> i"
  proof -
    have "score j \<le> best" using that(1) unfolding best_def by (intro Max_ge) auto
    moreover have "score j \<noteq> best" using mem [of j] that by blast
    ultimately show ?thesis unfolding i(2) by linarith
  qed
qed

lemma decide_pairs:
  assumes "map_of (decide g sc {}) k = Some d"
  shows "\<exists>ds. (k, ds) \<in> set g \<and> sole_max ds (score_at sc k) = Some d \<and> sole_max (claimants sc d) (\<lambda>r. score_at sc r d) = Some k"
proof -
  have "(k, d) \<in> set (decide g sc {})" using assms by (rule map_of_SomeD)
  then show ?thesis by (fastforce simp: decide_def decide_one_def split: option.splits if_splits)
qed

text \<open>With distinct keys the dicts of the scan are the lists they were built from.\<close>

lemma filter_distinct_keys: "distinct (map mv_key ms) \<Longrightarrow> distinct (map mv_key (filter P ms))"
  by (induction ms) auto

lemma key_inj: "distinct (map mv_key ms) \<Longrightarrow> a \<in> set ms \<Longrightarrow> b \<in> set ms \<Longrightarrow> mv_key a = mv_key b \<Longrightarrow> a = b"
  by (metis distinct_map inj_onD)

definition pairs :: "core \<Rightarrow> (movement \<times> movement) list" where
  "pairs c = concat (map (\<lambda>s. map (Pair s) (filter (is_transfer_candidate s) (unlinked_flow c ''destination'')))
     (unlinked_flow c ''source''))"

lemma in_pairs:
  "(s, d) \<in> set (pairs c) \<longleftrightarrow> s \<in> set (unlinked_flow c ''source'') \<and> d \<in> set (unlinked_flow c ''destination'')
     \<and> is_transfer_candidate s d"
  by (auto simp: pairs_def)

lemma distinct_pair_keys:
  assumes "distinct (map mv_key ss)" "distinct (map mv_key ds)"
  shows "distinct (map (\<lambda>(s, d). (mv_key s, mv_key d)) (concat (map (\<lambda>s. map (Pair s) (filter (P s) ds)) ss)))"
  using assms(1)
proof (induction ss)
  case (Cons s ss)
  have "distinct (map (\<lambda>d. (mv_key s, mv_key d)) (filter (P s) ds))"
    using filter_distinct_keys [OF assms(2)] by (auto simp: distinct_map inj_on_def)
  with Cons show ?case by (auto simp: comp_def)
qed simp

lemma pairs_distinct:
  assumes "distinct (map mv_key (movements c))"
  shows "distinct (map (\<lambda>(s, d). (mv_key s, mv_key d)) (pairs c))"
proof -
  have "distinct (map mv_key (unlinked_flow c f))" for f
    using assms unfolding unlinked_flow_def by (intro filter_distinct_keys)
  then show ?thesis using distinct_pair_keys unfolding pairs_def by blast
qed

lemma fst_cells: "map fst (map (\<lambda>(s, d). ((f s, f d), x s d, y s d)) ps) = map (\<lambda>(s, d). (f s, f d)) ps"
  by auto

lemma scan_tables:
  assumes "distinct (map mv_key (movements c))" "candidates c = (graph, sources)"
  shows "graph = concat (map (\<lambda>s. case filter (is_transfer_candidate s) (unlinked_flow c ''destination'') of
        [] \<Rightarrow> [] | ds \<Rightarrow> [(mv_key s, ds)]) (unlinked_flow c ''source''))"
    "weigh parts dtoks graph sources
       = map (\<lambda>(s, d). ((mv_key s, mv_key d), strength_of parts dtoks s d, why_of parts dtoks s d)) (pairs c)"
proof -
  let ?S = "unlinked_flow c ''source''" and ?D = "unlinked_flow c ''destination''"
  let ?row = "\<lambda>s. case filter (is_transfer_candidate s) ?D of [] \<Rightarrow> [] | ds \<Rightarrow> [(mv_key s, ds)]"
  have d: "distinct (map mv_key ?S)" "distinct (map mv_key ?D)"
    using assms(1) by (auto simp: unlinked_flow_def intro!: filter_distinct_keys)
  have fst_rows: "map fst (concat (map ?row ss)) = map mv_key (filter (\<lambda>s. filter (is_transfer_candidate s) ?D \<noteq> []) ss)" for ss
    by (induction ss) (auto split: list.splits)
  have g: "graph = dict_of (concat (map ?row ?S))" and s: "sources = dict_of (map (\<lambda>s. (mv_key s, s)) ?S)"
    using assms(2) by (simp_all add: candidates_def Let_def)
  show graph: "graph = concat (map ?row ?S)"
    unfolding g by (rule dict_of_distinct) (simp only: fst_rows filter_distinct_keys [OF d(1)])
  have sources: "sources = map (\<lambda>s. (mv_key s, s)) ?S"
    unfolding s by (rule dict_of_distinct) (simp add: comp_def d(1))
  have look: "map_of sources (mv_key s) = Some s" if "s \<in> set ?S" for s
    using that d(1) unfolding sources by (intro map_of_is_SomeI) (auto simp: comp_def)
  let ?cell = "\<lambda>s d. ((mv_key s, mv_key d), strength_of parts dtoks s d, why_of parts dtoks s d)"
  let ?line = "\<lambda>(k, ds). case map_of sources k of None \<Rightarrow> [] | Some s \<Rightarrow> map (\<lambda>d. ((k, mv_key d), strength_of parts dtoks s d, why_of parts dtoks s d)) ds"
  have "concat (map ?line (concat (map ?row ss)))
      = map (\<lambda>(s, d). ?cell s d) (concat (map (\<lambda>s. map (Pair s) (filter (is_transfer_candidate s) ?D)) ss))"
    if "set ss \<subseteq> set ?S" for ss
    using that look by (induction ss) (auto simp: comp_def split: list.splits)
  then have "concat (map ?line graph) = map (\<lambda>(s, d). ?cell s d) (pairs c)" unfolding graph pairs_def by blast
  moreover have "distinct (map fst (map (\<lambda>(s, d). ?cell s d) (pairs c)))"
    using pairs_distinct [OF assms(1)] by (simp only: fst_cells)
  ultimately show "weigh parts dtoks graph sources = map (\<lambda>(s, d). ?cell s d) (pairs c)"
    unfolding weigh_def by (simp only: dict_of_distinct)
qed

lemma verdict_is_decisive:
  assumes "distinct (map mv_key (movements c))" "candidates c = (graph, sources)"
    "sc = weigh parts dtoks graph sources"
    "map_of (decide (map (\<lambda>(k, ds). (k, map mv_key ds)) graph) sc {}) (mv_key s) = Some (mv_key d)"
    "s \<in> set (unlinked_flow c ''source'')" "d \<in> set (unlinked_flow c ''destination'')"
  shows "is_transfer_candidate s d \<and> EV_FLOOR \<le> strength_of parts dtoks s d
    \<and> (\<forall>d'. (s, d') \<in> set (pairs c) \<longrightarrow> d' \<noteq> d \<longrightarrow> strength_of parts dtoks s d' < strength_of parts dtoks s d)
    \<and> (\<forall>s'. (s', d) \<in> set (pairs c) \<longrightarrow> s' \<noteq> s \<longrightarrow> strength_of parts dtoks s' d < strength_of parts dtoks s d)"
proof -
  note t = scan_tables [OF assms(1,2)]
  have inj: "a = b" if "mv_key a = mv_key b" "a \<in> set (movements c)" "b \<in> set (movements c)" for a b
    using key_inj [OF assms(1) that(2,3,1)] .
  have dk: "distinct (map fst sc)"
    using pairs_distinct [OF assms(1)] unfolding assms(3) t(2) by (simp only: fst_cells)
  have score: "score_at sc (mv_key a) (mv_key b) = strength_of parts dtoks a b" if "(a, b) \<in> set (pairs c)" for a b
  proof -
    have "((mv_key a, mv_key b), strength_of parts dtoks a b, why_of parts dtoks a b) \<in> set sc"
      using that unfolding assms(3) t(2) by force
    then show ?thesis using dk by (simp add: score_at_def map_of_is_SomeI)
  qed
  obtain ds where ds: "(mv_key s, ds) \<in> set (map (\<lambda>(k, ds). (k, map mv_key ds)) graph)"
    "sole_max ds (score_at sc (mv_key s)) = Some (mv_key d)"
    "sole_max (claimants sc (mv_key d)) (\<lambda>r. score_at sc r (mv_key d)) = Some (mv_key s)"
    using decide_pairs [OF assms(4)] by blast
  obtain ms where ms: "(mv_key s, ms) \<in> set graph" "ds = map mv_key ms" using ds(1) by auto
  obtain s0 where s0: "s0 \<in> set (unlinked_flow c ''source'')" "mv_key s0 = mv_key s"
    "ms = filter (is_transfer_candidate s0) (unlinked_flow c ''destination'')"
    using candidates_movements(2) [OF assms(2) ms(1)] by blast
  have "s0 = s" using inj s0(1,2) assms(5) unlinked_flowD by blast
  then have m: "set ms = {d'. (s, d') \<in> set (pairs c)}" using s0 assms(5) by (auto simp: in_pairs)
  have "mv_key d \<in> mv_key ` set ms" using sole_max_Some(1) [OF ds(2)] ms(2) by simp
  then obtain d0 where "d0 \<in> set ms" "mv_key d0 = mv_key d" by auto
  then have sd: "(s, d) \<in> set (pairs c)" using inj [of d0 d] m assms(6) unlinked_flowD by (auto simp: in_pairs)
  have 1: "strength_of parts dtoks s d' < strength_of parts dtoks s d" if "(s, d') \<in> set (pairs c)" "d' \<noteq> d" for d'
  proof -
    have "mv_key d' \<in> set ds" using that(1) m ms(2) by auto
    moreover have "mv_key d' \<noteq> mv_key d"
    proof
      assume "mv_key d' = mv_key d"
      then show False using inj [of d' d] that assms(6) unlinked_flowD by (auto simp: in_pairs)
    qed
    ultimately show ?thesis using sole_max_Some(3) [OF ds(2)] score [OF that(1)] score [OF sd] by metis
  qed
  have 2: "strength_of parts dtoks s' d < strength_of parts dtoks s d" if "(s', d) \<in> set (pairs c)" "s' \<noteq> s" for s'
  proof -
    have "mv_key s' \<in> set (claimants sc (mv_key d))"
      using that(1) unfolding claimants_def assms(3) t(2) by force
    moreover have "mv_key s' \<noteq> mv_key s"
    proof
      assume "mv_key s' = mv_key s"
      then show False using inj [of s' s] that assms(5) unlinked_flowD by (auto simp: in_pairs)
    qed
    ultimately show ?thesis using sole_max_Some(3) [OF ds(3)] score [OF that(1)] score [OF sd] by metis
  qed
  show ?thesis using sd 1 2 sole_max_Some(2) [OF ds(2)] score [OF sd] by (auto simp: in_pairs)
qed

lemma scan_extends: "extends (scan ou graph sources sc verdicts open_sugg ks consumed a s)"
  by (induction ks arbitrary: consumed a s) (auto intro!: extends_rules split: step.split)

lemma scan_adds_links:
  assumes "scan ou graph sources sc verdicts open_sugg ks consumed a s es = (es', r)"
    "e \<in> set (drop (length es) es')" "event_type e = ''TransferLinked''"
  shows "\<exists>k src dst eid ds. linked_event sc src dst eid = Inr e \<and> map_of sources k = Some src
    \<and> map_of verdicts k = Some (mv_key dst) \<and> map_of graph k = Some ds \<and> dst \<in> set ds"
  using assms(1,2)
proof (induction ks arbitrary: consumed a s es)
  case Nil
  then show ?case by (simp add: retW_def)
next
  case (Cons k ks)
  have later_on: ?case if st: "scan ou graph sources sc verdicts open_sugg ks consumed' a' s' (es @ [x]) = (es', r)" and ne: "e \<noteq> x"
    for consumed' a' s' x
  proof -
    obtain new where "es' = (es @ [x]) @ new" using extendsD [OF scan_extends st] by blast
    then have "e \<in> set (drop (length (es @ [x])) es')" using Cons.prems(2) ne by simp
    then show ?case using Cons.IH st by blast
  qed
  show ?case
  proof (cases "scan_step graph sources verdicts open_sugg consumed k")
    case Skip
    then show ?thesis using Cons by simp
  next
    case (Link src dst)
    obtain ev where mk: "linked_event sc src dst = (\<lambda>eid. Inr (ev eid))"
    proof
      show "linked_event sc src dst = (\<lambda>eid. Inr (transfer_linked eid (mv_key src) (mv_key dst) ''corroborated''
            (evidence src dst ''decisive'' (why_at sc (mv_key src) (mv_key dst)))
            (later (mv_date src) (mv_date dst)) ''auto'' None))" by (rule ext) (simp add: linked_event_def)
    qed
    from Cons.prems(1) have "bindW (append_event ou (\<lambda>eid. Inr (ev eid))) (\<lambda>_. scan ou graph sources sc verdicts
        open_sugg ks (consumed \<union> {mv_key src, mv_key dst}) (a + 1) s) es = (es', r)"
      by (simp add: Link mk)
    then show ?thesis
    proof (cases rule: append_event_cases)
      case stuck
      then have "linked_event sc src dst (ou_fresh ou (length es)) = Inr e" using Cons.prems(2) mk by simp
      then show ?thesis using scan_step_Link [OF Link] by blast
    next
      case (added c')
      show ?thesis
      proof (cases "e = ev (ou_fresh ou (length es))")
        case True
        then have "linked_event sc src dst (ou_fresh ou (length es)) = Inr e" using mk by simp
        then show ?thesis using scan_step_Link [OF Link] by blast
      qed (use later_on added(2) in blast)
    qed
  next
    case (Suggest src cands)
    obtain ev where mk: "suggested_event src cands = (\<lambda>eid. Inr (ev eid))" "\<And>eid. event_type (ev eid) = ''TransferSuggested''"
    proof
      show "suggested_event src cands = (\<lambda>eid. Inr (transfer_suggested eid (mv_key src) (map mv_key cands)
          (evidence src (hd cands) ''suggested'' []) (later (mv_date src) (mv_date (hd cands))) None))"
        by (rule ext) (simp add: suggested_event_def)
    qed (simp add: transfer_suggested_def Event_def)
    from Cons.prems(1) have "bindW (append_event ou (\<lambda>eid. Inr (ev eid))) (\<lambda>_. scan ou graph sources sc verdicts
        open_sugg ks consumed a (s + 1)) es = (es', r)"
      by (simp add: Suggest mk)
    moreover have "e \<noteq> ev eid" for eid using mk(2) [of eid] assms(3) by auto
    ultimately show ?thesis
    proof (cases rule: append_event_cases)
      case stuck
      then show ?thesis using Cons.prems(2) \<open>\<And>eid. e \<noteq> ev eid\<close> by simp
    next
      case (added c')
      then show ?thesis using later_on \<open>\<And>eid. e \<noteq> ev eid\<close> by blast
    qed
  qed
qed

text \<open>
  C13: the scan links only what is decided by evidence. Every link a scan adds pairs two unlinked movements
  of different accounts that pass the candidate gate (opposite flow, equal magnitude and currency, days
  close), one of which names an account distinctively; the pair outscores every other candidate of the
  source and every other claimant of the destination. A tie, or a printed date alone, links nothing.
\<close>
theorem automatic_links_are_decisive:
  assumes "project (ou_sha ou) (ou_retained ou) es None = Inr c" "link_transfers ou es = (es', r)"
    "e \<in> set (drop (length es) es')" "event_type e = ''TransferLinked''" "distinct (map mv_key (movements c))"
  shows "\<exists>s d. s \<in> set (movements c) \<and> d \<in> set (movements c) \<and> \<not> mv_linked s \<and> \<not> mv_linked d
    \<and> jget (body e) ''a'' = Some (JStr (mv_key s)) \<and> jget (body e) ''b'' = Some (JStr (mv_key d))
    \<and> is_transfer_candidate s d \<and> account_evidence (distinctive c) s d (ou_parts ou s) \<noteq> []
    \<and> (\<forall>d' \<in> set (movements c). \<not> mv_linked d' \<and> is_transfer_candidate s d' \<and> d' \<noteq> d
         \<longrightarrow> strength_of (ou_parts ou) (distinctive c) s d' < strength_of (ou_parts ou) (distinctive c) s d)
    \<and> (\<forall>s' \<in> set (movements c). \<not> mv_linked s' \<and> is_transfer_candidate s' d \<and> s' \<noteq> s
         \<longrightarrow> strength_of (ou_parts ou) (distinctive c) s' d < strength_of (ou_parts ou) (distinctive c) s d)"
proof -
  obtain graph sources where gs: "candidates c = (graph, sources)" by fastforce
  define sc where "sc = weigh (ou_parts ou) (distinctive c) graph sources"
  define verdicts where "verdicts = decide (map (\<lambda>(k, ds). (k, map mv_key ds)) graph) sc {}"
  from assms(2) obtain open_sugg where "scan ou graph sources sc verdicts open_sugg (sort (map fst graph)) {} 0 0 es = (es', r)"
    by (simp add: link_transfers_def bindW_def projection_def assms(1) gs sc_def verdicts_def Let_def)
  from scan_adds_links [OF this assms(3,4)] obtain k s d eid ds where l: "linked_event sc s d eid = Inr e"
      "map_of sources k = Some s" "map_of verdicts k = Some (mv_key d)" "map_of graph k = Some ds" "d \<in> set ds" by blast
  have s: "mv_key s = k" "s \<in> set (unlinked_flow c ''source'')" using candidates_movements(1) [OF gs l(2)] by auto
  have d: "d \<in> set (unlinked_flow c ''destination'')"
    using candidates_movements(2) [OF gs map_of_SomeD [OF l(4)]] l(5) by auto
  have v: "map_of (decide (map (\<lambda>(k, ds). (k, map mv_key ds)) graph) sc {}) (mv_key s) = Some (mv_key d)"
    using l(3) s(1) by (simp add: verdicts_def)
  note dec = verdict_is_decisive [OF assms(5) gs sc_def v s(2) d]
  have ev: "account_evidence (distinctive c) s d (ou_parts ou s) \<noteq> []"
    using dec by (auto simp: strength_of_def EV_FLOOR_def EV_ACCOUNT_def EV_DATE_def split: if_splits)
  have pair: "(a, b) \<in> set (pairs c)"
    if "a \<in> set (movements c)" "b \<in> set (movements c)" "\<not> mv_linked a" "\<not> mv_linked b" "is_transfer_candidate a b" for a b
    using that by (auto simp: in_pairs unlinked_flow_def is_transfer_candidate_def)
  have "jget (body e) ''a'' = Some (JStr (mv_key s))" "jget (body e) ''b'' = Some (JStr (mv_key d))"
    using l(1) by (auto simp: linked_event_def transfer_linked_def Event_def)
  moreover have sm: "s \<in> set (movements c)" "\<not> mv_linked s" and dm: "d \<in> set (movements c)" "\<not> mv_linked d"
    using unlinked_flowD [OF s(2)] unlinked_flowD [OF d] by blast+
  moreover have "strength_of (ou_parts ou) (distinctive c) s d' < strength_of (ou_parts ou) (distinctive c) s d"
    if "d' \<in> set (movements c)" "\<not> mv_linked d' \<and> is_transfer_candidate s d' \<and> d' \<noteq> d" for d'
    using dec pair [OF sm(1) that(1) sm(2)] that(2) by blast
  moreover have "strength_of (ou_parts ou) (distinctive c) s' d < strength_of (ou_parts ou) (distinctive c) s d"
    if "s' \<in> set (movements c)" "\<not> mv_linked s' \<and> is_transfer_candidate s' d \<and> s' \<noteq> s" for s'
    using dec pair [OF that(1) dm(1) _ dm(2)] that(2) by blast
  ultimately show ?thesis using dec ev
    by (intro exI [of _ s] exI [of _ d] conjI ballI impI) (assumption | elim conjE)+
qed

subsection \<open>A ledger of two accounts and one transfer between them\<close>

definition demo_outside :: outside where
  "demo_outside =
     \<lparr>ou_sha = (\<lambda>s. s), ou_retained = (\<lambda>_. Inr []), ou_fresh = (\<lambda>n. ''e'' @ show_nat n), ou_token = show_nat,
      ou_today = ''2026-02-01'', ou_parts = (\<lambda>_. \<lparr>dp_date = [], dp_account_ref = []\<rparr>)\<rparr>"

definition demo_opened :: "string \<Rightarrow> string \<Rightarrow> string \<Rightarrow> event" where
  "demo_opened account name number =
     Event account ''AccountOpened'' ''2026-01-01''
       (JObj [(''account_id'', JStr account), (''kind'', JStr ''depository''), (''name'', JStr name), (''currency'', JStr ''USD''),
              (''institution'', JStr name), (''account_number'', JStr number)]) prov_empty"

definition demo_moved :: "string \<Rightarrow> string \<Rightarrow> int \<Rightarrow> string \<Rightarrow> event" where
  "demo_moved eid account amount description =
     transaction_recorded eid
       [\<lparr>p_account = account, p_amount = Dec amount 0, p_grade = VERIFIED\<rparr>,
        \<lparr>p_account = EXPENSE_UNCATEGORIZED, p_amount = Dec (- amount) 0, p_grade = UNVERIFIED\<rparr>]
       description ''2026-01-05'' None None"

definition demo_log :: "event list" where
  "demo_log =
     [demo_opened ''acct:a'' ''Alpha'' ''11112222'', demo_opened ''acct:b'' ''Beta'' ''33334444'',
      demo_moved ''t1'' ''acct:a'' (- 50) ''to 4444'', demo_moved ''t2'' ''acct:b'' 50 ''deposit'']"


definition demo_core :: core where
  "demo_core = (case project (ou_sha demo_outside) (ou_retained demo_outside) demo_log None of Inr c \<Rightarrow> c | Inl _ \<Rightarrow> empty_core None)"

lemma demo_core: "project (ou_sha demo_outside) (ou_retained demo_outside) demo_log None = Inr demo_core"
proof -
  have "\<not> isl (project (ou_sha demo_outside) (ou_retained demo_outside) demo_log None)" by code_simp
  then show ?thesis by (auto simp: demo_core_def not_isl_iff)
qed

definition demo_movement :: "string \<Rightarrow> int \<Rightarrow> string \<Rightarrow> movement" where
  "demo_movement account amount description =
     \<lparr>mv_key = movement_key [] account ''2026-01-05'' (dec_str (Dec amount 0)) description 0, mv_account = account,
      mv_kind = ''depository'', mv_date = ''2026-01-05'', mv_amount = Dec amount 0, mv_description = description,
      mv_currency = ''USD'', mv_provenance = prov_empty, mv_linked = False\<rparr>"

abbreviation "demo_out \<equiv> demo_movement ''acct:a'' (- 50) ''to 4444''"
abbreviation "demo_in \<equiv> demo_movement ''acct:b'' 50 ''deposit''"

lemma demo_scan:
  "movements demo_core = [demo_out, demo_in]"
  "candidates demo_core = ([(mv_key demo_out, [demo_in])], [(mv_key demo_out, demo_out)])"
  "pc_suggestions demo_core = []"
  "decide [(mv_key demo_out, [mv_key demo_in])] (weigh (ou_parts demo_outside) (distinctive demo_core) [(mv_key demo_out, [demo_in])] [(mv_key demo_out, demo_out)]) {}
     = [(mv_key demo_out, mv_key demo_in)]"
  "mv_key demo_out \<noteq> mv_key demo_in"
  by code_simp+

definition demo_event :: event where
  "demo_event = transfer_linked (ou_fresh demo_outside (length demo_log)) (mv_key demo_out) (mv_key demo_in) ''corroborated''
     (evidence demo_out demo_in ''decisive'' (why_at (weigh (ou_parts demo_outside) (distinctive demo_core)
       [(mv_key demo_out, [demo_in])] [(mv_key demo_out, demo_out)]) (mv_key demo_out) (mv_key demo_in)))
     (later (mv_date demo_out) (mv_date demo_in)) ''auto'' None"

lemma demo_link: "fst (link_transfers demo_outside demo_log) = demo_log @ [demo_event]"
proof -
  define k and g and srcs where kgs: "k = mv_key demo_out" "g = [(mv_key demo_out, [demo_in])]" "srcs = [(mv_key demo_out, demo_out)]"
  define sc and vs where scv: "sc = weigh (ou_parts demo_outside) (distinctive demo_core) g srcs"
    "vs = decide (map (\<lambda>(k, ds). (k, map mv_key ds)) g) sc {}"
  have vs: "vs = [(k, mv_key demo_in)]" using demo_scan(4) by (simp add: scv kgs)
  have step: "scan_step g srcs vs {} {} k = Link demo_out demo_in"
    using demo_scan(5) by (simp add: scan_step_def vs) (simp add: kgs)
  have e: "linked_event sc demo_out demo_in (ou_fresh demo_outside (length demo_log)) = Inr demo_event"
    unfolding linked_event_def demo_event_def scv kgs ..
  have "link_transfers demo_outside demo_log = scan demo_outside g srcs sc vs {} [k] {} 0 0 demo_log"
    using demo_scan(2,3) unfolding link_transfers_def bindW_def projection_def demo_core
    by (simp del: scan.simps add: transfer_suggestions_def scv kgs Let_def)
  also have "fst \<dots> = demo_log @ [demo_event]"
    unfolding scan.simps step step.case bindW_def append_event_def e sum.case
    by (simp only: retW_def prod.case fst_conv split: sum.split) simp
  finally show ?thesis .
qed

theorem automatic_links_are_decisive_witness:
  "\<exists>s d. s \<in> set (movements demo_core) \<and> d \<in> set (movements demo_core)
    \<and> jget (body demo_event) ''a'' = Some (JStr (mv_key s)) \<and> jget (body demo_event) ''b'' = Some (JStr (mv_key d))
    \<and> is_transfer_candidate s d \<and> account_evidence (distinctive demo_core) s d (ou_parts demo_outside s) \<noteq> []"
proof -
  obtain es' r where l: "link_transfers demo_outside demo_log = (es', r)" by fastforce
  then have "demo_event \<in> set (drop (length demo_log) es')" using demo_link by simp
  moreover have "event_type demo_event = ''TransferLinked''" by (simp add: demo_event_def transfer_linked_def Event_def)
  moreover have "distinct (map mv_key (movements demo_core))" using demo_scan(5) by (simp add: demo_scan(1))
  ultimately show ?thesis using automatic_links_are_decisive [OF demo_core l] by blast
qed

theorem one_live_transfer_per_movement_witness:
  "\<exists>es c i j. transfer_run demo_outside es \<and> project (ou_sha demo_outside) (ou_retained demo_outside) es None = Inr c
    \<and> pc_links c = [((''m1'', ''m2''), i), ((''m3'', ''m4''), j)] \<and> li_status i = ''linked'' \<and> li_status j = ''linked''
    \<and> {''m1'', ''m2''} \<inter> {''m3'', ''m4''} = {}"
proof -
  let ?e = "\<lambda>eid a b. transfer_linked eid a b ''verified'' (JObj [(''kind'', JStr ''confirmed'')]) ''2026-02-01'' ''human'' None"
  let ?es = "[?e ''e0'' ''m1'' ''m2'', ?e ''e1'' ''m3'' ''m4'']"
  have c: "confirm_transfer demo_outside ''m1'' ''m2'' [] = (take 1 ?es, Inr True)"
      "confirm_transfer demo_outside ''m3'' ''m4'' (take 1 ?es) = (?es, Inr True)"
      "confirm_transfer demo_outside ''m5'' ''m2'' ?es = (?es, Inr False)" by code_simp+
  have run: "transfer_run demo_outside ?es"
    using transfer_run.confirmed [OF transfer_run.confirmed [OF transfer_run.start c(1)] c(2)] by simp
  define r where "r = project (ou_sha demo_outside) (ou_retained demo_outside) ?es None"
  have "case r of Inr c \<Rightarrow> map (\<lambda>(p, i). (p, li_status i)) (pc_links c)
      = [((''m1'', ''m2''), ''linked''), ((''m3'', ''m4''), ''linked'')] | _ \<Rightarrow> False" unfolding r_def by code_simp
  then obtain k i j where k: "r = Inr k" "pc_links k = [((''m1'', ''m2''), i), ((''m3'', ''m4''), j)]"
      "li_status i = ''linked''" "li_status j = ''linked''"
    by (auto split: sum.splits)
  from one_live_transfer_per_movement [OF run k(1) [unfolded r_def], of "(''m1'', ''m2'')" i "(''m3'', ''m4'')" j] k run
  show ?thesis unfolding r_def by fastforce
qed

end
