(* ===== verification/Statement_Posting.thy ===== *)
theory Statement_Posting
  imports Transfer_Links Doc_Registry
begin

text \<open>
  \<^verbatim>\<open>product/viva/ingest/statement_projector.py\<close>: a balance-family statement is reconciled and, only if it
  holds, posted. The rungs are tried in order (as read, a forced correction, corroboration by another own
  account, a hold); a statement that reconciles is posted to the account its identity signals resolve to,
  stitched in front of or behind what the account holds, or held as a gap. The two heals retry holds
  until nothing more connects. The outcome vocabulary is that of \<^verbatim>\<open>pipeline_models.py\<close>. A line without a date
  is outside the model, and posting it is an error here.
\<close>

definition POSTED :: string where "POSTED = ''posted''"
definition DUPLICATE :: string where "DUPLICATE = ''duplicate''"
definition CONFLICT :: string where "CONFLICT = ''conflict''"
definition GAP :: string where "GAP = ''gap''"
definition IDENTITY :: string where "IDENTITY = ''identity''"

record ingest_result =
  ir_doc_id :: string
  ir_action :: string
  ir_doc_type :: string
  ir_account :: "string option"
  ir_grade :: "string option"
  ir_reconciliation :: "check_result option"
  ir_finding :: "reconciliation_finding option"
  ir_auto_corrected :: bool
  ir_message :: string

definition IngestResult :: "statement_facts \<Rightarrow> string \<Rightarrow> string option \<Rightarrow> string option \<Rightarrow> string \<Rightarrow> ingest_result" where
  "IngestResult f action account grade message =
     \<lparr>ir_doc_id = sf_doc_id f, ir_action = action, ir_doc_type = sf_doc_type f, ir_account = account, ir_grade = grade,
      ir_reconciliation = None, ir_finding = None, ir_auto_corrected = False, ir_message = message\<rparr>"

definition EN_DASH :: string where "EN_DASH = [CHR 0xE2, CHR 0x80, CHR 0x93]"

subsection \<open>Whose account the statement is\<close>

definition account_id_for :: "statement_facts \<Rightarrow> string" where
  "account_id_for f = preferred_account_key (sf_institution f) (sf_account_number f) (sf_account_ref f)"

definition source_identity :: "statement_facts \<Rightarrow> source_account_identity option" where
  "source_identity f =
     (case (sf_source_account_ref_page f, sf_page_count f) of
        (Some p, Some n) \<Rightarrow>
          (let claim = \<lparr>sai_reference = sf_source_account_ref f, sai_doc_id = sf_doc_id f, sai_page = p, sai_page_count = n\<rparr> in
           if eligible claim then Some claim else None)
      | _ \<Rightarrow> None)"

definition resolve_facts :: "core \<Rightarrow> statement_facts \<Rightarrow> resolution" where
  "resolve_facts c f =
     resolve c \<lparr>sg_institution = sf_institution f, sg_number = sf_account_number f, sg_ref = sf_account_ref f,
               sg_names = sf_account_names f, sg_kind = account_kind_for (sf_doc_type f), sg_doc_id = sf_doc_id f,
               sg_currency = sf_currency f, sg_source = source_identity f\<rparr>"

definition record_stronger_identity :: "outside \<Rightarrow> core \<Rightarrow> string \<Rightarrow> statement_facts \<Rightarrow> unit work" where
  "record_stronger_identity ou c account f =
     (if usable_full_number (sf_account_number f) = [] then retW ()
      else case account_info c account of
             Inl _ \<Rightarrow> retW ()
           | Inr known \<Rightarrow>
               if usable_full_number (as_number known) \<noteq> [] then retW ()
               else append_event ou (\<lambda>eid. Inr (account_identity_observed eid account (sf_closing_date f)
                      (sf_institution f) (sf_account_number f) (Some (sf_account_names f)) (Some (prov_of_doc (sf_doc_id f))))))"

definition account_for_resolution :: "outside \<Rightarrow> core \<Rightarrow> resolution \<Rightarrow> string \<Rightarrow> string work" where
  "account_for_resolution ou c r kind es =
     (es, Inr (if rs_verdict r = ''new'' \<and> seen_account c (rs_account_id r)
               then opaque_account_key (ou_token ou (length es)) kind else rs_account_id r))"

definition equals_held :: "decimal \<Rightarrow> decimal option \<Rightarrow> bool" where
  "equals_held d held = (case held of None \<Rightarrow> False | Some h \<Rightarrow> dec_eq d h)"

definition connects :: "statement_facts \<Rightarrow> core \<Rightarrow> string \<Rightarrow> string" where
  "connects f c account =
     (if equals_held (sf_opening_amount f) (running_balance c account) then ''forward''
      else if equals_held (sf_closing_amount f) (earliest_opening c account) then ''backward''
      else [])"

subsection \<open>Writing a statement that reconciles\<close>

definition hold :: "outside \<Rightarrow> statement_facts \<Rightarrow> json option \<Rightarrow> string \<Rightarrow> unit work" where
  "hold ou f why reason =
     append_event ou (\<lambda>eid. Inr (statement_held eid (sf_doc_id f) (facts_to_dict f) why reason (sf_closing_date f)
       (Some (prov_of_doc (sf_doc_id f)))))"

definition period_already_posted :: "outside \<Rightarrow> core \<Rightarrow> string \<Rightarrow> statement_facts \<Rightarrow> ingest_result option work" where
  "period_already_posted ou c account f =
     (case posted_period c account (period_end f) of
        None \<Rightarrow> retW None
      | Some (prior_doc, prior_closing) \<Rightarrow>
          (let closing = dec_str (sf_closing_amount f) in
           if closing = prior_closing then
             retW (Some (IngestResult f DUPLICATE (Some account) None
               (''Already posted '' @ EM_DASH @ '' this is the same statement for '' @ period_end f
                @ '', which I read on an earlier copy. Nothing was counted twice.'')))
           else
             bindW (hold ou f (Some (JObj [(''kind'', JStr ''reissue''), (''prior_doc_id'', JStr prior_doc),
                      (''prior_closing'', JStr prior_closing), (''closing'', JStr closing), (''period_end'', JStr (period_end f)),
                      (''message'', JStr ''another statement already covers this period'')])) ''reissue'') (\<lambda>_.
             retW (Some (IngestResult f CONFLICT (Some account) (Some ''conflicted'')
               (''I already hold a statement for '' @ period_end f @ '' on this account closing at '' @ prior_closing
                @ ''; this one closes at '' @ closing @ ''. One of them supersedes the other and I will not guess which ''
                @ EM_DASH @ '' held for your review.''))))))"

definition line_event :: "string \<Rightarrow> string \<Rightarrow> statement_facts \<Rightarrow> txn_fact \<Rightarrow> string \<Rightarrow> event res" where
  "line_event account kind f t eid =
     (case tf_date t of
        None \<Rightarrow> Inl (RuntimeError ''a line without a date is outside the model'')
      | Some d \<Rightarrow>
          bindR (txn_provenance t (sf_doc_id f)) (\<lambda>prov.
          simple_transaction eid account (PDec (tf_amount t)) (tf_description t) d None (Some prov)
            (if tf_grade t \<noteq> [] then tf_grade t else VERIFIED) kind (tf_source_reference t) (tf_counterparty_reference t)))"

definition opening_event :: "string \<Rightarrow> statement_facts \<Rightarrow> string \<Rightarrow> event res" where
  "opening_event account f eid =
     bindR (opening_provenance f) (\<lambda>prov.
     opening_balance_observed eid account (PDec (sf_opening_amount f)) (sf_opening_date f) (Some prov))"

definition closing_event :: "string \<Rightarrow> statement_facts \<Rightarrow> string \<Rightarrow> string \<Rightarrow> event res" where
  "closing_event account f confirmed_by eid =
     bindR (closing_provenance f) (\<lambda>prov.
     closing_balance_observed eid account (PDec (sf_closing_amount f)) (sf_closing_date f) (Some prov) confirmed_by)"

definition opened_event :: "string \<Rightarrow> string \<Rightarrow> statement_facts \<Rightarrow> string \<Rightarrow> event res" where
  "opened_event account kind f eid =
     account_opened eid account kind (if sf_account_ref f \<noteq> [] then sf_account_ref f else account) (sf_currency f)
       (sf_opening_date f) [] (sf_institution f) (sf_account_number f) (Some (sf_account_names f)) ISSUED None"

text \<open>What a posting is preceded by: an account and its seed, a re-seated opening, nothing, or the verdict that it is a gap.\<close>

definition seat :: "outside \<Rightarrow> core \<Rightarrow> string \<Rightarrow> string \<Rightarrow> statement_facts \<Rightarrow> bool work" where
  "seat ou c account kind f =
     (if \<not> is_seeded c account then
        bindW (append_all ou [opened_event account kind f, opening_event account f]) (\<lambda>_. retW True)
      else if connects f c account = ''forward'' then retW True
      else if connects f c account = ''backward'' then bindW (append_event ou (opening_event account f)) (\<lambda>_. retW True)
      else bindW (hold ou f None ''gap'') (\<lambda>_. retW False))"

definition reference_work :: "outside \<Rightarrow> string \<Rightarrow> statement_facts \<Rightarrow> unit work" where
  "reference_work ou account f =
     (if sf_source_account_ref f \<noteq> [] \<and> sf_source_account_ref_page f \<noteq> None then
        bindW (projection ou) (\<lambda>c.
        append_event ou (\<lambda>eid. reference_event eid account (sf_source_account_ref f) (sf_opening_date f) (sf_doc_id f)
          (sf_source_account_ref_page f) ''account''
          (case source_identity f of
             None \<Rightarrow> None
           | Some claim \<Rightarrow> if map_of (pc_captured c) (sf_doc_id f) = None then None else Some (sai_page_count claim))))
      else retW ())"

definition write_period :: "outside \<Rightarrow> string \<Rightarrow> string \<Rightarrow> statement_facts \<Rightarrow> string \<Rightarrow> unit work" where
  "write_period ou account kind f confirmed_by =
     bindW (append_all ou (map (line_event account kind f) (sf_transactions f) @ [closing_event account f confirmed_by])) (\<lambda>_.
     reference_work ou account f)"

definition shown :: "decimal option \<Rightarrow> string" where
  "shown d = (case d of None \<Rightarrow> ''None'' | Some x \<Rightarrow> dec_str x)"

definition gap_result :: "core \<Rightarrow> string \<Rightarrow> statement_facts \<Rightarrow> check_result \<Rightarrow> ingest_result" where
  "gap_result c account f recon =
     (IngestResult f GAP (Some account) (Some ''conflicted'')
       (''This statement ('' @ sf_opening_date f @ '' '' @ EN_DASH @ '' '' @ sf_closing_date f @ '') opens at ''
        @ dec_str (sf_opening_amount f) @ '', which doesn'' @ [CHR 0x27]
        @ ''t continue from the balance I hold ('' @ shown (running_balance c account)
        @ ''). A statement between them looks missing '' @ EM_DASH @ '' held, so I don'' @ [CHR 0x27]
        @ ''t invent the gap; it will slot in when the connector arrives.''))\<lparr>ir_reconciliation := Some recon\<rparr>"

definition posted_result ::
    "string \<Rightarrow> statement_facts \<Rightarrow> check_result \<Rightarrow> reconciliation_finding option \<Rightarrow> bool \<Rightarrow> string \<Rightarrow> ingest_result" where
  "posted_result account f recon fnd auto_corrected confirmed_by =
     (IngestResult f POSTED (Some account) (Some (if confirmed_by = ''human'' then VERIFIED else CORROBORATED))
       (''Posted and reconciled: balance '' @ dec_str (sf_closing_amount f) @ '' as of '' @ sf_closing_date f @ ''.''))
     \<lparr>ir_reconciliation := Some recon, ir_finding := fnd, ir_auto_corrected := auto_corrected\<rparr>"

definition post_reconciled ::
    "outside \<Rightarrow> statement_facts \<Rightarrow> check_result \<Rightarrow> reconciliation_finding option \<Rightarrow> bool \<Rightarrow> string \<Rightarrow> ingest_result work" where
  "post_reconciled ou f recon fnd auto_corrected confirmed_by =
     bindW (projection ou) (\<lambda>c.
     let r = resolve_facts c f; kind = account_kind_for (sf_doc_type f) in
     if rs_verdict r = ''ambiguous'' then
       bindW (hold ou f (Some (JObj [(''kind'', JStr ''identity''), (''candidate'', JStr (rs_candidate r)),
                (''candidate_name'', JStr (rs_candidate_name r)), (''candidates'', JStrs (rs_candidates r)),
                (''key'', JStr (rs_key r)), (''message'', JStr (rs_reason r))])) ''identity'') (\<lambda>_.
       retW (IngestResult f IDENTITY (if rs_candidate r = [] then None else Some (rs_candidate r)) (Some ''conflicted'')
         (''I read this statement, but whose account it is is unclear: '' @ rs_reason r @ ''. Held for you to confirm.'')))
     else
       bindW (account_for_resolution ou c r kind) (\<lambda>account.
       bindW (record_stronger_identity ou c account f) (\<lambda>_.
       bindW (period_already_posted ou c account f) (\<lambda>already.
       case already of
         Some res \<Rightarrow> retW res
       | None \<Rightarrow>
           bindW (seat ou c account kind f) (\<lambda>seated.
           if \<not> seated then
             retW (gap_result c account f recon)
           else
             bindW (write_period ou account kind f confirmed_by) (\<lambda>_.
             retW (posted_result account f recon fnd auto_corrected confirmed_by)))))))"

subsection \<open>The ladder\<close>

definition display_name :: "core \<Rightarrow> string \<Rightarrow> string" where
  "display_name c a = (case account_info c a of Inl _ \<Rightarrow> a | Inr st \<Rightarrow> if as_name st \<noteq> [] then as_name st else a)"

definition supplied_leg :: "core \<Rightarrow> decimal \<Rightarrow> movement \<Rightarrow> txn_fact" where
  "supplied_leg c gap m =
     \<lparr>tf_date = Some (mv_date m), tf_description = ''Payment (corroborated by '' @ display_name c (mv_account m) @ '')'',
      tf_amount = dec_mul (if dec_lt gap dec0 then Dec (- 1) 0 else Dec 1 0) (dec_abs (mv_amount m)), tf_page = JNull,
      tf_running_balance = None, tf_source_doc_id = prov_doc_id (mv_provenance m), tf_grade = CORROBORATED,
      tf_note = ''supplied by cross-document corroboration; attested by the ''
                @ ''counterparty statement, not read from this document'',
      tf_source_reference = [], tf_counterparty_reference = []\<rparr>"

definition own_tokens_of :: "statement_facts \<Rightarrow> string list" where
  "own_tokens_of f = account_tokens (sf_institution f) (sf_account_number f) (sf_account_ref f)"

definition corroborating :: "core \<Rightarrow> statement_facts \<Rightarrow> movement list" where
  "corroborating c f =
     find_corroborating_legs c (rs_account_id (resolve_facts c f)) (account_kind_for (sf_doc_type f)) (gap_delta f)
       (sf_currency f) (sf_opening_date f) (sf_closing_date f) (Some (own_tokens_of f))"

definition cross_document :: "core \<Rightarrow> decimal \<Rightarrow> movement list \<Rightarrow> reconciliation_finding" where
  "cross_document c gap legs =
     (let who = join '', '' (sort (remdups (map (display_name c \<circ> mv_account) legs)));
          g = dec_str gap; n = show_nat (length legs) in
      (finding False ''cross_document'' FORCED g
         (''This statement was off by '' @ g @ ''; '' @ n @ '' matching movement(s) on your '' @ who
          @ '' attest the missing line(s). I supplied them (corroborated) and linked them as transfers '' @ EM_DASH
          @ '' this document'' @ [CHR 0x27] @ ''s own read was incomplete.'') ''0.95'')
      \<lparr>rf_target := n @ '' missing leg(s) supplied from '' @ who, rf_implied := Some g\<rparr>)"

definition with_message :: "reconciliation_finding \<Rightarrow> ingest_result \<Rightarrow> ingest_result" where
  "with_message fnd res =
     (if ir_action res = POSTED then res\<lparr>ir_message := rf_message fnd @ '' '' @ ir_message res\<rparr> else res)"

definition try_corroboration :: "outside \<Rightarrow> statement_facts \<Rightarrow> ingest_result option work" where
  "try_corroboration ou f =
     bindW (projection ou) (\<lambda>c.
     let gap = gap_delta f; legs = corroborating c f;
         corrected = f\<lparr>sf_transactions := sf_transactions f @ map (supplied_leg c gap) legs\<rparr> in
     if rs_verdict (resolve_facts c f) = ''ambiguous'' \<or> legs = [] then retW None
     else
       bindW (liftW (reconciles corrected)) (\<lambda>recon.
       if \<not> passed recon then retW None
       else
         bindW (post_reconciled ou corrected recon (Some (cross_document c gap legs)) True []) (\<lambda>res.
         if ir_action res = POSTED
         then bindW (link_transfers ou) (\<lambda>_. retW (Some (with_message (cross_document c gap legs) res)))
         else retW (Some res))))"

definition forced_rung :: "outside \<Rightarrow> statement_facts \<Rightarrow> reconciliation_finding \<Rightarrow> ingest_result option work" where
  "forced_rung ou f fnd =
     (if rf_status fnd \<noteq> FORCED then retW None
      else
        bindW (liftW (apply_forced f fnd)) (\<lambda>corrected.
        bindW (liftW (reconciles corrected)) (\<lambda>recon.
        if \<not> passed recon then retW None
        else bindW (post_reconciled ou corrected recon (Some fnd) True []) (\<lambda>res. retW (Some (with_message fnd res))))))"

definition hold_conflict :: "outside \<Rightarrow> statement_facts \<Rightarrow> check_result \<Rightarrow> reconciliation_finding \<Rightarrow> ingest_result work" where
  "hold_conflict ou f recon fnd =
     bindW (hold ou f (Some (finding_to_dict fnd)) ''conflict'') (\<lambda>_.
     bindW (projection ou) (\<lambda>c.
     let r = resolve_facts c f in
     retW ((IngestResult f CONFLICT (if rs_verdict r = ''same'' then Some (rs_account_id r) else None) (Some ''conflicted'')
       (''Not posted; held for your review. '' @ rf_message fnd))
       \<lparr>ir_reconciliation := Some recon, ir_finding := Some fnd\<rparr>)))"

definition post_statement :: "outside \<Rightarrow> statement_facts \<Rightarrow> string \<Rightarrow> ingest_result work" where
  "post_statement ou f confirmed_by =
     bindW (liftW (reconciles f)) (\<lambda>recon.
     if passed recon then post_reconciled ou f recon None False confirmed_by
     else
       bindW (forced_rung ou f (diagnose f)) (\<lambda>forced.
       case forced of
         Some res \<Rightarrow> retW res
       | None \<Rightarrow>
           bindW (try_corroboration ou f) (\<lambda>corroborated.
           case corroborated of
             Some res \<Rightarrow> retW res
           | None \<Rightarrow> hold_conflict ou f recon (diagnose f))))"

subsection \<open>Healing\<close>

text \<open>The first hold not attempted yet, of the balance family, that the test accepts.\<close>

fun find_hold :: "(statement_facts \<Rightarrow> bool) \<Rightarrow> string set \<Rightarrow> json list \<Rightarrow> (string \<times> statement_facts) option res" where
  "find_hold test attempted [] = Inr None"
| "find_hold test attempted (b # bs) =
     bindR (req_text b ''doc_id'') (\<lambda>doc.
     if doc \<in> attempted then find_hold test attempted bs
     else
       bindR (identity_of_facts (jget b ''facts'')) (\<lambda>ident.
       if ident \<noteq> BALANCE_IDENTITY then find_hold test attempted bs
       else
         bindR (bindR (jitem b ''facts'') facts_from_dict) (\<lambda>f.
         if test f then Inr (Some (doc, f)) else find_hold test attempted bs)))"

text \<open>
  The loop of both heals, for at most \<open>fuel\<close> rounds: \<open>None\<close> is a loop still running. The heals give it twice
  the length of the log and one more round.
\<close>

fun heal_loop ::
    "outside \<Rightarrow> (core \<Rightarrow> json list) \<Rightarrow> (core \<Rightarrow> statement_facts \<Rightarrow> bool) \<Rightarrow> nat \<Rightarrow> string set \<Rightarrow> nat \<Rightarrow> nat option work" where
  "heal_loop ou holds test 0 attempted posted = retW None"
| "heal_loop ou holds test (Suc fuel) attempted posted =
     bindW (projection ou) (\<lambda>c.
     bindW (liftW (find_hold (test c) attempted (holds c))) (\<lambda>candidate.
     case candidate of
       None \<Rightarrow> retW (Some posted)
     | Some (doc, f) \<Rightarrow>
         bindW (post_statement ou f []) (\<lambda>res.
         heal_loop ou holds test fuel (insert doc attempted) (if ir_action res = POSTED then posted + 1 else posted))))"

lemma heal_loop_code [code]:
  "heal_loop ou holds test fuel attempted posted =
     (if fuel = 0 then retW None
      else
        bindW (projection ou) (\<lambda>c.
        bindW (liftW (find_hold (test c) attempted (holds c))) (\<lambda>candidate.
        case candidate of
          None \<Rightarrow> retW (Some posted)
        | Some (doc, f) \<Rightarrow>
            bindW (post_statement ou f []) (\<lambda>res.
            heal_loop ou holds test (fuel - 1) (insert doc attempted) (if ir_action res = POSTED then posted + 1 else posted)))))"
  by (cases fuel) simp_all

definition rounds :: "event list \<Rightarrow> nat" where
  "rounds es = 2 * length es + 1"

definition stitches :: "core \<Rightarrow> statement_facts \<Rightarrow> bool" where
  "stitches c f =
     (let r = resolve_facts c f in rs_verdict r \<noteq> ''ambiguous'' \<and> connects f c (rs_account_id r) \<noteq> [])"

definition heal_gaps :: "outside \<Rightarrow> nat option work" where
  "heal_gaps ou es = heal_loop ou gap_holds stitches (rounds es) {} 0 es"

definition conflict_holds :: "core \<Rightarrow> json list" where
  "conflict_holds c = filter (\<lambda>b. jget b ''reason'' = Some (JStr ''conflict'')) (open_holds c)"

definition corroborable :: "core \<Rightarrow> statement_facts \<Rightarrow> bool" where
  "corroborable c f = (rs_verdict (resolve_facts c f) \<noteq> ''ambiguous'' \<and> corroborating c f \<noteq> [])"

definition heal_corroboration :: "outside \<Rightarrow> nat option work" where
  "heal_corroboration ou es = heal_loop ou conflict_holds corroborable (rounds es) {} 0 es"

end
