(* ===== verification/Statement_Heal.thy ===== *)
theory Statement_Heal
  imports Statement_Posting
begin

text \<open>
  What posting a statement appends, and that both heals end: every round attempts a hold not attempted
  before, and posting a statement that was held adds no hold of another document.
\<close>

subsection \<open>What work appends\<close>

definition emits :: "(event \<Rightarrow> bool) \<Rightarrow> 'a work \<Rightarrow> bool" where
  "emits P m = (\<forall>es. \<exists>new. fst (m es) = es @ new \<and> list_all P new)"

named_theorems emits_rules \<open>what work appends\<close>

lemma emitsD: "emits P m \<Longrightarrow> m es = (es', r) \<Longrightarrow> \<exists>new. es' = es @ new \<and> list_all P new"
  by (metis emits_def fst_conv)

lemma emits_basic [emits_rules]:
  "emits P (retW x)" "emits P (liftW r)" "emits P (projection ou)" "emits P (account_for_resolution ou c rs kind)"
  by (auto simp: emits_def retW_def liftW_def projection_def account_for_resolution_def)

lemma emits_append [emits_rules]: "(\<And>eid e. mk eid = Inr e \<Longrightarrow> P e) \<Longrightarrow> emits P (append_event ou mk)"
  by (auto simp: emits_def append_event_def split: sum.split)

lemma emits_bindW [emits_rules]:
  assumes m: "emits P m" and f: "\<And>x. emits P (f x)"
  shows "emits P (bindW m f)"
  unfolding emits_def
proof
  fix es
  obtain es' r where r: "m es = (es', r)" by fastforce
  obtain new where new: "es' = es @ new" "list_all P new" using emitsD [OF m r] by blast
  show "\<exists>new. fst (bindW m f es) = es @ new \<and> list_all P new"
  proof (cases r)
    case (Inl e)
    then show ?thesis using r new by (simp add: bindW_def)
  next
    case (Inr x)
    obtain more_events where "fst (f x es') = es' @ more_events" "list_all P more_events" using f by (auto simp: emits_def)
    then show ?thesis using r new Inr by (simp add: bindW_def)
  qed
qed

lemma emits_append_all [emits_rules]:
  "(\<And>mk eid e. mk \<in> set mks \<Longrightarrow> mk eid = Inr e \<Longrightarrow> P e) \<Longrightarrow> emits P (append_all ou mks)"
  by (induction mks) (auto intro!: emits_rules)

lemma emits_if [emits_rules]: "emits P m \<Longrightarrow> emits P m' \<Longrightarrow> emits P (if b then m else m')"
  by simp

lemma emits_option [emits_rules]:
  "emits P m \<Longrightarrow> (\<And>x. emits P (f x)) \<Longrightarrow> emits P (case v of None \<Rightarrow> m | Some x \<Rightarrow> f x)"
  by (simp split: option.split)

lemma emits_prod [emits_rules]: "(\<And>x y. emits P (f x y)) \<Longrightarrow> emits P (case v of (x, y) \<Rightarrow> f x y)"
  by (simp split: prod.split)

lemma emits_sum [emits_rules]:
  "(\<And>x. emits P (f x)) \<Longrightarrow> (\<And>y. emits P (g y)) \<Longrightarrow> emits P (case v of Inl x \<Rightarrow> f x | Inr y \<Rightarrow> g y)"
  by (simp split: sum.split)

subsection \<open>The holds a posting leaves\<close>

text \<open>An event that is no hold, or a hold of the document \<open>d\<close> whose facts are of \<open>d\<close>.\<close>

definition holds_only :: "string \<Rightarrow> event \<Rightarrow> bool" where
  "holds_only d e =
     (event_type e = ''StatementHeld'' \<longrightarrow>
        jget (body e) ''doc_id'' = Some (JStr d)
        \<and> (\<forall>j. jget (body e) ''facts'' = Some j \<longrightarrow> jget j ''doc_id'' = Some (JStr d)))"

lemma facts_doc_id: "jget (facts_to_dict f) ''doc_id'' = Some (JStr (sf_doc_id f))"
  by (simp add: facts_to_dict_def)

lemma hold_emits [emits_rules]: "sf_doc_id f = d \<Longrightarrow> emits (holds_only d) (hold ou f why reason)"
  unfolding hold_def
  by (rule emits_append) (auto simp: holds_only_def statement_held_def Event_def facts_doc_id)

lemma other_type: "event_type e \<noteq> ''StatementHeld'' \<Longrightarrow> holds_only d e"
  by (simp add: holds_only_def)

lemma transaction_type: "simple_transaction eid a amt ds occ tags prov g k sr cr = Inr e \<Longrightarrow> event_type e = ''TransactionRecorded''"
  by (auto simp: simple_transaction_def res_iffs Let_def transaction_recorded_def Event_def with_body_def split: if_splits)

lemma event_types:
  "line_event a k f t eid = Inr e \<Longrightarrow> event_type e = ''TransactionRecorded''"
  "opening_event a f eid = Inr e \<Longrightarrow> event_type e = ''OpeningBalanceObserved''"
  "closing_event a f cb eid = Inr e \<Longrightarrow> event_type e = ''ClosingBalanceObserved''"
  "opened_event a k f eid = Inr e \<Longrightarrow> event_type e = ''AccountOpened''"
  "reference_event eid a r dt doc p sc n = Inr e \<Longrightarrow> event_type e = ''FinancialAccountReferenceObserved''"
  "linked_event sc1 src dst eid = Inr e \<Longrightarrow> event_type e = ''TransferLinked''"
  "suggested_event src cs eid = Inr e \<Longrightarrow> event_type e = ''TransferSuggested''"
  "event_type (account_identity_observed eid a occ i num ns pv) = ''AccountIdentityObserved''"
  by (auto simp: line_event_def transaction_type opening_event_def opening_balance_observed_def closing_event_def
      closing_balance_observed_def opened_event_def account_opened_def reference_event_def linked_event_def transfer_linked_def
      suggested_event_def transfer_suggested_def account_identity_observed_def Event_def res_iffs split: option.splits
      dest: transaction_type)

lemma scan_emits [emits_rules]: "emits (holds_only d) (scan ou graph sources sc verdicts open_sugg ks consumed a s)"
  by (induction ks arbitrary: consumed a s) (auto intro!: emits_rules other_type simp: event_types split: step.split)

lemma link_transfers_emits [emits_rules]: "emits (holds_only d) (link_transfers ou)"
  unfolding link_transfers_def Let_def by (intro emits_rules)

lemma posting_emits [emits_rules]:
  "emits (holds_only d) (record_stronger_identity ou c a f)"
  "emits (holds_only d) (write_period ou a k f cb)"
  "sf_doc_id f = d \<Longrightarrow> emits (holds_only d) (period_already_posted ou c a f)"
  "sf_doc_id f = d \<Longrightarrow> emits (holds_only d) (seat ou c a k f)"
  by (auto simp: record_stronger_identity_def write_period_def reference_work_def period_already_posted_def seat_def Let_def event_types
      intro!: emits_rules other_type dest!: event_types(1-5) split: option.split)

lemma post_reconciled_emits [emits_rules]:
  "sf_doc_id f = d \<Longrightarrow> emits (holds_only d) (post_reconciled ou f recon fnd ac cb)"
  unfolding post_reconciled_def Let_def by (intro emits_rules) auto

lemma apply_forced_keeps:
  "apply_forced f fnd = Inr g \<Longrightarrow> sf_doc_id g = sf_doc_id f \<and> sf_opening_amount g = sf_opening_amount f"
  by (auto simp: apply_forced_def res_iffs split: option.splits if_splits bool.splits)

lemma emits_bind_lift: "(\<And>x. r = Inr x \<Longrightarrow> emits P (f x)) \<Longrightarrow> emits P (bindW (liftW r) f)"
  by (cases r) (auto simp: emits_def bindW_def liftW_def)

lemma forced_rung_emits [emits_rules]: "sf_doc_id f = d \<Longrightarrow> emits (holds_only d) (forced_rung ou f fnd)"
  unfolding forced_rung_def by (intro emits_if emits_bind_lift emits_bindW emits_basic post_reconciled_emits) (use apply_forced_keeps in auto)

lemma try_corroboration_emits [emits_rules]: "sf_doc_id f = d \<Longrightarrow> emits (holds_only d) (try_corroboration ou f)"
  unfolding try_corroboration_def Let_def by (intro emits_rules) auto

lemma post_statement_emits: "sf_doc_id f = d \<Longrightarrow> emits (holds_only d) (post_statement ou f cb)"
  unfolding post_statement_def hold_conflict_def Let_def by (intro emits_rules) auto


subsection \<open>The documents a log holds\<close>

definition names_of :: "event \<Rightarrow> string list" where
  "names_of e =
     (if event_type e = ''StatementHeld''
      then List.map_filter id [jstr_of (body e) ''doc_id'', Option.bind (jget (body e) ''facts'') (\<lambda>j. jstr_of j ''doc_id'')]
      else [])"

definition held_names :: "event list \<Rightarrow> string set" where
  "held_names es = set (concat (map names_of es))"

lemma names_of_bound: "length (concat (map names_of es)) \<le> 2 * length es"
  by (induction es) (auto simp: names_of_def List.map_filter_def)

lemma held_names_finite [simp]: "finite (held_names es)" and held_names_bound: "card (held_names es) \<le> 2 * length es"
  using names_of_bound [of es] card_length [of "concat (map names_of es)"] by (simp_all add: held_names_def)

lemma holds_only_names: "holds_only d e \<Longrightarrow> set (names_of e) \<subseteq> {d}"
  by (auto simp: holds_only_def names_of_def List.map_filter_def jstr_of_def split: option.splits json.splits if_splits
      Option.bind_splits)

lemma held_names_extend: "list_all (holds_only d) new \<Longrightarrow> d \<in> held_names es \<Longrightarrow> held_names (es @ new) = held_names es"
  using holds_only_names by (fastforce simp: held_names_def list_all_iff)

text \<open>Every hold of the projection is the body of a hold event.\<close>

lemma set_dict_set: "set (dict_set k v d) \<subseteq> insert (k, v) (set d)"
  by (induction k v d rule: dict_set.induct) auto

lemma held_frame [simp]:
  "pc_held (upd_state a f c) = pc_held c" "pc_held (add_posted d c) = pc_held c"
  "pc_held (fold (post_leg e tt cur) ps c) = pc_held c"
  by (simp_all add: upd_state_def add_posted_def) (rule fold_frame, simp add: post_leg_def upd_state_def)

lemma keeps_held [keeps_rules]:
  "keeps pc_held fold_reference" "keeps pc_held fold_account_opened" "keeps pc_held fold_account_identity"
  "keeps pc_held fold_opening" "keeps pc_held fold_closing" "keeps pc_held fold_captured"
  "keeps pc_held fold_activity_held" "keeps pc_held fold_activity_resolved"
  "keeps pc_held fold_suggested" "keeps pc_held fold_category" "keeps pc_held fold_treatment_restored"
  "keeps pc_held fold_ruling" "keeps pc_held fold_declined" "keeps pc_held fold_merchant"
  "keeps pc_held fold_tagged" "keeps pc_held fold_goal_created" "keeps pc_held fold_goal_terms"
  "keeps pc_held (fold_goal_funds b)" "keeps pc_held fold_goal_state" "keeps pc_held fold_position"
  "keeps pc_held fold_transaction" "keeps pc_held fold_linked" "keeps pc_held fold_unlinked"
  by (auto simp: keeps_def handler_defs Let_def intro!: keepsR_rules split: option.split)

lemma keeps_held_read [keeps_rules]: "keeps pc_held (fold_read sha ret)" "keeps pc_held fold_alias"
  unfolding keeps_def fold_read_def fold_alias_def Let_def
  by (intro allI keepsR_bind [of _ _ _ "local_read _ _"] keepsR_bind_core keepsR_rules; simp)+

lemma handlers_keep_held:
  assumes "(ty, h) \<in> set (handlers sha ret)" "ty \<noteq> ''StatementHeld''"
  shows "keeps pc_held h"
proof -
  have "list_all (\<lambda>(ty, h). ty \<noteq> ''StatementHeld'' \<longrightarrow> keeps pc_held h) (handlers sha ret)"
    by (simp add: handlers_def keeps_rules)
  then show ?thesis using assms by (auto simp: list_all_iff)
qed

lemma claim_effect_held: "claim_effect e c = Inr c' \<Longrightarrow> pc_held c' = pc_held c"
proof -
  have "keepsR pc_held (pc_held c) (claim_effect e c)"
    unfolding claim_effect_def by (auto intro!: keepsR_rules split: option.split json.split)
  then show "claim_effect e c = Inr c' \<Longrightarrow> ?thesis" by (auto simp: keepsR_def)
qed

interpretation held: frame_field pc_held "{''StatementHeld''}"
  using claim_effect_held handlers_keep_held by unfold_locales blast+

lemma apply_held:
  assumes "apply_event sha ret e c = Inr c'" "pc_as_of c = None" "event_type e = ''StatementHeld''"
  shows "snd ` set (pc_held c') \<subseteq> insert (body e) (snd ` set (pc_held c))"
  using assms(1,2)
proof (cases rule: apply_event_cases)
  case kept
  then show ?thesis using claim_effect_held by auto
next
  case (handled c1 h)
  have c1: "pc_held c1 = pc_held c" using claim_effect_held handled(1) by blast
  have "h = fold_held" using handled(2) assms(3) by (simp add: handlers_def)
  then have "pc_held c' = pc_held c \<or> (\<exists>doc. pc_held c' = dict_set doc (body e) (pc_held c))"
    using handled(3) c1 by (auto 0 4 simp: fold_held_def res_iffs)
  then show ?thesis using set_dict_set by (fastforce simp: image_iff)
qed

lemma held_from_log:
  "project sha ret es None = Inr c \<Longrightarrow> b \<in> snd ` set (pc_held c)
    \<Longrightarrow> \<exists>e \<in> set es. event_type e = ''StatementHeld'' \<and> body e = b"
proof (induction es arbitrary: c b rule: rev_induct)
  case Nil
  then show ?case by (auto simp: project_def empty_core_def)
next
  case (snoc e es)
  then obtain c0 where c0: "project sha ret es None = Inr c0" "apply_event sha ret e c0 = Inr c"
    unfolding project_snoc by (auto simp: bindR_eq_Inr)
  have "b \<in> snd ` set (pc_held c0) \<or> event_type e = ''StatementHeld'' \<and> body e = b"
  proof (cases "event_type e = ''StatementHeld''")
    case True
    then show ?thesis using subsetD [OF apply_held [OF c0(2) project_as_of [OF c0(1)] True] snoc.prems(2)] by auto
  next
    case False
    then show ?thesis using snoc.prems(2) held.kept [OF c0(2) project_as_of [OF c0(1)]] by simp
  qed
  then show ?case using snoc.IH [OF c0(1)] by auto
qed

subsection \<open>Both heals end\<close>

lemma jitem_Inr: "jitem d k = Inr v \<longleftrightarrow> jget d k = Some v"
  by (cases d) (auto split: option.splits)

lemma req_text_iff: "req_text d k = Inr t \<longleftrightarrow> jget d k = Some (JStr t)"
proof -
  have "str_or [] (Some v) = Inr t \<longleftrightarrow> v = JStr t" for v by (cases v) auto
  then show ?thesis by (auto simp: req_text_def bindR_eq_Inr jitem_Inr)
qed

lemma bindR_InrE: "bindR m f = Inr y \<Longrightarrow> (\<And>x. m = Inr x \<Longrightarrow> f x = Inr y \<Longrightarrow> P) \<Longrightarrow> P"
  by (auto simp: bindR_eq_Inr)

lemma facts_from_dict_doc: "facts_from_dict j = Inr f \<Longrightarrow> jget j ''doc_id'' = Some (JStr (sf_doc_id f))"
  unfolding facts_from_dict_def StatementFacts_def by (elim bindR_InrE) (auto simp: req_text_iff)

lemma find_hold_Some:
  assumes "find_hold test attempted bs = Inr (Some (doc, f))"
  shows "\<exists>b j. b \<in> set bs \<and> jget b ''doc_id'' = Some (JStr doc) \<and> doc \<notin> attempted
     \<and> jget b ''facts'' = Some j \<and> jget j ''doc_id'' = Some (JStr (sf_doc_id f))"
  using assms
proof (induction bs)
  case (Cons b bs)
  obtain d where d: "req_text b ''doc_id'' = Inr d" using Cons.prems by (auto simp: bindR_eq_Inr)
  show ?case
  proof (cases "find_hold test attempted bs = Inr (Some (doc, f))")
    case True
    then show ?thesis using Cons.IH by auto
  next
    case False
    then obtain j where "jitem b ''facts'' = Inr j" "facts_from_dict j = Inr f" "d = doc" "doc \<notin> attempted"
      using Cons.prems d by (auto simp: bindR_eq_Inr split: if_splits)
    moreover have "jget b ''doc_id'' = Some (JStr d)" using d by (simp add: req_text_iff)
    ultimately show ?thesis using facts_from_dict_doc by (auto simp: jitem_Inr)
  qed
qed simp

lemma find_hold_held:
  assumes "project sha ret es None = Inr c" "set bs \<subseteq> snd ` set (pc_held c)"
    "find_hold test attempted bs = Inr (Some (doc, f))"
  shows "doc \<in> held_names es - attempted" "sf_doc_id f \<in> held_names es"
proof -
  obtain b j where b: "b \<in> set bs" "jget b ''doc_id'' = Some (JStr doc)" "doc \<notin> attempted"
    "jget b ''facts'' = Some j" "jget j ''doc_id'' = Some (JStr (sf_doc_id f))"
    using find_hold_Some [OF assms(3)] by blast
  obtain e where e: "e \<in> set es" "event_type e = ''StatementHeld''" "body e = b"
    using held_from_log [OF assms(1)] assms(2) b(1) by blast
  have "{doc, sf_doc_id f} \<subseteq> set (names_of e)"
    using e b by (simp add: names_of_def List.map_filter_def jstr_of_def)
  then show "doc \<in> held_names es - attempted" "sf_doc_id f \<in> held_names es"
    using e(1) b(3) by (auto simp: held_names_def)
qed

lemma heal_loop_more:
  "snd (heal_loop ou holds test fuel attempted posted es) \<noteq> Inr None
    \<Longrightarrow> heal_loop ou holds test (fuel + k) attempted posted es = heal_loop ou holds test fuel attempted posted es"
proof (induction fuel arbitrary: attempted posted es)
  case 0
  then show ?case by (simp add: retW_def)
next
  case (Suc fuel)
  then show ?case
    by (auto simp: bindW_def projection_def liftW_def retW_def split: prod.splits sum.splits option.splits)
qed

lemma rounds_enough: "card (held_names es - {}) < rounds es"
  using held_names_bound [of es] by (simp add: rounds_def)

text \<open>
  What a heal needs of the holds it looks at: they are holds of the projection. Then its loop ends,
  whatever its test accepts.
\<close>

locale healing =
  fixes holds :: "core \<Rightarrow> json list" and test :: "core \<Rightarrow> statement_facts \<Rightarrow> bool"
  assumes holds_are_held: "set (holds c) \<subseteq> snd ` set (pc_held c)"
begin

lemma loop_ends:
  "attempted \<subseteq> held_names es \<Longrightarrow> card (held_names es - attempted) < fuel
    \<Longrightarrow> snd (heal_loop ou holds test fuel attempted posted es) \<noteq> Inr None"
proof (induction fuel arbitrary: attempted posted es)
  case (Suc fuel)
  show ?case
  proof (cases "project (ou_sha ou) (ou_retained ou) es None")
    case (Inl x)
    then show ?thesis by (simp add: bindW_def projection_def)
  next
    case (Inr c)
    show ?thesis
    proof (cases "find_hold (test c) attempted (holds c)")
      case (Inl x)
      then show ?thesis using Inr by (simp add: bindW_def projection_def liftW_def)
    next
      case found: (Inr cand)
      show ?thesis
      proof (cases cand)
        case None
        then show ?thesis using Inr found by (simp add: bindW_def projection_def liftW_def retW_def)
      next
        case (Some df)
        obtain doc f where df: "df = (doc, f)" by fastforce
        have new: "doc \<in> held_names es - attempted" "sf_doc_id f \<in> held_names es"
          using find_hold_held [OF Inr holds_are_held] found Some df by blast+
        obtain es1 r where p: "post_statement ou f [] es = (es1, r)" by fastforce
        have same: "held_names es1 = held_names es"
          using emitsD [OF post_statement_emits [OF refl] p] held_names_extend new(2) by blast
        have "card (held_names es1 - insert doc attempted) < fuel"
          using Suc.prems(2) new(1) same card_Diff1_less [of "held_names es - attempted" doc]
          by (simp add: Diff_insert [of _ doc attempted])
        moreover have "insert doc attempted \<subseteq> held_names es1" using Suc.prems(1) new(1) same by blast
        ultimately show ?thesis
          using Suc.IH Inr found Some df p
          by (cases r) (auto simp: bindW_def projection_def liftW_def)
      qed
    qed
  qed
qed simp

lemma ends: "snd (heal_loop ou holds test (rounds es) {} 0 es) \<noteq> Inr None"
  by (rule loop_ends [OF _ rounds_enough]) simp

lemma more_rounds: "heal_loop ou holds test (rounds es + k) {} 0 es = heal_loop ou holds test (rounds es) {} 0 es"
  by (rule heal_loop_more [OF ends])

end

interpretation gaps: healing gap_holds stitches
  by unfold_locales (auto simp: gap_holds_def open_holds_def)

interpretation conflicts: healing conflict_holds corroborable
  by unfold_locales (auto simp: conflict_holds_def open_holds_def)

text \<open>
  C11: both heals end. Whatever the log, \<^verbatim>\<open>heal_gaps\<close> and \<^verbatim>\<open>heal_corroboration\<close> return or raise after at most
  twice as many rounds as the log has events, and granting the loop more rounds changes nothing: each
  round attempts a held document not attempted before, and posting a held statement, whatever it
  appends, holds no other document.
\<close>
theorem heals_terminate:
  "snd (heal_gaps ou es) \<noteq> Inr None \<and> snd (heal_corroboration ou es) \<noteq> Inr None
   \<and> heal_loop ou gap_holds stitches (rounds es + k) {} 0 es = heal_gaps ou es
   \<and> heal_loop ou conflict_holds corroborable (rounds es + k) {} 0 es = heal_corroboration ou es"
  using gaps.ends conflicts.ends gaps.more_rounds conflicts.more_rounds
  by (simp add: heal_gaps_def heal_corroboration_def)

end
