(* ===== verification/Statement_Balance.thy ===== *)
theory Statement_Balance
  imports Statement_Heal
begin

text \<open>
  What a posted statement does to the ledger: only a statement that reconciles moves money, and the
  balance read afterwards is the closing figure, corroborated.
\<close>

subsection \<open>Work that succeeds\<close>

lemma work_Inr:
  "retW x es = (es', Inr y) \<longleftrightarrow> es' = es \<and> y = x"
  "liftW r es = (es', Inr y) \<longleftrightarrow> es' = es \<and> r = Inr y"
  "projection ou es = (es', Inr c) \<longleftrightarrow> es' = es \<and> project (ou_sha ou) (ou_retained ou) es None = Inr c"
  "bindW m f es = (es', Inr z) \<longleftrightarrow> (\<exists>es1 v. m es = (es1, Inr v) \<and> f v es1 = (es', Inr z))"
  "append_event ou mk es = (es', Inr u) \<longleftrightarrow>
     (\<exists>e c. mk (ou_fresh ou (length es)) = Inr e \<and> es' = es @ [e] \<and> project (ou_sha ou) (ou_retained ou) es' None = Inr c)"
  by (auto simp: retW_def liftW_def projection_def bindW_def append_event_def bindR_eq_Inr split: prod.splits sum.splits)

lemma append_all_Inr:
  "append_all ou mks es = (es', Inr u) \<Longrightarrow> \<exists>new. es' = es @ new \<and> list_all2 (\<lambda>mk e. \<exists>eid. mk eid = Inr e) mks new"
proof (induction mks arbitrary: es)
  case (Cons mk mks)
  then obtain e where "mk (ou_fresh ou (length es)) = Inr e" "append_all ou mks (es @ [e]) = (es', Inr u)"
    by (auto simp: work_Inr)
  with Cons.IH [of "es @ [e]"] show ?case by (auto intro: list.rel_intros)
qed (simp add: work_Inr)

subsection \<open>Work that raises\<close>

lemma work_Inl:
  "retW x es = (es', Inl z) \<longleftrightarrow> False"
  "liftW r es = (es', Inl z) \<longleftrightarrow> es' = es \<and> r = Inl z"
  "projection ou es = (es', Inl z) \<longleftrightarrow> es' = es \<and> project (ou_sha ou) (ou_retained ou) es None = Inl z"
  "bindW m f es = (es', Inl z) \<longleftrightarrow> m es = (es', Inl z) \<or> (\<exists>es1 v. m es = (es1, Inr v) \<and> f v es1 = (es', Inl z))"
  "account_for_resolution ou c rs kind es = (es', Inl z) \<longleftrightarrow> False"
  by (auto simp: retW_def liftW_def projection_def bindW_def account_for_resolution_def split: prod.splits sum.splits)

text \<open>Whether it returns or raises, a sequence of appends leaves the events of its first constructors.\<close>

lemma append_all_any:
  "append_all ou mks es = (es', r) \<Longrightarrow>
     \<exists>new. es' = es @ new \<and> list_all2 (\<lambda>mk e. \<exists>eid. mk eid = Inr e) (take (length new) mks) new"
proof (induction mks arbitrary: es)
  case (Cons mk mks)
  then consider (raises) x where "append_event ou mk es = (es', Inl x)"
    | (goes_on) e where "mk (ou_fresh ou (length es)) = Inr e" "append_all ou mks (es @ [e]) = (es', r)"
    by (cases r) (auto simp: work_Inr work_Inl)
  then show ?case
  proof cases
    case raises
    then consider "es' = es" | e where "mk (ou_fresh ou (length es)) = Inr e" "es' = es @ [e]"
      by (auto simp: append_event_def split: sum.splits)
    then show ?thesis
    proof cases
      case (2 e)
      then show ?thesis by (intro exI [of _ "[e]"]) auto
    qed simp
  next
    case (goes_on e)
    then obtain new where "es' = (es @ [e]) @ new" "list_all2 (\<lambda>mk e. \<exists>eid. mk eid = Inr e) (take (length new) mks) new"
      using Cons.IH by blast
    then show ?thesis using goes_on(1) by (intro exI [of _ "e # new"]) auto
  qed
qed (auto simp: retW_def)

subsection \<open>Only a statement that reconciles moves money\<close>

definition MONEY_EVENTS :: "string list" where
  "MONEY_EVENTS = [''OpeningBalanceObserved'', ''TransactionRecorded'', ''ClosingBalanceObserved'']"

definition money_of :: "event list \<Rightarrow> event list" where
  "money_of es = filter (\<lambda>e. event_type e \<in> set MONEY_EVENTS) es"

text \<open>The money events of a posting: at most an opening, then one transaction for each line and the closing figure.\<close>

definition books_lines :: "string \<Rightarrow> statement_facts \<Rightarrow> event list \<Rightarrow> bool" where
  "books_lines account f lines =
     list_all2 (\<lambda>t e. \<exists>eid. line_event account (account_kind_for (sf_doc_type f)) f t eid = Inr e) (sf_transactions f) lines"

definition posts :: "string \<Rightarrow> statement_facts \<Rightarrow> string \<Rightarrow> event list \<Rightarrow> bool" where
  "posts account f confirmed_by new =
     (\<exists>opened lines cl. money_of new = opened @ lines @ [cl]
        \<and> (opened = [] \<or> (\<exists>o_id o_ev. opening_event account f o_id = Inr o_ev \<and> opened = [o_ev]))
        \<and> books_lines account f lines \<and> (\<exists>eid. closing_event account f confirmed_by eid = Inr cl))"

text \<open>
  The money events of a posting that was interrupted: at most an opening, then one transaction for each of the
  first lines, in order, and no closing; or all of a posting, when what follows the closing raised.
\<close>

definition posts_part :: "string \<Rightarrow> statement_facts \<Rightarrow> string \<Rightarrow> event list \<Rightarrow> bool" where
  "posts_part account f confirmed_by new =
     (posts account f confirmed_by new
      \<or> (\<exists>opened lines. money_of new = opened @ lines
           \<and> (opened = [] \<or> (\<exists>o_id o_ev. opening_event account f o_id = Inr o_ev \<and> opened = [o_ev]))
           \<and> books_lines account (f\<lparr>sf_transactions := take (length lines) (sf_transactions f)\<rparr>) lines))"

lemma money_of_simps [simp]:
  "money_of [] = []" "money_of (xs @ ys) = money_of xs @ money_of ys"
  "money_of (e # es) = (if event_type e \<in> set MONEY_EVENTS then e # money_of es else money_of es)" for e
  by (simp_all add: money_of_def)

lemma money_types:
  "line_event a k f t eid = Inr e \<Longrightarrow> event_type e \<in> set MONEY_EVENTS"
  "opening_event a f eid = Inr e \<Longrightarrow> event_type e \<in> set MONEY_EVENTS"
  "closing_event a f cb eid = Inr e \<Longrightarrow> event_type e \<in> set MONEY_EVENTS"
  "opened_event a k f eid = Inr e \<Longrightarrow> event_type e \<notin> set MONEY_EVENTS"
  "reference_event eid a r dt doc p sc n = Inr e \<Longrightarrow> event_type e \<notin> set MONEY_EVENTS"
  by (auto simp: MONEY_EVENTS_def dest!: event_types(1-5))

abbreviation quiet :: "'a work \<Rightarrow> bool" where
  "quiet \<equiv> emits (\<lambda>e. event_type e \<notin> set MONEY_EVENTS)"

lemma quietD: "quiet m \<Longrightarrow> m es = (es', r) \<Longrightarrow> \<exists>new. es' = es @ new \<and> money_of new = []"
  by (auto dest!: emitsD simp: money_of_def filter_empty_conv list_all_iff)

lemma quiet_hold: "quiet (hold ou f why reason)"
  unfolding hold_def by (rule emits_append) (auto simp: MONEY_EVENTS_def statement_held_def Event_def)

lemma identity_no_money: "event_type (account_identity_observed eid a occ i num ns pv) \<notin> set MONEY_EVENTS"
  by (simp add: event_types(8) MONEY_EVENTS_def)

lemma quiet_parts:
  "quiet (record_stronger_identity ou c a f)" "quiet (reference_work ou a f)" "quiet (period_already_posted ou c a f)"
  "quiet (hold_conflict ou f recon fnd)"
  by (auto simp: record_stronger_identity_def reference_work_def period_already_posted_def hold_conflict_def Let_def
      identity_no_money intro!: emits_rules quiet_hold dest: money_types(5) split: option.split sum.split)

lemma quiet_scan: "quiet (scan ou graph sources sc verdicts open_sugg ks consumed a s)"
  by (induction ks arbitrary: consumed a s) (auto intro!: emits_rules simp: MONEY_EVENTS_def event_types split: step.split)

lemma quiet_link_transfers: "quiet (link_transfers ou)"
  unfolding link_transfers_def Let_def by (intro emits_rules quiet_scan)

lemmas quiet_work = quietD [OF quiet_hold] quietD [OF quiet_parts(1)] quietD [OF quiet_parts(2)]
lemmas link_transfers_quiet = quietD [OF quiet_link_transfers]

lemma books_lines_money: "books_lines a f lines \<Longrightarrow> money_of lines = lines"
  using money_types(1) by (fastforce simp: books_lines_def money_of_def filter_id_conv list_all2_conv_all_nth in_set_conv_nth)

lemma write_period_posts:
  assumes "write_period ou a (account_kind_for (sf_doc_type f)) f cb es = (es', Inr u)"
  shows "\<exists>new lines cl. es' = es @ new \<and> money_of new = lines @ [cl] \<and> books_lines a f lines
    \<and> (\<exists>eid. closing_event a f cb eid = Inr cl)"
proof -
  let ?mks = "map (line_event a (account_kind_for (sf_doc_type f)) f) (sf_transactions f) @ [closing_event a f cb]"
  obtain es1 where 1: "append_all ou ?mks es = (es1, Inr ())" "reference_work ou a f es1 = (es', Inr u)"
    using assms by (auto simp: write_period_def work_Inr)
  obtain new where new: "es1 = es @ new" "list_all2 (\<lambda>mk e. \<exists>eid. mk eid = Inr e) ?mks new"
    using append_all_Inr [OF 1(1)] by blast
  obtain lines cl where l: "new = lines @ [cl]" "\<exists>eid. closing_event a f cb eid = Inr cl" "books_lines a f lines"
    using new(2) by (auto simp: books_lines_def list_all2_append1 list_all2_Cons1 list_all2_map1)
  obtain r where r: "es' = es1 @ r" "money_of r = []" using quiet_work(3) [OF 1(2)] by blast
  have "money_of (new @ r) = lines @ [cl]" using l r books_lines_money money_types(3) by auto
  then show ?thesis using l new(1) r(1) by (intro exI [of _ "new @ r"] exI [of _ lines] exI [of _ cl]) simp
qed

lemma seat_seated:
  assumes "seat ou c a k f es = (es', Inr seated)"
  shows "\<exists>new. es' = es @ new \<and> (money_of new = []
    \<or> seated \<and> (\<exists>o_id o_ev. opening_event a f o_id = Inr o_ev \<and> money_of new = [o_ev]))"
proof -
  consider (fresh) x o_id y where "es' = es @ [x, y]" "event_type x \<notin> set MONEY_EVENTS" "opening_event a f o_id = Inr y" "seated"
    | (infront) o_id y where "es' = es @ [y]" "opening_event a f o_id = Inr y" "seated"
    | (forward) "es' = es" | (gap) "hold ou f None ''gap'' es = (es', Inr ())"
    using assms money_types(4) by (auto simp: seat_def work_Inr split: if_splits)
  then show ?thesis
  proof cases
    case (fresh x o_id y)
    then show ?thesis using money_types(2) [OF fresh(3)] fresh by (intro exI [of _ "[x, y]"]) auto
  next
    case (infront o_id y)
    then show ?thesis using money_types(2) [OF infront(2)] by (intro exI [of _ "[y]"]) auto
  next
    case forward
    then show ?thesis by simp
  next
    case gap
    then show ?thesis using quiet_work(1) [OF gap] by blast
  qed
qed

lemma period_already_posted_result:
  assumes "period_already_posted ou c a f es = (es', Inr already)"
  shows "already = None \<and> es' = es \<and> posted_period c a (period_end f) = None
    \<or> (\<exists>new r. already = Some r \<and> es' = es @ new \<and> money_of new = [] \<and> ir_action r \<noteq> POSTED)"
proof (cases "posted_period c a (period_end f)")
  case None
  then show ?thesis using assms by (simp add: period_already_posted_def work_Inr)
next
  case (Some seen)
  consider (copy) r where "es' = es" "already = Some r" "ir_action r = DUPLICATE"
    | (reissue) why r where "hold ou f why ''reissue'' es = (es', Inr ())" "already = Some r" "ir_action r = CONFLICT"
    using assms Some by (cases seen) (auto simp: period_already_posted_def work_Inr Let_def IngestResult_def split: if_splits)
  then show ?thesis
  proof cases
    case copy
    then show ?thesis by (auto simp: POSTED_def DUPLICATE_def intro: exI [of _ "[]"])
  next
    case (reissue why r)
    then show ?thesis using quiet_work(1) [OF reissue(1)] by (auto simp: POSTED_def CONFLICT_def)
  qed
qed

lemma post_reconciled_steps:
  assumes "post_reconciled ou f recon fnd ac cb es = (es', Inr res)" "k = account_kind_for (sf_doc_type f)"
  obtains (unclear) why where "hold ou f why ''identity'' es = (es', Inr ())" "ir_action res = IDENTITY"
  | (known) c a es1 already es2 where "project (ou_sha ou) (ou_retained ou) es None = Inr c"
      "record_stronger_identity ou c a f es = (es1, Inr ())" "period_already_posted ou c a f es1 = (es2, Inr already)"
      "(case already of Some r \<Rightarrow> retW r | None \<Rightarrow> bindW (seat ou c a k f) (\<lambda>seated.
          if \<not> seated then retW (gap_result c a f recon)
          else bindW (write_period ou a k f cb) (\<lambda>_. retW (posted_result a f recon fnd ac cb)))) es2 = (es', Inr res)"
  using assms
  by (auto simp: post_reconciled_def work_Inr Let_def account_for_resolution_def IngestResult_def split: if_splits)

lemma post_reconciled_cases:
  assumes "post_reconciled ou f recon fnd ac cb es = (es', Inr res)" "k = account_kind_for (sf_doc_type f)"
  obtains (held) new where "es' = es @ new" "money_of new = []" "ir_action res \<noteq> POSTED"
  | (posted) c a es1 es2 where "project (ou_sha ou) (ou_retained ou) es None = Inr c"
      "record_stronger_identity ou c a f es = (es1, Inr ())" "posted_period c a (period_end f) = None"
      "seat ou c a k f es1 = (es2, Inr True)" "write_period ou a k f cb es2 = (es', Inr ())"
      "res = posted_result a f recon fnd ac cb"
  using assms
proof (cases rule: post_reconciled_steps)
  case (unclear why)
  then show ?thesis using held quiet_work(1) [OF unclear(1)] by (auto simp: IDENTITY_def POSTED_def)
next
  case (known c a es1 already es2)
  obtain n1 where n1: "es1 = es @ n1" "money_of n1 = []" using quiet_work(2) [OF known(2)] by blast
  from period_already_posted_result [OF known(3)] show ?thesis
  proof (elim disjE exE conjE)
    fix new r assume "already = Some r" "es2 = es1 @ new" "money_of new = []" "ir_action r \<noteq> POSTED"
    then show ?thesis using known(4) n1 held [of "n1 @ new"] by (simp add: work_Inr)
  next
    assume fresh: "already = None" "es2 = es1" "posted_period c a (period_end f) = None"
    then obtain seated es3 where s: "seat ou c a k f es1 = (es3, Inr seated)"
      "(if \<not> seated then retW (gap_result c a f recon)
        else bindW (write_period ou a k f cb) (\<lambda>_. retW (posted_result a f recon fnd ac cb))) es3 = (es', Inr res)"
      using known(4) by (auto simp: work_Inr)
    show ?thesis
    proof (cases seated)
      case True
      then show ?thesis using posted [OF known(1,2) fresh(3), of es3] s by (simp add: work_Inr)
    next
      case False
      then obtain n2 where "es' = es1 @ n2" "money_of n2 = []" using seat_seated [OF s(1)] s(2) by (auto simp: work_Inr)
      then show ?thesis using held [of "n1 @ n2"] n1 s(2) False
        by (simp add: work_Inr gap_result_def IngestResult_def GAP_def POSTED_def)
    qed
  qed
qed

lemma post_reconciled_money:
  assumes "post_reconciled ou f recon fnd ac cb es = (es', Inr res)"
  shows "\<exists>new. es' = es @ new \<and>
    (if ir_action res = POSTED then \<exists>a. ir_account res = Some a \<and> posts a f cb new else money_of new = [])"
  using assms refl
proof (cases rule: post_reconciled_cases)
  case (held new)
  then show ?thesis by auto
next
  case (posted c a es1 es2)
  obtain n1 where n1: "es1 = es @ n1" "money_of n1 = []" using quiet_work(2) [OF posted(2)] by blast
  obtain n2 where n2: "es2 = es1 @ n2" "money_of n2 = [] \<or> (\<exists>o_id o_ev. opening_event a f o_id = Inr o_ev \<and> money_of n2 = [o_ev])"
    using seat_seated [OF posted(4)] by blast
  obtain n3 lines cl where n3: "es' = es2 @ n3" "money_of n3 = lines @ [cl]" "books_lines a f lines"
    "\<exists>eid. closing_event a f cb eid = Inr cl"
    using write_period_posts [OF posted(5)] by blast
  have "posts a f cb (n1 @ n2 @ n3)"
    unfolding posts_def using n1(2) n2(2) n3(2-4) by (intro exI [of _ "money_of n2"] exI [of _ lines] exI [of _ cl]) auto
  then show ?thesis using n1(1) n2(1) n3(1) posted(6)
    by (intro exI [of _ "n1 @ n2 @ n3"]) (simp add: posted_result_def IngestResult_def)
qed

text \<open>What a rung did: nothing, or it posted facts of the same document that reconcile, or it moved no money.\<close>

definition rung_done :: "statement_facts \<Rightarrow> string \<Rightarrow> event list \<Rightarrow> ingest_result \<Rightarrow> bool" where
  "rung_done f cb new res =
     (if ir_action res = POSTED
      then \<exists>g r a. sf_doc_id g = sf_doc_id f \<and> sf_opening_amount g = sf_opening_amount f \<and> reconciles g = Inr r \<and> passed r
             \<and> ir_account res = Some a \<and> posts a g cb new
      else money_of new = [])"

lemma posts_more: "posts a g cb new \<Longrightarrow> money_of extra = [] \<Longrightarrow> posts a g cb (new @ extra)"
  by (simp add: posts_def)

lemma with_message_fields [simp]: "ir_action (with_message fnd res) = ir_action res" "ir_account (with_message fnd res) = ir_account res"
  by (simp_all add: with_message_def)

lemma rung_done_message [simp]: "rung_done f cb new (with_message fnd res) = rung_done f cb new res"
  by (simp add: rung_done_def)

lemma post_reconciled_done:
  assumes "post_reconciled ou g recon fnd ac cb es = (es', Inr res)" "reconciles g = Inr recon" "passed recon"
    "sf_doc_id g = sf_doc_id f" "sf_opening_amount g = sf_opening_amount f"
  shows "\<exists>new. es' = es @ new \<and> rung_done f cb new res"
  using post_reconciled_money [OF assms(1)] assms(2-) by (fastforce simp: rung_done_def)

lemma forced_rung_done:
  assumes "forced_rung ou f fnd es = (es', Inr out)"
  shows "\<exists>new. es' = es @ new \<and> (case out of None \<Rightarrow> new = [] | Some res \<Rightarrow> rung_done f [] new res)"
proof (cases out)
  case None
  then show ?thesis using assms by (auto simp: forced_rung_def work_Inr split: if_splits)
next
  case (Some res)
  then obtain g recon res0 where g: "apply_forced f fnd = Inr g" "reconciles g = Inr recon" "passed recon"
    "post_reconciled ou g recon (Some fnd) True [] es = (es', Inr res0)" "res = with_message fnd res0"
    using assms by (auto simp: forced_rung_def work_Inr split: if_splits)
  then show ?thesis
    using post_reconciled_done [OF g(4,2,3), of f] apply_forced_keeps [OF g(1)] Some g(5) by simp
qed

lemma try_corroboration_done:
  assumes "try_corroboration ou f es = (es', Inr out)"
  shows "\<exists>new. es' = es @ new \<and> (case out of None \<Rightarrow> new = [] | Some res \<Rightarrow> rung_done f [] new res)"
proof (cases out)
  case None
  then show ?thesis using assms by (auto simp: try_corroboration_def work_Inr Let_def split: if_splits)
next
  case (Some res)
  then obtain g recon fnd res0 es1 where g: "reconciles g = Inr recon" "passed recon"
    "post_reconciled ou g recon (Some fnd) True [] es = (es1, Inr res0)"
    "sf_doc_id g = sf_doc_id f" "sf_opening_amount g = sf_opening_amount f"
    and after: "es' = es1 \<and> res = res0 \<or> ir_action res0 = POSTED \<and> (\<exists>u. link_transfers ou es1 = (es', Inr u)) \<and> res = with_message fnd res0"
    using assms by (fastforce simp: try_corroboration_def work_Inr Let_def split: if_splits)
  obtain new where new: "es1 = es @ new" "rung_done f [] new res0" using post_reconciled_done [OF g(3,1,2,4,5)] by blast
  from after show ?thesis
  proof (elim disjE conjE exE)
    assume "es' = es1" "res = res0"
    then show ?thesis using new Some by simp
  next
    fix u assume p: "ir_action res0 = POSTED" "link_transfers ou es1 = (es', Inr u)" "res = with_message fnd res0"
    obtain extra where "es' = es1 @ extra" "money_of extra = []" using link_transfers_quiet [OF p(2)] by blast
    then show ?thesis using new p Some posts_more by (fastforce simp: rung_done_def)
  qed
qed

subsection \<open>A posting that raises\<close>

text \<open>The lines are booked from the document, type and date fields of the facts, whatever other lines they have.\<close>

lemma line_event_first: "line_event a k (f\<lparr>sf_transactions := ts\<rparr>) = line_event a k f"
  by (intro ext) (simp add: line_event_def split: option.split)

lemma books_lines_first:
  "books_lines a (f\<lparr>sf_transactions := ts\<rparr>) lines \<longleftrightarrow>
     list_all2 (\<lambda>t e. \<exists>eid. line_event a (account_kind_for (sf_doc_type f)) f t eid = Inr e) ts lines"
  by (simp add: books_lines_def line_event_first)

lemma posts_part_quiet: "money_of new = [] \<Longrightarrow> posts_part a f cb new"
  by (auto simp: posts_part_def books_lines_def)

definition at_most_opens :: "string \<Rightarrow> statement_facts \<Rightarrow> event list \<Rightarrow> bool" where
  "at_most_opens a f opened = (opened = [] \<or> (\<exists>o_id o_ev. opening_event a f o_id = Inr o_ev \<and> opened = [o_ev]))"

lemma posts_part_opened: "at_most_opens a f (money_of new) \<Longrightarrow> posts_part a f cb new"
  unfolding posts_part_def at_most_opens_def
  by (intro disjI2 exI [of _ "money_of new"] exI [of _ "[]"]) (simp add: books_lines_def)

lemma seat_any:
  assumes "seat ou c a k f es = (es', r)"
  shows "\<exists>new. es' = es @ new \<and> at_most_opens a f (money_of new)"
proof -
  consider (fresh) r1 where "append_all ou [opened_event a k f, opening_event a f] es = (es', r1)"
    | (infront) r1 where "append_event ou (opening_event a f) es = (es', r1)" | (forward) "es' = es"
    | (gap) r1 where "hold ou f None ''gap'' es = (es', r1)"
    using assms by (cases r) (auto simp: seat_def work_Inr(1-4) work_Inl simp del: append_all.simps split: if_splits)
  then show ?thesis
  proof cases
    case (fresh r1)
    then obtain new where "es' = es @ new" "list_all2 (\<lambda>mk e. \<exists>eid. mk eid = Inr e) (take (length new) [opened_event a k f, opening_event a f]) new"
      using append_all_any by blast
    then show ?thesis using money_types(2,4)
      by (intro exI [of _ new]) (auto simp: at_most_opens_def list_all2_Cons1 take_Cons' split: if_splits)
  next
    case (infront r1)
    then consider "es' = es" | e where "opening_event a f (ou_fresh ou (length es)) = Inr e" "es' = es @ [e]"
      by (auto simp: append_event_def split: sum.splits)
    then show ?thesis
    proof cases
      case (2 e)
      then show ?thesis using money_types(2) by (intro exI [of _ "[e]"]) (auto simp: at_most_opens_def)
    qed (simp add: at_most_opens_def)
  next
    case forward
    then show ?thesis by (simp add: at_most_opens_def)
  next
    case gap
    then show ?thesis using quiet_work(1) unfolding at_most_opens_def by blast
  qed
qed

lemma write_period_raises:
  assumes "write_period ou a (account_kind_for (sf_doc_type f)) f cb es = (es', Inl x)"
  shows "\<exists>new. es' = es @ new \<and> (\<forall>n0. at_most_opens a f (money_of n0) \<longrightarrow> posts_part a f cb (n0 @ new))"
proof -
  let ?ls = "map (line_event a (account_kind_for (sf_doc_type f)) f) (sf_transactions f)"
  let ?made = "\<lambda>mk e. \<exists>eid. mk eid = Inr e"
  obtain es1 r where 1: "append_all ou (?ls @ [closing_event a f cb]) es = (es1, r)"
    and rest: "es' = es1 \<or> (\<exists>r1. reference_work ou a f es1 = (es', r1))"
    using assms by (auto simp: write_period_def work_Inl)
  obtain n1 where n1: "es1 = es @ n1" "list_all2 ?made (take (length n1) (?ls @ [closing_event a f cb])) n1"
    using append_all_any [OF 1] by blast
  obtain n2 where n2: "es' = es1 @ n2" "money_of n2 = []" using rest quiet_work(3) by (metis append_Nil2 money_of_simps(1))
  show ?thesis
  proof (cases "length n1 \<le> length ?ls")
    case True
    then have b: "books_lines a (f\<lparr>sf_transactions := take (length n1) (sf_transactions f)\<rparr>) n1"
      using n1(2) by (simp add: books_lines_first take_map list_all2_map1)
    then have "money_of (n1 @ n2) = n1" using n2(2) books_lines_money [OF b] by simp
    then have "posts_part a f cb (n0 @ n1 @ n2)" if "at_most_opens a f (money_of n0)" for n0
      using that b unfolding posts_part_def at_most_opens_def by (intro disjI2 exI [of _ "money_of n0"] exI [of _ n1]) simp
    then show ?thesis using n1(1) n2(1) by (intro exI [of _ "n1 @ n2"]) simp
  next
    case False
    then obtain lines cl where l: "n1 = lines @ [cl]" "books_lines a f lines" "\<exists>eid. closing_event a f cb eid = Inr cl"
      using n1(2) by (auto simp: books_lines_def list_all2_append1 list_all2_Cons1 list_all2_map1)
    then have "money_of (n1 @ n2) = lines @ [cl]" using n2(2) books_lines_money money_types(3) by auto
    then have "posts_part a f cb (n0 @ n1 @ n2)" if "at_most_opens a f (money_of n0)" for n0
      using that l(2,3) unfolding posts_part_def posts_def at_most_opens_def
      by (intro disjI1 exI [of _ "money_of n0"] exI [of _ lines] exI [of _ cl]) simp
    then show ?thesis using n1(1) n2(1) by (intro exI [of _ "n1 @ n2"]) simp
  qed
qed

lemma quiet_entry:
  assumes "record_stronger_identity ou c a f es = (es1, r1)" "period_already_posted ou c a f es1 = (es2, r2)"
  shows "\<exists>new. es2 = es @ new \<and> money_of new = []"
  using quietD [OF quiet_parts(1) assms(1)] quietD [OF quiet_parts(3) assms(2)] by auto

lemma post_reconciled_raises:
  assumes "post_reconciled ou f recon fnd ac cb es = (es', Inl x)"
  shows "\<exists>new a. es' = es @ new \<and> posts_part a f cb new"
proof -
  let ?k = "account_kind_for (sf_doc_type f)"
  consider (start) "es' = es" | (unclear) why r where "hold ou f why ''identity'' es = (es', r)"
    | (identity) c a r where "record_stronger_identity ou c a f es = (es', r)"
    | (period) c a es1 r1 r where "record_stronger_identity ou c a f es = (es1, r1)" "period_already_posted ou c a f es1 = (es', r)"
    | (seating) c a es1 r1 es2 already r where "record_stronger_identity ou c a f es = (es1, r1)"
        "period_already_posted ou c a f es1 = (es2, already)" "seat ou c a ?k f es2 = (es', r)"
    | (writing) c a es1 r1 es2 already es3 seated where "record_stronger_identity ou c a f es = (es1, r1)"
        "period_already_posted ou c a f es1 = (es2, already)" "seat ou c a ?k f es2 = (es3, seated)"
        "write_period ou a ?k f cb es3 = (es', Inl x)"
    using assms by (fastforce simp: post_reconciled_def work_Inl work_Inr Let_def account_for_resolution_def split: if_splits option.splits)
  then show ?thesis
  proof cases
    case start
    then show ?thesis using posts_part_quiet [of "[]"] by auto
  next
    case unclear
    then show ?thesis using quiet_work(1) posts_part_quiet by blast
  next
    case identity
    then show ?thesis using quiet_work(2) posts_part_quiet by blast
  next
    case period
    then obtain n1 n2 where "es1 = es @ n1" "es' = es1 @ n2" "money_of n1 = []" "money_of n2 = []"
      using quiet_work(2) quietD [OF quiet_parts(3)] by meson
    then show ?thesis using posts_part_quiet [of "n1 @ n2"] by auto
  next
    case (seating c a es1 r1 es2 already r)
    obtain n where n: "es2 = es @ n" "money_of n = []" using quiet_entry [OF seating(1,2)] by blast
    obtain n3 where "es' = es2 @ n3" "at_most_opens a f (money_of n3)" using seat_any [OF seating(3)] by blast
    then have "es' = es @ (n @ n3)" "posts_part a f cb (n @ n3)"
      using n posts_part_opened [of a f "n @ n3" cb] by simp_all
    then show ?thesis by blast
  next
    case (writing c a es1 r1 es2 already es3 seated)
    obtain n where n: "es2 = es @ n" "money_of n = []" using quiet_entry [OF writing(1,2)] by blast
    obtain n3 where n3: "es3 = es2 @ n3" "at_most_opens a f (money_of n3)" using seat_any [OF writing(3)] by blast
    obtain n4 where n4: "es' = es3 @ n4" "\<forall>n0. at_most_opens a f (money_of n0) \<longrightarrow> posts_part a f cb (n0 @ n4)"
      using write_period_raises [OF writing(4)] by blast
    have "es' = es @ (n @ n3) @ n4" using n(1) n3(1) n4(1) by simp
    moreover have "posts_part a f cb ((n @ n3) @ n4)" using n4(2) [rule_format, of "n @ n3"] n(2) n3(2) by simp
    ultimately show ?thesis by blast
  qed
qed

text \<open>What a rung that raised left: no money, or part of a posting of facts of the same document that reconcile.\<close>

definition rung_failed :: "statement_facts \<Rightarrow> event list \<Rightarrow> bool" where
  "rung_failed f new =
     (money_of new = [] \<or>
      (\<exists>g r a by. sf_doc_id g = sf_doc_id f \<and> sf_opening_amount g = sf_opening_amount f \<and> reconciles g = Inr r \<and> passed r
         \<and> posts_part a g by new))"

lemma post_reconciled_failed:
  assumes "post_reconciled ou g recon fnd ac cb es = (es', Inl x)" "reconciles g = Inr recon" "passed recon"
    "sf_doc_id g = sf_doc_id f" "sf_opening_amount g = sf_opening_amount f"
  shows "\<exists>new. es' = es @ new \<and> rung_failed f new"
  using post_reconciled_raises [OF assms(1)] assms(2-) unfolding rung_failed_def by blast

lemma forced_rung_failed:
  assumes "forced_rung ou f fnd es = (es', Inl x)"
  shows "\<exists>new. es' = es @ new \<and> rung_failed f new"
proof -
  consider "es' = es" | g recon where "apply_forced f fnd = Inr g" "reconciles g = Inr recon" "passed recon"
      "post_reconciled ou g recon (Some fnd) True [] es = (es', Inl x)"
    using assms by (auto simp: forced_rung_def work_Inr work_Inl split: if_splits)
  then show ?thesis
  proof cases
    case (2 g recon)
    then show ?thesis using post_reconciled_failed [OF 2(4,2,3)] apply_forced_keeps [OF 2(1)] by blast
  qed (simp add: rung_failed_def)
qed

lemma try_corroboration_failed:
  assumes "try_corroboration ou f es = (es', Inl x)"
  shows "\<exists>new. es' = es @ new \<and> rung_failed f new"
proof -
  consider (start) "es' = es" | (posting) g recon fnd where "reconciles g = Inr recon" "passed recon"
      "post_reconciled ou g recon (Some fnd) True [] es = (es', Inl x)" "sf_doc_id g = sf_doc_id f" "sf_opening_amount g = sf_opening_amount f"
    | (linking) g recon fnd es1 res where "reconciles g = Inr recon" "passed recon"
      "post_reconciled ou g recon (Some fnd) True [] es = (es1, Inr res)" "sf_doc_id g = sf_doc_id f" "sf_opening_amount g = sf_opening_amount f"
      "ir_action res = POSTED" "link_transfers ou es1 = (es', Inl x)"
    using assms by (fastforce simp: try_corroboration_def work_Inr work_Inl Let_def split: if_splits)
  then show ?thesis
  proof cases
    case start
    then show ?thesis by (simp add: rung_failed_def)
  next
    case posting
    then show ?thesis using post_reconciled_failed by blast
  next
    case (linking g recon fnd es1 res)
    obtain new a where new: "es1 = es @ new" "posts a g [] new" using post_reconciled_money [OF linking(3)] linking(6) by auto
    obtain extra where "es' = es1 @ extra" "money_of extra = []" using link_transfers_quiet [OF linking(7)] by blast
    then have "es' = es @ (new @ extra)" "posts_part a g [] (new @ extra)" using new posts_more by (auto simp: posts_part_def)
    then show ?thesis using linking(1,2,4,5) unfolding rung_failed_def by blast
  qed
qed

lemma post_statement_returns:
  assumes "post_statement ou f cb es = (es', Inr res)"
  shows "\<exists>new by. es' = es @ new \<and> rung_done f by new res"
proof -
  obtain recon where recon: "reconciles f = Inr recon" using assms by (auto simp: post_statement_def work_Inr)
  show ?thesis
  proof (cases "passed recon")
    case True
    then show ?thesis using assms recon post_reconciled_done by (fastforce simp: post_statement_def work_Inr)
  next
    case False
    then obtain es1 out where 1: "forced_rung ou f (diagnose f) es = (es1, Inr out)"
      "(case out of Some r \<Rightarrow> retW r | None \<Rightarrow> bindW (try_corroboration ou f) (\<lambda>cor.
          case cor of Some r \<Rightarrow> retW r | None \<Rightarrow> hold_conflict ou f recon (diagnose f))) es1 = (es', Inr res)"
      using assms recon by (auto simp: post_statement_def work_Inr)
    show ?thesis
    proof (cases out)
      case (Some r)
      then show ?thesis using 1 forced_rung_done [OF 1(1)] by (auto simp: work_Inr)
    next
      case None
      then obtain es2 cor where 2: "try_corroboration ou f es = (es2, Inr cor)"
        "(case cor of Some r \<Rightarrow> retW r | None \<Rightarrow> hold_conflict ou f recon (diagnose f)) es2 = (es', Inr res)"
        using 1 forced_rung_done [OF 1(1)] by (auto simp: work_Inr)
      show ?thesis
      proof (cases cor)
        case (Some r)
        then show ?thesis using 2 try_corroboration_done [OF 2(1)] by (auto simp: work_Inr)
      next
        case None
        then have "hold_conflict ou f recon (diagnose f) es = (es', Inr res)" using 2 try_corroboration_done [OF 2(1)] by simp
        then obtain why where "hold ou f why ''conflict'' es = (es', Inr ())" "ir_action res = CONFLICT"
          by (auto simp: hold_conflict_def work_Inr Let_def IngestResult_def)
        then show ?thesis using quiet_work(1) by (fastforce simp: rung_done_def CONFLICT_def POSTED_def)
      qed
    qed
  qed
qed

lemma post_statement_raises:
  assumes "post_statement ou f cb es = (es', Inl x)"
  shows "\<exists>new. es' = es @ new \<and> rung_failed f new"
proof -
  consider (start) "es' = es" | (as_read) recon where "reconciles f = Inr recon" "passed recon" "post_reconciled ou f recon None False cb es = (es', Inl x)"
    | (forced) "forced_rung ou f (diagnose f) es = (es', Inl x)"
    | (corroborated) es1 where "forced_rung ou f (diagnose f) es = (es1, Inr None)" "try_corroboration ou f es1 = (es', Inl x)"
    | (held) es1 es2 recon where "forced_rung ou f (diagnose f) es = (es1, Inr None)" "try_corroboration ou f es1 = (es2, Inr None)"
        "hold_conflict ou f recon (diagnose f) es2 = (es', Inl x)"
    using assms by (auto simp: post_statement_def work_Inr work_Inl split: if_splits option.splits)
  then show ?thesis
  proof cases
    case start
    then show ?thesis by (simp add: rung_failed_def)
  next
    case as_read
    then show ?thesis using post_reconciled_failed by blast
  next
    case forced
    then show ?thesis by (rule forced_rung_failed)
  next
    case corroborated
    then show ?thesis using forced_rung_done [OF corroborated(1)] try_corroboration_failed by auto
  next
    case held
    then show ?thesis using forced_rung_done [OF held(1)] try_corroboration_done [OF held(2)] quietD [OF quiet_parts(4) held(3)]
      by (auto simp: rung_failed_def)
  qed
qed

text \<open>
  C10: only a statement that reconciles moves money, however posting it ends. When it reports \<^verbatim>\<open>posted\<close>, the
  openings, transactions and closings it appended are at most one opening, exactly one transaction for each
  line and one closing, all of facts of the same document and opening figure that reconcile exactly. When it
  reports anything else, it appended none of the three. When it raises, it appended none of the three or the
  beginning of such a posting, in order and again of facts that reconcile: at most the opening, transactions of
  the first lines and no closing, or all of it.
\<close>
theorem only_reconciled_statements_move_money:
  assumes "post_statement ou f cb es = (es', outcome)"
  shows "\<exists>new. es' = es @ new \<and>
    (case outcome of
       Inr res \<Rightarrow>
         if ir_action res = POSTED
         then \<exists>g r a by. sf_doc_id g = sf_doc_id f \<and> sf_opening_amount g = sf_opening_amount f \<and> reconciles g = Inr r \<and> passed r
                \<and> ir_account res = Some a \<and> posts a g by new
         else money_of new = []
     | Inl e \<Rightarrow>
         money_of new = []
         \<or> (\<exists>g r a by. sf_doc_id g = sf_doc_id f \<and> sf_opening_amount g = sf_opening_amount f \<and> reconciles g = Inr r \<and> passed r
              \<and> posts_part a g by new))"
proof (cases outcome)
  case (Inl e)
  then show ?thesis using post_statement_raises [of ou f cb es es' e] assms by (simp add: rung_failed_def)
next
  case (Inr res)
  then show ?thesis using post_statement_returns [of ou f cb es es' res] assms by (fastforce simp: rung_done_def)
qed

end
