(* ===== verification/Statement_Chain.thy ===== *)
theory Statement_Chain
  imports Statement_Balance
begin

text \<open>
  The balance chain of an account: what each event of a posting does to the account's state, and that
  an account whose closing figure is its opening and its movements stays so when a statement is posted.
\<close>

subsection \<open>One account's state through the fold\<close>

definition ends_of :: "account_state \<Rightarrow> decimal option \<times> string \<times> decimal option \<times> string \<times> bool" where
  "ends_of s = (as_opening s, as_opening_date s, as_closing s, as_closing_date s, as_closing_confirmed s)"

definition flows :: "account_state \<Rightarrow> decimal \<times> decimal list" where
  "flows s = (as_balance s, as_period_deltas s)"

lemma state_of_upd [simp]: "state_of (upd_state a g c) b = (if b = a then g (state_of c a) else state_of c b)"
  by (simp add: state_of_def upd_state_def map_of_dict_set)

lemma state_of_frame [simp]:
  "state_of (add_posted d c) a = state_of c a" "state_of (c\<lparr>pc_open_counts := x1\<rparr>) a = state_of c a"
  "state_of (c\<lparr>pc_decomposed := x2\<rparr>) a = state_of c a" "state_of (c\<lparr>pc_account_refs := x3\<rparr>) a = state_of c a"
  "state_of (c\<lparr>pc_posted := x4, pc_doc_closing := x5, pc_periods := x6\<rparr>) a = state_of c a"
  by (simp_all add: state_of_def add_posted_def)

lemma seen_state: "as_seen (state_of c a) \<Longrightarrow> map_of (pc_acct c) a = Some (state_of c a)"
  by (auto simp: state_of_def AccountState_def split: option.splits)

lemma add_doc_fields [simp]:
  "ends_of (add_doc d s) = ends_of s" "flows (add_doc d s) = flows s" "as_seen (add_doc d s) = as_seen s"
  "as_opening (add_doc d s) = as_opening s" "as_opening_date (add_doc d s) = as_opening_date s"
  "as_closing (add_doc d s) = as_closing s" "as_closing_date (add_doc d s) = as_closing_date s"
  by (simp_all add: add_doc_def ends_of_def flows_def)

lemma apply_plain:
  assumes "apply_event sha ret e c = Inr c'" "pc_as_of c = None" "effect_key (body e) = None"
    "map_of (handlers sha ret) (event_type e) = Some h"
  shows "h e c = Inr c'"
  using assms by (auto simp: apply_event_def apply_core_def claim_effect_def bindR_eq_Inr split: if_splits)

lemma handler_at:
  "map_of (handlers sha ret) ''AccountOpened'' = Some fold_account_opened"
  "map_of (handlers sha ret) ''AccountIdentityObserved'' = Some fold_account_identity"
  "map_of (handlers sha ret) ''OpeningBalanceObserved'' = Some fold_opening"
  "map_of (handlers sha ret) ''ClosingBalanceObserved'' = Some fold_closing"
  "map_of (handlers sha ret) ''TransactionRecorded'' = Some fold_transaction"
  "map_of (handlers sha ret) ''FinancialAccountReferenceObserved'' = Some fold_reference"
  by (simp_all add: handlers_def)

lemma apply_opened:
  assumes "opened_event a k f eid = Inr e" "apply_event sha ret e c = Inr c'" "pc_as_of c = None"
  shows "ends_of (state_of c' a) = ends_of (state_of c a)" "flows (state_of c' a) = flows (state_of c a)" "as_seen (state_of c' a)"
proof -
  have e: "event_type e = ''AccountOpened''" "effect_key (body e) = None" "req_text (body e) ''account_id'' = Inr a"
    using assms(1) by (auto simp: opened_event_def account_opened_def res_iffs Event_def effect_key_def req_text_iff)
  have "fold_account_opened e c = Inr c'" using apply_plain [OF assms(2,3) e(2)] e(1) handler_at(1) by simp
  then show "ends_of (state_of c' a) = ends_of (state_of c a)" "flows (state_of c' a) = flows (state_of c a)" "as_seen (state_of c' a)"
    unfolding fold_account_opened_def e(3) by (auto simp: bindR_eq_Inr Let_def) (simp_all add: ends_of_def flows_def)
qed

lemma apply_identity:
  assumes "apply_event sha ret (account_identity_observed eid a occ i n ns p) c = Inr c'" "pc_as_of c = None"
  shows "ends_of (state_of c' a) = ends_of (state_of c a) \<and> flows (state_of c' a) = flows (state_of c a)
    \<and> as_seen (state_of c' a) = as_seen (state_of c a)"
proof -
  let ?e = "account_identity_observed eid a occ i n ns p"
  have e: "event_type ?e = ''AccountIdentityObserved''" "effect_key (body ?e) = None" "req_text (body ?e) ''account_id'' = Inr a"
    by (auto simp: account_identity_observed_def Event_def effect_key_def req_text_iff)
  have "fold_account_identity ?e c = Inr c'" using apply_plain [OF assms e(2)] e(1) handler_at(2) by simp
  then show ?thesis
    unfolding fold_account_identity_def e(3) by (auto simp: bindR_eq_Inr) (simp_all add: ends_of_def flows_def)
qed

lemma apply_opening:
  assumes "opening_event a f eid = Inr e" "apply_event sha ret e c = Inr c'" "pc_as_of c = None"
  shows "flows (state_of c' a) = flows (state_of c a)" "as_seen (state_of c' a)"
    "ends_of (state_of c' a) = (case ends_of (state_of c a) of (ob, od, rest) \<Rightarrow>
       if ob = None \<or> sf_opening_date f < od then (Some (sf_opening_amount f), sf_opening_date f, rest) else (ob, od, rest))"
proof -
  have e: "event_type e = ''OpeningBalanceObserved''" "effect_key (body e) = None" "req_text (body e) ''account_id'' = Inr a"
    "bindR (jitem (body e) ''amount'') json_Decimal = Inr (sf_opening_amount f)" "occurred_at e = sf_opening_date f"
    using assms(1) by (auto simp: opening_event_def opening_balance_observed_def res_iffs Event_def effect_key_def req_text_iff
        json_Decimal_def dec_parse_dec_str)
  have "fold_opening e c = Inr c'" using apply_plain [OF assms(2,3) e(2)] e(1) handler_at(3) by simp
  then have "c' = add_posted (prov_doc_id (ev_provenance e)) (upd_state a (\<lambda>s. let t = add_doc (prov_doc_id (ev_provenance e)) (s\<lparr>as_seen := True\<rparr>) in
      if as_opening t = None \<or> sf_opening_date f < as_opening_date t
      then t\<lparr>as_opening := Some (sf_opening_amount f), as_opening_date := sf_opening_date f, as_opening_prov := ev_provenance e\<rparr> else t) c)"
    unfolding fold_opening_def e(3,4,5) by (simp add: Let_def)
  then show "flows (state_of c' a) = flows (state_of c a)" "as_seen (state_of c' a)"
    "ends_of (state_of c' a) = (case ends_of (state_of c a) of (ob, od, rest) \<Rightarrow>
       if ob = None \<or> sf_opening_date f < od then (Some (sf_opening_amount f), sf_opening_date f, rest) else (ob, od, rest))"
    by (auto simp: Let_def ends_of_def flows_def add_doc_def)
qed

lemma apply_closing:
  assumes "closing_event a f cb eid = Inr e" "apply_event sha ret e c = Inr c'" "pc_as_of c = None"
  shows "flows (state_of c' a) = flows (state_of c a)" "as_seen (state_of c' a)"
    "ends_of (state_of c' a) = (case ends_of (state_of c a) of (ob, od, cl, cd, h) \<Rightarrow>
       if cl = None \<or> sf_closing_date f \<ge> cd then (ob, od, Some (sf_closing_amount f), sf_closing_date f, cb = ''human'')
       else (ob, od, cl, cd, h))"
proof -
  have e: "event_type e = ''ClosingBalanceObserved''" "effect_key (body e) = None" "req_text (body e) ''account_id'' = Inr a"
    "req_text (body e) ''amount'' = Inr (dec_str (sf_closing_amount f))" "occurred_at e = sf_closing_date f"
    "jget (body e) ''confirmed_by'' = Some (JStr cb)"
    using assms(1) by (auto simp: closing_event_def closing_balance_observed_def res_iffs Event_def effect_key_def req_text_iff)
  have "fold_closing e c = Inr c'" using apply_plain [OF assms(2,3) e(2)] e(1) handler_at(4) by simp
  then have "c' = upd_state a (\<lambda>s. let t = add_doc (prov_doc_id (ev_provenance e)) (s\<lparr>as_seen := True\<rparr>);
        u = (if as_closing t = None \<or> sf_closing_date f \<ge> as_closing_date t
             then t\<lparr>as_closing := Some (sf_closing_amount f), as_closing_date := sf_closing_date f,
                    as_closing_prov := ev_provenance e, as_closing_confirmed := (cb = ''human'')\<rparr> else t) in
      u\<lparr>as_closings := as_closings u @ [(sf_closing_date f, sf_closing_amount f, if cb = ''human'' then VERIFIED else CORROBORATED,
         prov_doc_id (ev_provenance e))]\<rparr>)
      (let did = prov_doc_id (ev_provenance e); key = (a, sf_closing_date f) in if did = [] then c
       else c\<lparr>pc_posted := insert did (pc_posted c),
              pc_doc_closing := dict_set did (dec_str (sf_closing_amount f), sf_closing_date f) (pc_doc_closing c),
              pc_periods := (if map_of (pc_periods c) key = None then dict_set key (did, dec_str (sf_closing_amount f)) (pc_periods c)
                             else pc_periods c)\<rparr>)"
    unfolding fold_closing_def e(3,4,5,6) by (simp add: Let_def dec_parse_dec_str)
  then show "flows (state_of c' a) = flows (state_of c a)" "as_seen (state_of c' a)"
    "ends_of (state_of c' a) = (case ends_of (state_of c a) of (ob, od, cl, cd, h) \<Rightarrow>
       if cl = None \<or> sf_closing_date f \<ge> cd then (ob, od, Some (sf_closing_amount f), sf_closing_date f, cb = ''human'')
       else (ob, od, cl, cd, h))"
    by (auto simp: Let_def ends_of_def flows_def add_doc_def)
qed

lemma apply_reference:
  assumes "reference_event eid b r dt doc p sc n = Inr e" "apply_event sha ret e c = Inr c'" "pc_as_of c = None"
  shows "state_of c' a = state_of c a"
proof -
  have e: "event_type e = ''FinancialAccountReferenceObserved''" "effect_key (body e) = None"
    using assms(1) by (auto simp: reference_event_def res_iffs Event_def effect_key_def split: option.splits)
  have "fold_reference e c = Inr c'" using apply_plain [OF assms(2,3) e(2)] e(1) handler_at(6) by simp
  then show ?thesis unfolding fold_reference_def Let_def by (auto simp: res_iffs)
qed

lemma Posting_PDec: "Posting a (PDec d) g = Inr p \<Longrightarrow> posting_wf p \<and> p_account p = a \<and> p_amount p = d"
  using Posting_wf [of a "PDec d" g p] by (auto simp: Posting_def res_iffs)

lemma simple_transaction_Inr:
  assumes "simple_transaction eid a (PDec d) ds occ tags prov g k sr cr = Inr e"
  obtains p q where "p_account p = a" "p_amount p = d" "p_account q = counter_account k d" "posting_wf p" "posting_wf q"
    "e = (let x = transaction_recorded eid [p, q] ds occ tags prov in
          if sr \<noteq> [] \<or> cr \<noteq> []
          then with_body (\<lambda>b. jset ''counterparty_reference'' (JStr cr) (jset ''source_reference'' (JStr sr) b)) x else x)"
proof -
  obtain p q ps where "Posting a (PDec d) g = Inr p" "Posting (counter_account k d) (PDec (dec_neg d)) UNVERIFIED = Inr q"
    "require_balanced [p, q] = Inr ps" "e = (let x = transaction_recorded eid ps ds occ tags prov in
          if sr \<noteq> [] \<or> cr \<noteq> []
          then with_body (\<lambda>b. jset ''counterparty_reference'' (JStr cr) (jset ''source_reference'' (JStr sr) b)) x else x)"
    using assms unfolding simple_transaction_def by (auto simp: res_iffs Let_def)
  moreover from this(3) have "ps = [p, q]" by (auto simp: require_balanced_def res_iffs)
  ultimately show thesis using that Posting_PDec by metis
qed

lemma line_event_booked:
  assumes "line_event a k f t eid = Inr e"
  shows "event_type e = ''TransactionRecorded''" "effect_key (body e) = None"
    "\<exists>p q. postings_of e = Inr [p, q] \<and> p_account p = a \<and> p_amount p = tf_amount t \<and> p_account q = counter_account k (tf_amount t)"
proof -
  obtain d prov g where "simple_transaction eid a (PDec (tf_amount t)) (tf_description t) d None (Some prov) g k
      (tf_source_reference t) (tf_counterparty_reference t) = Inr e"
    using assms by (auto simp: line_event_def res_iffs split: option.splits)
  then obtain p q where e: "p_account p = a" "p_amount p = tf_amount t" "p_account q = counter_account k (tf_amount t)"
    "posting_wf p" "posting_wf q" "e = (let x = transaction_recorded eid [p, q] (tf_description t) d None (Some prov) in
          if tf_source_reference t \<noteq> [] \<or> tf_counterparty_reference t \<noteq> []
          then with_body (\<lambda>b. jset ''counterparty_reference'' (JStr (tf_counterparty_reference t))
                 (jset ''source_reference'' (JStr (tf_source_reference t)) b)) x else x)"
    by (rule simple_transaction_Inr)
  show "event_type e = ''TransactionRecorded''" "effect_key (body e) = None"
    unfolding e(6) by (simp_all add: Let_def transaction_recorded_def Event_def effect_key_def with_body_def)
  have "postings_of e = Inr [p, q]"
    unfolding e(6) Let_def using e(4,5) postings_of_transaction_recorded [of "[p, q]"]
    by (simp add: postings_of_with_body jget_jset_other)
  then show "\<exists>p q. postings_of e = Inr [p, q] \<and> p_account p = a \<and> p_amount p = tf_amount t
      \<and> p_account q = counter_account k (tf_amount t)" using e(1-3) by blast
qed

lemma own_account:
  assumes "starts_with a ''acct:''"
  shows "a \<noteq> counter_account k d" "a \<noteq> EQUITY_OPENING"
  using assms by (auto simp: counter_account_def EXPENSE_UNCATEGORIZED_def TRANSFERS_UNCATEGORIZED_def INCOME_UNCATEGORIZED_def
      EQUITY_OPENING_def)

lemma apply_line:
  assumes "line_event a k f t eid = Inr e" "apply_event sha ret e c = Inr c'" "pc_as_of c = None" "starts_with a ''acct:''"
  shows "ends_of (state_of c' a) = ends_of (state_of c a)" "as_seen (state_of c' a)"
    "flows (state_of c' a) = (case flows (state_of c a) of (b, ds) \<Rightarrow> (dec_add b (tf_amount t), ds @ [tf_amount t]))"
proof -
  note e = line_event_booked [OF assms(1)]
  obtain p q where pq: "postings_of e = Inr [p, q]" "p_account p = a" "p_amount p = tf_amount t" "p_account q \<noteq> a"
    using e(3) own_account(1) [OF assms(4)] by metis
  have "fold_transaction e c = Inr c'" using apply_plain [OF assms(2,3) e(2)] e(1) handler_at(5) by simp
  then obtain tt cur c2 where c': "c' = post_leg e tt cur q (post_leg e tt cur p c2)" "state_of c2 a = state_of c a"
    unfolding fold_transaction_def Let_def pq(1) by (auto simp: res_iffs)
  show "ends_of (state_of c' a) = ends_of (state_of c a)" "as_seen (state_of c' a)"
    "flows (state_of c' a) = (case flows (state_of c a) of (b, ds) \<Rightarrow> (dec_add b (tf_amount t), ds @ [tf_amount t]))"
    using pq own_account(2) [OF assms(4)] by (simp_all add: c' post_leg_def ends_of_def flows_def)
qed

subsection \<open>The account through a posting\<close>

text \<open>Work that succeeds leaves a log that folds.\<close>

lemma append_event_fold:
  assumes "append_event ou mk es = (es', Inr u)" "project (ou_sha ou) (ou_retained ou) es None = Inr c"
  obtains e c' where "mk (ou_fresh ou (length es)) = Inr e" "apply_event (ou_sha ou) (ou_retained ou) e c = Inr c'"
    "project (ou_sha ou) (ou_retained ou) es' None = Inr c'" "pc_as_of c = None"
  using assms project_as_of [OF assms(2)] by (auto simp: work_Inr project_snoc)

lemma lines_fold:
  assumes "append_all ou (map (line_event a k f) ts) es = (es', Inr u)" "project (ou_sha ou) (ou_retained ou) es None = Inr c"
    "starts_with a ''acct:''"
  shows "\<exists>c'. project (ou_sha ou) (ou_retained ou) es' None = Inr c' \<and> ends_of (state_of c' a) = ends_of (state_of c a)
    \<and> flows (state_of c' a) = (case flows (state_of c a) of (b, ds) \<Rightarrow> (foldl dec_add b (map tf_amount ts), ds @ map tf_amount ts))"
  using assms(1,2)
proof (induction ts arbitrary: es c)
  case Nil
  then show ?case by (auto simp: work_Inr split: prod.split)
next
  case (Cons t ts)
  then obtain es1 where 1: "append_event ou (line_event a k f t) es = (es1, Inr ())"
    "append_all ou (map (line_event a k f) ts) es1 = (es', Inr u)" by (auto simp: work_Inr)
  from 1(1) Cons.prems(2) show ?case
  proof (rule append_event_fold)
    fix e c1 assume e: "line_event a k f t (ou_fresh ou (length es)) = Inr e" "apply_event (ou_sha ou) (ou_retained ou) e c = Inr c1"
      "project (ou_sha ou) (ou_retained ou) es1 None = Inr c1" "pc_as_of c = None"
    note st = apply_line [OF e(1,2,4) assms(3)]
    show ?case using Cons.IH [OF 1(2) e(3)] st by (auto split: prod.splits)
  qed
qed

lemma append_all_append: "append_all ou (xs @ ys) = bindW (append_all ou xs) (\<lambda>_. append_all ou ys)"
proof (induction xs)
  case Nil
  show ?case by (rule ext) (simp add: bindW_def retW_def)
next
  case (Cons x xs)
  then show ?case by (auto simp: bindW_def fun_eq_iff split: prod.splits sum.splits)
qed

lemma reference_fold:
  assumes "reference_work ou b f es = (es', Inr u)" "project (ou_sha ou) (ou_retained ou) es None = Inr c"
  shows "\<exists>c'. project (ou_sha ou) (ou_retained ou) es' None = Inr c' \<and> state_of c' a = state_of c a"
proof (cases "es' = es")
  case False
  then obtain r dt doc p sc n where "append_event ou (\<lambda>eid. reference_event eid b r dt doc p sc n) es = (es', Inr ())"
    using assms(1) by (auto simp: reference_work_def work_Inr(1,3,4) split: if_splits)
  from this assms(2) show ?thesis
  proof (rule append_event_fold)
    fix e c' assume "reference_event (ou_fresh ou (length es)) b r dt doc p sc n = Inr e"
      "apply_event (ou_sha ou) (ou_retained ou) e c = Inr c'" "project (ou_sha ou) (ou_retained ou) es' None = Inr c'" "pc_as_of c = None"
    then show ?thesis using apply_reference by blast
  qed
qed (use assms(2) in auto)

lemma write_period_fold:
  assumes "write_period ou a k f cb es = (es', Inr u)" "project (ou_sha ou) (ou_retained ou) es None = Inr c"
    "starts_with a ''acct:''" "flows (state_of c a) = (b, ds)" "ends_of (state_of c a) = (ob, od, cl, cd, h)"
  shows "\<exists>c'. project (ou_sha ou) (ou_retained ou) es' None = Inr c' \<and> as_seen (state_of c' a)
    \<and> flows (state_of c' a) = (foldl dec_add b (map tf_amount (sf_transactions f)), ds @ map tf_amount (sf_transactions f))
    \<and> ends_of (state_of c' a) = (if cl = None \<or> sf_closing_date f \<ge> cd
        then (ob, od, Some (sf_closing_amount f), sf_closing_date f, cb = ''human'') else (ob, od, cl, cd, h))"
proof -
  obtain es1 es2 where w: "append_all ou (map (line_event a k f) (sf_transactions f)) es = (es1, Inr ())"
    "append_event ou (closing_event a f cb) es1 = (es2, Inr ())" "reference_work ou a f es2 = (es', Inr u)"
    using assms(1) by (auto simp: write_period_def append_all_append work_Inr)
  obtain c1 where c1: "project (ou_sha ou) (ou_retained ou) es1 None = Inr c1" "ends_of (state_of c1 a) = (ob, od, cl, cd, h)"
    "flows (state_of c1 a) = (foldl dec_add b (map tf_amount (sf_transactions f)), ds @ map tf_amount (sf_transactions f))"
    using lines_fold [OF w(1) assms(2,3)] assms(4,5) by auto
  obtain c2 where c2: "project (ou_sha ou) (ou_retained ou) es2 None = Inr c2" "as_seen (state_of c2 a)"
    "flows (state_of c2 a) = flows (state_of c1 a)" "ends_of (state_of c2 a) = (if cl = None \<or> sf_closing_date f \<ge> cd
        then (ob, od, Some (sf_closing_amount f), sf_closing_date f, cb = ''human'') else (ob, od, cl, cd, h))"
  proof (rule append_event_fold [OF w(2) c1(1)])
    fix e c2 assume e: "closing_event a f cb (ou_fresh ou (length es1)) = Inr e"
      "apply_event (ou_sha ou) (ou_retained ou) e c1 = Inr c2" "project (ou_sha ou) (ou_retained ou) es2 None = Inr c2" "pc_as_of c1 = None"
    show thesis using that [OF e(3)] apply_closing [OF e(1,2,4)] c1(2) by simp
  qed
  obtain c3 where "project (ou_sha ou) (ou_retained ou) es' None = Inr c3" "state_of c3 a = state_of c2 a"
    using reference_fold [OF w(3) c2(1)] by blast
  then show ?thesis using c2 c1(3) by auto
qed

lemma identity_fold:
  assumes "record_stronger_identity ou c a f es = (es', Inr u)" "project (ou_sha ou) (ou_retained ou) es None = Inr c"
  shows "\<exists>c'. project (ou_sha ou) (ou_retained ou) es' None = Inr c' \<and> ends_of (state_of c' a) = ends_of (state_of c a)
    \<and> flows (state_of c' a) = flows (state_of c a)"
proof (cases "es' = es")
  case False
  then obtain occ i n ns p where "append_event ou (\<lambda>eid. Inr (account_identity_observed eid a occ i n ns p)) es = (es', Inr ())"
    using assms(1) by (auto simp: record_stronger_identity_def work_Inr(1) split: if_splits sum.splits)
  from this assms(2) show ?thesis
  proof (rule append_event_fold)
    fix e c' assume "Inr (account_identity_observed (ou_fresh ou (length es)) a occ i n ns p) = (Inr e :: event res)"
      "apply_event (ou_sha ou) (ou_retained ou) e c = Inr c'" "project (ou_sha ou) (ou_retained ou) es' None = Inr c'" "pc_as_of c = None"
    then show ?thesis using apply_identity by blast
  qed
qed (use assms(2) in auto)

lemma opening_fold:
  assumes "append_event ou (opening_event a f) es = (es', Inr u)" "project (ou_sha ou) (ou_retained ou) es None = Inr c"
  shows "\<exists>c'. project (ou_sha ou) (ou_retained ou) es' None = Inr c' \<and> flows (state_of c' a) = flows (state_of c a)
    \<and> ends_of (state_of c' a) = (case ends_of (state_of c a) of (ob, od, rest) \<Rightarrow>
       if ob = None \<or> sf_opening_date f < od then (Some (sf_opening_amount f), sf_opening_date f, rest) else (ob, od, rest))"
  using assms by (rule append_event_fold) (intro exI conjI, assumption, erule (2) apply_opening, erule (2) apply_opening)

lemma opened_fold:
  assumes "append_event ou (opened_event a k f) es = (es', Inr u)" "project (ou_sha ou) (ou_retained ou) es None = Inr c"
  shows "\<exists>c'. project (ou_sha ou) (ou_retained ou) es' None = Inr c' \<and> flows (state_of c' a) = flows (state_of c a)
    \<and> ends_of (state_of c' a) = ends_of (state_of c a)"
  using assms by (rule append_event_fold) (use apply_opened in blast)

lemma seat_fold:
  assumes "seat ou c a k f es = (es', Inr True)" "project (ou_sha ou) (ou_retained ou) es None = Inr c1"
    "ends_of (state_of c1 a) = (ob, od, rest)"
  shows "\<exists>c'. project (ou_sha ou) (ou_retained ou) es' None = Inr c' \<and> flows (state_of c' a) = flows (state_of c1 a)
    \<and> ends_of (state_of c' a) = (if (is_seeded c a \<and> connects f c a = ''forward'') \<or> (ob \<noteq> None \<and> \<not> sf_opening_date f < od)
        then (ob, od, rest) else (Some (sf_opening_amount f), sf_opening_date f, rest))
    \<and> (is_seeded c a \<longrightarrow> connects f c a \<noteq> [])"
proof -
  consider (new_account) es2 where "\<not> is_seeded c a" "append_event ou (opened_event a k f) es = (es2, Inr ())"
      "append_event ou (opening_event a f) es2 = (es', Inr ())"
    | (forward) "is_seeded c a" "connects f c a = ''forward''" "es' = es"
    | (backward) "is_seeded c a" "connects f c a = ''backward''" "append_event ou (opening_event a f) es = (es', Inr ())"
    using assms(1) by (auto simp: seat_def work_Inr(1,2,4) split: if_splits)
  then show ?thesis
  proof cases
    case (new_account es2)
    obtain c2 where c2: "project (ou_sha ou) (ou_retained ou) es2 None = Inr c2" "flows (state_of c2 a) = flows (state_of c1 a)"
      "ends_of (state_of c2 a) = (ob, od, rest)" using opened_fold [OF new_account(2) assms(2)] assms(3) by auto
    show ?thesis using opening_fold [OF new_account(3) c2(1)] c2(2,3) new_account(1) by auto
  next
    case forward
    then show ?thesis using assms(2,3) by auto
  next
    case backward
    then show ?thesis using opening_fold [OF backward(3) assms(2)] assms(3) by auto
  qed
qed

subsection \<open>The chain\<close>

text \<open>
  An account in balance: it holds an opening and a closing figure, and the closing is the opening and
  all movements since, exactly; the running sum the projection keeps is that of the movements.
\<close>

definition in_balance :: "account_state \<Rightarrow> bool" where
  "in_balance s =
     (case (as_opening s, as_closing s) of
        (Some ob, Some cl) \<Rightarrow>
          money_range ob \<and> money_range cl \<and> list_all money_range (as_period_deltas s)
          \<and> in_units (length (as_period_deltas s)) (as_balance s)
          \<and> dec_val (as_balance s) = sum_list (map dec_val (as_period_deltas s))
          \<and> dec_val cl = dec_val ob + sum_list (map dec_val (as_period_deltas s))
      | _ \<Rightarrow> False)"

definition untouched :: "account_state \<Rightarrow> bool" where
  "untouched s = (as_opening s = None \<and> as_closing s = None \<and> as_balance s = dec0 \<and> as_period_deltas s = [])"

text \<open>A statement in time order: one that continues the account ends no earlier than it, one in front begins and ends earlier.\<close>

definition in_order :: "core \<Rightarrow> string \<Rightarrow> statement_facts \<Rightarrow> bool" where
  "in_order c a f =
     (if connects f c a = ''forward'' then as_closing_date (state_of c a) \<le> sf_closing_date f
      else sf_opening_date f < as_opening_date (state_of c a) \<and> sf_closing_date f < as_closing_date (state_of c a))"

lemma units_foldl:
  assumes "in_units n b" "list_all money_range xs" "n + length xs \<le> max_terms"
  shows "in_units (n + length xs) (foldl dec_add b xs) \<and> dec_val (foldl dec_add b xs) = dec_val b + sum_list (map dec_val xs)"
  using assms
proof (induction xs arbitrary: n b)
  case (Cons x xs)
  have u: "in_units (n + 1) (dec_add b x)" "dec_val (dec_add b x) = dec_val b + dec_val x"
    using units_ops(1,2) [of n b 1 x] Cons.prems by (simp_all add: units_money [simplified])
  show ?case using Cons.IH [OF u(1)] Cons.prems u(2) by simp
qed simp

lemma reconciled_value:
  assumes "statement_range f" "reconciles f = Inr r" "passed r"
  shows "dec_val (sf_closing_amount f) = dec_val (sf_opening_amount f) + sum_list (map (dec_val \<circ> tf_amount) (sf_transactions f))"
proof -
  have "list_all (in_units 1) (map tf_amount (sf_transactions f))" "1 + length (map tf_amount (sf_transactions f)) * 1 + 1 \<le> max_terms"
    using assms(1) line_rangeD by (auto simp: statement_range_def list_all_iff max_items_def max_terms_def)
  from balance_check_units [OF units_money units_money this, of "sf_opening_amount f" "sf_closing_amount f"] assms
  show ?thesis by (auto simp: reconciles_def statement_range_def comp_def)
qed

lemma effective_value:
  assumes "in_balance s" "length (as_period_deltas s) \<le> max_items"
  shows "\<exists>ob cl. as_opening s = Some ob \<and> as_closing s = Some cl
    \<and> dec_val (effective s) = dec_val ob + sum_list (map dec_val (as_period_deltas s))"
proof -
  obtain ob cl where s: "as_opening s = Some ob" "as_closing s = Some cl" "money_range ob"
    "in_units (length (as_period_deltas s)) (as_balance s)" "dec_val (as_balance s) = sum_list (map dec_val (as_period_deltas s))"
    using assms(1) by (auto simp: in_balance_def split: option.splits)
  have "1 + length (as_period_deltas s) \<le> max_terms" using assms(2) by (simp add: max_items_def max_terms_def)
  then have "dec_val (dec_add x (as_balance s)) = dec_val x + dec_val (as_balance s)" if "in_units 1 x" for x
    using units_ops(2) [OF that s(4)] by simp
  moreover have "coeff ob = 0 \<Longrightarrow> dec_val ob = dec_val dec0" by (simp add: dec_val_def dec0_def)
  ultimately show ?thesis using s units_money [of ob] by (auto simp: effective_def)
qed

lemma view_fields:
  "ends_of s = (ob, od, cl, cd, h) \<longleftrightarrow>
     as_opening s = ob \<and> as_opening_date s = od \<and> as_closing s = cl \<and> as_closing_date s = cd \<and> as_closing_confirmed s = h"
  "flows s = (b, ds) \<longleftrightarrow> as_balance s = b \<and> as_period_deltas s = ds"
  by (auto simp: ends_of_def flows_def)

lemma in_balance_answer:
  assumes "in_balance (state_of c a)" "as_seen (state_of c a)" "length (as_period_deltas (state_of c a)) \<le> max_items"
  shows "\<exists>b. balance c a = Inr b \<and> Some (ba_amount b) = as_closing (state_of c a)
    \<and> ba_grade b = (if as_closing_confirmed (state_of c a) then VERIFIED else CORROBORATED)"
proof -
  let ?s = "state_of c a"
  obtain ob cl where s: "as_opening ?s = Some ob" "as_closing ?s = Some cl" "money_range ob" "money_range cl"
    "list_all money_range (as_period_deltas ?s)" "dec_val cl = dec_val ob + sum_list (map dec_val (as_period_deltas ?s))"
    using assms(1) by (auto simp: in_balance_def split: option.splits)
  have "list_all (in_units 1) (as_period_deltas ?s)" "1 + length (as_period_deltas ?s) * 1 + 1 \<le> max_terms"
    using s(5) assms(3) units_money by (auto simp: list_all_iff max_items_def max_terms_def)
  from balance_check_units [OF units_money [OF s(3)] units_money [OF s(4)] this] s(6)
  obtain r where "check_balance_identity (PDec ob) (map PDec (as_period_deltas ?s)) (PDec cl) (PInt 0) = Inr r" "passed r" by auto
  then show ?thesis using s(1,2) assms(2) seen_state [OF assms(2)]
    by (simp add: balance_def answer_of_def)
qed

lemma is_seeded_state: "is_seeded c a \<longleftrightarrow> as_opening (state_of c a) \<noteq> None"
  by (auto simp: is_seeded_def state_of_def AccountState_def split: option.splits)

lemma connects_value:
  "connects f c a = ''forward'' \<Longrightarrow> dec_val (sf_opening_amount f) = dec_val (effective (state_of c a))"
  "connects f c a = ''backward'' \<Longrightarrow> \<exists>ob. as_opening (state_of c a) = Some ob \<and> dec_val (sf_closing_amount f) = dec_val ob"
  "connects f c a \<in> {''forward'', ''backward'', []}"
  by (auto simp: connects_def equals_held_def running_balance_def earliest_opening_def state_of_def dec_cmp_iffs
      split: option.splits if_splits)

lemma in_balance_view:
  assumes "ends_of s = (Some ob, od, Some cl, rest)" "flows s = (b, ds)"
  shows "in_balance s \<longleftrightarrow> money_range ob \<and> money_range cl \<and> list_all money_range ds \<and> in_units (length ds) b
    \<and> dec_val b = sum_list (map dec_val ds) \<and> dec_val cl = dec_val ob + sum_list (map dec_val ds)"
  using assms by (auto simp: in_balance_def ends_of_def flows_def)

lemma posted_steps:
  assumes "post_reconciled ou f recon fnd ac cb es = (es', Inr res)" "ir_action res = POSTED" "ir_account res = Some a"
    "project (ou_sha ou) (ou_retained ou) es None = Inr c" "k = account_kind_for (sf_doc_type f)"
  obtains es1 es2 where "record_stronger_identity ou c a f es = (es1, Inr ())"
    "seat ou c a k f es1 = (es2, Inr True)" "write_period ou a k f cb es2 = (es', Inr ())"
    "ir_grade res = Some (if cb = ''human'' then VERIFIED else CORROBORATED)"
  using assms(1,5)
proof (cases rule: post_reconciled_cases)
  case (held new)
  then show ?thesis using assms(2) by simp
next
  case (posted c1 a1 es1 es2)
  then show ?thesis using that assms(3,4) by (simp add: posted_result_def IngestResult_def)
qed

text \<open>What a posting leaves of the account it is posted to.\<close>

lemma posting_view:
  assumes "post_reconciled ou f recon fnd ac cb es = (es', Inr res)" "ir_action res = POSTED" "ir_account res = Some a"
    "project (ou_sha ou) (ou_retained ou) es None = Inr c" "starts_with a ''acct:''"
    "ends_of (state_of c a) = (ob, od, cl, cd, h)" "flows (state_of c a) = (b, ds)"
    "kept = ((is_seeded c a \<and> connects f c a = ''forward'') \<or> (ob \<noteq> None \<and> \<not> sf_opening_date f < od))"
    "later_end = (cl = None \<or> cd \<le> sf_closing_date f)"
  shows "\<exists>c'. project (ou_sha ou) (ou_retained ou) es' None = Inr c' \<and> as_seen (state_of c' a)
    \<and> flows (state_of c' a) = (foldl dec_add b (map tf_amount (sf_transactions f)), ds @ map tf_amount (sf_transactions f))
    \<and> ends_of (state_of c' a) =
        (if kept then ob else Some (sf_opening_amount f), if kept then od else sf_opening_date f,
         if later_end then Some (sf_closing_amount f) else cl, if later_end then sf_closing_date f else cd,
         if later_end then cb = ''human'' else h)
    \<and> (is_seeded c a \<longrightarrow> connects f c a \<noteq> [])"
proof -
  obtain es1 es2 where steps: "record_stronger_identity ou c a f es = (es1, Inr ())"
    "seat ou c a (account_kind_for (sf_doc_type f)) f es1 = (es2, Inr True)"
    "write_period ou a (account_kind_for (sf_doc_type f)) f cb es2 = (es', Inr ())"
    using posted_steps [OF assms(1-4) refl] by blast
  obtain c1 where c1: "project (ou_sha ou) (ou_retained ou) es1 None = Inr c1" "ends_of (state_of c1 a) = (ob, od, cl, cd, h)"
    "flows (state_of c1 a) = (b, ds)" using identity_fold [OF steps(1) assms(4)] assms(6,7) by auto
  obtain c2 where c2: "project (ou_sha ou) (ou_retained ou) es2 None = Inr c2" "flows (state_of c2 a) = (b, ds)"
    "ends_of (state_of c2 a) = (if kept then ob else Some (sf_opening_amount f), if kept then od else sf_opening_date f, cl, cd, h)"
    "is_seeded c a \<longrightarrow> connects f c a \<noteq> []"
    using seat_fold [OF steps(2) c1(1,2)] c1(3) unfolding assms(8) by auto
  show ?thesis
    using write_period_fold [OF steps(3) c2(1) assms(5) c2(2,3)] c2(4) unfolding assms(9) by (auto simp del: prod.inject)
qed

text \<open>
  The account stays in balance: a posting to an account that holds nothing yet, one that continues it,
  and one in front of it.
\<close>

lemma posting_keeps_balance:
  assumes "post_reconciled ou f recon fnd ac cb es = (es', Inr res)" "ir_action res = POSTED" "ir_account res = Some a"
    "project (ou_sha ou) (ou_retained ou) es None = Inr c" "reconciles f = Inr r" "passed r" "statement_range f"
    "starts_with a ''acct:''" "untouched (state_of c a) \<or> in_balance (state_of c a) \<and> in_order c a f"
    "length (as_period_deltas (state_of c a)) + length (sf_transactions f) \<le> max_items"
  shows "\<exists>c'. project (ou_sha ou) (ou_retained ou) es' None = Inr c' \<and> as_seen (state_of c' a) \<and> in_balance (state_of c' a)
    \<and> length (as_period_deltas (state_of c' a)) \<le> max_items
    \<and> as_closing (state_of c' a) = (if is_seeded c a \<and> connects f c a \<noteq> ''forward'' then as_closing (state_of c a)
                                    else Some (sf_closing_amount f))"
proof -
  let ?s = "state_of c a" and ?ts = "map tf_amount (sf_transactions f)"
  obtain ob od cl cd h b ds where v: "ends_of ?s = (ob, od, cl, cd, h)" "flows ?s = (b, ds)" by (metis prod_cases5 surj_pair)
  note s = v [unfolded view_fields]
  have ts: "list_all money_range ?ts" "money_range (sf_opening_amount f)" "money_range (sf_closing_amount f)"
    using assms(7) by (auto simp: statement_range_def line_range_def list_all_iff)
  have val: "dec_val (sf_closing_amount f) = dec_val (sf_opening_amount f) + sum_list (map dec_val ?ts)"
    using reconciled_value [OF assms(7,5,6)] by (simp add: comp_def)
  have len: "length ds + length ?ts \<le> max_items" "length ds + length ?ts \<le> max_terms"
    using assms(10) s by (simp_all add: max_items_def max_terms_def)
  have sum: "in_units (length (ds @ ?ts)) (foldl dec_add b ?ts) \<and> dec_val (foldl dec_add b ?ts) = dec_val b + sum_list (map dec_val ?ts)"
    if "in_units (length ds) b" using units_foldl [OF that ts(1) len(2)] by simp
  note view = posting_view [OF assms(1-4,8) v refl refl]
  show ?thesis
  proof (cases "untouched ?s")
    case True
    have zero: "dec_val dec0 = 0" by (simp add: dec_val_def dec0_def)
    from True have u: "ob = None" "cl = None" "b = dec0" "ds = []" "\<not> is_seeded c a" using s by (auto simp: untouched_def is_seeded_state)
    obtain c' where c': "project (ou_sha ou) (ou_retained ou) es' None = Inr c'" "as_seen (state_of c' a)"
      "flows (state_of c' a) = (foldl dec_add b ?ts, ds @ ?ts)"
      "ends_of (state_of c' a) = (Some (sf_opening_amount f), sf_opening_date f, Some (sf_closing_amount f), sf_closing_date f, cb = ''human'')"
      using view u by auto
    have "in_balance (state_of c' a)"
      unfolding in_balance_view [OF c'(4,3)] using sum ts val u zero by simp
    then show ?thesis using c' u len(1) by (auto simp: view_fields)
  next
    case False
    then have bal: "in_balance ?s" "in_order c a f" using assms(9) by auto
    obtain o1 z where o: "ob = Some o1" "cl = Some z" "dec_val (effective ?s) = dec_val o1 + sum_list (map dec_val ds)"
      using effective_value [OF bal(1)] len(1) s by auto
    have st: "is_seeded c a" "in_balance ?s \<longleftrightarrow> money_range o1 \<and> money_range z \<and> list_all money_range ds \<and> in_units (length ds) b
        \<and> dec_val b = sum_list (map dec_val ds) \<and> dec_val z = dec_val o1 + sum_list (map dec_val ds)"
      using s o in_balance_view [of ?s o1 od z "(cd, h)" b ds] v by (auto simp: is_seeded_state)
    show ?thesis
    proof (cases "connects f c a = ''forward''")
      case True
      then have "cd \<le> sf_closing_date f" using bal(2) s by (simp add: in_order_def)
      then obtain c' where c': "project (ou_sha ou) (ou_retained ou) es' None = Inr c'" "as_seen (state_of c' a)"
        "flows (state_of c' a) = (foldl dec_add b ?ts, ds @ ?ts)"
        "ends_of (state_of c' a) = (Some o1, od, Some (sf_closing_amount f), sf_closing_date f, cb = ''human'')"
        using view True st(1) o by auto
      have "in_balance (state_of c' a)"
        unfolding in_balance_view [OF c'(4,3)] using sum ts val st bal(1) connects_value(1) [OF True] o(3) by simp
      then show ?thesis using c' True len(1) by (auto simp: view_fields)
    next
      case no: False
      then have infront: "connects f c a = ''backward''" using view st(1) connects_value(3) [of f c a] by blast
      have "sf_opening_date f < od" "\<not> cd \<le> sf_closing_date f" using bal(2) s no by (auto simp: in_order_def)
      then obtain c' where c': "project (ou_sha ou) (ou_retained ou) es' None = Inr c'" "as_seen (state_of c' a)"
        "flows (state_of c' a) = (foldl dec_add b ?ts, ds @ ?ts)"
        "ends_of (state_of c' a) = (Some (sf_opening_amount f), sf_opening_date f, Some z, cd, h)"
        using view no o by auto
      have "in_balance (state_of c' a)"
        unfolding in_balance_view [OF c'(4,3)] using sum ts val st bal(1) connects_value(2) [OF infront] o s by auto
      then show ?thesis using c' no st(1) s o len(1) by (auto simp: view_fields)
    qed
  qed
qed

text \<open>
  C9: a posted statement leaves a corroborated balance. Take a statement in the money range that
  reconciles as read, posted to an account that holds nothing yet, or to one in balance in time order
  (continuing it, or wholly in front of it). The account is in balance afterwards, and the balance
  answer is the statement's closing figure, or the account's own when the statement lies in front of it,
  graded \<^verbatim>\<open>corroborated\<close> or \<^verbatim>\<open>verified\<close>: never unverified, never conflicted.
\<close>
theorem posted_statement_leaves_the_balance_corroborated:
  assumes "post_statement ou f cb es = (es', Inr res)" "ir_action res = POSTED" "ir_account res = Some a"
    "project (ou_sha ou) (ou_retained ou) es None = Inr c" "reconciles f = Inr r" "passed r" "statement_range f"
    "starts_with a ''acct:''" "untouched (state_of c a) \<or> in_balance (state_of c a) \<and> in_order c a f"
    "length (as_period_deltas (state_of c a)) + length (sf_transactions f) \<le> max_items"
  shows "\<exists>c' b. project (ou_sha ou) (ou_retained ou) es' None = Inr c' \<and> in_balance (state_of c' a)
    \<and> balance c' a = Inr b \<and> ba_grade b \<in> {VERIFIED, CORROBORATED}
    \<and> Some (ba_amount b) = (if is_seeded c a \<and> connects f c a \<noteq> ''forward'' then as_closing (state_of c a)
                            else Some (sf_closing_amount f))"
proof -
  have p: "post_reconciled ou f r None False cb es = (es', Inr res)"
    using assms(1,5,6) by (simp add: post_statement_def work_Inr)
  obtain c' where c': "project (ou_sha ou) (ou_retained ou) es' None = Inr c'" "as_seen (state_of c' a)" "in_balance (state_of c' a)"
    "length (as_period_deltas (state_of c' a)) \<le> max_items"
    "as_closing (state_of c' a) = (if is_seeded c a \<and> connects f c a \<noteq> ''forward'' then as_closing (state_of c a)
                                    else Some (sf_closing_amount f))"
    using posting_keeps_balance [OF p assms(2-10)] by blast
  obtain b where b: "balance c' a = Inr b" "Some (ba_amount b) = as_closing (state_of c' a)"
    "ba_grade b = (if as_closing_confirmed (state_of c' a) then VERIFIED else CORROBORATED)"
    using in_balance_answer [OF c'(3,2,4)] by blast
  have "ba_grade b \<in> {VERIFIED, CORROBORATED}" using b(3) by simp
  moreover have "Some (ba_amount b) = (if is_seeded c a \<and> connects f c a \<noteq> ''forward'' then as_closing (state_of c a)
                            else Some (sf_closing_amount f))" using b(2) c'(5) by simp
  ultimately show ?thesis using c'(1,3) b(1) by blast
qed

end
