(* ===== verification/Statement_Runs.thy ===== *)
theory Statement_Runs
  imports Statement_Chain
begin

text \<open>
  Runs of the statement projector on one checking account, evaluated step by step: the instances of the
  theorems on posting, and two runs that go wrong.
\<close>

subsection \<open>A checking account\<close>

definition demo_txn :: "string \<Rightarrow> int \<Rightarrow> txn_fact" where
  "demo_txn date amount =
     \<lparr>tf_date = Some date, tf_description = ''line'', tf_amount = Dec amount 0, tf_page = JInt 1, tf_running_balance = None,
      tf_source_doc_id = [], tf_grade = [], tf_note = [], tf_source_reference = [], tf_counterparty_reference = []\<rparr>"

definition demo_statement :: "string \<Rightarrow> int \<Rightarrow> string \<Rightarrow> int \<Rightarrow> string \<Rightarrow> txn_fact list \<Rightarrow> statement_facts" where
  "demo_statement doc ob od cl cd ts =
     \<lparr>sf_doc_id = doc, sf_doc_type = ''checking_statement'', sf_confidence = Some ''0.9'', sf_account_ref = ''Checking'', sf_currency = ''USD'',
      sf_opening_amount = Dec ob 0, sf_opening_date = od, sf_closing_amount = Dec cl 0, sf_closing_date = cd,
      sf_transactions = ts, sf_opening_page = JInt 1, sf_closing_page = JInt 1, sf_account_number = ''111122223333'',
      sf_institution = ''Alpha'', sf_account_names = [''Ann Example''], sf_source_account_ref = [],
      sf_source_account_ref_page = None, sf_acquisition = None, sf_page_count = None\<rparr>"

definition january :: statement_facts where
  "january = demo_statement ''d1'' 100 ''2026-01-01'' 200 ''2026-01-31'' [demo_txn ''2026-01-10'' 100]"

definition december :: statement_facts where
  "december = demo_statement ''d2'' 200 ''2025-12-01'' 100 ''2025-12-31'' [demo_txn ''2025-12-10'' (- 100)]"

definition january_zero :: statement_facts where
  "january_zero = january\<lparr>sf_transactions := [demo_txn ''2026-01-10'' 100, demo_txn ''2026-01-11'' 0]\<rparr>"

text \<open>A statement that reconciles, of an account that is not in doubt and whose full number is known or absent.\<close>

lemma post_as_read:
  assumes "reconciles f = Inr r" "passed r" "project (ou_sha ou) (ou_retained ou) es None = Inr c" "resolve_facts c f = rs"
    "rs_verdict rs \<noteq> ''ambiguous''" "\<not> (rs_verdict rs = ''new'' \<and> seen_account c (rs_account_id rs))" "rs_account_id rs = a"
    "case account_info c a of Inl _ \<Rightarrow> True | Inr st \<Rightarrow> usable_full_number (as_number st) \<noteq> []"
    "posted_period c a (period_end f) = None" "account_kind_for (sf_doc_type f) = k"
    "seat ou c a k f es = (es1, Inr True)" "write_period ou a k f cb es1 = (es2, w)"
  shows "post_statement ou f cb es = (es2, case w of Inl x \<Rightarrow> Inl x | Inr _ \<Rightarrow> Inr (posted_result a f r None False cb))"
proof -
  have "record_stronger_identity ou c a f es = (es, Inr ())"
    using assms(8) by (auto simp: record_stronger_identity_def retW_def split: sum.splits)
  moreover have "account_for_resolution ou c rs k es = (es, Inr a)" using assms(6,7) by (auto simp: account_for_resolution_def)
  moreover have "period_already_posted ou c a f es = (es, Inr None)" using assms(9) by (simp add: period_already_posted_def retW_def)
  ultimately show ?thesis using assms(1-5,10-12)
    by (simp add: post_statement_def post_reconciled_def bindW_def liftW_def projection_def retW_def Let_def split: sum.split)
qed

text \<open>The steps of two runs: the account seated, its January posted, and a January with a line of zero.\<close>

abbreviation "alpha \<equiv> ''acct:alpha:3333''"

definition january_log :: "event list" where
  "january_log =
     [Event ''e0'' ''AccountOpened'' ''2026-01-01''
        (JObj [(''account_id'', JStr alpha), (''kind'', JStr ''depository''), (''name'', JStr ''Checking''), (''currency'', JStr ''USD''),
               (''jurisdiction'', JStr []), (''institution'', JStr ''Alpha''), (''account_number'', JStr ''111122223333''),
               (''account_names'', JArr [JStr ''Ann Example'']), (''origin'', JStr ISSUED)]) prov_empty,
      Event ''e1'' ''OpeningBalanceObserved'' ''2026-01-01'' (JObj [(''account_id'', JStr alpha), (''amount'', JStr ''100'')])
        \<lparr>prov_doc_id = ''d1'', prov_page = Some 1, prov_region = [], prov_note = ''opening balance''\<rparr>,
      transaction_recorded ''e2'' [\<lparr>p_account = alpha, p_amount = Dec 100 0, p_grade = VERIFIED\<rparr>,
        \<lparr>p_account = INCOME_UNCATEGORIZED, p_amount = Dec (- 100) 0, p_grade = UNVERIFIED\<rparr>] ''line'' ''2026-01-10'' None
        (Some \<lparr>prov_doc_id = ''d1'', prov_page = Some 1, prov_region = [], prov_note = []\<rparr>),
      Event ''e3'' ''ClosingBalanceObserved'' ''2026-01-31''
        (JObj [(''account_id'', JStr alpha), (''amount'', JStr ''200''), (''confirmed_by'', JStr [])])
        \<lparr>prov_doc_id = ''d1'', prov_page = Some 1, prov_region = [], prov_note = ''closing balance''\<rparr>]"

definition seated :: "event list" where
  "seated = take 2 january_log"

definition zero_log :: "event list" where
  "zero_log = take 3 january_log"

lemma seated: "seat demo_outside (empty_core None) alpha ''depository'' january [] = (seated, Inr True)"
  by code_simp

lemma seated_zero: "seat demo_outside (empty_core None) alpha ''depository'' january_zero [] = (seated, Inr True)"
proof -
  have "seat demo_outside (empty_core None) alpha ''depository'' january_zero = seat demo_outside (empty_core None) alpha ''depository'' january"
    by (rule ext) (simp add: seat_def january_zero_def opened_event_def [abs_def] opening_event_def [abs_def] opening_provenance_def
        is_seeded_state state_of_def empty_core_def AccountState_def)
  then show ?thesis using seated by simp
qed

lemma january_written: "write_period demo_outside alpha ''depository'' january [] seated = (january_log, Inr ())"
  by code_simp

lemma zero_stuck:
  "write_period demo_outside alpha ''depository'' january_zero [] seated
     = (zero_log, Inl (ValueError ''a transaction of zero is not a movement''))"
  by code_simp

lemma empty_account:
  "state_of (empty_core None) a = AccountState" "\<not> seen_account (empty_core None) a" "account_info (empty_core None) a = Inl (KeyError a)"
  "posted_period (empty_core None) a d = None" "project sha ret [] None = Inr (empty_core None)"
  by (simp_all add: state_of_def empty_core_def seen_account_def account_info_def posted_period_def project_def)

lemma january_new:
  "let r = resolve_facts (empty_core None) january in rs_verdict r = ''new'' \<and> rs_account_id r = alpha"
  by code_simp

lemma resolve_zero: "resolve_facts c january_zero = resolve_facts c january"
proof -
  have "source_identity january_zero = source_identity january"
    by (simp add: source_identity_def january_zero_def Let_def split: option.split)
  then show ?thesis by (simp add: resolve_facts_def) (simp add: january_zero_def)
qed

lemma checking_kind: "account_kind_for ''checking_statement'' = ''depository''"
  by code_simp

lemma demo_kinds: "sf_doc_type january = ''checking_statement''" "sf_doc_type january_zero = ''checking_statement''"
  "sf_doc_type december = ''checking_statement''"
  by (simp_all add: january_zero_def january_def december_def demo_statement_def)

lemma january_resolved:
  "rs_verdict (resolve_facts (empty_core None) january) = ''new''" "rs_account_id (resolve_facts (empty_core None) january) = alpha"
  "account_kind_for (sf_doc_type january) = ''depository''"
  "rs_verdict (resolve_facts (empty_core None) january_zero) = ''new''" "rs_account_id (resolve_facts (empty_core None) january_zero) = alpha"
  "account_kind_for (sf_doc_type january_zero) = ''depository''"
  using january_new by (simp_all add: Let_def resolve_zero demo_kinds checking_kind)

lemma passedI: "(case x of Inl _ \<Rightarrow> False | Inr r \<Rightarrow> passed r) \<Longrightarrow> \<exists>r. x = Inr r \<and> passed r"
  by (auto split: sum.splits)

lemma january_reconciles:
  "\<exists>r. reconciles january = Inr r \<and> passed r" "\<exists>r. reconciles january_zero = Inr r \<and> passed r"
  "\<exists>r. reconciles december = Inr r \<and> passed r"
  by (rule passedI, code_simp)+

lemma january_posted:
  "\<exists>res. post_statement demo_outside january [] [] = (january_log, Inr res) \<and> ir_action res = POSTED \<and> ir_account res = Some alpha"
proof -
  obtain r where r: "reconciles january = Inr r" "passed r" using january_reconciles(1) by blast
  have "post_statement demo_outside january [] [] = (january_log, Inr (posted_result alpha january r None False []))"
    using post_as_read [OF r empty_account(5) refl _ _ january_resolved(2) _ empty_account(4) january_resolved(3) seated january_written]
    by (simp add: january_resolved empty_account)
  then show ?thesis by (simp add: posted_result_def IngestResult_def)
qed

lemma january_zero_raises:
  "post_statement demo_outside january_zero [] [] = (zero_log, Inl (ValueError ''a transaction of zero is not a movement''))"
proof -
  obtain r where r: "reconciles january_zero = Inr r" "passed r" using january_reconciles(2) by blast
  show ?thesis
    using post_as_read [OF r empty_account(5) refl _ _ january_resolved(5) _ empty_account(4) january_resolved(6) seated_zero zero_stuck]
    by (simp add: january_resolved empty_account)
qed

lemma zero_log_types: "map event_type zero_log = [''AccountOpened'', ''OpeningBalanceObserved'', ''TransactionRecorded'']"
  by code_simp

lemma zero_log_money: "money_of zero_log \<noteq> []"
  by code_simp

theorem only_reconciled_statements_move_money_witness:
  "(\<exists>g r a by. sf_doc_id g = ''d1'' \<and> reconciles g = Inr r \<and> passed r \<and> posts a g by january_log)
   \<and> (\<exists>g r a by. sf_doc_id g = ''d1'' \<and> reconciles g = Inr r \<and> passed r \<and> posts_part a g by zero_log)"
proof -
  obtain res where p: "post_statement demo_outside january [] [] = (january_log, Inr res)" "ir_action res = POSTED"
    using january_posted by blast
  have "sf_doc_id january = ''d1''" "sf_doc_id january_zero = ''d1''" by (simp_all add: january_def january_zero_def demo_statement_def)
  then show ?thesis
    using only_reconciled_statements_move_money [OF p(1)] p(2) only_reconciled_statements_move_money [OF january_zero_raises] zero_log_money
    by fastforce
qed

theorem posted_statement_leaves_the_balance_corroborated_witness:
  "\<exists>c b. project (ou_sha demo_outside) (ou_retained demo_outside) january_log None = Inr c
     \<and> balance c alpha = Inr b \<and> ba_grade b \<in> {VERIFIED, CORROBORATED} \<and> ba_amount b = Dec 200 0"
proof -
  obtain res where p: "post_statement demo_outside january [] [] = (january_log, Inr res)" "ir_action res = POSTED"
      "ir_account res = Some alpha"
    using january_posted by blast
  obtain r where r: "reconciles january = Inr r" "passed r" using january_reconciles(1) by blast
  have range: "statement_range january" by code_simp
  have u: "untouched (state_of (empty_core None) alpha)" "\<not> is_seeded (empty_core None) alpha"
    "length (as_period_deltas (state_of (empty_core None) alpha)) + length (sf_transactions january) \<le> max_items"
    "starts_with alpha ''acct:''"
    by (simp_all add: empty_account untouched_def AccountState_def is_seeded_state january_def demo_statement_def max_items_def)
  have cl: "sf_closing_amount january = Dec 200 0" by (simp add: january_def demo_statement_def)
  from posted_statement_leaves_the_balance_corroborated [OF p empty_account(5) r range u(4) _ u(3)] u(1,2) cl
  show ?thesis by fastforce
qed

text \<open>
  C40: one run in which a line of zero stops a posting half way. On a ledger that is not staged and has no events,
  posting a January whose lines reconcile and whose second line is of amount zero raises from the booking of that
  line, after the account, its opening figure and the first line were appended: the account is left with an
  opening and a movement, and no closing.
\<close>
theorem a_zero_line_leaves_half_a_statement:
  "\<exists>es c. post_statement demo_outside january_zero [] [] = (es, Inl (ValueError ''a transaction of zero is not a movement''))
     \<and> map event_type es = [''AccountOpened'', ''OpeningBalanceObserved'', ''TransactionRecorded'']
     \<and> project (ou_sha demo_outside) (ou_retained demo_outside) es None = Inr c \<and> is_seeded c alpha
     \<and> as_period_deltas (state_of c alpha) \<noteq> [] \<and> as_closing (state_of c alpha) = None"
proof -
  define out where "out = project (ou_sha demo_outside) (ou_retained demo_outside) zero_log None"
  have "case out of Inr c \<Rightarrow> is_seeded c alpha \<and> as_period_deltas (state_of c alpha) \<noteq> [] \<and> as_closing (state_of c alpha) = None | _ \<Rightarrow> False"
    unfolding out_def by code_simp
  then show ?thesis using january_zero_raises zero_log_types unfolding out_def by (auto split: sum.splits)
qed

definition january_core :: core where
  "january_core = (case project (ou_sha demo_outside) (ou_retained demo_outside) january_log None of Inr c \<Rightarrow> c | Inl _ \<Rightarrow> empty_core None)"

definition december_log :: "event list" where
  "december_log = january_log @
     [transaction_recorded ''e4'' [\<lparr>p_account = alpha, p_amount = Dec (- 100) 0, p_grade = VERIFIED\<rparr>,
        \<lparr>p_account = EXPENSE_UNCATEGORIZED, p_amount = Dec 100 0, p_grade = UNVERIFIED\<rparr>] ''line'' ''2025-12-10'' None
        (Some \<lparr>prov_doc_id = ''d2'', prov_page = Some 1, prov_region = [], prov_note = []\<rparr>),
      Event ''e5'' ''ClosingBalanceObserved'' ''2025-12-31''
        (JObj [(''account_id'', JStr alpha), (''amount'', JStr ''100''), (''confirmed_by'', JStr [])])
        \<lparr>prov_doc_id = ''d2'', prov_page = Some 1, prov_region = [], prov_note = ''closing balance''\<rparr>]"

lemma january_fold:
  "case project (ou_sha demo_outside) (ou_retained demo_outside) january_log None of
     Inl _ \<Rightarrow> False
   | Inr c \<Rightarrow>
       map fst (filter (\<lambda>(aid, st). as_seen st \<and> as_kind st = ''depository'') (pc_acct c)) = [alpha]
       \<and> map_of (pc_document_aliases c) ''d2'' = None \<and> posted_period c alpha ''2025-12-31'' = None
       \<and> as_number (state_of c alpha) = ''111122223333'' \<and> as_seen (state_of c alpha)
       \<and> as_kind (state_of c alpha) = ''depository'' \<and> is_seeded c alpha \<and> connects december c alpha = ''forward''"
  by code_simp

lemma january_core: "project (ou_sha demo_outside) (ou_retained demo_outside) january_log None = Inr january_core"
  using january_fold by (cases "project (ou_sha demo_outside) (ou_retained demo_outside) january_log None") (simp_all add: january_core_def)

lemma january_account:
  "map fst (filter (\<lambda>(aid, st). as_seen st \<and> as_kind st = ''depository'') (pc_acct january_core)) = [alpha]"
  "map_of (pc_document_aliases january_core) ''d2'' = None" "posted_period january_core alpha ''2025-12-31'' = None"
  "as_number (state_of january_core alpha) = ''111122223333''" "as_seen (state_of january_core alpha)"
  "as_kind (state_of january_core alpha) = ''depository''" "is_seeded january_core alpha"
  "connects december january_core alpha = ''forward''"
  using january_fold by (simp_all only: january_core sum.case)

lemma resolve_by_full_number:
  assumes "map_of (pc_document_aliases c) (sg_doc_id sg) = None" "\<not> conflicting_number_signals (sg_number sg) (sg_ref sg)"
    "length (usable_full_number (sg_number sg)) > 4"
    "filter (\<lambda>(aid, st). as_seen st \<and> as_kind st = sg_kind sg) (pc_acct c) = [(aid, st)]"
    "usable_full_number (as_number st) = usable_full_number (sg_number sg)"
  shows "rs_verdict (resolve c sg) = ''same''" "rs_account_id (resolve c sg) = aid"
  using assms by (simp_all add: resolve_def Let_def Resolution_def)

lemma december_number: "\<not> conflicting_number_signals ''111122223333'' ''Checking''" "usable_full_number ''111122223333'' = ''111122223333''"
  by code_simp+

lemma december_resolved:
  "rs_verdict (resolve_facts january_core december) = ''same''" "rs_account_id (resolve_facts january_core december) = alpha"
  "case account_info january_core alpha of Inl _ \<Rightarrow> True | Inr st \<Rightarrow> usable_full_number (as_number st) \<noteq> []"
  "posted_period january_core alpha (period_end december) = None" "account_kind_for (sf_doc_type december) = ''depository''"
  "is_seeded january_core alpha" "connects december january_core alpha = ''forward''"
proof -
  obtain st where st: "filter (\<lambda>(aid, st). as_seen st \<and> as_kind st = ''depository'') (pc_acct january_core) = [(alpha, st)]"
    using january_account(1) by (auto simp: map_eq_Cons_conv)
  have own: "map_of (pc_acct january_core) alpha = Some (state_of january_core alpha)" using seen_state january_account(5) by blast
  then have "(alpha, state_of january_core alpha) \<in> set (filter (\<lambda>(aid, st). as_seen st \<and> as_kind st = ''depository'') (pc_acct january_core))"
    using january_account(5,6) map_of_SomeD by fastforce
  then have "st = state_of january_core alpha" unfolding st by simp
  then show "rs_verdict (resolve_facts january_core december) = ''same''" "rs_account_id (resolve_facts january_core december) = alpha"
    unfolding resolve_facts_def
    using january_account(2,4) december_number st checking_kind
    by (auto intro!: resolve_by_full_number simp: december_def demo_statement_def)
  show "case account_info january_core alpha of Inl _ \<Rightarrow> True | Inr st \<Rightarrow> usable_full_number (as_number st) \<noteq> []"
    using own january_account(4,5) december_number(2) by (simp add: account_info_def guardR_def)
  show "posted_period january_core alpha (period_end december) = None"
    using january_account(3) by (simp add: period_end_def december_def demo_statement_def)
qed (simp_all add: demo_kinds checking_kind january_account(7,8))

lemma december_written: "write_period demo_outside alpha ''depository'' december [] january_log = (december_log, Inr ())"
  by code_simp

text \<open>
  C39: the stitch looks at amounts alone. With January posted, from 100 to 200, the December before it,
  from 200 to 100, opens at the balance held: it is posted as if it continued January, and the balance
  of the account becomes conflicted, though both statements reconcile and December ends where January opens.
\<close>
theorem an_earlier_statement_is_stitched_forward:
  "\<exists>es res c b. post_statement demo_outside december [] january_log = (es, Inr res) \<and> ir_action res = POSTED
     \<and> project (ou_sha demo_outside) (ou_retained demo_outside) es None = Inr c
     \<and> balance c alpha = Inr b \<and> ba_grade b = CONFLICTED"
proof -
  obtain r where r: "reconciles december = Inr r" "passed r" using january_reconciles(3) by blast
  have "seat demo_outside january_core alpha ''depository'' december january_log = (january_log, Inr True)"
    by (simp add: seat_def december_resolved(6,7) retW_def)
  then have p: "post_statement demo_outside december [] january_log = (december_log, Inr (posted_result alpha december r None False []))"
    using post_as_read [OF r january_core refl _ _ december_resolved(2-5) _ december_written] by (simp add: december_resolved(1))
  define out where "out = project (ou_sha demo_outside) (ou_retained demo_outside) december_log None"
  have "case out of Inr c \<Rightarrow> (case balance c alpha of Inr b \<Rightarrow> ba_grade b = CONFLICTED | _ \<Rightarrow> False) | _ \<Rightarrow> False"
    unfolding out_def by code_simp
  then obtain c b where "out = Inr c" "balance c alpha = Inr b" "ba_grade b = CONFLICTED" by (auto split: sum.splits)
  then show ?thesis using p unfolding out_def by (auto simp: posted_result_def IngestResult_def)
qed

end
