(* ===== verification/Scenarios.thy ===== *)
theory Scenarios
  imports Json Dates Py_Decimal
begin

text \<open>
  The monthly scenarios of \<^verbatim>\<open>ledger/scenarios.py\<close>: savings with contributions, paying off a loan, and cash
  flow with one unusual expense. Amounts are \<^verbatim>\<open>Decimal\<close>s rounded half-even to cents in a context of 80 digits;
  months are counted on the calendar from an anchor date. This theory holds the definitions.
\<close>

subsection \<open>The local context of 80 digits\<close>

definition ctx_prec :: nat where
  "ctx_prec = 80"

definition round_to :: "nat \<Rightarrow> decimal \<Rightarrow> decimal" where
  "round_to p d =
     (if \<bar>coeff d\<bar> < 10 ^ p then d
      else let k = num_digits (coeff d) - p; q = round_half_even (nat \<bar>coeff d\<bar>) k in
           if q = 10 ^ p then Dec (sgn (coeff d) * 10 ^ (p - 1)) (expo d + int k + 1)
           else Dec (sgn (coeff d) * int q) (expo d + int k))"

definition ctx_add :: "decimal \<Rightarrow> decimal \<Rightarrow> decimal" where
  "ctx_add a b = (let m = min (expo a) (expo b) in round_to ctx_prec (Dec (lift_to m a + lift_to m b) m))"

definition ctx_sub :: "decimal \<Rightarrow> decimal \<Rightarrow> decimal" where
  "ctx_sub a b = ctx_add a (Dec (- coeff b) (expo b))"

definition ctx_mul :: "decimal \<Rightarrow> decimal \<Rightarrow> decimal" where
  "ctx_mul a b = round_to ctx_prec (Dec (coeff a * coeff b) (expo a + expo b))"

text \<open>
  Division of a non-negative number by a positive one: the quotient to one digit more than the precision, with a
  digit that is neither 0 nor 5 at its end when it is not exact, and towards the ideal exponent when it is.
\<close>

fun drop_zeros :: "nat \<Rightarrow> nat \<Rightarrow> int \<Rightarrow> decimal" where
  "drop_zeros 0 c x = Dec (int c) x"
| "drop_zeros (Suc k) c x = (if c mod 10 = 0 then drop_zeros k (c div 10) (x + 1) else Dec (int c) x)"

definition ctx_div :: "decimal \<Rightarrow> decimal \<Rightarrow> decimal" where
  "ctx_div a b =
     (if coeff a = 0 then Dec 0 (expo a - expo b)
      else
        let n = nat \<bar>coeff a\<bar>; m = nat \<bar>coeff b\<bar>;
            shift = int (num_digits (coeff b)) - int (num_digits (coeff a)) + int ctx_prec + 1;
            x = expo a - expo b - shift;
            num = n * 10 ^ nat shift; den = m * 10 ^ nat (- shift);
            c = num div den
        in round_to ctx_prec
             (if num mod den \<noteq> 0 then Dec (int (if c mod 5 = 0 then c + 1 else c)) x
              else drop_zeros (nat shift) c x))"

text \<open>\<^verbatim>\<open>quantize(CENTS)\<close>.\<close>

definition to_cents :: "decimal \<Rightarrow> nat" where
  "to_cents d =
     (if - 2 \<le> expo d then nat \<bar>coeff d\<bar> * 10 ^ nat (expo d + 2)
      else round_half_even (nat \<bar>coeff d\<bar>) (nat (- 2 - expo d)))"

definition ctx_quantize :: "decimal \<Rightarrow> decimal res" where
  "ctx_quantize d =
     (if coeff d = 0 then Inr (Dec 0 (- 2))
      else
        guardR (\<not> expo d + int (num_digits (coeff d)) + 2 > int ctx_prec) InvalidOperation
        (guardR (\<not> num_digits (int (to_cents d)) > ctx_prec) InvalidOperation
        (Inr (Dec (sgn (coeff d) * int (to_cents d)) (- 2)))))"

definition zero_cents :: decimal where
  "zero_cents = Dec 0 (- 2)"

subsection \<open>Reading the premises\<close>

abbreviation ScenarioError :: "string \<Rightarrow> exc" where
  "ScenarioError \<equiv> ValueError"

definition premise_mismatch :: exc where
  "premise_mismatch = ScenarioError ''scenario_premise_source_mismatch''"

definition decimal_text :: "string \<Rightarrow> bool" where
  "decimal_text s =
     (let u = (case s of [] \<Rightarrow> [] | c # cs \<Rightarrow> if c = CHR ''+'' then cs else s);
          ip = takeWhile is_digit u; rest = dropWhile is_digit u in
      1 \<le> length ip \<and> length ip \<le> 15 \<and>
      (case rest of [] \<Rightarrow> True
       | c # fp \<Rightarrow> c = CHR ''.'' \<and> 1 \<le> length fp \<and> length fp \<le> 6 \<and> list_all is_digit fp))"

definition scenario_decimal :: "json \<Rightarrow> decimal res" where
  "scenario_decimal v =
     (case v of JStr s \<Rightarrow> guardR (decimal_text s) premise_mismatch (py_Decimal (PStr s)) | _ \<Rightarrow> Inl premise_mismatch)"

definition scenario_horizon :: "json \<Rightarrow> nat res" where
  "scenario_horizon v =
     (case v of
        JStr s \<Rightarrow>
          guardR (1 \<le> length s \<and> length s \<le> 3 \<and> list_all is_digit s \<and> 1 \<le> digits_val s \<and> digits_val s \<le> 600)
            premise_mismatch (Inr (digits_val s))
      | _ \<Rightarrow> Inl premise_mismatch)"

definition anchor :: "json \<Rightarrow> date res" where
  "anchor v =
     (case v of
        JStr s \<Rightarrow>
          (case fromisoformat s of None \<Rightarrow> Inl premise_mismatch
           | Some held \<Rightarrow> guardR (isoformat held = s) premise_mismatch (Inr held))
      | _ \<Rightarrow> Inl premise_mismatch)"

definition advance :: "date \<Rightarrow> nat \<Rightarrow> string res" where
  "advance start months =
     (let index = d_year start * 12 + d_month start - 1 + months; year = index div 12; month = index mod 12 + 1 in
      guardR (1 \<le> year \<and> year \<le> 9999) (ScenarioError ''scenario_calendar_range_unavailable'')
      (Inr (isoformat (Date year month (min (d_day start) (days_in_month year month))))))"

type_synonym modeled_money = "(string \<times> decimal) list"

definition scenario_inputs :: "(string \<times> json) list \<Rightarrow> json \<Rightarrow> json \<Rightarrow> json \<Rightarrow> (modeled_money \<times> decimal \<times> nat \<times> date) res" where
  "scenario_inputs amounts rate months start_date =
     bindR (mapR (\<lambda>(name, v). bindR (scenario_decimal v) (\<lambda>d. Inr (name, d))) amounts) (\<lambda>exact.
     bindR (scenario_decimal rate) (\<lambda>annual.
     guardR (\<not> dec_lt (Dec 100 0) annual) premise_mismatch
     (bindR (scenario_horizon months) (\<lambda>cnt.
      bindR (anchor start_date) (\<lambda>start.
      bindR (mapR (\<lambda>(name, d). bindR (ctx_quantize d) (\<lambda>q. Inr (name, q))) exact) (\<lambda>modeled.
      Inr (modeled, ctx_div annual (Dec 1200 0), cnt, start)))))))"

definition modeled_at :: "modeled_money \<Rightarrow> string \<Rightarrow> decimal" where
  "modeled_at modeled name = (case map_of modeled name of Some d \<Rightarrow> d | None \<Rightarrow> dec0)"

subsection \<open>The part of every result that is alike\<close>

record 'row outcome =
  modeled_inputs :: "(string \<times> string) list"
  trajectory :: "'row list"
  trajectory_sampled :: bool
  total_periods :: nat

text \<open>
  The rounding of \<^verbatim>\<open>i*(len(rows)-1)/23\<close>: the quotient of two small integers is never half-way between integers, as
  23 is odd, and the error of a float is far below its distance to such a point.
\<close>

definition nearest_23rd :: "nat \<Rightarrow> nat" where
  "nearest_23rd n = (2 * n + 23) div 46"

definition required_rows :: "nat \<Rightarrow> nat list \<Rightarrow> nat set" where
  "required_rows n landmarks = set ([0, n - 1] @ landmarks)"

definition spread_rows :: "nat \<Rightarrow> nat set" where
  "spread_rows n = set (if n \<le> 24 then [0..<n] else map (\<lambda>i. nearest_23rd (i * (n - 1))) [0..<24])"

definition kept_rows :: "nat \<Rightarrow> nat list \<Rightarrow> nat set" where
  "kept_rows n landmarks =
     (let keep = required_rows n landmarks \<union> spread_rows n in
      if card keep > 24
      then keep - set (take (card keep - 24) (sorted_list_of_set (keep - required_rows n landmarks)))
      else keep)"

definition finish_scenario :: "'row list \<Rightarrow> modeled_money \<Rightarrow> nat list \<Rightarrow> 'row outcome" where
  "finish_scenario rows modeled landmarks =
     (let keep = kept_rows (length rows) landmarks in
      \<lparr>modeled_inputs = map (\<lambda>(name, d). (name, dec_str d)) modeled,
       trajectory = map (\<lambda>i. rows ! i) (sorted_list_of_set keep),
       trajectory_sampled = (length rows > card keep), total_periods = length rows\<rparr>)"

subsection \<open>Savings\<close>

record savings_row =
  sr_month :: nat
  sr_date :: string
  sr_balance :: string
  sr_interest :: string
  sr_contribution :: string

record savings_result =
  sv_final_balance :: string
  sv_contributed_principal :: string
  sv_growth :: string
  sv_horizon_date :: string
  sv_outcome :: "savings_row outcome"

fun savings_months ::
    "date \<Rightarrow> decimal \<Rightarrow> decimal \<Rightarrow> nat list \<Rightarrow> decimal \<Rightarrow> decimal \<Rightarrow> decimal \<Rightarrow> savings_row list
     \<Rightarrow> (decimal \<times> decimal \<times> decimal \<times> savings_row list) res" where
  "savings_months start rate contribution [] balance principal0 growth rows = Inr (balance, principal0, growth, rows)"
| "savings_months start rate contribution (month # ms) balance principal0 growth rows =
     bindR (ctx_quantize (ctx_mul balance rate)) (\<lambda>interest.
     bindR (ctx_quantize (ctx_add (ctx_add balance interest) contribution)) (\<lambda>balance'.
     bindR (advance start month) (\<lambda>dated.
     savings_months start rate contribution ms balance' (ctx_add principal0 contribution) (ctx_add growth interest)
       (rows @ [\<lparr>sr_month = month, sr_date = dated, sr_balance = dec_str balance', sr_interest = dec_str interest,
                 sr_contribution = dec_str contribution\<rparr>]))))"

definition savings :: "json \<Rightarrow> json \<Rightarrow> json \<Rightarrow> json \<Rightarrow> json \<Rightarrow> savings_result res" where
  "savings initial_amount monthly_contribution nominal_annual_rate_percent months start_date =
     bindR (scenario_inputs [(''initial_amount'', initial_amount), (''monthly_contribution'', monthly_contribution)]
              nominal_annual_rate_percent months start_date) (\<lambda>(modeled, rate, cnt, start).
     let initial = modeled_at modeled ''initial_amount'' in
     bindR (savings_months start rate (modeled_at modeled ''monthly_contribution'') [1..<cnt + 1] initial initial zero_cents [])
       (\<lambda>(balance, principal0, growth, rows).
     Inr \<lparr>sv_final_balance = dec_str balance, sv_contributed_principal = dec_str principal0, sv_growth = dec_str growth,
          sv_horizon_date = sr_date (last rows), sv_outcome = finish_scenario rows modeled []\<rparr>))"

subsection \<open>Paying off a loan\<close>

record loan_row =
  lr_month :: nat
  lr_date :: string
  lr_remaining_debt :: string
  lr_interest :: string
  lr_payment :: string

record loan_result =
  ln_remaining_debt :: string
  ln_interest_paid :: string
  ln_repayments_paid :: string
  ln_payment_count :: nat
  ln_payoff_date :: string
  ln_horizon_date :: string
  ln_outcome :: "loan_row outcome"

record loan_state =
  ls_balance :: decimal
  ls_interest_paid :: decimal
  ls_repayments :: decimal
  ls_payments :: nat
  ls_payoff :: string
  ls_rows :: "loan_row list"

definition dec_min :: "decimal \<Rightarrow> decimal \<Rightarrow> decimal" where
  "dec_min a b = (if dec_lt b a then b else a)"

definition loan_month :: "date \<Rightarrow> decimal \<Rightarrow> decimal \<Rightarrow> decimal \<Rightarrow> nat \<Rightarrow> loan_state \<Rightarrow> loan_state res" where
  "loan_month start rate principal0 payment month s =
     bindR (advance start month) (\<lambda>dated.
     bindR (ctx_quantize (ctx_mul (ls_balance s) rate)) (\<lambda>interest.
     let applied = dec_min payment (ctx_add (ls_balance s) interest) in
     bindR (ctx_quantize (ctx_sub (ctx_add (ls_balance s) interest) applied)) (\<lambda>balance.
     Inr \<lparr>ls_balance = balance, ls_interest_paid = ctx_add (ls_interest_paid s) interest,
          ls_repayments = ctx_add (ls_repayments s) applied,
          ls_payments = ls_payments s + (if dec_lt dec0 applied then 1 else 0),
          ls_payoff = (if dec_lt dec0 principal0 \<and> dec_eq balance dec0 \<and> ls_payoff s = [] then dated else ls_payoff s),
          ls_rows = ls_rows s @
            [\<lparr>lr_month = month + 1, lr_date = dated, lr_remaining_debt = dec_str balance, lr_interest = dec_str interest,
              lr_payment = dec_str applied\<rparr>]\<rparr>)))"

fun loan_months :: "date \<Rightarrow> decimal \<Rightarrow> decimal \<Rightarrow> decimal \<Rightarrow> nat list \<Rightarrow> loan_state \<Rightarrow> loan_state res" where
  "loan_months start rate principal0 payment [] s = Inr s"
| "loan_months start rate principal0 payment (month # ms) s =
     bindR (loan_month start rate principal0 payment month s) (loan_months start rate principal0 payment ms)"

definition indices_where :: "('a \<Rightarrow> bool) \<Rightarrow> 'a list \<Rightarrow> nat list" where
  "indices_where p xs = filter (\<lambda>i. p (xs ! i)) [0..<length xs]"

definition loan_payoff :: "json \<Rightarrow> json \<Rightarrow> json \<Rightarrow> json \<Rightarrow> json \<Rightarrow> loan_result res" where
  "loan_payoff principal0 monthly_payment nominal_annual_rate_percent months start_date =
     bindR (scenario_inputs [(''principal'', principal0), (''monthly_payment'', monthly_payment)]
              nominal_annual_rate_percent months start_date) (\<lambda>(modeled, rate, cnt, start).
     let balance = modeled_at modeled ''principal''; payment = modeled_at modeled ''monthly_payment'' in
     bindR (scenario_decimal monthly_payment) (\<lambda>stated.
     guardR (\<not> (dec_lt dec0 balance \<and> dec_lt dec0 stated \<and> dec_eq payment dec0)) (ScenarioError ''scenario_payment_rounds_to_zero'')
     (bindR (if dec_lt dec0 balance \<and> dec_lt dec0 rate
             then bindR (ctx_quantize (ctx_mul balance rate)) (\<lambda>first_interest.
                  guardR (\<not> dec_le payment first_interest) (ScenarioError ''scenario_non_amortizing_payment'') (Inr ()))
             else Inr ()) (\<lambda>_.
      bindR (loan_months start rate balance payment [0..<cnt]
         \<lparr>ls_balance = balance, ls_interest_paid = zero_cents, ls_repayments = zero_cents, ls_payments = 0, ls_payoff = [],
          ls_rows = []\<rparr>) (\<lambda>s.
       Inr \<lparr>ln_remaining_debt = dec_str (ls_balance s), ln_interest_paid = dec_str (ls_interest_paid s),
            ln_repayments_paid = dec_str (ls_repayments s), ln_payment_count = ls_payments s, ln_payoff_date = ls_payoff s,
            ln_horizon_date = lr_date (last (ls_rows s)),
            ln_outcome = finish_scenario (ls_rows s) modeled
              (indices_where (\<lambda>row. lr_date row = ls_payoff s) (ls_rows s))\<rparr>)))))"

subsection \<open>Cash flow\<close>

record cash_row =
  cr_month :: nat
  cr_date :: string
  cr_balance :: string
  cr_one_off_outflow :: string

record cash_result =
  cf_final_cash :: string
  cf_minimum_cash :: string
  cf_minimum_date :: string
  cf_first_negative_date :: string
  cf_horizon_date :: string
  cf_outcome :: "cash_row outcome"

fun cash_months ::
    "date \<Rightarrow> decimal \<Rightarrow> decimal \<Rightarrow> decimal \<Rightarrow> nat \<Rightarrow> nat list \<Rightarrow> decimal \<Rightarrow> cash_row list \<Rightarrow> (decimal \<times> cash_row list) res" where
  "cash_months start income outflow unusual one_off [] balance rows = Inr (balance, rows)"
| "cash_months start income outflow unusual one_off (month # ms) balance rows =
     (let outgoing = (if month = one_off then unusual else zero_cents) in
      bindR (ctx_quantize (ctx_sub (ctx_sub (ctx_add balance income) outflow) outgoing)) (\<lambda>balance'.
      bindR (advance start month) (\<lambda>dated.
      cash_months start income outflow unusual one_off ms balance'
        (rows @ [\<lparr>cr_month = month, cr_date = dated, cr_balance = dec_str balance', cr_one_off_outflow = dec_str outgoing\<rparr>]))))"

text \<open>\<^verbatim>\<open>min(range(len(rows)), key=...)\<close> is the first index with the least balance.\<close>

fun first_min :: "decimal list \<Rightarrow> nat" where
  "first_min [] = 0"
| "first_min [b] = 0"
| "first_min (b # c # bs) =
     (let i = first_min (c # bs) in if dec_le b ((c # bs) ! i) then 0 else Suc i)"

fun first_below_zero :: "decimal list \<Rightarrow> nat option" where
  "first_below_zero [] = None"
| "first_below_zero (b # bs) = (if dec_lt b dec0 then Some 0 else map_option Suc (first_below_zero bs))"

definition cash_flow :: "json \<Rightarrow> json \<Rightarrow> json \<Rightarrow> json \<Rightarrow> json \<Rightarrow> json \<Rightarrow> json \<Rightarrow> cash_result res" where
  "cash_flow initial_cash monthly_income monthly_outflow one_off_outflow one_off_month months start_date =
     bindR (scenario_inputs [(''initial_cash'', initial_cash), (''monthly_income'', monthly_income),
              (''monthly_outflow'', monthly_outflow), (''one_off_outflow'', one_off_outflow)]
              (JStr ''0'') months start_date) (\<lambda>(modeled, _, cnt, start).
     bindR (scenario_horizon one_off_month) (\<lambda>one_off.
     guardR (\<not> one_off > cnt) premise_mismatch
     (bindR (cash_months start (modeled_at modeled ''monthly_income'') (modeled_at modeled ''monthly_outflow'')
               (modeled_at modeled ''one_off_outflow'') one_off [1..<cnt + 1] (modeled_at modeled ''initial_cash'') []) (\<lambda>(balance, rows).
      bindR (mapR (\<lambda>row. py_Decimal (PStr (cr_balance row))) rows) (\<lambda>balances.
      let least = first_min balances; below = first_below_zero balances in
      Inr \<lparr>cf_final_cash = dec_str balance, cf_minimum_cash = cr_balance (rows ! least), cf_minimum_date = cr_date (rows ! least),
           cf_first_negative_date = (case below of None \<Rightarrow> [] | Some i \<Rightarrow> cr_date (rows ! i)),
           cf_horizon_date = cr_date (last rows),
           cf_outcome = finish_scenario rows modeled (least # (case below of None \<Rightarrow> [] | Some i \<Rightarrow> [i]))\<rparr>)))))"

end
