(* ===== verification/Scenario_Cents.thy ===== *)
theory Scenario_Cents
  imports Scenarios
begin

text \<open>
  The arithmetic of the scenarios: rounding half-even is monotone, one month's interest is a monotone function of the
  balance and at most a tenth of it, and an accepted premise is a whole number of cents of at most 17 digits within half
  a cent of what was stated. Every operation of the loops is then exact on cents.
\<close>

subsection \<open>Rounding is monotone\<close>

lemma round_half_even_0 [simp]: "round_half_even n 0 = n"
  by (simp add: round_half_even_def)

lemma round_half_even_scale: "round_half_even (n * 10 ^ j) (k + j) = round_half_even n k"
proof -
  have "n * 10 ^ j div 10 ^ (k + j) = n div 10 ^ k" "n * 10 ^ j mod 10 ^ (k + j) = (n mod 10 ^ k) * 10 ^ j"
    by (simp_all add: power_add mult_mod_left)
  moreover have "2 * (n mod 10 ^ k * 10 ^ j) > 10 ^ (k + j) \<longleftrightarrow> 2 * (n mod 10 ^ k) > (10::nat) ^ k"
    "2 * (n mod 10 ^ k * 10 ^ j) = 10 ^ (k + j) \<longleftrightarrow> 2 * (n mod 10 ^ k) = (10::nat) ^ k"
    using mult_less_cancel2 [of "10 ^ k" "10 ^ j" "2 * (n mod 10 ^ k)"] mult_cancel2 [of "2 * (n mod 10 ^ k)" "10 ^ j" "10 ^ k"]
    by (simp_all add: power_add mult.assoc)
  ultimately show ?thesis by (simp add: round_half_even_def Let_def)
qed

lemma round_half_even_exact [simp]: "round_half_even (n * 10 ^ k) k = n"
  using round_half_even_scale [of n k 0] by simp

lemma round_half_even_mono: "m \<le> n \<Longrightarrow> round_half_even m k \<le> round_half_even n k"
proof -
  assume le: "m \<le> n"
  let ?t = "(10::nat) ^ k"
  have "m div ?t \<le> n div ?t" using le by (rule div_le_mono)
  moreover have "m div ?t = n div ?t \<Longrightarrow> m mod ?t \<le> n mod ?t"
    using le div_mult_mod_eq [of m ?t] div_mult_mod_eq [of n ?t] by (metis nat_add_left_cancel_le)
  moreover have "round_half_even m k \<le> m div ?t + 1" "n div ?t \<le> round_half_even n k"
    by (simp_all add: round_half_even_def Let_def)
  moreover have "m div ?t = n div ?t \<Longrightarrow> m mod ?t \<le> n mod ?t \<Longrightarrow> round_half_even m k \<le> round_half_even n k"
    by (auto simp: round_half_even_def Let_def)
  ultimately show ?thesis by linarith
qed

lemma round_half_even_le: "n \<le> c * 10 ^ k \<Longrightarrow> round_half_even n k \<le> c"
  using round_half_even_mono [of n "c * 10 ^ k" k] by simp

lemma round_half_even_ge: "c * 10 ^ k \<le> n \<Longrightarrow> c \<le> round_half_even n k"
  using round_half_even_mono [of "c * 10 ^ k" n k] by simp

text \<open>A natural number rounded to a number of significant digits.\<close>

definition digits_of :: "nat \<Rightarrow> nat" where
  "digits_of n = length (show_nat n)"

definition rounded :: "nat \<Rightarrow> nat \<Rightarrow> nat" where
  "rounded p n = (let k = digits_of n - p in round_half_even n k * 10 ^ k)"

lemma digits_of_le_iff: "0 < k \<Longrightarrow> digits_of n \<le> k \<longleftrightarrow> n < 10 ^ k"
  using num_digits_le_iff [of k "int n"] by (simp add: num_digits_def digits_of_def flip: of_nat_less_iff)

lemma digits_of_pos [simp]: "0 < digits_of n"
  by (simp add: digits_of_def)

lemma num_digits_of: "num_digits c = digits_of (nat \<bar>c\<bar>)"
  by (simp add: num_digits_def digits_of_def)

lemma digits_of_less: "n < 10 ^ digits_of n"
  using digits_of_le_iff [of "digits_of n" n] by simp

lemma digits_of_ge: "0 < n \<Longrightarrow> 10 ^ (digits_of n - 1) \<le> n"
proof (cases "digits_of n = 1")
  case False
  moreover have "0 < digits_of n" by (rule digits_of_pos)
  ultimately have "0 < digits_of n - 1" "\<not> digits_of n \<le> digits_of n - 1" by linarith+
  then show ?thesis using digits_of_le_iff [of "digits_of n - 1" n] by linarith
qed simp

lemma digits_of_eqI: "10 ^ (k - 1) \<le> n \<Longrightarrow> n < 10 ^ k \<Longrightarrow> 0 < k \<Longrightarrow> 0 < n \<Longrightarrow> digits_of n = k"
proof -
  assume a: "10 ^ (k - 1) \<le> n" "n < 10 ^ k" "0 < k" "0 < n"
  have "digits_of n \<le> k" using a digits_of_le_iff by blast
  moreover have "\<not> digits_of n < k"
  proof
    assume "digits_of n < k"
    then have "(10::nat) ^ digits_of n \<le> 10 ^ (k - 1)" by (intro power_increasing) auto
    then show False using digits_of_less [of n] a by linarith
  qed
  ultimately show ?thesis by simp
qed

lemma digits_of_scale: "0 < n \<Longrightarrow> digits_of (n * 10 ^ j) = digits_of n + j"
proof (rule digits_of_eqI)
  assume n: "0 < n"
  have p: "digits_of n + j - 1 = (digits_of n - 1) + j" using digits_of_pos [of n] by linarith
  show "10 ^ (digits_of n + j - 1) \<le> n * 10 ^ j" unfolding p using digits_of_ge [OF n] by (simp add: power_add)
  show "n * 10 ^ j < 10 ^ (digits_of n + j)" using digits_of_less [of n] by (simp add: power_add)
qed simp_all

lemma digits_of_mono: "m \<le> n \<Longrightarrow> digits_of m \<le> digits_of n"
  using digits_of_le_iff [of "digits_of n" m] digits_of_less [of n] by simp

lemma rounded_0 [simp]: "rounded p 0 = 0"
  by (simp add: rounded_def round_half_even_def)

lemma rounded_id: "n < 10 ^ p \<Longrightarrow> 0 < p \<Longrightarrow> rounded p n = n"
  using digits_of_le_iff [of p n] by (simp add: rounded_def)

lemma rounded_scale: "0 < p \<Longrightarrow> rounded p (n * 10 ^ j) = rounded p n * 10 ^ j"
proof (cases "n = 0")
  case False
  assume p: "0 < p"
  have d: "digits_of (n * 10 ^ j) = digits_of n + j" using False by (simp add: digits_of_scale)
  show ?thesis
  proof (cases "p \<le> digits_of n")
    case True
    then have "digits_of n + j - p = (digits_of n - p) + j" by simp
    then show ?thesis by (simp add: rounded_def Let_def d round_half_even_scale power_add mult.assoc)
  next
    case less: False
    then have n: "rounded p n = n" by (simp add: rounded_def)
    define k where "k = digits_of n + j - p"
    have "n * 10 ^ j = n * 10 ^ (j - k) * 10 ^ k" using less by (simp add: k_def flip: mult.assoc power_add)
    then have "round_half_even (n * 10 ^ j) k * 10 ^ k = n * 10 ^ j" by (metis round_half_even_exact)
    then show ?thesis by (simp add: rounded_def d n flip: k_def) (simp add: n flip: rounded_def)
  qed
qed simp

lemma power_split: "k \<le> j \<Longrightarrow> (10::nat) ^ (j - k) * 10 ^ k = 10 ^ j"
  by (simp flip: power_add)

lemma rounded_le_power: "m \<le> 10 ^ j \<Longrightarrow> digits_of m - p \<le> j \<Longrightarrow> rounded p m \<le> 10 ^ j"
proof -
  let ?k = "digits_of m - p"
  assume a: "m \<le> 10 ^ j" "?k \<le> j"
  have "round_half_even m ?k \<le> 10 ^ (j - ?k)" using a by (intro round_half_even_le) (simp only: power_split)
  then have "round_half_even m ?k * 10 ^ ?k \<le> 10 ^ (j - ?k) * 10 ^ ?k" by (rule mult_le_mono1)
  then show ?thesis using a by (simp only: rounded_def Let_def power_split)
qed

lemma rounded_ge_power: "10 ^ j \<le> n \<Longrightarrow> digits_of n - p \<le> j \<Longrightarrow> 10 ^ j \<le> rounded p n"
proof -
  let ?k = "digits_of n - p"
  assume a: "10 ^ j \<le> n" "?k \<le> j"
  have "10 ^ (j - ?k) \<le> round_half_even n ?k" using a by (intro round_half_even_ge) (simp only: power_split)
  then have "10 ^ (j - ?k) * 10 ^ ?k \<le> round_half_even n ?k * 10 ^ ?k" by (rule mult_le_mono1)
  then show ?thesis using a by (simp only: rounded_def Let_def power_split)
qed

lemma rounded_mono: "m \<le> n \<Longrightarrow> 0 < p \<Longrightarrow> rounded p m \<le> rounded p n"
proof (cases "digits_of m - p = digits_of n - p")
  case True
  assume "m \<le> n"
  then show ?thesis using True by (simp add: rounded_def Let_def round_half_even_mono)
next
  case False
  assume a: "m \<le> n" "0 < p"
  have dd: "digits_of m < digits_of n" "p < digits_of n"
    using a False digits_of_mono [of m n] by linarith+
  let ?j = "digits_of n - 1"
  have n0: "0 < n" using dd a digits_of_le_iff [of 1 0] by (cases n) auto
  have "m \<le> 10 ^ ?j" using dd a digits_of_le_iff [of ?j m] by auto
  then have "rounded p m \<le> 10 ^ ?j" using dd by (intro rounded_le_power) auto
  also have "\<dots> \<le> rounded p n" using digits_of_ge [OF n0] a dd by (intro rounded_ge_power) auto
  finally show ?thesis .
qed

subsection \<open>The context operations on cents\<close>

abbreviation in_cents :: "int \<Rightarrow> decimal" where
  "in_cents c \<equiv> Dec c (- 2)"

lemma sgn_times_abs: "0 \<le> c \<Longrightarrow> sgn c * int (nat c) = c"
  by (auto simp: sgn_if)

lemma round_to_val:
  assumes "0 < p"
  shows "dec_val (round_to p (Dec (int n) x)) = of_nat (rounded p n) * 10 powi x"
    "0 \<le> coeff (round_to p (Dec (int n) x))"
proof -
  show "dec_val (round_to p (Dec (int n) x)) = of_nat (rounded p n) * 10 powi x"
  proof (cases "n < 10 ^ p")
    case True
    then have "round_to p (Dec (int n) x) = Dec (int n) x" by (simp add: round_to_def flip: of_nat_less_iff)
    then show ?thesis using True assms by (simp add: rounded_id dec_val_def)
  next
    case False
    let ?k = "digits_of n - p" let ?q = "round_half_even n ?k"
    have "n \<noteq> 0" using False by (cases n) auto
    then have eq: "round_to p (Dec (int n) x)
        = (if ?q = 10 ^ p then Dec (10 ^ (p - 1)) (x + int ?k + 1) else Dec (int ?q) (x + int ?k))"
      using False by (simp add: round_to_def num_digits_of Let_def not_less flip: of_nat_less_iff)
    have "(10::rat) powi (x + int ?k) = 10 ^ ?k * 10 powi x" by (simp add: power_int_add)
    moreover have "(10::rat) ^ (p - 1) * 10 powi (x + int ?k + 1) = 10 ^ p * 10 powi (x + int ?k)"
      using assms power_Suc2 [of "10::rat" "p - 1"] by (simp add: power_int_add mult.assoc)
    ultimately show ?thesis by (simp add: eq rounded_def Let_def dec_val_def)
  qed
  show "0 \<le> coeff (round_to p (Dec (int n) x))"
    by (auto simp: round_to_def Let_def sgn_if)
qed

lemma to_cents_at:
  assumes "0 \<le> coeff d" "x \<le> expo d" "x \<le> - 2"
  shows "to_cents d = round_half_even (nat (lift_to x d)) (nat (- 2 - x))"
proof -
  obtain n where n: "coeff d = int n" using assms(1) nonneg_int_cases by blast
  have l: "nat (lift_to x d) = n * 10 ^ nat (expo d - x)" by (simp add: lift_to_def n nat_mult_distrib nat_power_eq)
  show ?thesis
  proof (cases "- 2 \<le> expo d")
    case True
    then have "nat (expo d - x) = nat (expo d + 2) + nat (- 2 - x)" using assms by linarith
    then have "nat (lift_to x d) = n * 10 ^ nat (expo d + 2) * 10 ^ nat (- 2 - x)"
      by (simp only: l power_add mult.assoc)
    then show ?thesis using True by (simp only: round_half_even_exact) (simp add: to_cents_def n)
  next
    case False
    then have "nat (- 2 - x) = nat (- 2 - expo d) + nat (expo d - x)" using assms by linarith
    then show ?thesis using False by (simp add: to_cents_def n l round_half_even_scale)
  qed
qed

lemma to_cents_mono:
  assumes "dec_val a \<le> dec_val b" "0 \<le> coeff a" "0 \<le> coeff b"
  shows "to_cents a \<le> to_cents b"
proof -
  define x where "x = min (min (expo a) (expo b)) (- 2)"
  have x: "x \<le> expo a" "x \<le> expo b" "x \<le> - 2" by (auto simp: x_def)
  have "lift_to x a \<le> lift_to x b"
    using assms(1) by (simp add: dec_val_lift [OF x(1)] dec_val_lift [OF x(2)] mult_le_cancel_right_pos)
  then show ?thesis using assms x by (simp add: to_cents_at [of _ x] round_half_even_mono nat_mono)
qed

lemma quantize_ok:
  assumes "0 \<le> coeff d" "to_cents d < 10 ^ 79"
  shows "ctx_quantize d = Inr (in_cents (int (to_cents d)))"
proof (cases "coeff d = 0")
  case True
  then show ?thesis by (simp add: ctx_quantize_def to_cents_def round_half_even_def)
next
  case False
  obtain n where n: "coeff d = int n" "0 < n" using assms(1) False by (metis nonneg_int_cases of_nat_0 gr_zeroI)
  have "digits_of n \<le> nat (78 - expo d) \<and> 0 < 78 - expo d"
  proof (cases "- 2 \<le> expo d")
    case True
    then have "n * 10 ^ nat (expo d + 2) < 10 ^ 79" using assms by (simp add: to_cents_def n)
    then have "digits_of n + nat (expo d + 2) \<le> 79"
      using digits_of_scale [OF n(2), of "nat (expo d + 2)"] digits_of_le_iff [of 79 "n * 10 ^ nat (expo d + 2)"] by simp
    then show ?thesis using True digits_of_pos [of n] by linarith
  next
    case False
    let ?k = "nat (- 2 - expo d)"
    have "\<not> 10 ^ 79 * 10 ^ ?k \<le> n"
      using assms False round_half_even_ge [of "10 ^ 79" ?k n] by (auto simp: to_cents_def n)
    then have "n < 10 ^ (79 + ?k)" by (simp add: power_add)
    then have "digits_of n \<le> 79 + ?k" using digits_of_le_iff [of "79 + ?k" n] by simp
    then show ?thesis using False by linarith
  qed
  then have "\<not> expo d + int (digits_of n) + 2 > 80" by linarith
  moreover have "digits_of (to_cents d) \<le> 80" using assms(2) digits_of_le_iff [of 79 "to_cents d"] by simp
  ultimately show ?thesis using n by (simp add: ctx_quantize_def num_digits_of ctx_prec_def)
qed

lemma quantize_cents [simp]: "\<bar>c\<bar> < 10 ^ 80 \<Longrightarrow> ctx_quantize (in_cents c) = Inr (in_cents c)"
  using digits_of_le_iff [of 80 "nat \<bar>c\<bar>"]
  by (auto simp: ctx_quantize_def num_digits_of ctx_prec_def to_cents_def nat_less_iff sgn_if)

lemma ctx_cents [simp]:
  "\<bar>a + b\<bar> < 10 ^ 80 \<Longrightarrow> ctx_add (in_cents a) (in_cents b) = in_cents (a + b)"
  "\<bar>a - b\<bar> < 10 ^ 80 \<Longrightarrow> ctx_sub (in_cents a) (in_cents b) = in_cents (a - b)"
  by (simp_all add: ctx_sub_def ctx_add_def lift_to_def round_to_def ctx_prec_def)

lemma cents_compare [simp]:
  "dec_le (in_cents a) (in_cents b) \<longleftrightarrow> a \<le> b" "dec_lt (in_cents a) (in_cents b) \<longleftrightarrow> a < b"
  "dec_lt dec0 (in_cents b) \<longleftrightarrow> 0 < b" "dec_lt (in_cents a) dec0 \<longleftrightarrow> a < 0" "dec_eq (in_cents a) dec0 \<longleftrightarrow> a = 0"
  "zero_cents = in_cents 0"
  by (auto simp: dec_le_def dec_lt_def dec_eq_def lift_to_def dec0_def zero_cents_def)

lemma round_to_le:
  assumes "of_nat n * 10 powi x \<le> of_nat b * (10::rat) powi z" "b < 10 ^ p" "0 < p"
  shows "dec_val (round_to p (Dec (int n) x)) \<le> of_nat b * 10 powi z"
proof -
  define m where "m = min x z"
  have e: "(10::rat) powi x = 10 ^ nat (x - m) * 10 powi m" "(10::rat) powi z = 10 ^ nat (z - m) * 10 powi m"
    by (simp_all add: m_def flip: power_int_of_nat power_int_add)
  have pos: "(0::rat) < 10 powi m" by simp
  have "(of_nat (n * 10 ^ nat (x - m)) :: rat) \<le> of_nat (b * 10 ^ nat (z - m))"
    using assms(1) pos by (simp add: e mult_le_cancel_right_pos flip: mult.assoc)
  then have "n * 10 ^ nat (x - m) \<le> b * 10 ^ nat (z - m)" by (simp only: of_nat_le_iff)
  from rounded_mono [OF this assms(3)] have "rounded p n * 10 ^ nat (x - m) \<le> b * 10 ^ nat (z - m)"
    using assms by (simp add: rounded_scale rounded_id)
  then have "(of_nat (rounded p n * 10 ^ nat (x - m)) :: rat) \<le> of_nat (b * 10 ^ nat (z - m))"
    by (simp only: of_nat_le_iff)
  then show ?thesis using pos assms(3) by (simp add: round_to_val e mult_le_cancel_right_pos flip: mult.assoc)
qed

text \<open>The rate of one month is at most a tenth: a twelfth of at most 100 per cent, rounded.\<close>

definition monthly_rate :: "decimal \<Rightarrow> bool" where
  "monthly_rate r = (0 \<le> coeff r \<and> dec_val r \<le> 1 / 10)"

definition interest_of :: "decimal \<Rightarrow> nat \<Rightarrow> nat" where
  "interest_of rate b = to_cents (ctx_mul (in_cents (int b)) rate)"

lemma interest_product:
  assumes "monthly_rate rate"
  shows "\<exists>r. coeff rate = int r \<and> ctx_mul (in_cents (int b)) rate = round_to 80 (Dec (int (b * r)) (expo rate - 2))"
proof -
  obtain r where "coeff rate = int r" using assms nonneg_int_cases by (auto simp: monthly_rate_def)
  moreover have "- 2 + expo rate = expo rate - 2" by simp
  ultimately show ?thesis by (simp only: ctx_mul_def ctx_prec_def decimal.sel of_nat_mult) blast
qed

lemma interest_nonneg: "monthly_rate rate \<Longrightarrow> 0 \<le> coeff (ctx_mul (in_cents (int b)) rate)"
  using interest_product [of rate b] round_to_val(2) [of 80] by (metis zero_less_numeral)

lemma interest_mono:
  assumes "monthly_rate rate" "b \<le> c"
  shows "interest_of rate b \<le> interest_of rate c"
proof -
  obtain r where r: "\<And>b. ctx_mul (in_cents (int b)) rate = round_to 80 (Dec (int (b * r)) (expo rate - 2))"
    using interest_product [OF assms(1)] by (metis of_nat_eq_iff)
  have "rounded 80 (b * r) \<le> rounded 80 (c * r)" using assms(2) by (intro rounded_mono) auto
  then have "dec_val (ctx_mul (in_cents (int b)) rate) \<le> dec_val (ctx_mul (in_cents (int c)) rate)"
    by (simp only: r round_to_val zero_less_numeral) (simp add: mult_right_mono)
  then show ?thesis using assms(1) by (simp add: interest_of_def to_cents_mono interest_nonneg)
qed

lemma interest_bound:
  assumes "monthly_rate rate" "b < 10 ^ 80"
  shows "10 * interest_of rate b \<le> b + 10"
proof -
  obtain r where r: "coeff rate = int r" "ctx_mul (in_cents (int b)) rate = round_to 80 (Dec (int (b * r)) (expo rate - 2))"
    using interest_product [OF assms(1)] by blast
  have "of_nat r * 10 powi expo rate \<le> (1 / 10 :: rat)" using assms(1) r by (simp add: monthly_rate_def dec_val_def)
  then have "of_nat b * (of_nat r * 10 powi expo rate) * (1 / 100) \<le> of_nat b * (1 / 10) * (1 / 100 :: rat)"
    by (intro mult_right_mono mult_left_mono) auto
  then have "of_nat (b * r) * 10 powi (expo rate - 2) \<le> of_nat b * (10::rat) powi (- 3)"
    by (simp add: power_int_diff power_int_minus mult.assoc)
  from round_to_le [OF this assms(2)] have "dec_val (ctx_mul (in_cents (int b)) rate) \<le> dec_val (Dec (int b) (- 3))"
    by (simp add: r dec_val_def)
  from to_cents_mono [OF this interest_nonneg [OF assms(1)]] have "interest_of rate b \<le> round_half_even b 1"
    by (simp add: interest_of_def to_cents_def)
  moreover have "round_half_even b 1 \<le> b div 10 + 1" by (simp add: round_half_even_def Let_def)
  ultimately show ?thesis by linarith
qed

lemma quantize_interest:
  assumes "monthly_rate rate" "b < 10 ^ 79"
  shows "ctx_quantize (ctx_mul (in_cents (int b)) rate) = Inr (in_cents (int (interest_of rate b)))"
proof -
  have "interest_of rate b < 10 ^ 79" using interest_bound [of rate b] assms by (simp add: power_numeral)
  then show ?thesis using quantize_ok [OF interest_nonneg [OF assms(1)], of b] by (simp add: interest_of_def)
qed

lemma dec_val_drop_zeros: "dec_val (drop_zeros k c x) = of_nat c * 10 powi x \<and> 0 \<le> coeff (drop_zeros k c x)"
proof (induction k arbitrary: c x)
  case (Suc k)
  have "c mod 10 = 0 \<Longrightarrow> of_nat (c div 10) * 10 powi (x + 1) = of_nat c * (10::rat) powi x"
    by (auto simp: power_int_add simp flip: dvd_eq_mod_eq_0)
  then show ?case using Suc by (auto simp: dec_val_def)
qed (simp add: dec_val_def)

lemma monthly_rateI:
  assumes "0 \<le> coeff d" "dec_val d \<le> 1 / 10"
  shows "monthly_rate (round_to ctx_prec d)"
proof -
  obtain n where n: "d = Dec (int n) (expo d)" using assms(1) by (metis nonneg_int_cases decimal.collapse)
  have "dec_val d = of_nat n * 10 powi expo d" by (subst n) (simp add: dec_val_def)
  then have "of_nat n * 10 powi expo d \<le> of_nat 1 * (10::rat) powi (- 1)" using assms by (simp add: power_int_minus)
  from round_to_le [OF this, of 80] have "dec_val (round_to 80 d) \<le> 1 / 10" using n by (simp add: power_int_minus)
  moreover have "0 \<le> coeff (round_to 80 d)" using n round_to_val(2) by (metis zero_less_numeral)
  ultimately show ?thesis by (simp add: monthly_rate_def ctx_prec_def)
qed

lemma ctx_div_rate:
  assumes a: "0 \<le> coeff a" "- 6 \<le> expo a" "expo a \<le> 0" "dec_val a \<le> 100"
  shows "monthly_rate (ctx_div a (Dec 1200 0))"
proof (cases "coeff a = 0")
  case True
  then show ?thesis by (simp add: ctx_div_def monthly_rate_def dec_val_def)
next
  case False
  obtain n where n: "coeff a = int n" using a(1) nonneg_int_cases by blast
  have "of_int (lift_to (- 6) a) * (10::rat) powi (- 6) \<le> 100" using a dec_val_lift [of "- 6" a] by simp
  then have "(of_int (lift_to (- 6) a) :: rat) \<le> of_int 100000000" by (simp add: power_int_minus field_simps)
  then have "lift_to (- 6) a \<le> 100000000" by (simp only: of_int_le_iff)
  then have "int n \<le> 100000000" using abs_le_abs_mult_power [of "int n" "nat (expo a + 6)"] by (simp add: lift_to_def n)
  then have dn: "digits_of n \<le> 9" using digits_of_le_iff [of 9 n] by simp
  have d4: "digits_of 1200 = 4" by (rule digits_of_eqI) auto
  define s where "s = 85 - digits_of n"
  define c where "c = n * 10 ^ s div 1200"
  define d where "d = (if n * 10 ^ s mod 1200 \<noteq> 0 then Dec (int (if c mod 5 = 0 then c + 1 else c)) (expo a - int s)
      else drop_zeros s c (expo a - int s))"
  have "(4::int) - int (digits_of n) + 80 + 1 = int s" using dn by (simp add: s_def of_nat_diff)
  then have eq: "ctx_div a (Dec 1200 0) = round_to ctx_prec d"
    using False by (simp add: ctx_div_def Let_def n num_digits_of d4 d_def c_def) (simp add: ctx_prec_def)
  have d0: "0 \<le> coeff d" using dec_val_drop_zeros by (auto simp: d_def)
  have small: "(10::rat) powi (expo a - int s) \<le> 10 powi (- 76)" using a dn by (intro power_int_increasing) (auto simp: s_def)
  have "dec_val d \<le> (of_nat c + 1) * 10 powi (expo a - int s)"
    using dec_val_drop_zeros [of s c "expo a - int s"] by (auto simp: d_def dec_val_def)
  also have "\<dots> = of_nat c * 10 powi (expo a - int s) + 10 powi (expo a - int s)" by (simp add: distrib_right)
  also have "of_nat c * 10 powi (expo a - int s) \<le> dec_val a / (1200::rat)"
  proof -
    have "1200 * c \<le> n * 10 ^ s" by (simp add: c_def)
    then have "(of_nat (1200 * c) :: rat) \<le> of_nat (n * 10 ^ s)" by (simp only: of_nat_le_iff)
    then have "1200 * of_nat c * 10 powi (expo a - int s) \<le> of_nat n * 10 ^ s * (10::rat) powi (expo a - int s)"
      by (intro mult_right_mono) auto
    also have "\<dots> = dec_val a" by (simp add: dec_val_def n power_int_diff)
    finally show ?thesis by simp
  qed
  finally have "dec_val d \<le> dec_val a / 1200 + 10 powi (- 76)" using small by linarith
  also have "\<dots> \<le> 100 / 1200 + 1 / 100"
  proof -
    have "(10::rat) powi (- 76) \<le> 10 powi (- 2)" by (intro power_int_increasing) auto
    then show ?thesis using a(4) by (simp add: power_int_minus)
  qed
  finally show ?thesis unfolding eq using d0 by (intro monthly_rateI) auto
qed

subsection \<open>What the premises are once accepted\<close>

lemma unsigned_digits:
  assumes "u = (case s of [] \<Rightarrow> [] | c # cs \<Rightarrow> if c = CHR ''+'' then cs else s)" "takeWhile is_digit u \<noteq> []"
  shows "take_sign s = (False, u)" "s = u \<or> s = CHR ''+'' # u"
  using assms by (auto simp: take_sign_def is_digit_def split: list.splits if_splits)

lemma decimal_text_parse:
  assumes "decimal_text s"
  shows "\<exists>ip fp. list_all is_digit ip \<and> list_all is_digit fp \<and> length ip \<le> 15 \<and> length fp \<le> 6
    \<and> py_Decimal (PStr s) = Inr (Dec (int (digits_val (ip @ fp))) (- int (length fp)))"
proof -
  define u where "u = (case s of [] \<Rightarrow> [] | c # cs \<Rightarrow> if c = CHR ''+'' then cs else s)"
  define ip where "ip = takeWhile is_digit u"
  define rest where "rest = dropWhile is_digit u"
  define fp where "fp = (case rest of [] \<Rightarrow> [] | c # v \<Rightarrow> v)"
  have shape: "1 \<le> length ip \<and> length ip \<le> 15 \<and> (case rest of [] \<Rightarrow> True
      | c # v \<Rightarrow> c = CHR ''.'' \<and> 1 \<le> length v \<and> length v \<le> 6 \<and> list_all is_digit v)"
    using assms unfolding decimal_text_def Let_def ip_def rest_def u_def .
  have ip: "list_all is_digit ip" "ip \<noteq> []" "length ip \<le> 15"
    using shape by (auto simp: ip_def list_all_iff dest: set_takeWhileD)
  have r: "rest = [] \<or> rest = CHR ''.'' # fp" and fp: "list_all is_digit fp" "length fp \<le> 6"
    using shape by (cases rest; simp add: fp_def)+
  have us: "take_sign s = (False, u)" "s = u \<or> s = CHR ''+'' # u"
    using unsigned_digits [OF u_def] ip by (auto simp: ip_def)
  have u: "u = ip @ rest" by (simp add: ip_def rest_def)
  have "\<forall>c \<in> set s. num_char c"
    using us(2) u r ip fp by (auto simp: num_char_def list_all_iff)
  note plain = num_text_plain [OF this]
  have fw: "takeWhile is_digit fp = fp" "dropWhile is_digit fp = []" using fp(1) by (auto simp: list_all_iff)
  have "dec_parse s = Finite (Dec (int (digits_val (ip @ fp))) (- int (length fp)))"
    using r
  proof
    assume "rest = []"
    moreover from this have "fp = []" by (simp add: fp_def)
    ultimately show ?thesis using ip(2) unfolding dec_parse_def plain us(1) prod.case Let_def ip_def [symmetric] rest_def [symmetric]
      by (simp add: parse_exponent_def)
  next
    assume dot: "rest = CHR ''.'' # fp"
    show ?thesis using ip(2) unfolding dec_parse_def plain us(1) prod.case Let_def ip_def [symmetric] rest_def [symmetric] dot
      by (simp add: parse_exponent_def fw del: dropWhile_eq_Nil_conv)
  qed
  then show ?thesis using ip fp by auto
qed

lemma scenario_decimal_range:
  assumes "scenario_decimal v = Inr d"
  shows "0 \<le> coeff d" "- 6 \<le> expo d" "expo d \<le> 0" "dec_val d < 10 ^ 15"
proof -
  obtain s where s: "v = JStr s" "decimal_text s" "py_Decimal (PStr s) = Inr d"
    using assms by (auto simp: scenario_decimal_def guardR_def split: json.splits if_splits)
  then obtain ip fp where p: "list_all is_digit ip" "list_all is_digit fp" "length ip \<le> 15" "length fp \<le> 6"
      "d = Dec (int (digits_val (ip @ fp))) (- int (length fp))"
    using decimal_text_parse by force
  then show "0 \<le> coeff d" "- 6 \<le> expo d" "expo d \<le> 0" by simp_all
  have "digits_val (ip @ fp) < 10 ^ (length ip + length fp)" using p digits_val_less [of "ip @ fp"] by simp
  also have "\<dots> \<le> 10 ^ (15 + length fp)" using p by (intro power_increasing) auto
  finally have "(of_nat (digits_val (ip @ fp)) :: rat) < of_nat (10 ^ (15 + length fp))" by (simp only: of_nat_less_iff)
  then show "dec_val d < 10 ^ 15" by (simp add: p(5) dec_val_def power_int_minus power_add field_simps)
qed

lemma scenario_decimal_fails: "scenario_decimal v = Inl e \<Longrightarrow> e = premise_mismatch"
  using decimal_text_parse by (fastforce simp: scenario_decimal_def guardR_def split: json.splits if_splits)

lemma scenario_horizon_range: "scenario_horizon v = Inr n \<Longrightarrow> 1 \<le> n \<and> n \<le> 600"
  by (auto simp: scenario_horizon_def guardR_def split: json.splits if_splits)

lemma scenario_horizon_fails: "scenario_horizon v = Inl e \<Longrightarrow> e = premise_mismatch"
  by (auto simp: scenario_horizon_def guardR_def split: json.splits if_splits)

lemma anchor_fails: "anchor v = Inl e \<Longrightarrow> e = premise_mismatch"
  by (auto simp: anchor_def guardR_def split: json.splits if_splits option.splits)

text \<open>A stated amount is taken to the nearest cent.\<close>

definition money_cents :: "nat \<Rightarrow> bool" where
  "money_cents c = (c \<le> 10 ^ 17)"

lemma halve_abs: "\<bar>2 * a - 2 * b\<bar> \<le> t \<Longrightarrow> \<bar>a - b\<bar> * 2 \<le> (t::rat)"
  by (auto simp: abs_if split: if_splits)

lemma near_hundredth:
  assumes "(0::rat) < t" "\<bar>q * t - n\<bar> * 2 \<le> t"
  shows "\<bar>q / 100 - n / t / 100\<bar> \<le> 1 / 200"
proof -
  have "\<bar>q / 100 - n / t / 100\<bar> = \<bar>q * t - n\<bar> / (100 * t)"
  proof -
    have "q / 100 - n / t / 100 = (q * t - n) / (100 * t)" using assms(1) by (simp add: field_simps)
    then show ?thesis using assms(1) by (simp add: abs_divide)
  qed
  also have "\<dots> \<le> (t / 2) / (100 * t)" using assms by (intro divide_right_mono) auto
  finally show ?thesis using assms(1) by simp
qed

lemma to_cents_near: "0 \<le> coeff d \<Longrightarrow> \<bar>of_nat (to_cents d) / 100 - dec_val d\<bar> \<le> 1 / 200"
proof -
  assume d: "0 \<le> coeff d"
  define x where "x = min (expo d) (- 2)"
  have x: "x \<le> expo d" "x \<le> - 2" by (auto simp: x_def)
  define n k where "n = nat (lift_to x d)" and "k = nat (- 2 - x)"
  have n: "lift_to x d = int n" using d by (simp add: n_def lift_to_def)
  have "\<bar>2 * (int (round_half_even n k) * 10 ^ k - int n)\<bar> \<le> 10 ^ k"
  proof -
    define t where "t = (10::nat) ^ k"
    define q r where "q = n div t" and "r = n mod t"
    have "n = q * t + r" "r < t" by (simp_all add: q_def r_def t_def div_mult_mod_eq)
    moreover have "round_half_even n k = (if 2 * r > t \<or> (2 * r = t \<and> odd q) then q + 1 else q)"
      by (simp add: round_half_even_def Let_def q_def r_def t_def)
    ultimately have "\<bar>2 * (int (round_half_even n k) * int t - int n)\<bar> \<le> int t"
      by (auto simp: algebra_simps)
    then show ?thesis by (simp add: t_def)
  qed
  then have "of_int \<bar>2 * (int (round_half_even n k) * 10 ^ k - int n)\<bar> \<le> (of_int (10 ^ k) :: rat)" by (simp only: of_int_le_iff)
  then have "\<bar>2 * (of_nat (round_half_even n k) * 10 ^ k) - 2 * of_nat n\<bar> \<le> (10 ^ k :: rat)" by simp
  then have "\<bar>of_nat (round_half_even n k) * 10 ^ k - of_nat n\<bar> * 2 \<le> (10 ^ k :: rat)" by (rule halve_abs)
  moreover have "dec_val d = of_nat n / 10 ^ k / 100"
  proof -
    have "(10::rat) powi x = inverse (10 ^ k) * inverse 100"
    proof -
      have "x = - int (k + 2)" using x by (simp add: k_def)
      then have "(10::rat) powi x = inverse (10 ^ (k + 2))" by (simp only: power_int_minus power_int_of_nat)
      then show ?thesis by (simp add: power_add)
    qed
    then show ?thesis using dec_val_lift [OF x(1)] by (simp only: n of_int_of_nat_eq divide_inverse mult.assoc)
  qed
  moreover have "to_cents d = round_half_even n k" using to_cents_at [OF d x] by (simp add: n_def k_def)
  ultimately show ?thesis using near_hundredth [of "10 ^ k"] by simp
qed

lemma quantize_premise:
  assumes "scenario_decimal v = Inr d"
  shows "ctx_quantize d = Inr (in_cents (int (to_cents d)))" "money_cents (to_cents d)"
proof -
  note r = scenario_decimal_range [OF assms]
  have "to_cents d \<le> to_cents (Dec (10 ^ 15) 0)" using r by (intro to_cents_mono) (auto simp: dec_val_def)
  then have c: "to_cents d \<le> 10 ^ 17" by (simp add: to_cents_def nat_power_eq)
  then show "money_cents (to_cents d)" by (simp add: money_cents_def)
  show "ctx_quantize d = Inr (in_cents (int (to_cents d)))" using c r by (intro quantize_ok) auto
qed

lemma scenario_inputs_premises:
  assumes "scenario_inputs amounts rate months start_date = Inr (modeled, r, n, start)"
  shows "list_all2 (\<lambda>(name, v) (name', q). name' = name
      \<and> (\<exists>d. scenario_decimal v = Inr d \<and> money_cents (to_cents d) \<and> q = in_cents (int (to_cents d)))) amounts modeled"
    "monthly_rate r" "1 \<le> n" "n \<le> 600"
proof -
  obtain exact annual where e: "mapR (\<lambda>(name, v). bindR (scenario_decimal v) (\<lambda>d. Inr (name, d))) amounts = Inr exact"
      "scenario_decimal rate = Inr annual" "\<not> dec_lt (Dec 100 0) annual" "scenario_horizon months = Inr n"
      "mapR (\<lambda>(name, d). bindR (ctx_quantize d) (\<lambda>q. Inr (name, q))) exact = Inr modeled" "r = ctx_div annual (Dec 1200 0)"
    using assms by (auto simp: scenario_inputs_def bindR_eq_Inr guardR_def split: if_splits)
  show "1 \<le> n" "n \<le> 600" using scenario_horizon_range [OF e(4)] by auto
  have "dec_val annual \<le> 100" using e(3) by (simp add: dec_lt_iff dec_val_def not_less)
  then show "monthly_rate r" using scenario_decimal_range [OF e(2)] by (simp add: e(6) ctx_div_rate)
  have 1: "list_all2 (\<lambda>(name, v) (name', d). name' = name \<and> scenario_decimal v = Inr d) amounts exact"
    using e(1) unfolding mapR_Inr_iff by (rule list_all2_mono) (auto simp: bindR_eq_Inr)
  have 2: "list_all2 (\<lambda>(name, d) (name', q). name' = name \<and> ctx_quantize d = Inr q) exact modeled"
    using e(5) unfolding mapR_Inr_iff by (rule list_all2_mono) (auto simp: bindR_eq_Inr)
  show "list_all2 (\<lambda>(name, v) (name', q). name' = name
      \<and> (\<exists>d. scenario_decimal v = Inr d \<and> money_cents (to_cents d) \<and> q = in_cents (int (to_cents d)))) amounts modeled"
    by (rule list_all2_trans [OF _ 1 2]) (auto simp: quantize_premise)
qed

lemma mapR_eq_Inl: "mapR f xs = Inl e \<Longrightarrow> \<exists>x \<in> set xs. f x = Inl e"
  by (induction xs) (auto simp: bindR_eq_Inl)

lemma exact_amounts:
  "mapR (\<lambda>(name, v). bindR (scenario_decimal v) (\<lambda>d. Inr (name, d))) amounts = Inr exact \<Longrightarrow> (name, d) \<in> set exact \<Longrightarrow>
   ctx_quantize d \<noteq> Inl e"
  using quantize_premise by (auto simp: bindR_eq_Inr dest!: mapR_in_right)

lemma scenario_inputs_fails: "scenario_inputs amounts rate months start_date = Inl e \<Longrightarrow> e = premise_mismatch"
  by (auto simp: scenario_inputs_def bindR_eq_Inl guardR_def
        dest!: mapR_eq_Inl dest: scenario_decimal_fails scenario_horizon_fails anchor_fails exact_amounts split: if_splits)

end
