(* ===== verification/Scenario_Loans.thy ===== *)
theory Scenario_Loans
  imports Scenario_Cents
begin

text \<open>
  The savings and loan loops on whole cents, the rows that a trajectory keeps, and what a loan scenario promises.
  Balances of 600 months stay below 79 digits, so that no operation of the 80-digit context rounds a balance.
\<close>

definition calendar_range :: exc where
  "calendar_range = ScenarioError ''scenario_calendar_range_unavailable''"

lemma advance_fails: "advance start k = Inl e \<Longrightarrow> e = calendar_range"
  by (auto simp: advance_def Let_def guardR_def calendar_range_def split: if_splits)

subsection \<open>Savings\<close>

text \<open>
  The savings loop on whole cents: the balance after some months. The potential \<open>b + 10 * (c + 1)\<close> grows by at most
  a tenth a month, so that 600 months stay below 79 digits.
\<close>

fun grown :: "decimal \<Rightarrow> nat \<Rightarrow> nat \<Rightarrow> nat \<Rightarrow> nat" where
  "grown rate c b 0 = b"
| "grown rate c b (Suc n) = grown rate c (b + interest_of rate b + c) n"

definition fits :: "nat \<Rightarrow> nat \<Rightarrow> bool" where
  "fits n q = (11 ^ n * q \<le> 10 ^ n * 10 ^ 78)"

lemma fits_mono: "fits n q \<Longrightarrow> q' \<le> q \<Longrightarrow> fits n q'"
  unfolding fits_def using mult_le_mono2 le_trans by blast

lemma fits_less: "fits n q \<Longrightarrow> q < 10 ^ 79"
proof -
  assume "fits n q"
  then have f: "11 ^ n * q \<le> 10 ^ n * 10 ^ 78" by (simp only: fits_def)
  have "(10::nat) ^ n \<le> 11 ^ n" by (rule power_mono) auto
  then have "10 ^ n * q \<le> 11 ^ n * q" by (rule mult_le_mono1)
  also note f
  finally have "10 ^ n * q \<le> 10 ^ n * 10 ^ 78" .
  then have "q \<le> 10 ^ 78" by (simp only: mult_le_cancel1) simp
  then show ?thesis by (rule le_less_trans) simp
qed

lemma fits_step: "fits (Suc n) q \<Longrightarrow> 10 * q' \<le> 11 * q \<Longrightarrow> fits n q'"
proof -
  assume a: "fits (Suc n) q" "10 * q' \<le> 11 * q"
  have "10 * (11 ^ n * q') \<le> 11 ^ n * (11 * q)" using mult_le_mono2 [OF a(2), of "11 ^ n"] by (simp only: mult.left_commute)
  also have "\<dots> \<le> 10 * (10 ^ n * 10 ^ 78)" using a(1) by (simp only: fits_def power_Suc mult_ac)
  finally show ?thesis unfolding fits_def by (simp only: mult_le_cancel1)
qed

lemma fits_start: "n \<le> 600 \<Longrightarrow> q \<le> 10 ^ 19 \<Longrightarrow> fits n q"
proof -
  assume a: "n \<le> 600" "q \<le> 10 ^ 19"
  have "(11::nat) ^ 24 \<le> 10 ^ 25" by simp
  then have "((11::nat) ^ 24) ^ 25 \<le> (10 ^ 25) ^ 25" by (rule power_mono) simp
  then have "(11::nat) ^ (24 * 25) \<le> 10 ^ (25 * 25)" by (simp only: power_mult)
  moreover have "24 * 25 = (600::nat)" "25 * 25 = (625::nat)" by simp_all
  ultimately have e: "(11::nat) ^ 600 \<le> 10 ^ 625" by (simp only:)
  have split: "625 = n + 25 + (600 - n)" using a by simp
  have "11 ^ n * 10 ^ (600 - n) \<le> (11::nat) ^ n * 11 ^ (600 - n)" by (intro mult_le_mono2 power_mono) auto
  also have "\<dots> = 11 ^ 600" using a by (simp only: power_add [symmetric] le_add_diff_inverse)
  also note e
  also have "(10::nat) ^ 625 = 10 ^ n * 10 ^ 25 * 10 ^ (600 - n)" by (subst split) (simp only: power_add)
  finally have "(11::nat) ^ n \<le> 10 ^ n * 10 ^ 25" by (simp only: mult_le_cancel2) simp
  then have "11 ^ n * q \<le> 10 ^ n * 10 ^ 25 * 10 ^ 19" using a(2) by (rule mult_le_mono)
  also have "\<dots> \<le> 10 ^ n * 10 ^ 78" by (simp only: mult.assoc power_add [symmetric]) (rule power_increasing, auto)
  finally show ?thesis by (simp only: fits_def)
qed

lemma fits_month:
  assumes "monthly_rate rate" "fits (Suc n) (b + 10 * (c + 1))"
  shows "fits n (b + interest_of rate b + c + 10 * (c + 1))"
proof (rule fits_step [OF assms(2)])
  have "b < 10 ^ 79" using fits_less [OF assms(2)] by linarith
  then have "b < 10 ^ 80" by (rule less_trans) simp
  then show "10 * (b + interest_of rate b + c + 10 * (c + 1)) \<le> 11 * (b + 10 * (c + 1))"
    using interest_bound [OF assms(1)] by fastforce
qed

lemma savings_month_cents:
  assumes "monthly_rate rate" "int b + int (interest_of rate b) + int c < 10 ^ 79" "p \<le> b" "g \<le> b"
  shows "savings_months start rate (in_cents (int c)) (m # ms) (in_cents (int b)) (in_cents (int p)) (in_cents (int g)) rows
    = bindR (advance start m) (\<lambda>dated.
        savings_months start rate (in_cents (int c)) ms (in_cents (int (b + interest_of rate b + c))) (in_cents (int (p + c)))
          (in_cents (int (g + interest_of rate b)))
          (rows @ [\<lparr>sr_month = m, sr_date = dated, sr_balance = dec_str (in_cents (int (b + interest_of rate b + c))),
             sr_interest = dec_str (in_cents (int (interest_of rate b))), sr_contribution = dec_str (in_cents (int c))\<rparr>]))"
proof -
  have s: "int b + int (interest_of rate b) + int c < 10 ^ 80" using assms(2) by (rule less_trans) simp
  have "b < 10 ^ 79" using assms(2) of_nat_less_iff [where 'a = int, of b "10 ^ 79"] by simp
  note i = quantize_interest [OF assms(1) this]
  have "int p \<le> int b" "int g \<le> int b" using assms(3,4) by simp_all
  then show ?thesis using s by (simp add: i)
qed

lemma savings_months_cents:
  assumes "monthly_rate rate" "fits (length ms) (b + 10 * (c + 1))" "b = p + g"
  shows "case savings_months start rate (in_cents (int c)) ms (in_cents (int b)) (in_cents (int p)) (in_cents (int g)) rows of
      Inl e \<Rightarrow> (\<exists>m \<in> set ms. advance start m = Inl e)
    | Inr (b', p', g', rows') \<Rightarrow>
        (\<exists>gain. b' = in_cents (int (p + length ms * c + gain)) \<and> p' = in_cents (int (p + length ms * c)) \<and> g' = in_cents (int gain)
          \<and> p + length ms * c + gain = grown rate c b (length ms) \<and> g \<le> gain \<and> length rows' = length rows + length ms)"
  using assms(2,3)
proof (induction ms arbitrary: b p g rows)
  case (Cons m ms)
  let ?i = "interest_of rate b"
  have f: "fits (length ms) (b + ?i + c + 10 * (c + 1))"
    using fits_month [OF assms(1), of "length ms" b c] Cons.prems by simp
  have "b + ?i + c < 10 ^ 79" using fits_less [OF f] by linarith
  then have "int b + int ?i + int c < 10 ^ 79" using of_nat_less_iff [where 'a = int, of "b + ?i + c" "10 ^ 79"] by simp
  note step = savings_month_cents [OF assms(1) this, of p g start m ms rows]
  note IH = Cons.IH [OF f, of "p + c" "g + ?i"]
  show ?case
  proof (cases "advance start m")
    case (Inr dated)
    let ?rows = "rows @ [\<lparr>sr_month = m, sr_date = dated, sr_balance = dec_str (in_cents (int (b + ?i + c))),
             sr_interest = dec_str (in_cents (int ?i)), sr_contribution = dec_str (in_cents (int c))\<rparr>]"
    have eq: "savings_months start rate (in_cents (int c)) (m # ms) (in_cents (int b)) (in_cents (int p)) (in_cents (int g)) rows
        = savings_months start rate (in_cents (int c)) ms (in_cents (int (b + ?i + c))) (in_cents (int (p + c))) (in_cents (int (g + ?i))) ?rows"
      using step Cons.prems(2) Inr by simp
    have len: "p + length (m # ms) * c = p + c + length ms * c" "length ?rows + length ms = length rows + length (m # ms)"
      "grown rate c b (length (m # ms)) = grown rate c (b + ?i + c) (length ms)" by simp_all
    show ?thesis unfolding eq len
      using IH [of ?rows] Cons.prems(2) unfolding len by (fastforce split: sum.splits)
  qed (use step Cons.prems(2) in \<open>simp del: savings_months.simps\<close>)
qed auto

lemma modeled_at_simps [simp]:
  "modeled_at ((k, d) # ms) k = d" "k' \<noteq> k \<Longrightarrow> modeled_at ((k', d) # ms) k = modeled_at ms k"
  by (simp_all add: modeled_at_def)

text \<open>A premise and its cents.\<close>

definition premise :: "json \<Rightarrow> nat \<Rightarrow> bool" where
  "premise v c = (\<exists>d. scenario_decimal v = Inr d \<and> c = to_cents d)"

lemma premiseD: "premise v c \<Longrightarrow> money_cents c" "premise v c \<Longrightarrow> \<exists>d. scenario_decimal v = Inr d \<and> \<bar>of_nat c / 100 - dec_val d\<bar> \<le> 1 / 200"
  using quantize_premise(2) to_cents_near scenario_decimal_range(1) by (auto simp: premise_def)

lemma scenario_inputs_cents:
  assumes "scenario_inputs amounts rate months start_date = Inr (modeled, r, n, start)"
  shows "list_all2 (\<lambda>(name, v) (name', q). name' = name \<and> (\<exists>c. premise v c \<and> q = in_cents (int c))) amounts modeled"
  using scenario_inputs_premises(1) [OF assms] by (rule list_all2_mono) (auto simp: premise_def)

text \<open>A scenario fails for its premises or for a date out of the calendar's range.\<close>

definition date_fails :: "date \<Rightarrow> nat set \<Rightarrow> exc \<Rightarrow> bool" where
  "date_fails start ms e = (\<exists>m \<in> ms. advance start m = Inl e)"

lemma savings_result:
  "case savings initial contribution rate months start_date of
     Inl e \<Rightarrow> scenario_inputs [(''initial_amount'', initial), (''monthly_contribution'', contribution)] rate months start_date = Inl e
       \<or> (\<exists>modeled r n start. scenario_inputs [(''initial_amount'', initial), (''monthly_contribution'', contribution)] rate months start_date
            = Inr (modeled, r, n, start) \<and> date_fails start {1..n} e)
   | Inr res \<Rightarrow> (\<exists>i c n gain. premise initial i \<and> premise contribution c \<and> n = total_periods (sv_outcome res)
        \<and> sv_contributed_principal res = dec_str (in_cents (int (i + n * c))) \<and> sv_growth res = dec_str (in_cents (int gain))
        \<and> sv_final_balance res = dec_str (in_cents (int (i + n * c + gain))))"
proof (cases "scenario_inputs [(''initial_amount'', initial), (''monthly_contribution'', contribution)] rate months start_date")
  case (Inl e)
  then show ?thesis by (simp add: savings_def)
next
  case (Inr t)
  obtain modeled r n start where t: "t = (modeled, r, n, start)" by (metis prod_cases4)
  note p = scenario_inputs_premises(2-4) [OF Inr [unfolded t]]
  obtain i c where ic: "premise initial i" "premise contribution c"
      "modeled = [(''initial_amount'', in_cents (int i)), (''monthly_contribution'', in_cents (int c))]"
    using scenario_inputs_cents [OF Inr [unfolded t]] by (auto simp: list_all2_Cons1)
  have "i + 10 * (c + 1) \<le> 10 ^ 19" using premiseD(1) [OF ic(1)] premiseD(1) [OF ic(2)] by (simp add: money_cents_def)
  then have "fits (length [1..<n + 1]) (i + 10 * (c + 1))" using p by (intro fits_start) auto
  note loop = savings_months_cents [OF p(1) this, where p = i and g = 0 and start = start and rows = "[]"]
  let ?l = "savings_months start r (in_cents (int c)) [1..<n + 1] (in_cents (int i)) (in_cents (int i)) (in_cents 0) []"
  show ?thesis
  proof (cases ?l)
    case l: (Inl e)
    then have "date_fails start {1..n} e" using loop by (fastforce simp: date_fails_def simp del: upt_Suc)
    moreover have "savings initial contribution rate months start_date = Inl e"
      using l Inr by (simp add: savings_def t ic(3) del: upt_Suc)
    ultimately show ?thesis using Inr t by auto
  next
    case l: (Inr u)
    obtain b' p' g' rows where u: "u = (b', p', g', rows)" by (metis prod_cases4)
    show ?thesis using loop l ic(1,2) by (auto simp: savings_def Inr t ic(3) u finish_scenario_def Let_def simp del: upt_Suc)
  qed
qed

subsection \<open>Paying off a loan\<close>

lemma interest_of_0 [simp]: "interest_of rate 0 = 0"
  by (simp add: interest_of_def ctx_mul_def round_to_def to_cents_def round_half_even_def)

lemma dec_min_cents [simp]: "dec_min (in_cents a) (in_cents b) = in_cents (min a b)"
  by (simp add: dec_min_def min_def)

definition loan_row_of :: "nat \<Rightarrow> string \<Rightarrow> nat \<Rightarrow> nat \<Rightarrow> nat \<Rightarrow> loan_row" where
  "loan_row_of k dated b i a =
     \<lparr>lr_month = k + 1, lr_date = dated, lr_remaining_debt = dec_str (in_cents (int b)), lr_interest = dec_str (in_cents (int i)),
      lr_payment = dec_str (in_cents (int a))\<rparr>"

definition loan_at :: "loan_state \<Rightarrow> nat \<Rightarrow> nat \<Rightarrow> nat \<Rightarrow> bool" where
  "loan_at s b ip rp = (ls_balance s = in_cents (int b) \<and> ls_interest_paid s = in_cents (int ip) \<and> ls_repayments s = in_cents (int rp))"

lemma loan_month_cents:
  assumes "monthly_rate rate" "loan_at s b ip rp" "b \<le> 10 ^ 17" "interest_of rate b \<le> 10 ^ 17" "ip \<le> 10 ^ 20" "rp \<le> 10 ^ 20" "pay \<le> 10 ^ 17"
  defines "i \<equiv> interest_of rate b" and "a \<equiv> min pay (b + interest_of rate b)"
  shows "loan_month start rate (in_cents (int p0)) (in_cents (int pay)) k s = bindR (advance start k) (\<lambda>dated.
    Inr \<lparr>ls_balance = in_cents (int (b + i - a)), ls_interest_paid = in_cents (int (ip + i)), ls_repayments = in_cents (int (rp + a)),
         ls_payments = ls_payments s + (if 0 < a then 1 else 0),
         ls_payoff = (if 0 < p0 \<and> b + i - a = 0 \<and> ls_payoff s = [] then dated else ls_payoff s),
         ls_rows = ls_rows s @ [loan_row_of k dated (b + i - a) i a]\<rparr>)"
proof -
  have l: "ls_balance s = in_cents (int b)" "ls_interest_paid s = in_cents (int ip)" "ls_repayments s = in_cents (int rp)"
    using assms(2) by (simp_all add: loan_at_def)
  have "b < 10 ^ 79" using assms(3) by (rule le_less_trans) simp
  note q = quantize_interest [OF assms(1) this, folded i_def]
  have le: "a \<le> b + i" by (simp add: a_def i_def)
  have "b + i < 10 ^ 80" "ip + i < 10 ^ 80" "rp + a < 10 ^ 80" using assms(3-7) le unfolding i_def [symmetric] by simp_all
  then have "int (b + i) < int (10 ^ 80)" "int (ip + i) < int (10 ^ 80)" "int (rp + a) < int (10 ^ 80)" by (simp_all only: of_nat_less_iff)
  then have bounds: "int b + int i < 10 ^ 80" "int ip + int i < 10 ^ 80" "int rp + int a < 10 ^ 80" "int b + int i - int a < 10 ^ 80"
    by simp_all
  have min: "min (int pay) (int (b + i)) = int a" by (simp add: a_def i_def)
  have sums: "ctx_add (in_cents (int b)) (in_cents (int i)) = in_cents (int (b + i))"
    "ctx_add (in_cents (int ip)) (in_cents (int i)) = in_cents (int (ip + i))"
    "ctx_add (in_cents (int rp)) (in_cents (int a)) = in_cents (int (rp + a))"
    "ctx_sub (in_cents (int (b + i))) (in_cents (int a)) = in_cents (int (b + i - a))"
    "ctx_quantize (in_cents (int (b + i - a))) = Inr (in_cents (int (b + i - a)))"
    using bounds le by (simp_all add: of_nat_diff)
  have cmp: "dec_lt dec0 (in_cents (int n)) \<longleftrightarrow> 0 < n" "dec_eq (in_cents (int n)) dec0 \<longleftrightarrow> n = 0" for n by simp_all
  show ?thesis
    unfolding loan_month_def l q bindR_simps sums dec_min_cents min Let_def cmp loan_row_of_def by (rule refl)
qed

text \<open>
  The debt after some months as a recurrence on whole cents, with no state: each month adds the interest on the debt
  and takes off the payment, or all that is owed when that is less.
\<close>

fun debt_after :: "decimal \<Rightarrow> nat \<Rightarrow> nat \<Rightarrow> nat \<Rightarrow> nat" where
  "debt_after rate pay p0 0 = p0"
| "debt_after rate pay p0 (Suc k) =
     (let owed = debt_after rate pay p0 k + interest_of rate (debt_after rate pay p0 k) in owed - min pay owed)"

definition interest_until :: "decimal \<Rightarrow> nat \<Rightarrow> nat \<Rightarrow> nat \<Rightarrow> nat" where
  "interest_until rate pay p0 k = (\<Sum>j<k. interest_of rate (debt_after rate pay p0 j))"

text \<open>A payment that covers the first interest covers every interest, so that the debt never grows.\<close>

lemma debt_le:
  assumes "monthly_rate rate" "interest_of rate p0 \<le> pay"
  shows "debt_after rate pay p0 k \<le> p0"
proof (induction k)
  case (Suc k)
  then show ?case using interest_mono [OF assms(1) Suc] assms(2) by (auto simp: Let_def min_def)
qed simp

lemma debt_falls:
  assumes "monthly_rate rate" "interest_of rate p0 \<le> pay"
  shows "debt_after rate pay p0 (Suc k) = 0 \<or> debt_after rate pay p0 (Suc k) + (pay - interest_of rate p0) \<le> debt_after rate pay p0 k"
  using interest_mono [OF assms(1) debt_le [OF assms, of k]] assms(2) by (auto simp: Let_def min_def)

lemma debt_antimono:
  assumes "monthly_rate rate" "interest_of rate p0 \<le> pay" "j \<le> k"
  shows "debt_after rate pay p0 k \<le> debt_after rate pay p0 j"
  using assms(3)
proof (induction rule: dec_induct)
  case (step n)
  then show ?case using debt_falls [OF assms(1,2), of n] by linarith
qed simp

lemma interest_until_le:
  assumes "monthly_rate rate" "interest_of rate p0 \<le> pay" "pay \<le> 10 ^ 17" "k \<le> 600"
  shows "interest_until rate pay p0 k \<le> 600 * 10 ^ 17"
proof -
  have "interest_until rate pay p0 k \<le> (\<Sum>j<k. 10 ^ 17)"
    unfolding interest_until_def using interest_mono [OF assms(1) debt_le [OF assms(1,2)]] assms(2,3) by (intro sum_mono) (meson le_trans)
  also have "\<dots> \<le> 600 * 10 ^ 17" using assms(4) by (simp only: sum_constant card_lessThan) (rule mult_le_mono1, simp)
  finally show ?thesis .
qed

text \<open>
  What holds after \<open>k\<close> months: the balance is the recurrence, nothing is lost, row \<open>j\<close> shows month \<open>j\<close>, and the pay-off
  date is set exactly once a debt is zero, to the date of the month in which it became zero.
\<close>

definition debt_row :: "decimal \<Rightarrow> nat \<Rightarrow> nat \<Rightarrow> nat \<Rightarrow> string \<Rightarrow> loan_row" where
  "debt_row rate pay p0 j dated =
     loan_row_of j dated (debt_after rate pay p0 (Suc j)) (interest_of rate (debt_after rate pay p0 j))
       (min pay (debt_after rate pay p0 j + interest_of rate (debt_after rate pay p0 j)))"

definition loan_inv :: "date \<Rightarrow> decimal \<Rightarrow> nat \<Rightarrow> nat \<Rightarrow> nat \<Rightarrow> loan_state \<Rightarrow> bool" where
  "loan_inv start rate p0 pay k s =
     (\<exists>rp. loan_at s (debt_after rate pay p0 k) (interest_until rate pay p0 k) rp
        \<and> p0 + interest_until rate pay p0 k = rp + debt_after rate pay p0 k
        \<and> length (ls_rows s) = k
        \<and> (\<forall>j < k. \<exists>dated. advance start j = Inr dated \<and> ls_rows s ! j = debt_row rate pay p0 j dated)
        \<and> (ls_payoff s = [] \<longleftrightarrow> p0 = 0 \<or> 0 < debt_after rate pay p0 k)
        \<and> (\<forall>j < k. 0 < debt_after rate pay p0 j \<longrightarrow> debt_after rate pay p0 (Suc j) = 0 \<longrightarrow> advance start j = Inr (ls_payoff s)))"

lemma advance_not_empty: "advance start k = Inr dated \<Longrightarrow> dated \<noteq> []"
  by (auto simp: advance_def Let_def guardR_def isoformat_def pad4_def split: if_splits)

text \<open>The pay-off date of a month's new state.\<close>

lemma payoff_step:
  assumes r: "monthly_rate rate" "interest_of rate p0 \<le> pay" and d: "advance start k = Inr dated"
    and s: "old = [] \<longleftrightarrow> p0 = 0 \<or> 0 < debt_after rate pay p0 k"
      "\<forall>j < k. 0 < debt_after rate pay p0 j \<longrightarrow> debt_after rate pay p0 (Suc j) = 0 \<longrightarrow> advance start j = Inr old"
  defines "new \<equiv> (if 0 < p0 \<and> debt_after rate pay p0 (Suc k) = 0 \<and> old = [] then dated else old)"
  shows "new = [] \<longleftrightarrow> p0 = 0 \<or> 0 < debt_after rate pay p0 (Suc k)"
    "\<forall>j < Suc k. 0 < debt_after rate pay p0 j \<longrightarrow> debt_after rate pay p0 (Suc j) = 0 \<longrightarrow> advance start j = Inr new"
proof -
  have down: "debt_after rate pay p0 (Suc k) \<le> debt_after rate pay p0 k" by (rule debt_antimono [OF r]) simp
  show "new = [] \<longleftrightarrow> p0 = 0 \<or> 0 < debt_after rate pay p0 (Suc k)"
    using s(1) down advance_not_empty [OF d] unfolding new_def by (auto simp del: debt_after.simps)
  show "\<forall>j < Suc k. 0 < debt_after rate pay p0 j \<longrightarrow> debt_after rate pay p0 (Suc j) = 0 \<longrightarrow> advance start j = Inr new"
  proof (intro allI impI)
    fix j assume j: "j < Suc k" "0 < debt_after rate pay p0 j" "debt_after rate pay p0 (Suc j) = 0"
    have p0: "0 < p0" using j(2) debt_le [OF r, of j] by linarith
    show "advance start j = Inr new"
    proof (cases "j = k")
      case True
      then show ?thesis using j p0 d s(1) by (simp add: new_def del: debt_after.simps)
    next
      case False
      then have "debt_after rate pay p0 k \<le> debt_after rate pay p0 (Suc j)" using j(1) by (intro debt_antimono [OF r]) simp
      then have "old \<noteq> []" using s(1) j(3) p0 by simp
      then show ?thesis using s(2) j False by (simp add: new_def del: debt_after.simps)
    qed
  qed
qed

lemma loan_inv_month:
  assumes r: "monthly_rate rate" and p0: "money_cents p0" and pay: "money_cents pay" and k: "k < 600"
    and i0: "interest_of rate p0 \<le> pay" and s: "loan_inv start rate p0 pay k s"
  shows "case loan_month start rate (in_cents (int p0)) (in_cents (int pay)) k s of Inl e \<Rightarrow> advance start k = Inl e
    | Inr s' \<Rightarrow> loan_inv start rate p0 pay (Suc k) s'"
proof (cases "advance start k")
  case (Inl e)
  then show ?thesis by (simp add: loan_month_def)
next
  case (Inr dated)
  let ?b = "debt_after rate pay p0 k" let ?ip = "interest_until rate pay p0 k" let ?i = "interest_of rate ?b"
  let ?a = "min pay (?b + ?i)" let ?row = "debt_row rate pay p0 k dated"
  obtain rp where l: "loan_at s ?b ?ip rp" "p0 + ?ip = rp + ?b" "length (ls_rows s) = k"
      "\<forall>j < k. \<exists>dated. advance start j = Inr dated \<and> ls_rows s ! j = debt_row rate pay p0 j dated"
      "ls_payoff s = [] \<longleftrightarrow> p0 = 0 \<or> 0 < ?b"
      "\<forall>j < k. 0 < debt_after rate pay p0 j \<longrightarrow> debt_after rate pay p0 (Suc j) = 0 \<longrightarrow> advance start j = Inr (ls_payoff s)"
    using s unfolding loan_inv_def by (elim exE conjE)
  have pay17: "pay \<le> 10 ^ 17" "p0 \<le> 10 ^ 17" using p0 pay by (simp_all add: money_cents_def)
  have b: "?b \<le> p0" "?i \<le> pay" using debt_le [OF r i0] interest_mono [OF r debt_le [OF r i0, of k]] i0 by simp_all
  have ip: "?ip \<le> 10 ^ 20" "rp \<le> 10 ^ 20" using interest_until_le [OF r i0 pay17(1), of k] k pay17(2) l(2) by simp_all
  let ?s = "\<lparr>ls_balance = in_cents (int (debt_after rate pay p0 (Suc k))), ls_interest_paid = in_cents (int (?ip + ?i)),
      ls_repayments = in_cents (int (rp + ?a)), ls_payments = ls_payments s + (if 0 < ?a then 1 else 0),
      ls_payoff = (if 0 < p0 \<and> debt_after rate pay p0 (Suc k) = 0 \<and> ls_payoff s = [] then dated else ls_payoff s),
      ls_rows = ls_rows s @ [?row]\<rparr>"
  have "loan_month start rate (in_cents (int p0)) (in_cents (int pay)) k s = Inr ?s"
    unfolding loan_month_cents [OF r l(1) le_trans [OF b(1) pay17(2)] le_trans [OF b(2) pay17(1)] ip pay17(1)] Inr bindR_simps
      debt_row_def debt_after.simps Let_def by (rule refl)
  moreover have "loan_inv start rate p0 pay (Suc k) ?s"
    unfolding loan_inv_def
  proof (intro exI [of _ "rp + ?a"] conjI)
    show "loan_at ?s (debt_after rate pay p0 (Suc k)) (interest_until rate pay p0 (Suc k)) (rp + ?a)"
      by (simp add: loan_at_def interest_until_def)
    show "p0 + interest_until rate pay p0 (Suc k) = rp + ?a + debt_after rate pay p0 (Suc k)"
      using l(2) by (simp add: interest_until_def Let_def min_def)
    show "\<forall>j < Suc k. \<exists>dated. advance start j = Inr dated \<and> ls_rows ?s ! j = debt_row rate pay p0 j dated"
      using l(3,4) Inr by (auto simp: less_Suc_eq nth_append)
  qed (use payoff_step [OF r i0 Inr l(5,6)] l(3) in \<open>simp_all del: debt_after.simps\<close>)
  ultimately show ?thesis by simp
qed

lemma loan_inv_months:
  assumes "monthly_rate rate" "money_cents p0" "money_cents pay" "n \<le> 600" "interest_of rate p0 \<le> pay"
    and "loan_inv start rate p0 pay k s" "k \<le> n"
  shows "case loan_months start rate (in_cents (int p0)) (in_cents (int pay)) [k..<n] s of Inl e \<Rightarrow> date_fails start {k..<n} e
    | Inr s' \<Rightarrow> loan_inv start rate p0 pay n s'"
  using assms(7,6)
proof (induction "n - k" arbitrary: k s)
  case (Suc d)
  then have k: "k < n" "[k..<n] = k # [Suc k..<n]" "d = n - Suc k" by (auto simp: upt_conv_Cons)
  then have "k < 600" using assms(4) by simp
  note month = loan_inv_month [OF assms(1-3) this assms(5) Suc.prems(2)]
  show ?case
  proof (cases "loan_month start rate (in_cents (int p0)) (in_cents (int pay)) k s")
    case (Inl e)
    then show ?thesis using month k(1) by (auto simp: k(2) date_fails_def)
  next
    case (Inr s')
    have "loan_inv start rate p0 pay (Suc k) s'" using month Inr by simp
    from Suc.hyps(1) [OF k(3) _ this] k(1) show ?thesis
      by (auto simp: k(2) Inr date_fails_def split: sum.splits dest: Suc_leD)
  qed
qed simp

subsection \<open>The rows that are kept\<close>

lemma nearest_23rd_bound: "i \<le> 23 \<Longrightarrow> nearest_23rd (i * m) \<le> m"
proof -
  assume "i \<le> 23"
  then have "i * m \<le> 23 * m" by (rule mult_le_mono1)
  then have "(2 * (i * m) + 23) div 46 \<le> (46 * m + 23) div 46" by (intro div_le_mono) linarith
  then show ?thesis by (simp add: nearest_23rd_def)
qed

lemma kept_rows_bounds:
  assumes "0 < n" "set landmarks \<subseteq> {..<n}" "length landmarks \<le> 22"
  shows "required_rows n landmarks \<subseteq> kept_rows n landmarks" "kept_rows n landmarks \<subseteq> {..<n}" "card (kept_rows n landmarks) \<le> 24"
    "n \<le> 24 \<Longrightarrow> kept_rows n landmarks = {..<n}"
proof -
  let ?req = "required_rows n landmarks" let ?keep = "?req \<union> spread_rows n"
  have req: "?req \<subseteq> {..<n}" "card ?req \<le> 24"
    using assms card_length [of "[0, n - 1] @ landmarks"] by (auto simp: required_rows_def)
  have spread: "spread_rows n \<subseteq> {..<n}"
    using assms(1) by (auto simp: spread_rows_def intro: le_less_trans [OF nearest_23rd_bound])
  have fin: "finite ?keep" by (simp add: required_rows_def spread_rows_def)
  let ?drop = "set (take (card ?keep - 24) (sorted_list_of_set (?keep - ?req)))"
  have drop: "?drop \<subseteq> ?keep - ?req" using set_take_subset fin by fastforce
  show "?req \<subseteq> kept_rows n landmarks" "kept_rows n landmarks \<subseteq> {..<n}"
    using drop req spread by (auto simp: kept_rows_def Let_def)
  have "card (?keep - ?req) = card ?keep - card ?req" using fin by (intro card_Diff_subset) (auto simp: required_rows_def)
  moreover have "distinct (take (card ?keep - 24) (sorted_list_of_set (?keep - ?req)))" by simp
  ultimately have "card ?drop = card ?keep - 24" using req(2) by (simp add: distinct_card)
  then have "card (?keep - ?drop) = card ?keep - (card ?keep - 24)" using drop by (subst card_Diff_subset) auto
  then show "card (kept_rows n landmarks) \<le> 24" by (auto simp: kept_rows_def Let_def)
  show "kept_rows n landmarks = {..<n}" if "n \<le> 24"
  proof -
    have "?keep = {..<n}" using that req spread by (auto simp: spread_rows_def)
    then show ?thesis using that by (simp add: kept_rows_def Let_def)
  qed
qed

lemma sorted_last_ge: "sorted_wrt (<) ks \<Longrightarrow> (x::nat) \<in> set ks \<Longrightarrow> x \<le> last ks"
  by (induction ks) (auto, metis last_in_set less_imp_le)

lemma sorted_hd_0: "sorted_wrt (<) ks \<Longrightarrow> (0::nat) \<in> set ks \<Longrightarrow> hd ks = 0"
  by (cases ks) auto

lemma nth_sorted_all: "map ((!) xs) (sorted_list_of_set {..<length xs}) = xs"
  by (simp add: lessThan_atLeast0 map_nth)

lemma finish_scenario_keeps:
  fixes modeled :: modeled_money
  assumes "rows \<noteq> []" "set landmarks \<subseteq> {..<length rows}" "length landmarks \<le> 22"
  defines "t \<equiv> trajectory (finish_scenario rows modeled landmarks)"
  shows "length t \<le> 24" "hd t = hd rows" "last t = last rows" "\<forall>i \<in> set landmarks. rows ! i \<in> set t"
    "\<exists>ks. sorted_wrt (<) ks \<and> set ks \<subseteq> {..<length rows} \<and> t = map ((!) rows) ks"
    "trajectory_sampled (finish_scenario rows modeled landmarks) \<longleftrightarrow> t \<noteq> rows" "length rows \<le> 24 \<Longrightarrow> t = rows"
proof -
  let ?n = "length rows" let ?k = "kept_rows ?n landmarks" let ?ks = "sorted_list_of_set ?k"
  have n: "0 < ?n" using assms(1) by simp
  note k = kept_rows_bounds [OF n assms(2,3)]
  have fin: "finite ?k" using k(2) finite_subset by blast
  have t: "t = map ((!) rows) ?ks" by (simp add: t_def finish_scenario_def Let_def)
  have len: "length t = card ?k" by (simp add: t)
  have ends: "0 \<in> ?k" "?n - 1 \<in> ?k" "set landmarks \<subseteq> ?k" using k(1) by (auto simp: required_rows_def)
  have ks: "set ?ks = ?k" "sorted_wrt (<) ?ks" "?ks \<noteq> []" using fin ends by auto
  show "length t \<le> 24" using k(3) len by simp
  show "\<forall>i \<in> set landmarks. rows ! i \<in> set t" using ends ks(1) by (auto simp: t)
  show "\<exists>ks. sorted_wrt (<) ks \<and> set ks \<subseteq> {..<?n} \<and> t = map ((!) rows) ks" using t ks k(2) by blast
  have "hd ?ks = 0" using ks ends(1) by (intro sorted_hd_0) auto
  moreover have "hd t = rows ! hd ?ks" using ks(3) by (simp add: t hd_map)
  ultimately show "hd t = hd rows" using assms(1) by (simp add: hd_conv_nth [of rows])
  have "last ?ks = ?n - 1"
  proof -
    have "last ?ks \<in> ?k" using ks by (metis last_in_set)
    then have "last ?ks \<le> ?n - 1" using k(2) by fastforce
    moreover have "?n - 1 \<le> last ?ks" using ks ends(2) sorted_last_ge [of ?ks "?n - 1"] by simp
    ultimately show ?thesis by simp
  qed
  moreover have "last t = rows ! last ?ks" using ks(3) by (simp add: t last_map)
  ultimately show "last t = last rows" using assms(1) by (simp add: last_conv_nth [of rows])
  have "card ?k = ?n \<Longrightarrow> ?k = {..<?n}" using k(2) by (intro card_subset_eq) auto
  moreover have "card ?k \<le> ?n" using card_mono [OF _ k(2)] by simp
  moreover have "trajectory_sampled (finish_scenario rows modeled landmarks) \<longleftrightarrow> card ?k < ?n"
    by (simp add: finish_scenario_def Let_def)
  ultimately show "trajectory_sampled (finish_scenario rows modeled landmarks) \<longleftrightarrow> t \<noteq> rows"
    using len nth_sorted_all [of rows] by (metis t nat_less_le)
  show "t = rows" if "?n \<le> 24" using k(4) that nth_sorted_all [of rows] by (simp add: t)
qed

subsection \<open>Dates of different months differ\<close>

lemma advance_inj:
  assumes "advance start j = Inr t" "advance start k = Inr t"
  shows "j = k"
proof -
  let ?i = "\<lambda>m. d_year start * 12 + d_month start - 1 + m"
  have t: "?i m div 12 \<le> 9999 \<and> take 4 t = pad4 (?i m div 12) \<and> take 2 (drop 5 t) = pad2 (?i m mod 12 + 1)"
    if "advance start m = Inr t" for m
    using that by (auto simp: advance_def Let_def guardR_def isoformat_def pad4_def pad2_def split: if_splits)
  have "?i j div 12 = ?i k div 12"
    using t [OF assms(1)] t [OF assms(2)] pad4_val [of "?i j div 12"] pad4_val [of "?i k div 12"] by auto
  moreover have "?i j mod 12 = ?i k mod 12"
    using t [OF assms(1)] t [OF assms(2)] pad2_val [of "?i j mod 12 + 1"] pad2_val [of "?i k mod 12 + 1"]
      mod_less_divisor [of 12 "?i j"] mod_less_divisor [of 12 "?i k"] by auto
  ultimately have "?i j = ?i k" by (metis div_mult_mod_eq)
  then show ?thesis by simp
qed

lemma one_index:
  assumes "\<And>j k. j < length xs \<Longrightarrow> k < length xs \<Longrightarrow> p (xs ! j) \<Longrightarrow> p (xs ! k) \<Longrightarrow> j = k"
  shows "length (indices_where p xs) \<le> 1"
proof -
  have set: "set (indices_where p xs) = {i. i < length xs \<and> p (xs ! i)}" by (auto simp: indices_where_def)
  have "distinct (indices_where p xs)" by (simp add: indices_where_def)
  then have "length (indices_where p xs) = card {i. i < length xs \<and> p (xs ! i)}" by (simp only: set [symmetric] distinct_card)
  also have "\<dots> \<le> Suc 0" using assms by (subst card_le_Suc0_iff_eq) auto
  finally show ?thesis by simp
qed

subsection \<open>The result of a loan\<close>

lemma zero_rate_interest:
  assumes "monthly_rate rate" "\<not> dec_lt dec0 rate"
  shows "interest_of rate b = 0"
proof -
  have "dec_val rate \<le> 0" using assms(2) by (simp add: dec_lt_iff)
  moreover have "0 < (10::rat) powi expo rate" by simp
  ultimately have "coeff rate = 0" using assms(1) by (auto simp: monthly_rate_def dec_val_def mult_le_0_iff)
  then show ?thesis by (simp add: interest_of_def ctx_mul_def round_to_def to_cents_def round_half_even_def)
qed

lemma loan_inv_start:
  "loan_inv start rate p0 pay 0
     \<lparr>ls_balance = in_cents (int p0), ls_interest_paid = in_cents 0, ls_repayments = in_cents 0, ls_payments = 0, ls_payoff = [], ls_rows = []\<rparr>"
  unfolding loan_inv_def loan_at_def by (rule exI [of _ 0]) (auto simp: interest_until_def)

lemma loan_payoff_result:
  "case loan_payoff debt monthly rate months start_date of
     Inl e \<Rightarrow> scenario_inputs [(''principal'', debt), (''monthly_payment'', monthly)] rate months start_date = Inl e
       \<or> (\<exists>modeled r n start p0 pay. premise debt p0 \<and> premise monthly pay
            \<and> scenario_inputs [(''principal'', debt), (''monthly_payment'', monthly)] rate months start_date = Inr (modeled, r, n, start)
            \<and> (date_fails start {0..<n} e \<or> e = ScenarioError ''scenario_payment_rounds_to_zero'' \<and> pay = 0
               \<or> e = ScenarioError ''scenario_non_amortizing_payment'' \<and> pay \<le> interest_of r p0))
   | Inr res \<Rightarrow> (\<exists>p0 pay r n s start modeled. premise debt p0 \<and> premise monthly pay
       \<and> scenario_inputs [(''principal'', debt), (''monthly_payment'', monthly)] rate months start_date = Inr (modeled, r, n, start)
       \<and> monthly_rate r \<and> 0 < n \<and> n \<le> 600 \<and> (interest_of r p0 < pay \<or> interest_of r p0 = 0) \<and> loan_inv start r p0 pay n s
       \<and> res = \<lparr>ln_remaining_debt = dec_str (ls_balance s), ln_interest_paid = dec_str (ls_interest_paid s),
            ln_repayments_paid = dec_str (ls_repayments s), ln_payment_count = ls_payments s, ln_payoff_date = ls_payoff s,
            ln_horizon_date = lr_date (last (ls_rows s)),
            ln_outcome = finish_scenario (ls_rows s) modeled (indices_where (\<lambda>row. lr_date row = ls_payoff s) (ls_rows s))\<rparr>)"
proof (cases "scenario_inputs [(''principal'', debt), (''monthly_payment'', monthly)] rate months start_date")
  case (Inl e)
  then show ?thesis by (simp add: loan_payoff_def)
next
  case inputs: (Inr t)
  obtain modeled r n start where t: "t = (modeled, r, n, start)" by (metis prod_cases4)
  note p = scenario_inputs_premises(2-4) [OF inputs [unfolded t]]
  obtain p0 pay where ic: "premise debt p0" "premise monthly pay"
      "modeled = [(''principal'', in_cents (int p0)), (''monthly_payment'', in_cents (int pay))]"
    using scenario_inputs_cents [OF inputs [unfolded t]] by (auto simp: list_all2_Cons1)
  obtain stated where st: "scenario_decimal monthly = Inr stated" using ic(2) by (auto simp: premise_def)
  note m = premiseD(1) [OF ic(1)] premiseD(1) [OF ic(2)]
  define i0 where "i0 = interest_of r p0"
  have "p0 < 10 ^ 79" using m(1) unfolding money_cents_def by (rule le_less_trans) simp
  note q = quantize_interest [OF p(1) this, folded i0_def]
  let ?s0 = "\<lparr>ls_balance = in_cents (int p0), ls_interest_paid = in_cents 0, ls_repayments = in_cents 0, ls_payments = 0, ls_payoff = [], ls_rows = []\<rparr>"
  have ok: "i0 < pay \<or> i0 = 0" if "\<not> (dec_lt dec0 (in_cents (int p0)) \<and> dec_lt dec0 r \<and> pay \<le> i0)"
    using that zero_rate_interest [OF p(1)] by (cases "p0 = 0") (auto simp: i0_def)
  have loop: "case loan_months start r (in_cents (int p0)) (in_cents (int pay)) [0..<n] ?s0 of Inl e \<Rightarrow> date_fails start {0..<n} e
    | Inr s' \<Rightarrow> loan_inv start r p0 pay n s'" if "i0 < pay \<or> i0 = 0"
    using loan_inv_months [OF p(1) m p(3) _ loan_inv_start] that by (auto simp: i0_def)
  let ?zero = "dec_lt dec0 (in_cents (int p0)) \<and> dec_lt dec0 stated \<and> dec_eq (in_cents (int pay)) dec0"
  let ?slow = "dec_lt dec0 (in_cents (int p0)) \<and> dec_lt dec0 r \<and> pay \<le> i0"
  show ?thesis
  proof (cases "?zero \<or> ?slow")
    case True
    then have "loan_payoff debt monthly rate months start_date
        = (if ?zero then Inl (ScenarioError ''scenario_payment_rounds_to_zero'') else Inl (ScenarioError ''scenario_non_amortizing_payment''))"
      by (auto simp: loan_payoff_def Let_def inputs t ic(3) st q guardR_def)
    then show ?thesis using True inputs ic(1,2) by (auto simp: t i0_def split: if_splits; blast)
  next
    case False
    then have g: "i0 < pay \<or> i0 = 0" using ok by blast
    have eq: "loan_payoff debt monthly rate months start_date
        = bindR (loan_months start r (in_cents (int p0)) (in_cents (int pay)) [0..<n] ?s0) (\<lambda>s.
       Inr \<lparr>ln_remaining_debt = dec_str (ls_balance s), ln_interest_paid = dec_str (ls_interest_paid s),
            ln_repayments_paid = dec_str (ls_repayments s), ln_payment_count = ls_payments s, ln_payoff_date = ls_payoff s,
            ln_horizon_date = lr_date (last (ls_rows s)),
            ln_outcome = finish_scenario (ls_rows s) modeled (indices_where (\<lambda>row. lr_date row = ls_payoff s) (ls_rows s))\<rparr>)"
      using False by (auto simp: loan_payoff_def Let_def inputs t ic(3) st q guardR_def)
    show ?thesis
    proof (cases "loan_months start r (in_cents (int p0)) (in_cents (int pay)) [0..<n] ?s0")
      case (Inl e)
      then have "date_fails start {0..<n} e" using loop [OF g] by simp
      then show ?thesis unfolding eq Inl bindR_simps sum.case using inputs ic(1,2) t by blast
    next
      case (Inr s)
      then have "loan_inv start r p0 pay n s" using loop [OF g] by simp
      moreover have "0 < n" "n \<le> 600" using p by simp_all
      ultimately show ?thesis unfolding eq Inr bindR_simps sum.case using ic(1,2) g p(1) inputs unfolding t i0_def by blast
    qed
  qed
qed

lemma loan_inv_landmarks:
  assumes "loan_inv start rate p0 pay n s" "0 < n"
  defines "marks \<equiv> indices_where (\<lambda>row. lr_date row = ls_payoff s) (ls_rows s)"
  shows "ls_rows s \<noteq> []" "set marks \<subseteq> {..<length (ls_rows s)}" "length marks \<le> 22"
proof -
  have d: "length (ls_rows s) = n" "\<forall>j < n. advance start j = Inr (lr_date (ls_rows s ! j))"
    using assms(1) by (auto simp: loan_inv_def debt_row_def loan_row_of_def)
  show "ls_rows s \<noteq> []" using d(1) assms(2) by auto
  show "set marks \<subseteq> {..<length (ls_rows s)}" by (auto simp: marks_def indices_where_def)
  have "length marks \<le> 1" unfolding marks_def using d by (intro one_index) (metis advance_inj)
  then show "length marks \<le> 22" by simp
qed

text \<open>
  C16: a loan scenario follows the debt recurrence to the cent and finds the month of the pay-off. When the loan is
  accepted, the remaining debt and the interest are those of the recurrence that adds the interest on the debt and takes
  off the payment (or what is owed, if less), and what was owed and the interest are together what was repaid and what is
  still owed. The payment exceeds the first interest, or that interest is zero, and every single month the debt becomes
  zero or falls by at least the payment less the first interest. A pay-off date is missing exactly when nothing was
  borrowed or something is still owed; otherwise it is the date of the month in which the debt became zero, and the
  trajectory keeps the row of that month.
\<close>
theorem loan_is_paid_down:
  assumes "loan_payoff debt monthly rate months start_date = Inr res"
  shows "\<exists>p0 pay modeled r n start repaid.
    premise debt p0 \<and> premise monthly pay
    \<and> scenario_inputs [(''principal'', debt), (''monthly_payment'', monthly)] rate months start_date = Inr (modeled, r, n, start)
    \<and> total_periods (ln_outcome res) = n
    \<and> ln_remaining_debt res = dec_str (in_cents (int (debt_after r pay p0 n)))
    \<and> ln_interest_paid res = dec_str (in_cents (int (interest_until r pay p0 n)))
    \<and> ln_repayments_paid res = dec_str (in_cents (int repaid)) \<and> p0 + interest_until r pay p0 n = repaid + debt_after r pay p0 n
    \<and> (interest_of r p0 < pay \<or> interest_of r p0 = 0)
    \<and> (\<forall>k < n. debt_after r pay p0 (Suc k) = 0 \<or> debt_after r pay p0 (Suc k) + (pay - interest_of r p0) \<le> debt_after r pay p0 k)
    \<and> (ln_payoff_date res = [] \<longleftrightarrow> p0 = 0 \<or> 0 < debt_after r pay p0 n)
    \<and> (\<forall>k < n. 0 < debt_after r pay p0 k \<and> debt_after r pay p0 (Suc k) = 0 \<longrightarrow>
         advance start k = Inr (ln_payoff_date res)
         \<and> debt_row r pay p0 k (ln_payoff_date res) \<in> set (trajectory (ln_outcome res)))"
proof -
  obtain p0 pay r n s start modeled where l: "premise debt p0" "premise monthly pay"
      "scenario_inputs [(''principal'', debt), (''monthly_payment'', monthly)] rate months start_date = Inr (modeled, r, n, start)"
      "0 < n" "monthly_rate r" "interest_of r p0 < pay \<or> interest_of r p0 = 0" "loan_inv start r p0 pay n s"
    and res: "res = \<lparr>ln_remaining_debt = dec_str (ls_balance s), ln_interest_paid = dec_str (ls_interest_paid s),
            ln_repayments_paid = dec_str (ls_repayments s), ln_payment_count = ls_payments s, ln_payoff_date = ls_payoff s,
            ln_horizon_date = lr_date (last (ls_rows s)),
            ln_outcome = finish_scenario (ls_rows s) modeled (indices_where (\<lambda>row. lr_date row = ls_payoff s) (ls_rows s))\<rparr>"
    using loan_payoff_result [of debt monthly rate months start_date] unfolding assms sum.case by blast
  note keep = finish_scenario_keeps(4) [OF loan_inv_landmarks [OF l(7,4)], where modeled = modeled]
  obtain rp where b: "loan_at s (debt_after r pay p0 n) (interest_until r pay p0 n) rp"
      "p0 + interest_until r pay p0 n = rp + debt_after r pay p0 n" "length (ls_rows s) = n"
      "\<forall>j < n. \<exists>dated. advance start j = Inr dated \<and> ls_rows s ! j = debt_row r pay p0 j dated"
      "ls_payoff s = [] \<longleftrightarrow> p0 = 0 \<or> 0 < debt_after r pay p0 n"
      "\<forall>j < n. 0 < debt_after r pay p0 j \<longrightarrow> debt_after r pay p0 (Suc j) = 0 \<longrightarrow> advance start j = Inr (ls_payoff s)"
    using l(7) unfolding loan_inv_def by (elim exE conjE)
  have off: "advance start k = Inr (ls_payoff s) \<and> debt_row r pay p0 k (ls_payoff s) \<in> set (trajectory (ln_outcome res))"
    if k: "k < n" "0 < debt_after r pay p0 k" "debt_after r pay p0 (Suc k) = 0" for k
  proof -
    have d: "advance start k = Inr (ls_payoff s)" "ls_rows s ! k = debt_row r pay p0 k (ls_payoff s)" using b(4,6) k by fastforce+
    then have "k \<in> set (indices_where (\<lambda>row. lr_date row = ls_payoff s) (ls_rows s))"
      using b(3) k(1) by (simp add: indices_where_def debt_row_def loan_row_of_def)
    then show ?thesis using keep d by (auto simp: res)
  qed
  have pay: "interest_of r p0 \<le> pay" using l(6) by auto
  have "total_periods (ln_outcome res) = n" using b(3) by (simp add: res finish_scenario_def Let_def)
  then show ?thesis using l(1,2,3,6) b(2,5) off debt_falls [OF l(5) pay]
    by (intro exI [of _ p0] exI [of _ pay] exI [of _ modeled] exI [of _ r] exI [of _ n] exI [of _ start] exI [of _ rp] conjI)
      (use b(1) in \<open>simp_all add: res loan_at_def del: debt_after.simps\<close>)
qed

end
