(* ===== verification/Scenario_Cash.thy ===== *)
theory Scenario_Cash
  imports Scenario_Loans
begin

text \<open>
  The cash-flow loop in closed form, the properties of the three scenarios, and a run of each.
\<close>

subsection \<open>Cash flow\<close>

text \<open>The balance after \<open>k\<close> months in closed form.\<close>

definition cash_after :: "nat \<Rightarrow> nat \<Rightarrow> nat \<Rightarrow> nat \<Rightarrow> nat \<Rightarrow> nat \<Rightarrow> int" where
  "cash_after initial income outflow unusual one_off k =
     int initial + int k * (int income - int outflow) - (if one_off \<le> k then int unusual else 0)"

lemma cash_after_0 [simp]: "0 < m \<Longrightarrow> cash_after i n out u m 0 = int i"
  by (simp add: cash_after_def)

lemma cash_after_Suc:
  "cash_after i n out u m (Suc k) = cash_after i n out u m k + int n - int out - (if Suc k = m then int u else 0)"
  by (auto simp: cash_after_def algebra_simps)

lemma cash_after_bound:
  assumes "money_cents i" "money_cents n" "money_cents out" "money_cents u" "k \<le> 600"
  shows "\<bar>cash_after i n out u m k\<bar> \<le> 10 ^ 21"
proof -
  have "\<bar>int k * (int n - int out)\<bar> \<le> 600 * 10 ^ 17"
    unfolding abs_mult using assms(2,3,5) by (intro mult_mono) (auto simp: money_cents_def)
  then show ?thesis using assms(1,4) by (auto simp: cash_after_def money_cents_def)
qed

definition cash_rows :: "date \<Rightarrow> (nat \<Rightarrow> int) \<Rightarrow> nat \<Rightarrow> cash_row list \<Rightarrow> bool" where
  "cash_rows start after k rows =
     (length rows = k \<and> (\<forall>j < k. advance start (Suc j) = Inr (cr_date (rows ! j)) \<and> cr_balance (rows ! j) = dec_str (in_cents (after (Suc j)))))"

lemma cash_rows_snoc:
  "cash_rows start after k rows \<Longrightarrow> advance start (Suc k) = Inr (cr_date row) \<Longrightarrow> cr_balance row = dec_str (in_cents (after (Suc k)))
   \<Longrightarrow> cash_rows start after (Suc k) (rows @ [row])"
  by (auto simp: cash_rows_def less_Suc_eq nth_append)

lemma cash_month_cents:
  fixes m :: nat
  assumes "money_cents i" "money_cents n" "money_cents out" "money_cents u" "Suc k \<le> 600"
  defines "after \<equiv> cash_after i n out u m"
  shows "cash_months start (in_cents (int n)) (in_cents (int out)) (in_cents (int u)) m (Suc k # ms) (in_cents (after k)) rows
    = bindR (advance start (Suc k)) (\<lambda>dated.
        cash_months start (in_cents (int n)) (in_cents (int out)) (in_cents (int u)) m ms (in_cents (after (Suc k)))
          (rows @ [\<lparr>cr_month = Suc k, cr_date = dated, cr_balance = dec_str (in_cents (after (Suc k))),
             cr_one_off_outflow = dec_str (in_cents (if Suc k = m then int u else 0))\<rparr>]))"
proof -
  have b: "\<bar>after k\<bar> \<le> 10 ^ 21" "\<bar>after (Suc k)\<bar> \<le> 10 ^ 21"
    using cash_after_bound [OF assms(1-4)] assms(5) by (auto simp: after_def)
  have "int n \<le> 10 ^ 17" "int out \<le> 10 ^ 17" "int u \<le> 10 ^ 17" using assms(2-4) by (auto simp: money_cents_def)
  then have s: "\<bar>after k + int n\<bar> < 10 ^ 80" "\<bar>after k + int n - int out\<bar> < 10 ^ 80" "\<bar>after (Suc k)\<bar> < 10 ^ 80"
    using b by simp_all
  let ?o = "if Suc k = m then int u else 0"
  have o: "(if Suc k = m then in_cents (int u) else zero_cents) = in_cents ?o" by simp
  have after_next: "after (Suc k) = after k + int n - int out - ?o" by (simp add: after_def cash_after_Suc)
  have sum: "ctx_sub (ctx_sub (ctx_add (in_cents (after k)) (in_cents (int n))) (in_cents (int out))) (in_cents ?o) = in_cents (after (Suc k))"
    using s unfolding after_next by (subst ctx_cents(1), simp, subst ctx_cents(2), simp, subst ctx_cents(2), simp, simp)
  show ?thesis unfolding cash_months.simps Let_def o sum quantize_cents [OF s(3)] bindR_simps ..
qed

lemma cash_months_cents:
  fixes m :: nat
  assumes "money_cents i" "money_cents n" "money_cents out" "money_cents u" "cnt \<le> 600"
  defines "after \<equiv> cash_after i n out u m"
  shows "k \<le> cnt \<Longrightarrow> cash_rows start after k rows \<Longrightarrow>
    (case cash_months start (in_cents (int n)) (in_cents (int out)) (in_cents (int u)) m [Suc k..<Suc cnt] (in_cents (after k)) rows of
       Inl e \<Rightarrow> date_fails start {Suc k..cnt} e
     | Inr (b, rows') \<Rightarrow> b = in_cents (after cnt) \<and> cash_rows start after cnt rows')"
proof (induction "cnt - k" arbitrary: k rows)
  case (Suc d)
  then have k: "k < cnt" "[Suc k..<Suc cnt] = Suc k # [Suc (Suc k)..<Suc cnt]" "d = cnt - Suc k" by (auto simp: upt_conv_Cons simp del: upt_Suc)
  then have "Suc k \<le> 600" using assms(5) by simp
  note step = cash_month_cents [OF assms(1-4) this, where m = m and start = start and ms = "[Suc (Suc k)..<Suc cnt]" and rows = rows, folded after_def]
  show ?case
  proof (cases "advance start (Suc k)")
    case (Inl e)
    then show ?thesis using k(1) unfolding k(2) step by (auto simp: date_fails_def)
  next
    case dated: (Inr dated)
    let ?rows = "rows @ [\<lparr>cr_month = Suc k, cr_date = dated, cr_balance = dec_str (in_cents (after (Suc k))),
             cr_one_off_outflow = dec_str (in_cents (if Suc k = m then int u else 0))\<rparr>]"
    have "cash_rows start after (Suc k) ?rows" using Suc.prems(2) dated by (intro cash_rows_snoc) auto
    note IH = Suc.hyps(1) [OF k(3) Suc_leI [OF k(1)] this]
    let ?l = "cash_months start (in_cents (int n)) (in_cents (int out)) (in_cents (int u)) m [Suc (Suc k)..<Suc cnt] (in_cents (after (Suc k))) ?rows"
    show ?thesis
    proof (cases ?l)
      case (Inl e)
      then have "date_fails start {Suc (Suc k)..cnt} e" using IH by (simp only: sum.case)
      then have "date_fails start {Suc k..cnt} e" unfolding date_fails_def by (meson atLeastAtMost_iff Suc_leD)
      then show ?thesis unfolding k(2) step dated bindR_simps Inl sum.case .
    next
      case inner: (Inr br)
      show ?thesis using IH unfolding k(2) step dated bindR_simps inner sum.case .
    qed
  qed
qed (simp add: after_def)

lemma first_min_least: "bs \<noteq> [] \<Longrightarrow> first_min bs < length bs \<and> (\<forall>j < length bs. dec_le (bs ! first_min bs) (bs ! j))
    \<and> (\<forall>j < first_min bs. dec_lt (bs ! first_min bs) (bs ! j))"
proof (induction bs rule: first_min.induct)
  case (3 b c bs)
  then show ?case by (auto simp: Let_def dec_cmp_iffs nth_Cons split: nat.splits)
qed (auto simp: dec_cmp_iffs)

lemma first_below_zero_Some:
  "first_below_zero bs = Some i \<Longrightarrow> i < length bs \<and> dec_lt (bs ! i) dec0 \<and> (\<forall>j < i. \<not> dec_lt (bs ! j) dec0)"
  by (induction bs arbitrary: i) (auto simp: nth_Cons split: if_splits nat.splits)

lemma first_below_zero_None: "first_below_zero bs = None \<longleftrightarrow> (\<forall>j < length bs. \<not> dec_lt (bs ! j) dec0)"
  by (induction bs) (auto simp: nth_Cons split: nat.splits)

lemma scenario_inputs_calendar:
  assumes "scenario_inputs amounts rate months start_date = Inr (modeled, r, n, start)"
  shows "scenario_horizon months = Inr n" "anchor start_date = Inr start"
  using assms by (auto simp: scenario_inputs_def bindR_eq_Inr guardR_def split: if_splits)

lemma cash_rows_balances:
  "cash_rows start after k rows \<Longrightarrow> mapR (\<lambda>row. py_Decimal (PStr (cr_balance row))) rows = Inr (map (\<lambda>j. in_cents (after (Suc j))) [0..<k])"
  unfolding mapR_Inr_iff by (auto simp: cash_rows_def list_all2_conv_all_nth simp del: py_Decimal.simps)

definition cash_result_of :: "(string \<times> decimal) list \<Rightarrow> decimal \<Rightarrow> cash_row list \<Rightarrow> decimal list \<Rightarrow> cash_result" where
  "cash_result_of modeled balance rows balances =
     (let least = first_min balances; below = first_below_zero balances in
      \<lparr>cf_final_cash = dec_str balance, cf_minimum_cash = cr_balance (rows ! least), cf_minimum_date = cr_date (rows ! least),
       cf_first_negative_date = (case below of None \<Rightarrow> [] | Some i \<Rightarrow> cr_date (rows ! i)),
       cf_horizon_date = cr_date (last rows),
       cf_outcome = finish_scenario rows modeled (least # (case below of None \<Rightarrow> [] | Some i \<Rightarrow> [i]))\<rparr>)"

lemma cash_flow_result:
  "case cash_flow initial income outflow unusual one_off months start_date of
     Inl e \<Rightarrow> scenario_inputs [(''initial_cash'', initial), (''monthly_income'', income), (''monthly_outflow'', outflow),
         (''one_off_outflow'', unusual)] (JStr ''0'') months start_date = Inl e
       \<or> (\<exists>modeled r n start. scenario_inputs [(''initial_cash'', initial), (''monthly_income'', income), (''monthly_outflow'', outflow),
            (''one_off_outflow'', unusual)] (JStr ''0'') months start_date = Inr (modeled, r, n, start)
            \<and> (date_fails start {1..n} e \<or> scenario_horizon one_off = Inl e
               \<or> (\<exists>m. scenario_horizon one_off = Inr m \<and> n < m \<and> e = premise_mismatch)))
   | Inr res \<Rightarrow> (\<exists>i n out u m k start modeled rows. premise initial i \<and> premise income n \<and> premise outflow out \<and> premise unusual u
       \<and> scenario_horizon one_off = Inr m \<and> scenario_horizon months = Inr k \<and> anchor start_date = Inr start \<and> m \<le> k
       \<and> cash_rows start (cash_after i n out u m) k rows
       \<and> res = cash_result_of modeled (in_cents (cash_after i n out u m k)) rows (map (\<lambda>j. in_cents (cash_after i n out u m (Suc j))) [0..<k]))"
proof (cases "scenario_inputs [(''initial_cash'', initial), (''monthly_income'', income), (''monthly_outflow'', outflow),
    (''one_off_outflow'', unusual)] (JStr ''0'') months start_date")
  case (Inl e)
  then show ?thesis by (simp add: cash_flow_def)
next
  case inputs: (Inr t)
  obtain modeled r k start where t: "t = (modeled, r, k, start)" by (metis prod_cases4)
  note p = scenario_inputs_premises(3,4) [OF inputs [unfolded t]] scenario_inputs_calendar [OF inputs [unfolded t]]
  obtain i n out u where c: "premise initial i" "premise income n" "premise outflow out" "premise unusual u"
      "modeled = [(''initial_cash'', in_cents (int i)), (''monthly_income'', in_cents (int n)), (''monthly_outflow'', in_cents (int out)),
         (''one_off_outflow'', in_cents (int u))]"
    using scenario_inputs_cents [OF inputs [unfolded t]] by (auto simp: list_all2_Cons1)
  show ?thesis
  proof (cases "scenario_horizon one_off")
    case (Inl e)
    then show ?thesis by (simp add: cash_flow_def inputs t)
  next
    case m: (Inr m)
    have m1: "0 < m" using scenario_horizon_range [OF m] by simp
    let ?after = "cash_after i n out u m"
    let ?loop = "cash_months start (in_cents (int n)) (in_cents (int out)) (in_cents (int u)) m [1..<k + 1] (in_cents (int i)) []"
    have loop: "case ?loop of Inl e \<Rightarrow> date_fails start {Suc 0..k} e | Inr (b, rows') \<Rightarrow> b = in_cents (?after k) \<and> cash_rows start ?after k rows'"
      using cash_months_cents [OF c(1-4) [THEN premiseD(1)] p(2), where k = 0 and start = start and rows = "[]" and m = m] m1
      by (simp add: cash_rows_def del: upt_Suc)
    show ?thesis
    proof (cases "m \<le> k")
      case False
      then show ?thesis by (auto simp: cash_flow_def inputs t m)
    next
      case True
      have eq: "cash_flow initial income outflow unusual one_off months start_date = bindR ?loop (\<lambda>(balance, rows).
          bindR (mapR (\<lambda>row. py_Decimal (PStr (cr_balance row))) rows) (\<lambda>balances. Inr (cash_result_of modeled balance rows balances)))"
        using True by (simp add: cash_flow_def inputs t m c(5) cash_result_of_def Let_def del: upt_Suc)
      show ?thesis
      proof (cases ?loop)
        case (Inl e)
        then have "date_fails start {1..k} e" using loop by (simp only: sum.case One_nat_def)
        then show ?thesis unfolding eq Inl bindR_simps sum.case using inputs t by blast
      next
        case (Inr br)
        obtain b rows where br: "br = (b, rows)" by (cases br)
        have b: "b = in_cents (?after k)" "cash_rows start ?after k rows" using loop unfolding Inr br sum.case prod.case by simp_all
        show ?thesis unfolding eq Inr br bindR_simps prod.case cash_rows_balances [OF b(2)] sum.case b(1)
          using c(1-4) m p(3,4) True b(2) by blast
      qed
    qed
  qed
qed

lemma ball_months: "(\<forall>l \<in> {1..k}. P l) \<longleftrightarrow> (\<forall>j < k. P (Suc j))" "(\<forall>l \<in> {1..<Suc k}. P l) \<longleftrightarrow> (\<forall>j < k. P (Suc j))"
proof -
  have "{1..k} = Suc ` {..<k}" by (simp add: image_Suc_lessThan)
  then show "(\<forall>l \<in> {1..k}. P l) \<longleftrightarrow> (\<forall>j < k. P (Suc j))" by auto
  then show "(\<forall>l \<in> {1..<Suc k}. P l) \<longleftrightarrow> (\<forall>j < k. P (Suc j))" by (simp add: atLeastLessThanSuc_atLeastAtMost)
qed

subsection \<open>The scenarios\<close>

text \<open>
  C17: savings add up to the cent. When the scenario is accepted, the premises are taken to the nearest cent, the
  contributed principal is the initial amount and one contribution for each month, and the final balance is exactly
  the principal and the growth.
\<close>
theorem savings_add_up:
  assumes "savings initial contribution rate months start_date = Inr res"
  shows "\<exists>I C i c gain. scenario_decimal initial = Inr I \<and> \<bar>of_nat i / 100 - dec_val I\<bar> \<le> 1 / 200
    \<and> scenario_decimal contribution = Inr C \<and> \<bar>of_nat c / 100 - dec_val C\<bar> \<le> 1 / 200
    \<and> sv_contributed_principal res = dec_str (in_cents (int (i + total_periods (sv_outcome res) * c)))
    \<and> sv_growth res = dec_str (in_cents (int gain))
    \<and> sv_final_balance res = dec_str (in_cents (int (i + total_periods (sv_outcome res) * c + gain)))"
proof -
  obtain i c gain where r: "premise initial i" "premise contribution c"
      "sv_contributed_principal res = dec_str (in_cents (int (i + total_periods (sv_outcome res) * c)))"
      "sv_growth res = dec_str (in_cents (int gain))"
      "sv_final_balance res = dec_str (in_cents (int (i + total_periods (sv_outcome res) * c + gain)))"
    using savings_result [of initial contribution rate months start_date] unfolding assms sum.case by blast
  then show ?thesis using premiseD(2) [OF r(1)] premiseD(2) [OF r(2)] by blast
qed

text \<open>
  C18: a cash flow reports its turning points. The balance after each month is the initial cash and the months' net
  income less the unusual expense once its month has come; the final cash is the last of them, the minimum is the least,
  dated at its first month, and the first negative date is that of the first month below zero, empty if there is none.
\<close>
theorem cash_flow_turning_points:
  assumes "cash_flow initial income outflow unusual one_off months start_date = Inr res"
  shows "\<exists>i n out u m k start. premise initial i \<and> premise income n \<and> premise outflow out \<and> premise unusual u
    \<and> scenario_horizon one_off = Inr m \<and> scenario_horizon months = Inr k \<and> anchor start_date = Inr start
    \<and> cf_final_cash res = dec_str (in_cents (cash_after i n out u m k))
    \<and> (\<exists>j \<in> {1..k}. cf_minimum_cash res = dec_str (in_cents (cash_after i n out u m j)) \<and> advance start j = Inr (cf_minimum_date res)
         \<and> (\<forall>l \<in> {1..k}. cash_after i n out u m j \<le> cash_after i n out u m l)
         \<and> (\<forall>l \<in> {1..<j}. cash_after i n out u m j < cash_after i n out u m l))
    \<and> (if \<forall>l \<in> {1..k}. 0 \<le> cash_after i n out u m l then cf_first_negative_date res = []
       else \<exists>j \<in> {1..k}. advance start j = Inr (cf_first_negative_date res) \<and> cash_after i n out u m j < 0
              \<and> (\<forall>l \<in> {1..<j}. 0 \<le> cash_after i n out u m l))"
proof -
  obtain i n out u m k start modeled rows where r: "premise initial i" "premise income n" "premise outflow out" "premise unusual u"
      "scenario_horizon one_off = Inr m" "scenario_horizon months = Inr k" "anchor start_date = Inr start"
      "cash_rows start (cash_after i n out u m) k rows"
    and res: "res = cash_result_of modeled (in_cents (cash_after i n out u m k)) rows (map (\<lambda>j. in_cents (cash_after i n out u m (Suc j))) [0..<k])"
    using cash_flow_result [where initial = initial and income = income and outflow = outflow and unusual = unusual and one_off = one_off and months = months and start_date = start_date] unfolding assms sum.case by blast
  let ?a = "cash_after i n out u m" let ?bs = "map (\<lambda>j. in_cents (cash_after i n out u m (Suc j))) [0..<k]"
  have k: "?bs \<noteq> []" "length ?bs = k" using scenario_horizon_range [OF r(6)] by auto
  have least: "\<exists>j \<in> {1..k}. cf_minimum_cash res = dec_str (in_cents (?a j)) \<and> advance start j = Inr (cf_minimum_date res)
         \<and> (\<forall>l \<in> {1..k}. ?a j \<le> ?a l) \<and> (\<forall>l \<in> {1..<j}. ?a j < ?a l)"
  proof -
    let ?j = "first_min ?bs"
    have f: "?j < k" "\<forall>l < k. ?a (Suc ?j) \<le> ?a (Suc l)" "\<forall>l < ?j. ?a (Suc ?j) < ?a (Suc l)"
      using first_min_least [OF k(1)] by auto
    have "\<forall>l \<in> {1..k}. ?a (Suc ?j) \<le> ?a l" "\<forall>l \<in> {1..<Suc ?j}. ?a (Suc ?j) < ?a l"
      using f(2,3) by (simp_all only: ball_months)
    then show ?thesis using f(1) r(8) by (intro bexI [of _ "Suc ?j"]) (auto simp: res cash_result_of_def Let_def cash_rows_def)
  qed
  have below: "if \<forall>l \<in> {1..k}. 0 \<le> ?a l then cf_first_negative_date res = []
       else \<exists>j \<in> {1..k}. advance start j = Inr (cf_first_negative_date res) \<and> ?a j < 0 \<and> (\<forall>l \<in> {1..<j}. 0 \<le> ?a l)"
  proof (cases "first_below_zero ?bs")
    case None
    then have "\<forall>l \<in> {1..k}. 0 \<le> ?a l"
      unfolding first_below_zero_None ball_months by (simp add: not_less)
    then show ?thesis using None by (simp add: res cash_result_of_def Let_def)
  next
    case (Some j)
    have f: "j < k" "?a (Suc j) < 0" "\<forall>l < j. 0 \<le> ?a (Suc l)" using first_below_zero_Some [OF Some] by auto
    have "\<forall>l \<in> {1..<Suc j}. 0 \<le> ?a l" using f(3) by (simp only: ball_months)
    moreover have "advance start (Suc j) = Inr (cf_first_negative_date res)"
      using f(1) r(8) Some by (simp add: res cash_result_of_def Let_def cash_rows_def)
    moreover have "Suc j \<in> {1..k}" using f(1) by simp
    ultimately show ?thesis using f(2) by (metis not_less)
  qed
  have "cf_final_cash res = dec_str (in_cents (?a k))" by (simp add: res cash_result_of_def Let_def)
  then show ?thesis using r(1-7) least below by blast
qed

text \<open>
  C19: the trajectory of a scenario is a sample of its rows that loses none of the points it has to show. Of at least one
  row and of landmarks among them it has at most 24 rows, in the order of the months; the first row, the last row and every
  landmark are among them, it says that it is sampled exactly if rows are missing, and up to 24 rows it has all of them.
\<close>
theorem trajectory_keeps_its_landmarks:
  assumes "rows \<noteq> []" "set landmarks \<subseteq> {..<length rows}" "length landmarks \<le> 22"
    and "t = trajectory (finish_scenario rows modeled landmarks)"
  shows "length t \<le> 24 \<and> hd t = hd rows \<and> last t = last rows \<and> (\<forall>i \<in> set landmarks. rows ! i \<in> set t)
    \<and> (\<exists>ks. sorted_wrt (<) ks \<and> set ks \<subseteq> {..<length rows} \<and> t = map ((!) rows) ks)
    \<and> (trajectory_sampled (finish_scenario rows modeled landmarks) \<longleftrightarrow> t \<noteq> rows) \<and> (length rows \<le> 24 \<longrightarrow> t = rows)"
  using finish_scenario_keeps [OF assms(1-3), where modeled = modeled] unfolding assms(4) by blast

theorem trajectory_keeps_its_landmarks_witness:
  "\<exists>t. t = trajectory (finish_scenario [0..<30] [] [7]) \<and> length t \<le> 24 \<and> hd t = 0 \<and> last t = 29 \<and> 7 \<in> set t"
  using trajectory_keeps_its_landmarks [of "[0..<30]" "[7]" _ "[]", OF _ _ _ refl] by (simp add: hd_upt last_upt del: upt_rec_numeral)

subsection \<open>Three runs\<close>

lemma demo_decimals:
  "scenario_decimal (JStr ''1000'') = Inr (Dec 1000 0)" "scenario_decimal (JStr ''300'') = Inr (Dec 300 0)"
  "scenario_decimal (JStr ''100.005'') = Inr (Dec 100005 (- 3))" "scenario_decimal (JStr ''450'') = Inr (Dec 450 0)"
  "scenario_decimal (JStr ''6'') = Inr (Dec 6 0)" "scenario_decimal (JStr ''0'') = Inr (Dec 0 0)"
  by code_simp+

lemma demo_cents:
  "ctx_quantize (Dec 1000 0) = Inr (in_cents 100000)" "ctx_quantize (Dec 300 0) = Inr (in_cents 30000)"
  "ctx_quantize (Dec 100005 (- 3)) = Inr (in_cents 10000)" "ctx_quantize (Dec 450 0) = Inr (in_cents 45000)"
  by code_simp+

lemma demo_calendar:
  "scenario_horizon (JStr ''3'') = Inr 3" "scenario_horizon (JStr ''5'') = Inr 5" "scenario_horizon (JStr ''2'') = Inr 2"
  "anchor (JStr ''2026-01-31'') = Inr (Date 2026 1 31)"
  "\<not> dec_lt (Dec 100 0) (Dec 6 0)" "\<not> dec_lt (Dec 100 0) (Dec 0 0)"
  by code_simp+

lemma demo_dates: "m \<le> 600 \<Longrightarrow> advance (Date 2026 1 31) m \<noteq> Inl e"
  by (auto simp: advance_def Let_def guardR_def)

lemma demo_dates_hold: "n \<le> 600 \<Longrightarrow> \<not> date_fails (Date 2026 1 31) {a..n} e" "n \<le> 600 \<Longrightarrow> \<not> date_fails (Date 2026 1 31) {a..<n} e"
  using demo_dates by (auto simp: date_fails_def)

lemmas demo_facts = demo_decimals demo_cents demo_calendar

theorem savings_add_up_witness:
  "\<exists>res I i c gain. savings (JStr ''1000'') (JStr ''100.005'') (JStr ''6'') (JStr ''3'') (JStr ''2026-01-31'') = Inr res
     \<and> scenario_decimal (JStr ''1000'') = Inr I \<and> \<bar>of_nat i / 100 - dec_val I\<bar> \<le> 1 / 200
     \<and> sv_final_balance res = dec_str (in_cents (int (i + total_periods (sv_outcome res) * c + gain)))"
proof (cases "savings (JStr ''1000'') (JStr ''100.005'') (JStr ''6'') (JStr ''3'') (JStr ''2026-01-31'')")
  case (Inl e)
  have "False" using savings_result [of "JStr ''1000''" "JStr ''100.005''" "JStr ''6''" "JStr ''3''" "JStr ''2026-01-31''"]
    unfolding Inl sum.case by (simp add: scenario_inputs_def demo_facts demo_dates_hold [unfolded One_nat_def])
  then show ?thesis ..
next
  case (Inr res)
  then show ?thesis using savings_add_up by meson
qed

lemma demo_rate: "monthly_rate (ctx_div (Dec 6 0) (Dec 1200 0))"
  by (rule ctx_div_rate) (simp_all add: dec_val_def)

lemma demo_premises: "premise (JStr ''1000'') c \<longleftrightarrow> c = 100000" "premise (JStr ''300'') c \<longleftrightarrow> c = 30000"
  by (auto simp: premise_def demo_decimals to_cents_def)

lemma drop_zeros_power: "drop_zeros (k + n) (c * 10 ^ k) x = drop_zeros n c (x + int k)"
proof (induction k arbitrary: x)
  case (Suc k)
  have "c * 10 ^ Suc k div 10 = c * 10 ^ k" "c * 10 ^ Suc k mod 10 = 0" by simp_all
  then show ?case using Suc [of "x + 1"] by (simp add: algebra_simps)
qed simp

lemma demo_half_percent: "ctx_div (Dec 6 0) (Dec 1200 0) = Dec 5 (- 3)"
proof -
  have last: "drop_zeros 3 5 (- 3) = Dec 5 (- 3)" by (simp add: numeral_3_eq_3)
  have "drop_zeros 84 5000000000000000000000000000000000000000000000000000000000000000000000000000000000 (- 84) = Dec 5 (- 3)"
    using drop_zeros_power [of 81 3 5 "- 84"] last by simp
  then have "ctx_div (Dec 6 0) (Dec 1200 0) = round_to 80 (Dec 5 (- 3))"
    by (simp add: ctx_div_def num_digits_def show_nat.simps ctx_prec_def Let_def)
  then show ?thesis by (simp add: round_to_def)
qed

lemma demo_interest:
  "interest_of (Dec 5 (- 3)) 100000 = 500" "interest_of (Dec 5 (- 3)) 70500 = 352" "interest_of (Dec 5 (- 3)) 40852 = 204"
  "interest_of (Dec 5 (- 3)) 11056 = 55"
  by (simp_all add: interest_of_def ctx_mul_def round_to_def to_cents_def round_half_even_def ctx_prec_def)

lemma demo_debts:
  "debt_after (Dec 5 (- 3)) 30000 100000 1 = 70500" "debt_after (Dec 5 (- 3)) 30000 100000 2 = 40852"
  "debt_after (Dec 5 (- 3)) 30000 100000 3 = 11056" "debt_after (Dec 5 (- 3)) 30000 100000 4 = 0"
  "debt_after (Dec 5 (- 3)) 30000 100000 5 = 0"
proof -
  note next_debt = debt_after.simps(2) [of "Dec 5 (- 3)" 30000 100000, simplified Let_def]
  show 1: "debt_after (Dec 5 (- 3)) 30000 100000 1 = 70500" using next_debt [of 0] by (simp add: demo_interest)
  show 2: "debt_after (Dec 5 (- 3)) 30000 100000 2 = 40852" using next_debt [of 1] unfolding 1 by (simp add: demo_interest numeral_2_eq_2 del: debt_after.simps)
  show 3: "debt_after (Dec 5 (- 3)) 30000 100000 3 = 11056" using next_debt [of 2] by (simp add: 2 demo_interest)
  show 4: "debt_after (Dec 5 (- 3)) 30000 100000 4 = 0" using next_debt [of 3] by (simp add: 3 demo_interest)
  show "debt_after (Dec 5 (- 3)) 30000 100000 5 = 0" using next_debt [of 4] by (simp add: 4)
qed

theorem loan_is_paid_down_witness:
  "\<exists>res. loan_payoff (JStr ''1000'') (JStr ''300'') (JStr ''6'') (JStr ''5'') (JStr ''2026-01-31'') = Inr res
     \<and> ln_remaining_debt res = dec_str (in_cents 0) \<and> advance (Date 2026 1 31) 3 = Inr (ln_payoff_date res)"
proof (cases "loan_payoff (JStr ''1000'') (JStr ''300'') (JStr ''6'') (JStr ''5'') (JStr ''2026-01-31'')")
  case (Inl e)
  have "\<not> 30000 \<le> interest_of (ctx_div (Dec 6 0) (Dec 1200 0)) 100000" using interest_bound [OF demo_rate, of 100000] by simp
  then have "False" using loan_payoff_result [of "JStr ''1000''" "JStr ''300''" "JStr ''6''" "JStr ''5''" "JStr ''2026-01-31''"]
    unfolding Inl sum.case by (auto simp: scenario_inputs_def demo_facts demo_premises demo_dates_hold [unfolded One_nat_def])
  then show ?thesis ..
next
  case (Inr res)
  have "0 < debt_after (Dec 5 (- 3)) 30000 100000 3 \<and> debt_after (Dec 5 (- 3)) 30000 100000 (Suc 3) = 0"
    using demo_debts by (simp del: debt_after.simps)
  then have "ln_remaining_debt res = dec_str (in_cents 0) \<and> advance (Date 2026 1 31) 3 = Inr (ln_payoff_date res)"
    using loan_is_paid_down [OF Inr] demo_debts(5)
    by (auto simp: demo_premises scenario_inputs_def demo_facts demo_half_percent simp del: debt_after.simps)
  then show ?thesis using Inr by blast
qed

theorem cash_flow_turning_points_witness:
  "\<exists>res k. cash_flow (JStr ''1000'') (JStr ''100.005'') (JStr ''300'') (JStr ''450'') (JStr ''2'') (JStr ''5'') (JStr ''2026-01-31'') = Inr res
     \<and> scenario_horizon (JStr ''5'') = Inr k
     \<and> (\<exists>i n out u m. cf_final_cash res = dec_str (in_cents (cash_after i n out u m k)))"
proof (cases "cash_flow (JStr ''1000'') (JStr ''100.005'') (JStr ''300'') (JStr ''450'') (JStr ''2'') (JStr ''5'') (JStr ''2026-01-31'')")
  case (Inl e)
  have "False" using cash_flow_result [where initial = "JStr ''1000''" and income = "JStr ''100.005''" and outflow = "JStr ''300''"
      and unusual = "JStr ''450''" and one_off = "JStr ''2''" and months = "JStr ''5''" and start_date = "JStr ''2026-01-31''"]
    unfolding Inl sum.case by (auto simp: scenario_inputs_def demo_facts demo_dates_hold [unfolded One_nat_def])
  then show ?thesis ..
next
  case (Inr res)
  then show ?thesis using cash_flow_turning_points [OF Inr] by blast
qed

text \<open>Every refusal has a name.\<close>

lemma scenarios_refuse_by_name:
  "savings a b r m s = Inl e \<Longrightarrow> e = premise_mismatch \<or> e = calendar_range"
  "cash_flow i n out u k m s = Inl e \<Longrightarrow> e = premise_mismatch \<or> e = calendar_range"
  "loan_payoff d p r m s = Inl e \<Longrightarrow> e = premise_mismatch \<or> e = calendar_range
     \<or> e = ScenarioError ''scenario_payment_rounds_to_zero'' \<or> e = ScenarioError ''scenario_non_amortizing_payment''"
proof -
  have date: "date_fails start ms e \<Longrightarrow> e = calendar_range" for start ms using advance_fails by (auto simp: date_fails_def)
  show "savings a b r m s = Inl e \<Longrightarrow> e = premise_mismatch \<or> e = calendar_range"
    using savings_result [of a b r m s] date scenario_inputs_fails by auto
  show "cash_flow i n out u k m s = Inl e \<Longrightarrow> e = premise_mismatch \<or> e = calendar_range"
    using cash_flow_result [where initial = i and income = n and outflow = out and unusual = u and one_off = k and months = m and start_date = s]
      date scenario_inputs_fails scenario_horizon_fails by auto
  show "loan_payoff d p r m s = Inl e \<Longrightarrow> e = premise_mismatch \<or> e = calendar_range
     \<or> e = ScenarioError ''scenario_payment_rounds_to_zero'' \<or> e = ScenarioError ''scenario_non_amortizing_payment''"
    using loan_payoff_result [of d p r m s] date scenario_inputs_fails by auto
qed

end
