(* ===== verification/Spec2Isabelle.thy ===== *)
theory Spec2Isabelle
  imports Arithmetic Event_Accounting Postings Event_Store_Legacy Ledger Render Identity Statement_Register Statement_Runs Scenario_Cash
begin

text \<open>
  A verification library for OrionViva, a local-first agent that reads financial documents into a verified
  ledger. It covers the path a figure takes from a printed page to an answered balance, and the encrypted
  log that path is kept in.

  \<^bold>\<open>The program's parts and how they interact.\<close> A language model reads a document; \<^verbatim>\<open>ingest/statement.py\<close> turns its reply
  into statement facts, with amounts and dates normalized by \<^verbatim>\<open>core/vivacore/verify/normalize.py\<close>. The facts reconcile
  or not by the identities of \<^verbatim>\<open>verify/arithmetic.py\<close>; \<^verbatim>\<open>ingest/diagnose.py\<close> localizes a gap, and
  \<^verbatim>\<open>ingest/statement_projector.py\<close> posts a statement, holds it for a person, or retries holds. What is posted are events
  (\<^verbatim>\<open>ledger/events.py\<close>) with double-entry postings (\<^verbatim>\<open>ledger/postings.py\<close>), appended through the facade \<^verbatim>\<open>ledger/ledger.py\<close>
  to the encrypted, hash-chained log \<^verbatim>\<open>ledger/store.py\<close> under keys from \<^verbatim>\<open>crypto.py\<close>. Everything that is read back is a
  fold of that log (\<^verbatim>\<open>ledger/projection\<close>): balances with a grade, accounts found by their identity signals
  (\<^verbatim>\<open>ledger/identity.py\<close>), movements, transfers between own accounts (\<^verbatim>\<open>ingest/transfers.py\<close>), the register of statement
  periods (\<^verbatim>\<open>ledger/statements.py\<close>). \<^verbatim>\<open>ledger/scenarios.py\<close> projects savings, loans and cash month by month, on premises that
  a person states; \<^verbatim>\<open>render.py\<close> writes amounts for people. Paths are under \<^verbatim>\<open>src/product/viva\<close> unless they
  begin with \<^verbatim>\<open>core\<close>.

  \<^bold>\<open>Theories and sources.\<close>
  \<^item> Prelude, Base64, Dates, Json, Py_Decimal: the language and its standard library as the sources use them. Exceptions
    are a sum type with the result monad \<^verbatim>\<open>bindR\<close>/\<^verbatim>\<open>guardR\<close>; text is a list of UTF-8 bytes; JSON values keep key order;
    \<^verbatim>\<open>Decimal\<close> is a coefficient and an exponent with the default context of 28 digits, rounding half-even; dates are
    proleptic Gregorian days.
  \<^item> Arithmetic and Money_Sums: \<^verbatim>\<open>core/vivacore/verify/arithmetic.py\<close>. The locale \<open>reconciliation\<close> states what an identity
    check promises and is interpreted for all four checks.
  \<^item> Normalize, Match, Render: \<^verbatim>\<open>verify/normalize.py\<close>, \<^verbatim>\<open>verify/match.py\<close>, and the amounts and periods of \<^verbatim>\<open>render.py\<close>.
  \<^item> Events, Event_Constructors, Event_Rulings, Event_Goals, Event_Accounting: \<^verbatim>\<open>ledger/events.py\<close>, every typed
    constructor with its guards; with them \<^verbatim>\<open>acquisition.py\<close>, \<^verbatim>\<open>normalization_context.py\<close> and
    \<^verbatim>\<open>extraction_responses.py\<close>, as far as the constructors call them.
  \<^item> Postings: \<^verbatim>\<open>ledger/postings.py\<close>. The locale \<open>double_entry\<close> is the law of the books, interpreted for the four builders.
  \<^item> Crypto: \<^verbatim>\<open>crypto.py\<close> over the primitives scrypt, AES-GCM, HMAC and SHA-256 as parameters, with what is relied on
    (a sealed text opens under its key and nothing else does) as named hypotheses.
  \<^item> Event_Store and its companions Reads, Chain, Recovery, Contract, Suffix, System, Legacy: \<^verbatim>\<open>ledger/store.py\<close> on the bytes
    of the log and of the head file, operation by operation: append, recovery, reopening, snapshots, suffix cursors,
    fork, chain check, upgrade of an old header. The state is a disk and the handles open on it; a crash cuts a write at
    any byte. The locale \<open>event_log\<close> is the abstract append-only log that the store refines.
  \<^item> Ledger: \<^verbatim>\<open>ledger/ledger.py\<close>, the cached projection, published views and staged work.
  \<^item> Doc_Registry, Statement, Statement_Register, Diagnose: \<^verbatim>\<open>ingest/registry.py\<close>, \<^verbatim>\<open>ingest/statement.py\<close>,
    \<^verbatim>\<open>ledger/statements.py\<close>, \<^verbatim>\<open>ingest/diagnose.py\<close>.
  \<^item> Identity: \<^verbatim>\<open>ledger/identity.py\<close>, \<^verbatim>\<open>ledger/transfer_admission.py\<close>, \<^verbatim>\<open>ledger/movement_identity.py\<close>.
  \<^item> Projection_Core, Projection_Frame, Projection_Reads: \<^verbatim>\<open>ledger/projection/core.py\<close>, one definition per event type folded,
    and the readers of \<^verbatim>\<open>balances.py\<close>, \<^verbatim>\<open>accounts.py\<close> and \<^verbatim>\<open>coverage.py\<close>. The locale \<open>frame_field\<close> says which event
    types touch a field of the fold; it is interpreted for the horizon, the transfer links and the holds.
  \<^item> Transfers and Transfer_Links: \<^verbatim>\<open>projection/movements.py\<close> (the enumeration) and \<^verbatim>\<open>ingest/transfers.py\<close>, pure part and
    writing part.
  \<^item> Ledger_Work, Statement_Posting, Statement_Heal, Statement_Balance, Statement_Chain, Statement_Runs: work that reads the
    projection and appends events, and \<^verbatim>\<open>ingest/statement_projector.py\<close> in it. The locale \<open>healing\<close> is the loop both heals
    share, interpreted for each.
  \<^item> Scenarios, Scenario_Cents, Scenario_Loans, Scenario_Cash: \<^verbatim>\<open>ledger/scenarios.py\<close>, whole. It runs in a local
    context of 80 digits, so its decimal operations are defined beside the default ones.

  \<^bold>\<open>What the lemmas show.\<close> \<^emph>\<open>Log:\<close> an append is all or nothing, whatever byte a crash cuts; acknowledged batches are read
  back in order by every process; reads only ever extend; suffix reads agree with full scans; two logs under one head that
  differ hold a hash collision at their last difference; truncation is noticed; a cached projection is always the fold of the committed events. \<^emph>\<open>Books:\<close> every accepted
  booking sums to zero, a split is refused unless it accounts for the whole, a pay stub counts its net once. \<^emph>\<open>Reading:\<close> the checks are exact
  rational arithmetic in the money range; an amount or date is ambiguous exactly when locales disagree; accepted facts
  carry every line with the printed digits; facts and events survive storage; the reader raises only what the JSON decoder
  and the conversion of the confidence raise.
  \<^emph>\<open>Repair:\<close> a forced repair closes both identities, and one misread figure is restored. \<^emph>\<open>Posting:\<close> only a statement that
  reconciles moves money, also when posting raises half way; posted in time order it leaves the account in balance with a corroborated answer; both heals
  end. \<^emph>\<open>Transfers:\<close> a movement is in at most one live transfer, and a link made without a person is decided by evidence
  without rival. \<^emph>\<open>Scenarios:\<close> rounding to cents is monotone and a month's interest at most a tenth of the balance, so that the
  loops compute on cents exactly; savings conserve money, a loan follows its debt recurrence to the cent and finds
  its month of pay-off, and a sampled trajectory keeps its turning points. \<^emph>\<open>Defects:\<close> the runs in Statement_Runs, where a statement is stitched at the wrong end and where a line of
  zero leaves half a statement, and a few lemmas on errors that escape (Crypto, Arithmetic, Statement).

  \<^bold>\<open>Bounds and fuel.\<close> The money range is at most 8 decimals and a magnitude of at most \<open>10^12\<close> (scaled coefficients up to
  \<open>10^20\<close>), with at most \<open>10^6\<close> lines or movements: sums then stay below 28 digits, so that no \<^verbatim>\<open>Decimal\<close> operation rounds.
  The JSON reader's fuel is the length of its text, and each step consumes a character. The loop of the heals has twice the
  length of the log and one more round as fuel; \<open>heals_terminate\<close> shows that it never runs out. A scenario has at most 600 months and
  premises below \<open>10^15\<close>: its balances have fewer than 79 of the 80 digits (\<open>fits_start\<close>). All other recursion is
  structural or has a termination proof.

  \<^bold>\<open>Parameters.\<close> Identities, salts, nonces, tokens and today's date come from outside; so do the cryptographic primitives,
  the float printer and reader, the JSON decoder of a model's reply, fresh or stored, the text of a curated reading, and the parts that the descriptor grammars name.

  \<^bold>\<open>Not modelled.\<close> Locks and threads (only the re-entry flags they guard), the temporary file behind an atomic replace, the
  post-commit observer, weak references, writes to the fields of a published view past its methods. The limits of
  \<^verbatim>\<open>json.loads\<close> (integers of 4300 digits, recursion) where the program reads back what it wrote. The projectors run on the
  ledger that is not staged; the staging that rolls back a raising ingest is in theory Ledger. Reading stored statement
  facts refuses values of a type the writer never produces. In the projection: the conversation, goal-proposal, accounting and agent journals,
  classification claims, label aliases, attribute history, caches, and the instrument registers, whose events the fold
  refuses. A statement line without a date is refused when posted. Character classes are the ASCII ones. The pay-stub,
  brokerage and instrument projectors, the pipeline around the model, the read store and its SQL, the answer programs, the
  agent and its tools, the desktop bridge and the scripts are left out: they are I/O, model calls and SQL text, or rest on
  the instrument registers and the merchant grammars.
\<close>

end
